(* ===== verification/Prelude.thy ===== *)
theory Prelude
  imports Main "HOL-Library.Word" "HOL-Library.Monad_Syntax"
begin

text \<open>
  Shared vocabulary of the development: the machine the boot code runs on, the memory and
  register accesses of the C code, and the two loop combinators.

  The target is 32-bit ARM: \<open>unsigned int\<close>, \<open>unsigned long\<close>, \<open>int\<close> and pointers are
  \<open>32 word\<close>, \<open>unsigned char\<close> is \<open>8 word\<close>; a signed comparison of the source reads the
  word through \<open>sint\<close>. Memory is a function from addresses to bytes, little endian.
  Peripheral registers are not memory: a read may change the peripheral (a FIFO, a
  counter) and two reads may differ, so the peripherals are a parameter \<open>'d device\<close> with
  a state of its own. Console output is recorded as the list of \<open>printf\<close> calls, newest first.
\<close>

unbundle bit_operations_syntax

section \<open>Types\<close>

type_synonym u8 = "8 word"
type_synonym u16 = "16 word"
type_synonym u32 = "32 word"

datatype parg = Num u32 | Str "u8 list"

datatype print = Printf string "parg list"

record 'd device =
  dread :: "u32 \<Rightarrow> 'd \<Rightarrow> u32 \<times> 'd"
  dwrite :: "u32 \<Rightarrow> u32 \<Rightarrow> 'd \<Rightarrow> 'd"

record 'd mach =
  mem :: "u32 \<Rightarrow> u8"
  dev :: 'd
  outp :: "print list"

section \<open>Bytes, half words and words in memory\<close>

definition load16 :: "(u32 \<Rightarrow> u8) \<Rightarrow> u32 \<Rightarrow> u16" where
  "load16 m a = ucast (m a) OR push_bit 8 (ucast (m (a + 1)))"

definition load32 :: "(u32 \<Rightarrow> u8) \<Rightarrow> u32 \<Rightarrow> u32" where
  "load32 m a = ucast (m a) OR push_bit 8 (ucast (m (a + 1)))
     OR push_bit 16 (ucast (m (a + 2))) OR push_bit 24 (ucast (m (a + 3)))"

definition store16 :: "(u32 \<Rightarrow> u8) \<Rightarrow> u32 \<Rightarrow> u16 \<Rightarrow> (u32 \<Rightarrow> u8)" where
  "store16 m a v = m(a := ucast v, a + 1 := ucast (drop_bit 8 v))"

definition store32 :: "(u32 \<Rightarrow> u8) \<Rightarrow> u32 \<Rightarrow> u32 \<Rightarrow> (u32 \<Rightarrow> u8)" where
  "store32 m a v = m(a := ucast v, a + 1 := ucast (drop_bit 8 v),
     a + 2 := ucast (drop_bit 16 v), a + 3 := ucast (drop_bit 24 v))"

text \<open>\<open>bytes_at m a n\<close> is the \<open>n\<close> bytes of memory from \<open>a\<close> on, \<open>put_bytes\<close> stores a block.\<close>

definition bytes_at :: "(u32 \<Rightarrow> u8) \<Rightarrow> u32 \<Rightarrow> nat \<Rightarrow> u8 list" where
  "bytes_at m a n = map (\<lambda>i. m (a + of_nat i)) [0..<n]"

primrec put_bytes :: "(u32 \<Rightarrow> u8) \<Rightarrow> u32 \<Rightarrow> u8 list \<Rightarrow> (u32 \<Rightarrow> u8)" where
  "put_bytes m a [] = m"
| "put_bytes m a (b # bs) = put_bytes (m(a := b)) (a + 1) bs"

text \<open>
  \<open>only_changed a n m m'\<close>: the memories differ at most in the \<open>n\<close> bytes from \<open>a\<close> on. The
  offset \<open>x - a\<close> is taken modulo \<open>2 ^ 32\<close>, so a block that wraps around is no special case.
\<close>

definition only_changed :: "u32 \<Rightarrow> nat \<Rightarrow> (u32 \<Rightarrow> u8) \<Rightarrow> (u32 \<Rightarrow> u8) \<Rightarrow> bool" where
  "only_changed a n m m' \<longleftrightarrow> (\<forall>x. n \<le> unat (x - a) \<longrightarrow> m' x = m x)"

section \<open>Register accesses\<close>

definition inl :: "'d device \<Rightarrow> u32 \<Rightarrow> ('d, 'z) mach_scheme \<Rightarrow> u32 \<times> ('d, 'z) mach_scheme" where
  "inl D a s = (case dread D a (dev s) of (v, d) \<Rightarrow> (v, s\<lparr>dev := d\<rparr>))"

definition outl :: "'d device \<Rightarrow> u32 \<Rightarrow> u32 \<Rightarrow> ('d, 'z) mach_scheme \<Rightarrow> ('d, 'z) mach_scheme" where
  "outl D v a s = s\<lparr>dev := dwrite D a v (dev s)\<rparr>"

definition printf :: "string \<Rightarrow> parg list \<Rightarrow> ('d, 'z) mach_scheme \<Rightarrow> ('d, 'z) mach_scheme" where
  "printf f xs s = s\<lparr>outp := Printf f xs # outp s\<rparr>"

text \<open>A format string that ends in a newline.\<close>

definition line :: "string \<Rightarrow> string" where
  "line f = f @ [CHR 0x0A]"

text \<open>
  Division by a variable is the library routine of \<open>lib_arm\<close>, whose \<open>__div0\<close> hangs the board
  when the divisor is 0; \<open>None\<close> is a call that does not return.
\<close>

definition udiv :: "u32 \<Rightarrow> u32 \<Rightarrow> u32 option" where
  "udiv a b = (if b = 0 then None else Some (a div b))"

section \<open>Loops\<close>

text \<open>
  \<open>loopM body s\<close> is a C loop: \<open>body\<close> runs once on the state and either goes on (\<open>None\<close>) or
  leaves the loop with a value. The result \<open>None\<close> of the whole is a loop that never ends.
\<close>

partial_function (option) loopM ::
  "('s \<Rightarrow> ('r option \<times> 's) option) \<Rightarrow> 's \<Rightarrow> ('r \<times> 's) option" where
  "loopM body s = Option.bind (body s)
     (\<lambda>p. case fst p of None \<Rightarrow> loopM body (snd p) | Some v \<Rightarrow> Some (v, snd p))"

lemma loopM_rule:
  fixes body :: "'s \<Rightarrow> ('r option \<times> 's) option"
  assumes ret: "loopM body s = Some (v, s')"
    and start: "P s"
    and go: "\<And>s s1. P s \<Longrightarrow> body s = Some (None, s1) \<Longrightarrow> P s1"
    and stop: "\<And>s v s1. P s \<Longrightarrow> body s = Some (Some v, s1) \<Longrightarrow> Q v s1"
  shows "Q v s'"
proof -
  define I where "I = (\<lambda>b t (r :: 'r \<times> 's). b = body \<longrightarrow> P t \<longrightarrow> Q (fst r) (snd r))"
  have "I body s (v, s')"
  proof (rule loopM.raw_induct [OF _ ret])
    fix f :: "('s \<Rightarrow> ('r option \<times> 's) option) \<Rightarrow> 's \<Rightarrow> ('r \<times> 's) option" and b t r
    assume IH: "\<And>b t r. f b t = Some r \<Longrightarrow> I b t r"
      and eq: "Option.bind (b t) (\<lambda>p. case fst p of None \<Rightarrow> f b (snd p)
         | Some v \<Rightarrow> Some (v, snd p)) = Some r"
    show "I b t r"
      using eq by (cases "b t") (auto simp: I_def dest: go stop dest!: IH [unfolded I_def] split: option.splits)
  qed
  with start show ?thesis by (simp add: I_def)
qed

lemma loopM_returns:
  fixes f :: "'s \<Rightarrow> nat"
  assumes "P s"
    and "\<And>s. P s \<Longrightarrow> (\<exists>v s1. body s = Some (Some v, s1)) \<or>
           (\<exists>s1. body s = Some (None, s1) \<and> P s1 \<and> f s1 < f s)"
  shows "\<exists>v s'. loopM body s = Some (v, s')"
  using assms(1)
proof (induction "f s" arbitrary: s rule: less_induct)
  case less
  from assms(2) [OF less.prems] show ?case
  proof (elim disjE exE conjE)
    fix v s1
    assume "body s = Some (Some v, s1)"
    then show ?thesis by (simp add: loopM.simps [of body s])
  next
    fix s1
    assume b: "body s = Some (None, s1)" and "P s1" and "f s1 < f s"
    then obtain v s' where "loopM body s1 = Some (v, s')"
      using less.hyps by blast
    with b show ?thesis by (simp add: loopM.simps [of body s])
  qed
qed

lemma loopM_total:
  fixes f :: "'s \<Rightarrow> nat"
  assumes "P s"
    and step: "\<And>s. P s \<Longrightarrow> \<exists>r s1. body s = Some (r, s1) \<and>
      (case r of None \<Rightarrow> P s1 \<and> f s1 < f s | Some v \<Rightarrow> Q v s1)"
  shows "\<exists>v s'. loopM body s = Some (v, s') \<and> Q v s'"
proof -
  have "\<exists>v s'. loopM body s = Some (v, s')"
    by (rule loopM_returns [of P s, where f = f])
      (use assms(1) in \<open>auto split: option.splits dest!: step\<close>)
  then obtain v s' where r: "loopM body s = Some (v, s')" by blast
  have "Q v s'"
    by (rule loopM_rule [OF r, of P]) (use assms(1) in \<open>auto split: option.splits dest!: step\<close>)
  with r show ?thesis by blast
qed

text \<open>A loop whose body keeps the state in a set it never leaves by a \<open>break\<close> does not end.\<close>

lemma loopM_diverges:
  assumes "P s" and "\<And>s. P s \<Longrightarrow> \<exists>s1. body s = Some (None, s1) \<and> P s1"
  shows "loopM body s = None"
proof (rule ccontr)
  assume "loopM body s \<noteq> None"
  then obtain v s' where "loopM body s = Some (v, s')" by auto
  from loopM_rule [OF this, of P "\<lambda>_ _. False"] assms show False by fastforce
qed

lemma loopM_step:
  "body s = Some (None, s1) \<Longrightarrow> loopM body s = loopM body s1"
  "body s = Some (Some v, s1) \<Longrightarrow> loopM body s = Some (v, s1)"
  by (simp_all add: loopM.simps [of body s])

section \<open>Postconditions of fallible code\<close>

text \<open>
  \<open>ensures m Q\<close>: if \<open>m\<close> returns, \<open>Q\<close> holds for what it returns. The simplifier computes it
  through a \<open>do\<close> block; at a call, \<open>ensures_weaken\<close> uses what is known of the callee.
\<close>

definition ensures :: "'a option \<Rightarrow> ('a \<Rightarrow> bool) \<Rightarrow> bool" where
  "ensures m Q \<longleftrightarrow> (\<forall>r. m = Some r \<longrightarrow> Q r)"

lemma ensures_simps [simp]:
  "ensures None Q" "ensures (Some r) Q \<longleftrightarrow> Q r"
  "ensures (Option.bind m f) Q \<longleftrightarrow> ensures m (\<lambda>r. ensures (f r) Q)"
  "ensures (map_option g m) Q \<longleftrightarrow> ensures m (\<lambda>r. Q (g r))"
  by (auto simp: ensures_def bind_eq_Some_conv)

lemma ensures_if [simp]:
  "ensures (if c then m else m') Q \<longleftrightarrow> (c \<longrightarrow> ensures m Q) \<and> (\<not> c \<longrightarrow> ensures m' Q)"
  by simp

lemma ensures_weaken: "ensures m P \<Longrightarrow> (\<And>r. P r \<Longrightarrow> Q r) \<Longrightarrow> ensures m Q"
  by (simp add: ensures_def)

lemma ensuresD: "ensures m Q \<Longrightarrow> m = Some r \<Longrightarrow> Q r"
  by (simp add: ensures_def)

lemma ensuresI: "(\<And>r. m = Some r \<Longrightarrow> Q r) \<Longrightarrow> ensures m Q"
  by (simp add: ensures_def)

lemma ensures_loopM:
  assumes "P s"
    and "\<And>s. P s \<Longrightarrow> ensures (body s) (\<lambda>p. case fst p of None \<Rightarrow> P (snd p) | Some v \<Rightarrow> Q (v, snd p))"
  shows "ensures (loopM body s) Q"
proof (rule ensuresI)
  fix r
  assume r: "loopM body s = Some r"
  have "Q (fst r, snd r)"
    by (rule loopM_rule [of body s "fst r" "snd r" P "\<lambda>v s. Q (v, s)"])
      (use r assms(1) in \<open>auto dest: ensuresD [OF assms(2)]\<close>)
  then show "Q r" by simp
qed

section \<open>Facts about the machine\<close>

named_theorems frame_intros \<open>how memory blocks compose\<close>

lemma inl_fields [simp]:
  "mem (snd (inl D a s)) = mem s" "outp (snd (inl D a s)) = outp s"
  "mach.more (snd (inl D a s)) = mach.more s"
  by (simp_all add: inl_def split: prod.split)

lemma outl_fields [simp]:
  "mem (outl D v a s) = mem s" "outp (outl D v a s) = outp s"
  "mach.more (outl D v a s) = mach.more s"
  by (simp_all add: outl_def)

lemma printf_fields [simp]:
  "mem (printf f xs s) = mem s" "dev (printf f xs s) = dev s"
  "mach.more (printf f xs s) = mach.more s"
  by (simp_all add: printf_def)

lemma only_changed_refl [simp, frame_intros]: "only_changed a n m m"
  by (simp add: only_changed_def)

lemma only_changed_trans [trans]:
  "only_changed a n m1 m2 \<Longrightarrow> only_changed a n m2 m3 \<Longrightarrow> only_changed a n m1 m3"
  by (simp add: only_changed_def)

lemma only_changed_0 [simp]: "only_changed a 0 m m' \<longleftrightarrow> m' = m"
  by (auto simp: only_changed_def)

lemma unat_minus_1_u32 [simp]: "unat (-1 :: u32) = 4294967295"
  by (simp add: unat_eq_nat_uint uint_word_ariths)

lemma unat_u32_less: "unat (x :: u32) < 4294967296"
  using unsigned_less [of x, where ?'a = nat] by simp

lemma unat_u8_less: "unat (x :: u8) < 256"
  using unsigned_less [of x, where ?'a = nat] by simp

lemma unat_nat_sint: "0 \<le> sint (n :: u32) \<Longrightarrow> unat n = nat (sint n)"
  using sint_lt [of n] by (simp add: unat_eq_nat_uint uint_sint take_bit_int_eq_self)

lemma sint_small:
  assumes "unat (n :: u32) < 2 ^ 31"
  shows "sint n = int (unat n)"
proof -
  have u: "uint n = int (unat n)" by simp
  have "int (unat n) < int (2 ^ 31)" using assms by (simp only: of_nat_less_iff)
  then have "uint n < 2 ^ 31" by (simp only: u of_nat_power of_nat_numeral)
  moreover have "- (2 ^ 31) \<le> uint n" by (rule order_trans [OF _ uint_ge_0]) simp
  ultimately have "signed_take_bit 31 (uint n) = uint n"
    by (intro signed_take_bit_int_eq_self)
  moreover have "sint n = signed_take_bit (LENGTH(32) - Suc 0) (uint n)" by (rule sint_uint)
  moreover have "LENGTH(32) - Suc 0 = 31" by simp
  ultimately show ?thesis using u by metis
qed

lemma minus_1_le_u32 [simp]: "-1 \<le> (x :: u32) \<longleftrightarrow> x = -1"
  using unat_u32_less [of x] by (auto simp: word_le_nat_alt word_unat_eq_iff)

lemma unat_diff_offset:
  fixes x :: u32
  assumes "k + n \<le> unat x"
  shows "n \<le> unat (x - of_nat k)"
proof -
  have "k < 2 ^ 32" using assms unat_u32_less [of x] by simp
  then have "unat (of_nat k :: u32) = k" by (simp add: unat_of_nat)
  with assms have "unat (x - of_nat k) = unat x - k"
    by (simp add: unat_sub word_le_nat_alt)
  with assms show ?thesis by simp
qed

lemma only_changed_sub [frame_intros]:
  assumes "only_changed (a + of_nat k) n m m'" and "k + n \<le> N"
  shows "only_changed a N m m'"
  unfolding only_changed_def
proof (intro allI impI)
  fix x
  assume "N \<le> unat (x - a)"
  with assms(2) have "n \<le> unat (x - a - of_nat k)" by (intro unat_diff_offset) simp
  then show "m' x = m x"
    using assms(1) by (simp add: only_changed_def diff_diff_eq)
qed

lemma only_changed_mono: "only_changed a n m m' \<Longrightarrow> n \<le> N \<Longrightarrow> only_changed a N m m'"
  by (auto simp: only_changed_def)

lemma only_changed_upd: "0 < n \<Longrightarrow> only_changed a n m (m(a := v))"
  by (auto simp: only_changed_def)

lemma only_changed_upd_offset:
  assumes "k < n"
  shows "only_changed a n m (m(a + of_nat k := v))"
  using assms by (intro only_changed_sub [OF only_changed_upd [of 1]]) auto

lemma only_changed_store16 [frame_intros]: "only_changed a 2 m (store16 m a v)"
proof -
  have "only_changed a 2 (m(a := ucast v)) (store16 m a v)"
    unfolding store16_def using only_changed_upd_offset [of 1 2 a] by simp
  with only_changed_upd [of 2 a m] show ?thesis
    by (metis only_changed_trans zero_less_numeral)
qed

lemma only_changed_store32 [frame_intros]: "only_changed a 4 m (store32 m a v)"
  unfolding store32_def
  using only_changed_upd_offset [of 1 4 a] only_changed_upd_offset [of 2 4 a]
    only_changed_upd_offset [of 3 4 a] only_changed_upd [of 4 a m]
  by (simp add: only_changed_def)

lemma put_bytes_frame [frame_intros]: "only_changed a (length bs) m (put_bytes m a bs)"
proof (induction bs arbitrary: m a)
  case Nil
  then show ?case by simp
next
  case (Cons b bs)
  have "only_changed a (Suc (length bs)) m (m(a := b))" by (rule only_changed_upd) simp
  also have "only_changed a (Suc (length bs)) (m(a := b)) (put_bytes (m(a := b)) (a + 1) bs)"
    using Cons by (intro only_changed_sub [of a 1 "length bs"]) auto
  finally show ?case by simp
qed

lemma length_bytes_at [simp]: "length (bytes_at m a n) = n"
  by (simp add: bytes_at_def)

lemma bytes_at_nth [simp]: "i < n \<Longrightarrow> bytes_at m a n ! i = m (a + of_nat i)"
  by (simp add: bytes_at_def)

section \<open>Filling a block of memory\<close>

text \<open>\<open>blit m a n f\<close> is memory \<open>m\<close> with byte \<open>i\<close> of the block at \<open>a\<close> set to \<open>f i\<close>, for \<open>i < n\<close>.\<close>

definition blit :: "(u32 \<Rightarrow> u8) \<Rightarrow> u32 \<Rightarrow> nat \<Rightarrow> (nat \<Rightarrow> u8) \<Rightarrow> (u32 \<Rightarrow> u8)" where
  "blit m a n f = (\<lambda>x. if unat (x - a) < n then f (unat (x - a)) else m x)"

lemma blit_0 [simp]: "blit m a 0 f = m"
  by (simp add: blit_def)

lemma blit_frame [frame_intros]: "only_changed a n m (blit m a n f)"
  by (simp add: blit_def only_changed_def)

lemma unat_minus_offset:
  fixes x :: u32
  assumes "j < 2 ^ 32"
  shows "unat (x - of_nat j) = (if j \<le> unat x then unat x - j else 2 ^ 32 + unat x - j)"
  using assms by (auto simp: unat_sub_if' unat_of_nat)

lemma blit_append:
  assumes "j + k \<le> 2 ^ 32"
  shows "blit (blit m a j f) (a + of_nat j) k (\<lambda>i. f (j + i)) = blit m a (j + k) f"
proof (cases "k = 0")
  case False
  show ?thesis
  proof
  fix x
  have j: "j < 2 ^ 32" using assms False by simp
  have eq: "x - (a + of_nat j) = x - a - of_nat j" by (simp add: algebra_simps)
  have u: "unat (x - (a + of_nat j)) =
      (if j \<le> unat (x - a) then unat (x - a) - j else 2 ^ 32 + unat (x - a) - j)"
    unfolding eq by (rule unat_minus_offset [OF j])
  show "blit (blit m a j f) (a + of_nat j) k (\<lambda>i. f (j + i)) x = blit m a (j + k) f x"
    unfolding blit_def u using assms by auto
  qed
qed simp

lemma store16_blit: "store16 m a v = blit m a 2 (\<lambda>i. if i = 0 then ucast v else ucast (drop_bit 8 v))"
proof
  fix x
  have "x = a \<longleftrightarrow> unat (x - a) = 0" by (simp add: unat_eq_0)
  moreover have "x = a + 1 \<longleftrightarrow> unat (x - a) = 1"
    by (metis add_diff_cancel_left' diff_add_cancel add.commute unat_1 word_unat_eq_iff)
  ultimately show "store16 m a v x = blit m a 2 (\<lambda>i. if i = 0 then ucast v else ucast (drop_bit 8 v)) x"
    by (auto simp: store16_def blit_def)
qed

lemma bytes_at_blit: "k \<le> n \<Longrightarrow> n \<le> 2 ^ 32 \<Longrightarrow> bytes_at (blit m a n f) a k = map f [0..<k]"
  by (auto simp: bytes_at_def blit_def unat_of_nat)

lemma blit_at:
  assumes "q + n \<le> 2 ^ 32" and "k < 2 ^ 32"
  shows "blit m (a + of_nat q) n f (a + of_nat k) =
    (if q \<le> k \<and> k < q + n then f (k - q) else m (a + of_nat k))"
proof (cases "n = 0")
  case False
  then have q: "q < 2 ^ 32" using assms(1) by simp
  have "unat (of_nat k - of_nat q :: u32) = (if q \<le> k then k - q else 2 ^ 32 + k - q)"
    using unat_minus_offset [OF q, of "of_nat k"] assms(2) by (simp add: unat_of_nat)
  moreover have "a + of_nat k - (a + of_nat q) = (of_nat k - of_nat q :: u32)" by simp
  ultimately show ?thesis using assms by (auto simp: blit_def)
qed auto

lemma blit_at_0:
  "n \<le> 2 ^ 32 \<Longrightarrow> k < 2 ^ 32 \<Longrightarrow> blit m a n f (a + of_nat k) = (if k < n then f k else m (a + of_nat k))"
  using blit_at [of 0 n k m a f] by simp

text \<open>\<open>clear_of b k a n\<close>: the blocks of \<open>k\<close> bytes at \<open>b\<close> and of \<open>n\<close> bytes at \<open>a\<close> do not overlap.\<close>

definition clear_of :: "u32 \<Rightarrow> nat \<Rightarrow> u32 \<Rightarrow> nat \<Rightarrow> bool" where
  "clear_of b k a n \<longleftrightarrow> (\<forall>i<k. \<forall>j<n. b + of_nat i \<noteq> a + of_nat j)"

lemma clear_of_outside:
  assumes "clear_of b k a n" and "i < k"
  shows "n \<le> unat (b + of_nat i - a)"
proof (rule ccontr)
  assume "\<not> n \<le> unat (b + of_nat i - a)"
  moreover have "b + of_nat i = a + of_nat (unat (b + of_nat i - a))" by simp
  ultimately show False using assms unfolding clear_of_def by (meson not_le)
qed

lemma only_changed_clear:
  "only_changed a n m m' \<Longrightarrow> clear_of b k a n \<Longrightarrow> i < k \<Longrightarrow> m' (b + of_nat i) = m (b + of_nat i)"
  by (auto simp: only_changed_def dest: clear_of_outside)

lemma only_changed_load32:
  assumes "only_changed a n m m'" and "clear_of b k a n" and "i + 4 \<le> k"
  shows "load32 m' (b + of_nat i) = load32 m (b + of_nat i)"
proof -
  have "m' (b + of_nat (i + j)) = m (b + of_nat (i + j))" if "j < 4" for j
    using assms that by (intro only_changed_clear [OF assms(1,2)]) simp
  from this [of 0] this [of 1] this [of 2] this [of 3] show ?thesis
    by (simp add: load32_def add_ac)
qed

lemma blit_mono: "only_changed b k m m' \<Longrightarrow> only_changed b k (blit m a n f) (blit m' a n f)"
  by (auto simp: only_changed_def blit_def)

lemma clear_of_mono: "clear_of b k a n \<Longrightarrow> n' \<le> n \<Longrightarrow> clear_of b k a n'"
  by (auto simp: clear_of_def)

lemma clear_of_sub: "clear_of b k a n \<Longrightarrow> j + n' \<le> n \<Longrightarrow> clear_of b k (a + of_nat j) n'"
  unfolding clear_of_def by (metis (no_types, lifting) add.assoc add_less_cancel_left less_le_trans of_nat_add)

lemma unat_pow2: "n < 32 \<Longrightarrow> unat (2 ^ n :: u32) = 2 ^ n"
proof -
  assume "n < 32"
  then have "(2 :: nat) ^ n < 2 ^ 32" by (intro power_strict_increasing) auto
  moreover have "unat (of_nat (2 ^ n) :: u32) = 2 ^ n mod 2 ^ 32"
    by (simp only: unat_of_nat) simp
  ultimately show ?thesis by (simp only: of_nat_power of_nat_numeral mod_less)
qed

lemma pow2_mask_iff:
  assumes "n < 32"
  shows "(a :: u32) AND (2 ^ n - 1) = 0 \<longleftrightarrow> unat a mod 2 ^ n = 0"
proof -
  have "a AND (2 ^ n - 1) = take_bit n a"
    by (simp add: take_bit_eq_mask mask_eq_exp_minus_1)
  then have "unat (a AND (2 ^ n - 1)) = unat a mod 2 ^ n"
    by (simp only: unsigned_take_bit_eq) (simp add: take_bit_eq_mod)
  then show ?thesis by (metis unat_eq_0)
qed

lemma unat_of_nat_u32: "n < 2 ^ 32 \<Longrightarrow> unat (of_nat n :: u32) = n"
  by (simp add: unat_of_nat)

lemma unat_add_value:
  "unat a + k < 2 ^ 32 \<Longrightarrow> unat z = k \<Longrightarrow> unat (a + z :: u32) = unat a + k"
  "2 ^ 32 \<le> unat a + k \<Longrightarrow> unat z = k \<Longrightarrow> unat (a + z :: u32) = unat a + k - 2 ^ 32"
  by (simp_all add: unat_plus_if')

lemma drop_bit_nonneg:
  assumes "unat (c :: u32) < 2 ^ 31" and "n < 32"
  shows "signed_drop_bit n c = drop_bit n c" and "unat (drop_bit n c) = unat c div 2 ^ n"
proof -
  have "\<not> bit (unat c) 31"
    using assms(1) by (metis take_bit_nat_eq_self bit_take_bit_iff less_irrefl)
  then have "\<not> bit c 31"
    by (simp add: bit_unsigned_iff)
  then show "signed_drop_bit n c = drop_bit n c"
    by (intro bit_word_eqI) (auto simp: bit_simps dest: bit_imp_le_length)
  show "unat (drop_bit n c) = unat c div 2 ^ n"
    using assms(2) by (simp add: drop_bit_eq_div unat_div unat_pow2)
qed

end
