(* ===== verification/Timer.thy ===== *)
theory Timer
  imports Prelude
begin

text \<open>
  The free running timer of \<open>cpu/arm_cortexa9/emxx/timer.c\<close>: the counter TI0 counts up at
  32768 Hz, the software keeps the value it saw last (\<open>lastinc\<close>) and a time stamp
  (\<open>timestamp\<close>) it moves forward by the difference at every reading. \<open>udelay\<close> is a busy
  wait for the time stamp to reach a deadline; \<open>udelay_waits\<close> relates it to the time that goes by on
  the hardware clock.
\<close>

section \<open>State and register addresses\<close>

record 'd tmach = "'d mach" +
  timestamp :: u32
  lastinc :: u32

definition TIMERBASE :: u32 where "TIMERBASE = 0xe0000000"
definition TCLR :: u32 where "TCLR = 0x00"
definition TLDR :: u32 where "TLDR = 0x08"
definition TCRR :: u32 where "TCRR = 0x0c"
definition SYS_HZ :: u32 where "SYS_HZ = 32768"

section \<open>Operations\<close>

definition reset_timer_masked :: "'d device \<Rightarrow> ('d, 'z) tmach_scheme \<Rightarrow> ('d, 'z) tmach_scheme" where
  "reset_timer_masked D s =
     (let (now, s) = inl D (TIMERBASE + TCRR) s in s\<lparr>lastinc := now, timestamp := 0\<rparr>)"

definition interrupt_init :: "'d device \<Rightarrow> ('d, 'z) tmach_scheme \<Rightarrow> u32 \<times> ('d, 'z) tmach_scheme" where
  "interrupt_init D s =
     (let (v, s) = inl D (TIMERBASE + TCLR) s in
      if v AND 3 = 0
      then (0, reset_timer_masked D
                 (outl D 3 (TIMERBASE + TCLR) (outl D 0xffffffff (TIMERBASE + TLDR) s)))
      else (0, s))"

definition get_timer_masked :: "'d device \<Rightarrow> ('d, 'z) tmach_scheme \<Rightarrow> u32 \<times> ('d, 'z) tmach_scheme" where
  "get_timer_masked D s =
     (let (now, s) = inl D (TIMERBASE + TCRR) s;
          s = (if lastinc s \<le> now
               then s\<lparr>timestamp := timestamp s + (now - lastinc s)\<rparr>
               else s\<lparr>timestamp := timestamp s + ((0xFFFFFFFF - lastinc s) + now)\<rparr>);
          s = s\<lparr>lastinc := now\<rparr>
      in (timestamp s, s))"

definition get_timer :: "'d device \<Rightarrow> u32 \<Rightarrow> ('d, 'z) tmach_scheme \<Rightarrow> u32 \<times> ('d, 'z) tmach_scheme" where
  "get_timer D base s = (let (t, s) = get_timer_masked D s in (t - base, s))"

definition set_timer :: "u32 \<Rightarrow> ('d, 'z) tmach_scheme \<Rightarrow> ('d, 'z) tmach_scheme" where
  "set_timer t s = s\<lparr>timestamp := t\<rparr>"

text \<open>The conversion from microseconds to ticks that \<open>udelay\<close> and \<open>udelay_masked\<close> share.\<close>

definition delay_ticks :: "u32 \<Rightarrow> u32" where
  "delay_ticks usec =
     (if 1000 \<le> usec then usec div 1000 * SYS_HZ div 1000
      else usec * SYS_HZ div (1000 * 1000))"

definition udelay :: "'d device \<Rightarrow> u32 \<Rightarrow> ('d, 'z) tmach_scheme \<Rightarrow> ('d, 'z) tmach_scheme option" where
  "udelay D usec s =
     (let tmo = delay_ticks usec;
          (tmp, s) = get_timer D 0 s;
          (tmo, s) = (if tmo + tmp + 1 < tmp then (tmo, reset_timer_masked D s)
                      else (tmo + tmp, s))
      in map_option snd (loopM (\<lambda>s. let (t, s) = get_timer_masked D s
                                    in Some (if t < tmo then None else Some (), s)) s))"

definition udelay_masked :: "'d device \<Rightarrow> u32 \<Rightarrow> ('d, 'z) tmach_scheme \<Rightarrow> ('d, 'z) tmach_scheme option" where
  "udelay_masked D usec s =
     (let tmo = delay_ticks usec;
          (t0, s) = get_timer_masked D s;
          endtime = t0 + tmo
      in map_option snd (loopM (\<lambda>s. let (now, s) = get_timer_masked D s
                                    in Some (if 0 \<le> sint (endtime - now) then None else Some (), s)) s))"

definition get_ticks :: "'d device \<Rightarrow> ('d, 'z) tmach_scheme \<Rightarrow> 64 word \<times> ('d, 'z) tmach_scheme" where
  "get_ticks D s = (let (t, s) = get_timer D 0 s in (ucast t, s))"

definition get_tbclk :: u32 where
  "get_tbclk = SYS_HZ"

section \<open>Reading the counter\<close>

lemma get_timer_masked_eq:
  "get_timer_masked D s =
     (let now = fst (inl D (TIMERBASE + TCRR) s);
          t = timestamp s + (now - lastinc s) - (if now < lastinc s then 1 else 0)
      in (t, snd (inl D (TIMERBASE + TCRR) s)\<lparr>timestamp := t, lastinc := now\<rparr>))"
proof -
  obtain v d where "dread D (TIMERBASE + TCRR) (dev s) = (v, d)" by fastforce
  moreover have "(0xFFFFFFFF - l) + n = n - l - (1 :: u32)" for l n by simp
  ultimately show ?thesis
    by (simp add: get_timer_masked_def Let_def inl_def not_le add.commute del: diff_numeral_special)
qed

lemma get_timer_masked_timestamp:
  "get_timer_masked D s = (t, s') \<Longrightarrow> timestamp s' = t"
  by (auto simp: get_timer_masked_def Let_def split: prod.splits if_splits)

text \<open>
  \<open>timer_reads D n s\<close> reads the timer \<open>n\<close> times and counts how often the counter was seen to
  have rolled over since the reading before.
\<close>

primrec timer_reads :: "'d device \<Rightarrow> nat \<Rightarrow> ('d, 'z) tmach_scheme \<Rightarrow> nat \<times> ('d, 'z) tmach_scheme" where
  "timer_reads D 0 s = (0, s)"
| "timer_reads D (Suc n) s =
     (let (k, s1) = timer_reads D n s; s2 = snd (get_timer_masked D s1)
      in (if lastinc s2 < lastinc s1 then Suc k else k, s2))"

text \<open>
  Over any number of readings the time stamp moves forward by exactly what the counter
  advanced modulo \<open>2 ^ 32\<close> since the first one, less one tick for every roll-over of the counter
  that was observed on the way: the roll-over branch adds \<open>0xFFFFFFFF - lastinc + now\<close> where
  the distance is \<open>0x100000000 - lastinc + now\<close>. Memory and console stay as they are.
\<close>

theorem timer_reads_drift:
  "timestamp (snd (timer_reads D n s)) =
     timestamp s + (lastinc (snd (timer_reads D n s)) - lastinc s) - of_nat (fst (timer_reads D n s))
   \<and> mem (snd (timer_reads D n s)) = mem s \<and> outp (snd (timer_reads D n s)) = outp s"
  by (induction n) (auto simp: get_timer_masked_eq Let_def case_prod_beta)

section \<open>Delays\<close>

text \<open>
  Below 131.072 seconds the conversion of a delay to ticks does not overflow: it is the
  product with 32768 Hz over whole milliseconds (or, below a millisecond, over
  microseconds), rounded down.
\<close>

lemma delay_ticks_value:
  assumes "unat usec < 131072000"
  shows "unat (delay_ticks usec) =
     (if 1000 \<le> unat usec then unat usec div 1000 * 32768 div 1000
      else unat usec * 32768 div 1000000)"
proof (cases "1000 \<le> unat usec")
  case True
  then have le: "1000 \<le> usec" by (simp add: word_le_nat_alt)
  have "unat usec div 1000 < 131072" using assms by simp
  then have "unat usec div 1000 * 32768 < 2 ^ 32" by simp
  with True le show ?thesis
    by (simp add: delay_ticks_def SYS_HZ_def unat_div unat_word_ariths)
next
  case False
  then have "\<not> 1000 \<le> usec" by (simp add: word_le_nat_alt)
  moreover have "unat usec * 32768 < 2 ^ 32" using False by simp
  ultimately show ?thesis using False
    by (simp add: delay_ticks_def SYS_HZ_def unat_div unat_word_ariths)
qed

text \<open>
  The shortest delay that waits at all is 31 microseconds: a delay of 30 microseconds or
  less is converted to no tick (and the board code calls \<open>udelay (1)\<close>).
\<close>

theorem delay_ticks_zero_iff:
  assumes "unat usec < 131072000"
  shows "delay_ticks usec = 0 \<longleftrightarrow> unat usec \<le> 30"
proof -
  have "delay_ticks usec = 0 \<longleftrightarrow> unat (delay_ticks usec) = 0" by (simp add: unat_eq_zero)
  moreover have "unat usec div 1000 * 32768 div 1000 \<noteq> 0" if "1000 \<le> unat usec"
  proof -
    have "1000 div 1000 * 32768 div 1000 \<le> unat usec div 1000 * 32768 div 1000"
      using that by (intro div_le_mono mult_le_mono1)
    then show ?thesis by simp
  qed
  ultimately show ?thesis
    using delay_ticks_value [OF assms] by auto
qed

theorem delay_ticks_zero_iff_witness:
  "delay_ticks 30 = 0 \<and> delay_ticks 31 \<noteq> 0"
proof -
  have "unat (30 :: u32) < 131072000" and "unat (31 :: u32) < 131072000" by simp_all
  from this [THEN delay_ticks_zero_iff] show ?thesis by simp
qed

text \<open>
  The counter of the hardware, as the data sheet describes it: a running counter that has
  moved on by one whenever it is read again.
\<close>

definition counts_up :: "'d device \<Rightarrow> ('d \<Rightarrow> u32) \<Rightarrow> bool" where
  "counts_up D cnt \<longleftrightarrow>
     (\<forall>d. fst (dread D (TIMERBASE + TCRR) d) = cnt d \<and> cnt (snd (dread D (TIMERBASE + TCRR) d)) = cnt d + 1)"

lemma counts_up_reading:
  assumes "counts_up D cnt"
  shows "lastinc (snd (get_timer_masked D s)) = cnt (dev s)"
    "cnt (dev (snd (get_timer_masked D s))) = cnt (dev s) + 1"
  using assms by (auto simp: counts_up_def get_timer_masked_eq Let_def inl_def split: prod.splits)
    (metis fst_conv snd_conv)+

lemma counts_up_timestamp:
  assumes "counts_up D cnt" and "cnt (dev s) = lastinc s + 1"
  shows "fst (get_timer_masked D s) = (if lastinc s + 1 = 0 then timestamp s else timestamp s + 1)"
proof -
  have now: "fst (inl D (TIMERBASE + TCRR) s) = lastinc s + 1"
    using assms by (simp add: inl_def counts_up_def split: prod.split) (metis fst_conv)
  show ?thesis
  proof (cases "lastinc s + 1 = 0")
    case True
    then have "lastinc s = -1" by (simp add: add_eq_0_iff2)
    then show ?thesis using now by (simp add: get_timer_masked_eq Let_def word_gt_0)
  next
    case False
    then have "\<not> lastinc s + 1 < lastinc s"
      using unatSuc [of "lastinc s"] by (simp add: word_less_nat_alt add.commute)
    then show ?thesis using now False by (simp add: get_timer_masked_eq Let_def)
  qed
qed

lemma reset_timer_masked_counts_up:
  assumes "counts_up D cnt"
  shows "cnt (dev (reset_timer_masked D s)) = lastinc (reset_timer_masked D s) + 1"
    "timestamp (reset_timer_masked D s) = 0"
  using assms by (auto simp: counts_up_def reset_timer_masked_def Let_def inl_def split: prod.splits)
    (metis fst_conv snd_conv)+

lemma delay_ticks_small: "unat (delay_ticks usec) < 2 ^ 32 - 1"
proof -
  have "unat a div 1000 < 2 ^ 32 - 1" "unat a div 1000000 < 2 ^ 32 - 1" for a :: u32
    using unat_u32_less [of a] by simp_all
  then show ?thesis by (simp add: delay_ticks_def unat_div)
qed

lemma deadline_wraps_iff:
  fixes n t0 :: u32
  assumes "unat n < 2 ^ 32 - 1"
  shows "n + t0 + 1 < t0 \<longleftrightarrow> 2 ^ 32 \<le> unat t0 + unat n + 1"
proof -
  have t0: "unat t0 < 2 ^ 32" using unat_u32_less [of t0] by simp
  have "unat (n + t0 + 1) = (unat n + unat t0 + 1) mod 2 ^ 32"
    by (simp add: unat_word_ariths mod_simps)
  also have "\<dots> = (if 2 ^ 32 \<le> unat t0 + unat n + 1 then unat n + unat t0 + 1 - 2 ^ 32
       else unat n + unat t0 + 1)"
    using assms t0 by (auto simp: le_mod_geq)
  finally show ?thesis using assms t0 by (auto simp: word_less_nat_alt)
qed

lemma deadline_no_wrap:
  fixes n t0 :: u32
  assumes "unat n < 2 ^ 32 - 1" and "\<not> n + t0 + 1 < t0"
  shows "t0 \<le> n + t0" "1 + (n + t0) \<noteq> 0" "unat (n + t0) = unat n + unat t0"
proof -
  have "unat t0 + unat n + 1 < 2 ^ 32" using assms deadline_wraps_iff [OF assms(1)] by simp
  then have u: "unat (n + t0) = unat n + unat t0" "unat (1 + (n + t0)) = 1 + (unat n + unat t0)"
    by (simp_all add: unat_word_ariths mod_simps)
  from u show "t0 \<le> n + t0" "unat (n + t0) = unat n + unat t0" by (simp_all add: word_le_nat_alt)
  from u(2) show "1 + (n + t0) \<noteq> 0" by (metis Suc_neq_Zero plus_1_eq_Suc unat_0)
qed

lemma timer_loop_step:
  fixes l ts tmo :: u32
  assumes "t = (if l + 1 = 0 then ts else ts + 1)" and "t < tmo" and "ts \<le> tmo" and "1 + tmo \<noteq> 0"
  shows "2 * (unat tmo - unat t) + (if l + 1 + 1 = 0 then 1 else 0)
         < 2 * (unat tmo - unat ts) + (if l + 1 = 0 then 1 else (0 :: nat))"
proof (cases "l + 1 = 0")
  case True
  with assms(1) show ?thesis by simp
next
  case False
  have "1 + ts \<noteq> 0"
  proof
    assume "1 + ts = 0"
    then have "ts = -1" by (simp add: add_eq_0_iff)
    with assms(3,4) show False by simp
  qed
  then have "unat (1 + ts) = Suc (unat ts)" by (rule unatSuc)
  with False assms(1,2) show ?thesis by (auto simp: word_less_nat_alt add.commute)
qed

lemma timer_loop_returns:
  assumes up: "counts_up D cnt" and "cnt (dev s) = lastinc s + 1" and "timestamp s \<le> tmo"
    and tmo: "1 + tmo \<noteq> 0"
  shows "\<exists>v s'. loopM (\<lambda>s. case get_timer_masked D s of (t, s) \<Rightarrow>
             Some (if t < tmo then None else Some (), s)) s = Some (v, s')"
proof (rule loopM_returns [where P = "\<lambda>s. cnt (dev s) = lastinc s + 1 \<and> timestamp s \<le> tmo"
    and f = "\<lambda>s. 2 * (unat tmo - unat (timestamp s)) + (if lastinc s + 1 = 0 then 1 else 0)"])
  show "cnt (dev s) = lastinc s + 1 \<and> timestamp s \<le> tmo" using assms(2,3) by simp
next
  fix s :: "('a, 'b) tmach_scheme"
  assume inv: "cnt (dev s) = lastinc s + 1 \<and> timestamp s \<le> tmo"
  obtain t s1 where r: "get_timer_masked D s = (t, s1)" by fastforce
  have l1: "lastinc s1 = lastinc s + 1" and c1: "cnt (dev s1) = lastinc s1 + 1"
    using counts_up_reading [OF up, of s] inv by (simp_all add: r)
  have t: "t = (if lastinc s + 1 = 0 then timestamp s else timestamp s + 1)"
    using counts_up_timestamp [OF up, of s] inv by (simp add: r)
  show "(\<exists>v s1. (case get_timer_masked D s of (t, s) \<Rightarrow> Some (if t < tmo then None else Some (), s))
            = Some (Some v, s1)) \<or>
        (\<exists>s1. (case get_timer_masked D s of (t, s) \<Rightarrow> Some (if t < tmo then None else Some (), s))
            = Some (None, s1) \<and> (cnt (dev s1) = lastinc s1 + 1 \<and> timestamp s1 \<le> tmo) \<and>
          2 * (unat tmo - unat (timestamp s1)) + (if lastinc s1 + 1 = 0 then 1 else 0)
          < 2 * (unat tmo - unat (timestamp s)) + (if lastinc s + 1 = 0 then 1 else 0))"
    using timer_loop_step [OF t] inv tmo
    by (cases "t < tmo") (simp_all add: r c1 l1 get_timer_masked_timestamp [OF r] order_less_imp_le)
qed

text \<open>
  On a running counter \<open>udelay\<close> always returns, whatever the delay and whatever the time
  stamp it starts from, although the reading at a roll-over of the counter does not move
  the time stamp.
\<close>

theorem udelay_returns:
  assumes "counts_up D cnt"
  shows "\<exists>s'. udelay D usec s = Some s'"
proof -
  obtain t0 s0 where g: "get_timer_masked D s = (t0, s0)" by fastforce
  define n where "n = delay_ticks usec"
  have n: "unat n < 2 ^ 32 - 1" using delay_ticks_small by (simp add: n_def)
  have s0: "cnt (dev s0) = lastinc s0 + 1" "timestamp s0 = t0"
    using counts_up_reading [OF assms, of s] get_timer_masked_timestamp [OF g] by (simp_all add: g)
  have "\<exists>v s'. loopM (\<lambda>s. case get_timer_masked D s of (t, s) \<Rightarrow>
             Some (if t < n + t0 then None else Some (), s)) s0 = Some (v, s')"
    if no: "\<not> n + t0 + 1 < t0"
    using timer_loop_returns [OF assms s0(1), of "n + t0"] deadline_no_wrap [OF n no] s0(2) by simp
  moreover have "\<exists>v s'. loopM (\<lambda>s. case get_timer_masked D s of (t, s) \<Rightarrow>
             Some (if t < n then None else Some (), s)) (reset_timer_masked D s0) = Some (v, s')"
    using reset_timer_masked_counts_up [OF assms, of s0] n
    by (intro timer_loop_returns [OF assms]) (auto simp: add_eq_0_iff)
  ultimately show ?thesis
    by (auto simp: udelay_def get_timer_def Let_def g n_def)
qed

section \<open>Delays in real time\<close>

text \<open>
  The hardware clock, as the data sheet of the timer describes it: \<open>now\<close> is the number of ticks of
  1/32768 s since power-on, a reading shows it modulo \<open>2 ^ 32\<close>, and time does not go backwards
  during a reading. How long a reading takes is left open.
\<close>

definition hw_clock :: "'d device \<Rightarrow> ('d \<Rightarrow> nat) \<Rightarrow> bool" where
  "hw_clock D now \<longleftrightarrow>
     (\<forall>d. fst (dread D (TIMERBASE + TCRR) d) = of_nat (now d) \<and> now d \<le> now (snd (dread D (TIMERBASE + TCRR) d)))"

lemma hw_clock_reading:
  assumes "hw_clock D now"
  shows "fst (inl D (TIMERBASE + TCRR) s) = of_nat (now (dev s))"
    "now (dev s) \<le> now (dev (snd (inl D (TIMERBASE + TCRR) s)))"
  using assms by (auto simp: hw_clock_def inl_def split: prod.split) (metis fst_conv snd_conv)+

text \<open>
  The time stamp is ahead of a value \<open>t0\<close> it had at time \<open>T0\<close> by no more ticks than have gone by.
\<close>

definition stamped :: "('d \<Rightarrow> nat) \<Rightarrow> u32 \<Rightarrow> nat \<Rightarrow> ('d, 'z) tmach_scheme \<Rightarrow> bool" where
  "stamped now t0 T0 s \<longleftrightarrow> (\<exists>a T. timestamp s = t0 + of_nat a \<and> lastinc s = of_nat T \<and> T0 + a \<le> T \<and> T \<le> now (dev s))"

lemma stampedI:
  "timestamp s = t0 + of_nat a \<Longrightarrow> lastinc s = of_nat T \<Longrightarrow> T0 + a \<le> T \<Longrightarrow> T \<le> now (dev s) \<Longrightarrow> stamped now t0 T0 s"
  by (auto simp: stamped_def)

lemma stamp_step:
  fixes T1 T2 :: nat
  assumes "T1 \<le> T2"
  shows "\<exists>b\<le>T2 - T1. (of_nat T2 - of_nat T1 - (if (of_nat T2 :: u32) < of_nat T1 then 1 else 0) :: u32) = of_nat b"
proof -
  let ?x = "of_nat (T2 - T1) :: u32"
  have x: "of_nat T2 - of_nat T1 = ?x" using assms by (simp add: of_nat_diff)
  have le: "unat ?x \<le> T2 - T1" by (simp add: unat_of_nat)
  show ?thesis
  proof (cases "(of_nat T2 :: u32) < of_nat T1")
    case True
    then have "unat ?x \<noteq> 0" using x by (auto simp: unat_eq_zero)
    then have "?x - 1 = of_nat (unat ?x - 1)" by (simp add: of_nat_diff Suc_le_eq)
    then show ?thesis using True le x by (intro exI [of _ "unat ?x - 1"]) simp
  next
    case False
    then show ?thesis using le x by (intro exI [of _ "unat ?x"]) simp
  qed
qed

lemma get_timer_masked_stamped:
  assumes "hw_clock D now" and "stamped now t0 T0 s"
  shows "stamped now t0 T0 (snd (get_timer_masked D s))"
proof -
  obtain a T where s: "timestamp s = t0 + of_nat a" "lastinc s = of_nat T" "T0 + a \<le> T" "T \<le> now (dev s)"
    using assms(2) by (auto simp: stamped_def)
  obtain b where b: "b \<le> now (dev s) - T"
    "(of_nat (now (dev s)) - of_nat T - (if (of_nat (now (dev s)) :: u32) < of_nat T then 1 else 0) :: u32) = of_nat b"
    using stamp_step [OF s(4)] by blast
  have "timestamp (snd (get_timer_masked D s)) = t0 + of_nat (a + b)"
    using b(2) by (simp add: get_timer_masked_eq Let_def hw_clock_reading(1) [OF assms(1)] s(1,2) add.assoc add_diff_eq)
  moreover have "lastinc (snd (get_timer_masked D s)) = of_nat (now (dev s))"
    by (simp add: get_timer_masked_eq Let_def hw_clock_reading(1) [OF assms(1)])
  moreover have "now (dev s) \<le> now (dev (snd (get_timer_masked D s)))"
    using hw_clock_reading(2) [OF assms(1), of s] by (simp add: get_timer_masked_eq Let_def)
  ultimately show ?thesis using b(1) s(3,4) by (intro stampedI [of _ t0 "a + b" "now (dev s)"]) simp_all
qed

lemma stamp_start:
  assumes "hw_clock D now"
  shows "stamped now (fst (get_timer_masked D s)) (now (dev s)) (snd (get_timer_masked D s))"
    "stamped now 0 (now (dev s)) (reset_timer_masked D s)" "now (dev s) \<le> now (dev (snd (get_timer_masked D s)))"
  using hw_clock_reading [OF assms, of s]
  by (auto simp: get_timer_masked_eq reset_timer_masked_def Let_def split: prod.split
      intro!: stampedI [of _ _ 0 "now (dev s)"])

lemma timer_loop_waits:
  assumes "hw_clock D now" and "stamped now t0 T0 s" and "unat tmo = unat t0 + n"
    and "loopM (\<lambda>s. case get_timer_masked D s of (t, s) \<Rightarrow> Some (if t < tmo then None else Some (), s)) s = Some (u, s')"
  shows "T0 + n \<le> now (dev s')"
proof -
  have "stamped now t0 T0 s' \<and> tmo \<le> timestamp s'"
  proof (rule loopM_rule [OF assms(4), of "stamped now t0 T0"])
    fix s s1 :: "('a, 'b) tmach_scheme"
    assume s: "stamped now t0 T0 s"
    obtain t s2 where g: "get_timer_masked D s = (t, s2)" by fastforce
    have s2: "stamped now t0 T0 s2" using get_timer_masked_stamped [OF assms(1) s] by (simp add: g)
    show "stamped now t0 T0 s1"
      if "(case get_timer_masked D s of (t, s) \<Rightarrow> Some (if t < tmo then None else Some (), s)) = Some (None, s1)"
      using that s2 by (simp add: g split: if_splits)
    show "stamped now t0 T0 s1 \<and> tmo \<le> timestamp s1"
      if "(case get_timer_masked D s of (t, s) \<Rightarrow> Some (if t < tmo then None else Some (), s)) = Some (Some v, s1)" for v
      using that s2 get_timer_masked_timestamp [OF g] by (simp add: g split: if_splits)
  qed (rule assms(2))
  then obtain a T where a: "tmo \<le> t0 + of_nat a" "T0 + a \<le> T" "T \<le> now (dev s')" by (auto simp: stamped_def)
  have "unat (t0 + of_nat a) \<le> unat t0 + a"
    by (metis of_nat_add of_nat_unat ucast_id unat_of_nat mod_less_eq_dividend)
  with a assms(3) show ?thesis by (simp add: word_le_nat_alt)
qed

lemma delay_ticks_time:
  assumes "unat usec < 131072000" and "unat (delay_ticks usec) \<le> e"
  shows "32768 * (if 1000 \<le> unat usec then unat usec div 1000 * 1000 else unat usec) < 1000000 * (e + 1)"
proof -
  have "x < d * (e + 1)" if "x div d \<le> e" "0 < d" for x d :: nat
    using that by (metis add.commute div_less_iff_less_mult less_Suc_eq_le mult.commute plus_1_eq_Suc)
  from this [of "unat usec div 1000 * 32768" 1000] this [of "unat usec * 32768" 1000000]
  show ?thesis using assms(2) unfolding delay_ticks_value [OF assms(1)] by (auto split: if_splits)
qed

text \<open>
  C25: \<open>udelay\<close> keeps the processor waiting for the time asked for, measured on the clock of the
  hardware and not on the time stamp of the driver: when it returns, less than one tick of
  1/32768 s is missing, whatever the readings take, whatever time stamp it starts from and however
  often counter and time stamp roll over. What is asked for are the microseconds below 1000, and
  the whole milliseconds from there on, up to 131 s; so a delay may end one tick, and from 1 ms on
  up to 1 ms and a tick, before the \<open>x useconds\<close> of the comment, and 30 microseconds do not wait
  at all. It does return when every reading finds the counter one tick further.
\<close>
theorem udelay_waits:
  assumes "hw_clock D now" and "unat usec < 131072000"
  shows "(\<forall>s'. udelay D usec s = Some s' \<longrightarrow>
      32768 * (if 1000 \<le> unat usec then unat usec div 1000 * 1000 else unat usec) <
        1000000 * ((now (dev s') - now (dev s)) + 1)) \<and>
    ((\<forall>d. now (snd (dread D (TIMERBASE + TCRR) d)) = now d + 1) \<longrightarrow> (\<exists>s'. udelay D usec s = Some s'))"
proof (intro conjI allI impI)
  fix s' assume ret: "udelay D usec s = Some s'"
  obtain t0 s0 where g: "get_timer_masked D s = (t0, s0)" by fastforce
  define n where "n = delay_ticks usec"
  have n: "unat n < 2 ^ 32 - 1" using delay_ticks_small by (simp add: n_def)
  have s0: "stamped now t0 (now (dev s)) s0" "now (dev s) \<le> now (dev s0)" using stamp_start [OF assms(1), of s] by (simp_all add: g)
  have "now (dev s) + unat n \<le> now (dev s')"
  proof (cases "n + t0 + 1 < t0")
    case True
    then obtain u where "loopM (\<lambda>s. case get_timer_masked D s of (t, s) \<Rightarrow> Some (if t < n then None else Some (), s))
        (reset_timer_masked D s0) = Some (u, s')"
      using ret by (auto simp: udelay_def get_timer_def Let_def g n_def)
    from timer_loop_waits [OF assms(1) stamp_start(2) [OF assms(1)] _ this, of "unat n"] s0(2) show ?thesis by simp
  next
    case False
    then obtain u where "loopM (\<lambda>s. case get_timer_masked D s of (t, s) \<Rightarrow> Some (if t < n + t0 then None else Some (), s)) s0 = Some (u, s')"
      using ret by (auto simp: udelay_def get_timer_def Let_def g n_def)
    from timer_loop_waits [OF assms(1) s0(1) _ this, of "unat n"] deadline_no_wrap(3) [OF n False] show ?thesis by simp
  qed
  then show "32768 * (if 1000 \<le> unat usec then unat usec div 1000 * 1000 else unat usec) <
      1000000 * ((now (dev s') - now (dev s)) + 1)"
    by (intro delay_ticks_time [OF assms(2)]) (simp add: n_def)
next
  assume "\<forall>d. now (snd (dread D (TIMERBASE + TCRR) d)) = now d + 1"
  with assms(1) have "counts_up D (\<lambda>d. of_nat (now d))" by (auto simp: counts_up_def hw_clock_def)
  then show "\<exists>s'. udelay D usec s = Some s'" by (rule udelay_returns)
qed

section \<open>A concrete counter\<close>

definition ticking_device :: "nat device" where
  "ticking_device = \<lparr>dread = (\<lambda>a d. (of_nat d, d + 1)), dwrite = (\<lambda>a v d. d)\<rparr>"

definition ticking_state :: "nat tmach" where
  "ticking_state = \<lparr>mem = (\<lambda>_. 0), dev = 2 ^ 32 - 1, outp = [], timestamp = 7, lastinc = 4\<rparr>"

lemma ticking_clock:
  "hw_clock ticking_device (\<lambda>d. d)" "counts_up ticking_device of_nat"
  by (simp_all add: hw_clock_def counts_up_def ticking_device_def add.commute)

theorem udelay_returns_witness: "\<exists>s'. udelay ticking_device 61 ticking_state = Some s'"
  by (rule udelay_returns [OF ticking_clock(2)])

theorem udelay_waits_witness:
  "\<exists>s'. udelay ticking_device 5900 ticking_state = Some s' \<and> 2 ^ 32 - 1 + 163 \<le> dev s'"
proof -
  have w: "\<forall>s'. udelay ticking_device 5900 ticking_state = Some s' \<longrightarrow> 32768 * 5000 < 1000000 * ((dev s' - dev ticking_state) + 1)"
    "\<exists>s'. udelay ticking_device 5900 ticking_state = Some s'"
    using udelay_waits [OF ticking_clock(1), of 5900 ticking_state] by (simp_all add: ticking_device_def)
  then obtain s' where "udelay ticking_device 5900 ticking_state = Some s'" by blast
  moreover from this w(1) have "2 ^ 32 - 1 + 163 \<le> dev s'" by (simp add: ticking_state_def)
  ultimately show ?thesis by blast
qed

end
