(* ===== verification/HwIf.thy ===== *)
theory HwIf
  imports Prelude
begin

text \<open>
  The interface \<open>hw_if_st\<close> between the block layer of \<open>mini-boot/mmc/mmc.c\<close> and the two
  controller drivers \<open>sdc.c\<close> and \<open>sdio.c\<close>: the structure of function pointers as a record of
  functions on the machine state, and what its clients rely on as a locale. \<open>None\<close> is a call
  that never returns (a poll that never ends). A \<open>NULL\<close> buffer is the address 0; the optional
  \<open>int *resp\<close> is an optional list of words, returned with the values the driver stored.
\<close>

section \<open>Constants of mmc.h and mini_config.h\<close>

definition MMC_BLOCKLEN_VAL :: u32 where "MMC_BLOCKLEN_VAL = 512"
definition MMC_HALF_BLOCKLEN_VAL :: nat where "MMC_HALF_BLOCKLEN_VAL = 256"
definition MMC_RES_TIMEOUT :: u32 where "MMC_RES_TIMEOUT = 0x40"

definition MMC_RSP_NONE :: u32 where "MMC_RSP_NONE = 0"
definition MMC_RSP_R1 :: u32 where "MMC_RSP_R1 = 1"
definition MMC_RSP_R1B :: u32 where "MMC_RSP_R1B = 2"
definition MMC_RSP_R2 :: u32 where "MMC_RSP_R2 = 3"
definition MMC_RSP_R3 :: u32 where "MMC_RSP_R3 = 4"
definition MMC_RSP_R4 :: u32 where "MMC_RSP_R4 = 5"
definition MMC_RSP_R5 :: u32 where "MMC_RSP_R5 = 6"
definition MMC_RSP_R6 :: u32 where "MMC_RSP_R6 = 7"
definition MMC_RSP_R7 :: u32 where "MMC_RSP_R7 = 8"

definition MMC_CLK_STOP :: u32 where "MMC_CLK_STOP = 0"
definition MMC_CLK_NORMAL :: u32 where "MMC_CLK_NORMAL = 1"
definition MMC_CLK_HIGH :: u32 where "MMC_CLK_HIGH = 2"

definition SRAM_START :: u32 where "SRAM_START = 0xf0000000"
definition SRAM_END :: u32 where "SRAM_END = 0xf0020000"
definition ROMBOOT_WORK_START :: u32 where "ROMBOOT_WORK_START = SRAM_START + 0x00017000"
definition ACC_MODE_ADDR :: u32 where "ACC_MODE_ADDR = SRAM_END - 0x18"
definition RCA_VAL_ADDR :: u32 where "RCA_VAL_ADDR = SRAM_END - 0x1c"

lemmas mmc_consts = MMC_BLOCKLEN_VAL_def MMC_HALF_BLOCKLEN_VAL_def MMC_RES_TIMEOUT_def
  MMC_RSP_NONE_def MMC_RSP_R1_def MMC_RSP_R1B_def MMC_RSP_R2_def MMC_RSP_R3_def MMC_RSP_R4_def
  MMC_RSP_R5_def MMC_RSP_R6_def MMC_RSP_R7_def MMC_CLK_STOP_def MMC_CLK_NORMAL_def MMC_CLK_HIGH_def
  SRAM_START_def SRAM_END_def ROMBOOT_WORK_START_def ACC_MODE_ADDR_def RCA_VAL_ADDR_def

text \<open>The variables \<open>*acc_mode\<close> and \<open>*RCA_VAL\<close> the ROM loader leaves in SRAM.\<close>

definition acc_mode :: "('d, 'z) mach_scheme \<Rightarrow> u32" where
  "acc_mode s = load32 (mem s) ACC_MODE_ADDR"

definition RCA_VAL :: "('d, 'z) mach_scheme \<Rightarrow> u32" where
  "RCA_VAL s = load32 (mem s) RCA_VAL_ADDR"

section \<open>The structure of function pointers\<close>

record 's hw_if =
  send_cmd :: "u32 \<Rightarrow> u32 \<Rightarrow> u32 \<Rightarrow> u32 list option \<Rightarrow> 's \<Rightarrow> (u32 \<times> u32 list option \<times> 's) option"
  send_acmd :: "u32 \<Rightarrow> u32 \<Rightarrow> u32 \<Rightarrow> u32 list option \<Rightarrow> 's \<Rightarrow> (u32 \<times> u32 list option \<times> 's) option"
  send_extcsd :: "u32 \<Rightarrow> 's \<Rightarrow> (u32 \<times> 's) option"
  single_read :: "u32 \<Rightarrow> u32 \<Rightarrow> 's \<Rightarrow> (u32 \<times> 's) option"
  multi_read :: "u32 \<Rightarrow> u32 \<Rightarrow> u32 \<Rightarrow> 's \<Rightarrow> (u32 \<times> 's) option"
  single_write :: "u32 \<Rightarrow> u32 \<Rightarrow> 's \<Rightarrow> (u32 \<times> 's) option"
  multi_write :: "u32 \<Rightarrow> u32 \<Rightarrow> u32 \<Rightarrow> 's \<Rightarrow> (u32 \<times> 's) option"
  hw_init :: "'s \<Rightarrow> 's"
  set_blklength :: "u32 \<Rightarrow> 's \<Rightarrow> 's"
  set_buswidth :: "u32 \<Rightarrow> 's \<Rightarrow> 's"
  set_clock :: "u32 \<Rightarrow> 's \<Rightarrow> 's option"

section \<open>What the drivers promise\<close>

text \<open>
  \<open>quiet s s'\<close>: console and the variables of the caller (\<open>mach.more\<close>) are as before; only
  memory and peripherals may have changed.
\<close>

definition quiet :: "('d, 'z) mach_scheme \<Rightarrow> ('d, 'z) mach_scheme \<Rightarrow> bool" where
  "quiet s s' \<longleftrightarrow> outp s' = outp s \<and> mach.more s' = mach.more s"

lemma quiet_refl [simp]: "quiet s s"
  by (simp add: quiet_def)

lemma quiet_trans [trans]: "quiet s1 s2 \<Longrightarrow> quiet s2 s3 \<Longrightarrow> quiet s1 s3"
  by (simp add: quiet_def)

lemma quiet_inl [simp]: "quiet s (snd (inl D a s0)) \<longleftrightarrow> quiet s s0"
  by (simp add: quiet_def)

lemma quiet_outl [simp]: "quiet s (outl D v a s0) \<longleftrightarrow> quiet s s0"
  by (simp add: quiet_def)

lemma quiet_mem [simp]: "quiet s (s0\<lparr>mem := m\<rparr>) \<longleftrightarrow> quiet s s0"
  by (simp add: quiet_def)

text \<open>\<open>still s s'\<close>: only the peripherals moved, memory is as before too.\<close>

definition still :: "('d, 'z) mach_scheme \<Rightarrow> ('d, 'z) mach_scheme \<Rightarrow> bool" where
  "still s s' \<longleftrightarrow> mem s' = mem s \<and> quiet s s'"

lemma still_refl [simp]: "still s s"
  by (simp add: still_def)

lemma still_trans [trans]: "still s1 s2 \<Longrightarrow> still s2 s3 \<Longrightarrow> still s1 s3"
  by (auto simp: still_def elim: quiet_trans)

lemma still_inl [simp]: "still s (snd (inl D a s0)) \<longleftrightarrow> still s s0"
  by (simp add: still_def)

lemma still_outl [simp]: "still s (outl D v a s0) \<longleftrightarrow> still s s0"
  by (simp add: still_def)

lemma still_step [simp]:
  "still (snd (inl D a s0)) s \<longleftrightarrow> still s0 s" "still (outl D v a s0) s \<longleftrightarrow> still s0 s"
  by (simp_all add: still_def quiet_def)

lemma still_mem: "still s s' \<Longrightarrow> mem s' = mem s"
  by (simp add: still_def)

lemma still_quiet: "still s s' \<Longrightarrow> quiet s s'"
  by (simp add: still_def)

lemma still_acc_mode: "still s s' \<Longrightarrow> acc_mode s' = acc_mode s"
  by (simp add: still_def acc_mode_def)

text \<open>At a call that is \<open>still\<close>, what is known of the state before it is known after it.\<close>

lemma ensures_still:
  assumes "ensures m (\<lambda>p. still s (g p))" and "still s0 s" and "\<And>r. still s0 (g r) \<Longrightarrow> Q r"
  shows "ensures m Q"
  using assms by (auto simp: ensures_def intro: still_trans)

text \<open>A read touches the bytes of its buffer only.\<close>

definition fills :: "u32 \<Rightarrow> nat \<Rightarrow> ('d, 'z) mach_scheme \<Rightarrow> ('d, 'z) mach_scheme \<Rightarrow> bool" where
  "fills b n s s' \<longleftrightarrow> only_changed b n (mem s) (mem s') \<and> quiet s s'"

lemma fills_refl [simp]: "fills b n s s"
  by (simp add: fills_def)

lemma fills_trans: "fills b n s1 s2 \<Longrightarrow> fills b n s2 s3 \<Longrightarrow> fills b n s1 s3"
  by (auto simp: fills_def intro: only_changed_trans quiet_trans)

lemma fills_inl [simp]: "fills b n s (snd (inl D a s0)) \<longleftrightarrow> fills b n s s0"
  by (simp add: fills_def)

lemma fills_outl [simp]: "fills b n s (outl D v a s0) \<longleftrightarrow> fills b n s s0"
  by (simp add: fills_def)

lemma fills_sub: "fills (b + of_nat k) n s s' \<Longrightarrow> k + n \<le> N \<Longrightarrow> fills b N s s'"
  by (auto simp: fills_def intro: only_changed_sub)

lemma fills_mono: "fills b n s s' \<Longrightarrow> n \<le> N \<Longrightarrow> fills b N s s'"
  using fills_sub [of b 0 n] by simp

lemma still_fills: "still s s' \<Longrightarrow> fills b n s s'"
  by (simp add: fills_def still_def)

lemma ensures_fills:
  assumes "ensures m (\<lambda>p. fills b n s (g p))" and "fills b n s0 s" and "\<And>r. fills b n s0 (g r) \<Longrightarrow> Q r"
  shows "ensures m Q"
  using assms by (auto simp: ensures_def intro: fills_trans)

lemma ensures_still_fills:
  assumes "ensures m (\<lambda>p. still s (g p))" and "fills b n s0 s" and "\<And>r. fills b n s0 (g r) \<Longrightarrow> Q r"
  shows "ensures m Q"
  by (rule ensures_fills [OF ensures_weaken [OF assms(1) still_fills] assms(2,3)])

text \<open>
  \<open>keeps D port R\<close>: the register accesses of \<open>D\<close> keep the property \<open>R\<close> of the state, writes to
  the data port excepted. What a driver does outside its transfer loops then keeps \<open>R\<close>;
  \<open>still\<close> is one such \<open>R\<close>, the words sent through the data port are another.
\<close>

definition keeps :: "'d device \<Rightarrow> u32 \<Rightarrow> (('d, 'z) mach_scheme \<Rightarrow> bool) \<Rightarrow> bool" where
  "keeps D port R \<longleftrightarrow> (\<forall>s a. R s \<longrightarrow> R (snd (inl D a s))) \<and>
     (\<forall>s a v. a \<noteq> port \<longrightarrow> R s \<longrightarrow> R (outl D v a s))"

lemma keeps_inl: "keeps D port R \<Longrightarrow> R s \<Longrightarrow> R (snd (inl D a s))"
  by (simp add: keeps_def)

lemma keeps_outl: "keeps D port R \<Longrightarrow> a \<noteq> port \<Longrightarrow> R s \<Longrightarrow> R (outl D v a s)"
  by (simp add: keeps_def)

lemma keeps_still: "keeps D port (still s0)"
  by (simp add: keeps_def)

text \<open>
  \<open>records D port log\<close>: \<open>log\<close> is the list of words written to the data port so far. Any
  peripheral can be given such a log without changing what it does.
\<close>

definition records :: "'d device \<Rightarrow> u32 \<Rightarrow> ('d \<Rightarrow> u32 list) \<Rightarrow> bool" where
  "records D port log \<longleftrightarrow>
     (\<forall>a d. log (snd (dread D a d)) = log d) \<and>
     (\<forall>a v d. log (dwrite D a v d) = (if a = port then log d @ [v] else log d))"

definition logged :: "('d \<Rightarrow> u32 list) \<Rightarrow> (u32 \<Rightarrow> u8) \<Rightarrow> u32 list \<Rightarrow> ('d, 'z) mach_scheme \<Rightarrow> bool" where
  "logged log m l s \<longleftrightarrow> mem s = m \<and> log (dev s) = l"

lemma keeps_logged: "records D port log \<Longrightarrow> keeps D port (logged log m l)"
  by (auto simp: keeps_def records_def logged_def inl_def outl_def split: prod.splits) (metis snd_conv)

lemma logged_port: "records D port log \<Longrightarrow> logged log m l s \<Longrightarrow> logged log m (l @ [v]) (outl D v port s)"
  by (simp add: records_def logged_def outl_def)

text \<open>
  The contract: commands and writes to the card leave memory alone; a read changes nothing
  but the bytes of its buffer, 512 for each block asked for.
\<close>

locale block_io =
  fixes hw :: "('d, 'z) mach_scheme hw_if"
  assumes send_cmd_frame: "send_cmd hw c a t rs s = Some (r, rs', s') \<Longrightarrow> still s s'"
    and send_acmd_frame: "send_acmd hw c a t rs s = Some (r, rs', s') \<Longrightarrow> still s s'"
    and single_read_frame: "single_read hw a b s = Some (r, s') \<Longrightarrow>
          fills b 512 s s'"
    and multi_read_frame: "multi_read hw a b n s = Some (r, s') \<Longrightarrow>
          fills b (512 * nat (sint n)) s s'"
    and multi_write_frame: "multi_write hw a b n s = Some (r, s') \<Longrightarrow> still s s'"
    and hw_init_frame: "still s (hw_init hw s)"
    and set_buswidth_frame: "still s (set_buswidth hw w s)"
    and set_clock_frame: "set_clock hw k s = Some s' \<Longrightarrow> still s s'"

text \<open>
  \<open>reads_disk hw P disk\<close>: in the states of \<open>P\<close> the reads of the driver deliver the disk, that
  is, they return 0 with byte \<open>i\<close> of the buffer set to byte \<open>512 * sector + i\<close> of the disk, and
  stay in \<open>P\<close>. It is what \<open>sdc.c\<close> is shown to do on a card that follows the data sheet.
\<close>

definition reads_disk :: "('d, 'z) mach_scheme hw_if \<Rightarrow> (('d, 'z) mach_scheme \<Rightarrow> bool) \<Rightarrow> nat \<Rightarrow> (nat \<Rightarrow> u8) \<Rightarrow> bool" where
  "reads_disk hw P limit disk \<longleftrightarrow>
     (\<forall>s a b. P s \<longrightarrow> unat a < limit \<longrightarrow>
        (\<exists>s'. single_read hw a b s = Some (0, s') \<and> quiet s s' \<and>
              mem s' = blit (mem s) b 512 (\<lambda>i. disk (512 * unat a + i)) \<and>
              (acc_mode s' = acc_mode s \<longrightarrow> P s'))) \<and>
     (\<forall>s a b n. P s \<longrightarrow> unat a < limit \<longrightarrow> 0 \<le> sint n \<longrightarrow> nat (sint n) < 2 ^ 16 \<longrightarrow>
        (\<exists>s'. multi_read hw a b n s = Some (0, s') \<and> quiet s s' \<and>
              mem s' = blit (mem s) b (512 * nat (sint n)) (\<lambda>i. disk (512 * unat a + i)) \<and>
              (acc_mode s' = acc_mode s \<longrightarrow> P s')))"

end
