(* ===== verification/Sdc.thy ===== *)
theory Sdc
  imports HwIf
begin

text \<open>
  The SD card controller driver \<open>mini-boot/mmc/sdc.c\<close>: commands, polled block reads and
  writes through a 16-bit data port. The controller is the device parameter; every \<open>inl\<close> and
  \<open>outl\<close> of the source is one step of it, in the source's order.
\<close>

section \<open>Registers (sdc.h)\<close>

definition SDC_BASE :: u32 where "SDC_BASE = 0xe2100000"
definition SDM_CMD :: u32 where "SDM_CMD = SDC_BASE + 0x0000"
definition SDM_ARG0 :: u32 where "SDM_ARG0 = SDC_BASE + 0x0008"
definition SDM_ARG1 :: u32 where "SDM_ARG1 = SDC_BASE + 0x000c"
definition SDM_STOP :: u32 where "SDM_STOP = SDC_BASE + 0x0010"
definition SDM_SECCNT :: u32 where "SDM_SECCNT = SDC_BASE + 0x0014"
definition SDM_RSP0 :: u32 where "SDM_RSP0 = SDC_BASE + 0x0018"
definition SDM_RSP1 :: u32 where "SDM_RSP1 = SDC_BASE + 0x001c"
definition SDM_RSP2 :: u32 where "SDM_RSP2 = SDC_BASE + 0x0020"
definition SDM_RSP3 :: u32 where "SDM_RSP3 = SDC_BASE + 0x0024"
definition SDM_RSP4 :: u32 where "SDM_RSP4 = SDC_BASE + 0x0028"
definition SDM_RSP5 :: u32 where "SDM_RSP5 = SDC_BASE + 0x002c"
definition SDM_RSP6 :: u32 where "SDM_RSP6 = SDC_BASE + 0x0030"
definition SDM_RSP7 :: u32 where "SDM_RSP7 = SDC_BASE + 0x0034"
definition SDM_INFO1 :: u32 where "SDM_INFO1 = SDC_BASE + 0x0038"
definition SDM_INFO2 :: u32 where "SDM_INFO2 = SDC_BASE + 0x003c"
definition SDM_INFO1_MASK :: u32 where "SDM_INFO1_MASK = SDC_BASE + 0x0040"
definition SDM_INFO2_MASK :: u32 where "SDM_INFO2_MASK = SDC_BASE + 0x0044"
definition SDM_CLK_CTRL :: u32 where "SDM_CLK_CTRL = SDC_BASE + 0x0048"
definition SDM_SIZE :: u32 where "SDM_SIZE = SDC_BASE + 0x004C"
definition SDM_OPTION :: u32 where "SDM_OPTION = SDC_BASE + 0x0050"
definition SDM_BUF0 :: u32 where "SDM_BUF0 = SDC_BASE + 0x0060"

definition SDM_INFO_CLEAR :: u32 where "SDM_INFO_CLEAR = 0x00000000"
definition SDM_INFO_MASK_ALL :: u32 where "SDM_INFO_MASK_ALL = 0x0000ffff"
definition SDM_CLK_CTRL_DIV8 :: u32 where "SDM_CLK_CTRL_DIV8 = 0x00000302"
definition SDM_CLK_CTRL_DIV4 :: u32 where "SDM_CLK_CTRL_DIV4 = 0x00000301"
definition SDM_CLK_CTRL_DIV2 :: u32 where "SDM_CLK_CTRL_DIV2 = 0x00000300"
definition SDM_CLK_CTRL_HIGH :: u32 where "SDM_CLK_CTRL_HIGH = 0x00000400"

text \<open>\<open>cpu500\<close>: the build option \<open>CONFIG_EMEV_CPU_500MHZ\<close>.\<close>

definition SDM_CLK_NORMAL_SPEED :: "bool \<Rightarrow> u32" where
  "SDM_CLK_NORMAL_SPEED cpu500 = (if cpu500 then SDM_CLK_CTRL_DIV4 else SDM_CLK_CTRL_DIV8)"

definition SDM_CLK_HIGH_SPEED :: "bool \<Rightarrow> u32" where
  "SDM_CLK_HIGH_SPEED cpu500 =
     (if cpu500 then SDM_CLK_CTRL_DIV2 OR SDM_CLK_CTRL_HIGH else SDM_CLK_CTRL_DIV4 OR SDM_CLK_CTRL_HIGH)"

definition SDM_INFO1_RES_END :: u32 where "SDM_INFO1_RES_END = 0x0001"
definition SDM_INFO1_RES_RW_END :: u32 where "SDM_INFO1_RES_RW_END = 0x0004"
definition SDM_INFO2_ERR_ALL :: u32 where "SDM_INFO2_ERR_ALL = 0x807F"
definition SDM_INFO2_BWE_BIT :: u32 where "SDM_INFO2_BWE_BIT = 0x0200"
definition SDM_INFO2_BRE_BIT :: u32 where "SDM_INFO2_BRE_BIT = 0x0100"
definition SDM_INFO2_DATA0_BIT :: u32 where "SDM_INFO2_DATA0_BIT = 0x0080"
definition SDM_OPT_WIDTH_BIT :: u32 where "SDM_OPT_WIDTH_BIT = 0x8000"
definition SDM_STOP_SEC_BIT :: u32 where "SDM_STOP_SEC_BIT = 0x0100"

lemmas sdm_regs = SDC_BASE_def SDM_CMD_def SDM_ARG0_def SDM_ARG1_def SDM_STOP_def SDM_SECCNT_def
  SDM_RSP0_def SDM_RSP1_def SDM_RSP2_def SDM_RSP3_def SDM_RSP4_def SDM_RSP5_def SDM_RSP6_def
  SDM_RSP7_def SDM_INFO1_def SDM_INFO2_def SDM_INFO1_MASK_def SDM_INFO2_MASK_def
  SDM_CLK_CTRL_def SDM_SIZE_def SDM_OPTION_def SDM_BUF0_def

lemmas sdm_bits = SDM_INFO_CLEAR_def SDM_INFO_MASK_ALL_def SDM_CLK_CTRL_DIV8_def
  SDM_CLK_CTRL_DIV4_def SDM_CLK_CTRL_DIV2_def SDM_CLK_CTRL_HIGH_def SDM_CLK_NORMAL_SPEED_def
  SDM_CLK_HIGH_SPEED_def SDM_INFO1_RES_END_def SDM_INFO1_RES_RW_END_def SDM_INFO2_ERR_ALL_def
  SDM_INFO2_BWE_BIT_def SDM_INFO2_BRE_BIT_def SDM_INFO2_DATA0_BIT_def SDM_OPT_WIDTH_BIT_def
  SDM_STOP_SEC_BIT_def

section \<open>Commands\<close>

definition sdc_wait_response :: "'d device \<Rightarrow> ('d, 'z) mach_scheme \<Rightarrow> (u32 \<times> ('d, 'z) mach_scheme) option" where
  "sdc_wait_response D s = do {
     (e, s) \<leftarrow> loopM (\<lambda>s. let (info1, s) = inl D SDM_INFO1 s in
         if info1 AND SDM_INFO1_RES_END \<noteq> 0 then Some (Some None, s)
         else let (info2, s) = inl D SDM_INFO2 s; info2_val = info2 AND SDM_INFO2_ERR_ALL in
           if info2_val \<noteq> 0
           then Some (Some (Some info2_val), outl D (info2_val AND NOT SDM_INFO2_ERR_ALL) SDM_INFO2 s)
           else Some (None, s)) s;
     case e of
       Some info2_val \<Rightarrow> Some (info2_val, s)
     | None \<Rightarrow>
         let (info2, s) = inl D SDM_INFO2 s; info2_val = info2 AND SDM_INFO2_ERR_ALL in
         if info2_val \<noteq> 0
         then Some (info2_val, outl D (info2_val AND NOT SDM_INFO2_ERR_ALL) SDM_INFO2 s)
         else let (info1, s) = inl D SDM_INFO1 s
              in Some (0, outl D (info1 AND NOT SDM_INFO1_RES_END) SDM_INFO1 s)
   }"

text \<open>One 32-bit word of the response from its two 16-bit registers.\<close>

definition sdc_rsp :: "'d device \<Rightarrow> u32 \<Rightarrow> u32 \<Rightarrow> ('d, 'z) mach_scheme \<Rightarrow> u32 \<times> ('d, 'z) mach_scheme" where
  "sdc_rsp D lo hi s =
     (let (l, s) = inl D lo s; (h, s) = inl D hi s
      in ((l AND 0xffff) OR push_bit 16 (h AND 0xffff), s))"

definition sdc_cmd_word :: "u32 \<Rightarrow> u32" where
  "sdc_cmd_word cmd =
     (if cmd = 17 then 0x1800 OR cmd
      else if cmd = 18 then 0x3800 OR cmd
      else if cmd = 24 then 0x0800 OR cmd
      else if cmd = 25 then 0x2800 OR cmd
      else cmd)"

definition sdc_issue :: "'d device \<Rightarrow> u32 \<Rightarrow> u32 \<Rightarrow> ('d, 'z) mach_scheme \<Rightarrow> ('d, 'z) mach_scheme" where
  "sdc_issue D w arg s =
     outl D w SDM_CMD
      (outl D (drop_bit 16 arg AND 0xffff) SDM_ARG1
       (outl D (arg AND 0xffff) SDM_ARG0
        (outl D SDM_INFO_CLEAR SDM_INFO2 (outl D SDM_INFO_CLEAR SDM_INFO1 s))))"

definition sdc_send_cmd :: "'d device \<Rightarrow> u32 \<Rightarrow> u32 \<Rightarrow> u32 \<Rightarrow> u32 list option \<Rightarrow>
    ('d, 'z) mach_scheme \<Rightarrow> (u32 \<times> u32 list option \<times> ('d, 'z) mach_scheme) option" where
  "sdc_send_cmd D cmd arg type resp s = do {
     let cmd = cmd AND 0xff;
     (ret, s) \<leftarrow> sdc_wait_response D (sdc_issue D (sdc_cmd_word cmd) arg s);
     if ret \<noteq> 0 then Some (ret, resp, s)
     else do {
       let (resp, s) = (case resp of
           None \<Rightarrow> (None, s)
         | Some xs \<Rightarrow>
             let (r0, s) = sdc_rsp D SDM_RSP0 SDM_RSP1 s; (r1, s) = sdc_rsp D SDM_RSP2 SDM_RSP3 s;
                 (r2, s) = sdc_rsp D SDM_RSP4 SDM_RSP5 s; (r3, s) = sdc_rsp D SDM_RSP6 SDM_RSP7 s
             in (Some ([r0, r1, r2, r3] @ drop 4 xs), s));
       if type = MMC_RSP_R1B \<or> cmd = 7
       then do {
         (_, s) \<leftarrow> loopM (\<lambda>s. let (info2, s) = inl D SDM_INFO2 s
             in Some (if info2 AND SDM_INFO2_DATA0_BIT \<noteq> 0 then Some () else None, s)) s;
         Some (ret, resp, s)
       }
       else Some (ret, resp, s)
     }
   }"

definition sdc_send_acmd :: "'d device \<Rightarrow> u32 \<Rightarrow> u32 \<Rightarrow> u32 \<Rightarrow> u32 list option \<Rightarrow>
    ('d, 'z) mach_scheme \<Rightarrow> (u32 \<times> u32 list option \<times> ('d, 'z) mach_scheme) option" where
  "sdc_send_acmd D cmd arg type resp s = do {
     let s = outl D (drop_bit 16 arg AND 0xffff) SDM_ARG1
              (outl D (arg AND 0xffff) SDM_ARG0
               (outl D SDM_INFO_CLEAR SDM_INFO2 (outl D SDM_INFO_CLEAR SDM_INFO1 s)));
     let cmd = cmd AND 0xff;
     (ret, s) \<leftarrow> (if cmd = 6 \<or> cmd = 41
                  then sdc_wait_response D (outl D (0x0040 OR cmd) SDM_CMD s)
                  else Some (-1, outl D SDM_INFO_MASK_ALL SDM_INFO2_MASK
                                   (outl D SDM_INFO_MASK_ALL SDM_INFO1_MASK s)));
     case resp of
       None \<Rightarrow> Some (ret, None, s)
     | Some xs \<Rightarrow>
         if ret = 0 then let (r0, s) = sdc_rsp D SDM_RSP0 SDM_RSP1 s in Some (ret, Some (r0 # drop 1 xs), s)
         else Some (ret, Some xs, s)
   }"

section \<open>Data transfer\<close>

text \<open>The three loops every transfer shares: wait for the data port, move a block, wait for the end.\<close>

definition sdc_wait_buffer :: "'d device \<Rightarrow> u32 \<Rightarrow> ('d, 'z) mach_scheme \<Rightarrow> (u32 \<times> ('d, 'z) mach_scheme) option" where
  "sdc_wait_buffer D enable s =
     loopM (\<lambda>s. let (info2_tmp, s) = inl D SDM_INFO2 s
        in Some (if info2_tmp AND (enable OR SDM_INFO2_ERR_ALL) \<noteq> 0 then Some info2_tmp else None, s)) s"

primrec sdc_read_block :: "'d device \<Rightarrow> nat \<Rightarrow> u32 \<Rightarrow> ('d, 'z) mach_scheme \<Rightarrow> ('d, 'z) mach_scheme" where
  "sdc_read_block D 0 tmp_buf s = s"
| "sdc_read_block D (Suc n) tmp_buf s =
     (let (v, s) = inl D SDM_BUF0 s
      in sdc_read_block D n (tmp_buf + 2) (s\<lparr>mem := store16 (mem s) tmp_buf (ucast v)\<rparr>))"

primrec sdc_write_block :: "'d device \<Rightarrow> nat \<Rightarrow> u32 \<Rightarrow> ('d, 'z) mach_scheme \<Rightarrow> ('d, 'z) mach_scheme" where
  "sdc_write_block D 0 tmp_buf s = s"
| "sdc_write_block D (Suc n) tmp_buf s =
     sdc_write_block D n (tmp_buf + 2) (outl D (ucast (load16 (mem s) tmp_buf)) SDM_BUF0 s)"

primrec sdc_clear_block :: "'d device \<Rightarrow> nat \<Rightarrow> ('d, 'z) mach_scheme \<Rightarrow> ('d, 'z) mach_scheme" where
  "sdc_clear_block D 0 s = s"
| "sdc_clear_block D (Suc n) s = sdc_clear_block D n (outl D 0 SDM_BUF0 s)"

definition sdc_wait_end :: "'d device \<Rightarrow> ('d, 'z) mach_scheme \<Rightarrow> (u32 \<times> ('d, 'z) mach_scheme) option" where
  "sdc_wait_end D s = do {
     (ok, s) \<leftarrow> loopM (\<lambda>s. let (info1, s) = inl D SDM_INFO1 s in
         if info1 AND SDM_INFO1_RES_RW_END \<noteq> 0 then Some (Some True, s)
         else let (info2, s) = inl D SDM_INFO2 s in
           if info2 AND SDM_INFO2_ERR_ALL \<noteq> 0
           then let (info2, s) = inl D SDM_INFO2 s
                in Some (Some False, outl D (info2 AND NOT SDM_INFO2_ERR_ALL) SDM_INFO2 s)
           else Some (None, s)) s;
     if ok then let (info1, s) = inl D SDM_INFO1 s
       in Some (0, outl D (info1 AND NOT (SDM_INFO1_RES_END OR SDM_INFO1_RES_RW_END)) SDM_INFO1 s)
     else Some (-1, s)
   }"

definition sdc_address :: "u32 \<Rightarrow> ('d, 'z) mach_scheme \<Rightarrow> u32" where
  "sdc_address addr s = (if acc_mode s \<noteq> 0 then addr else addr * MMC_BLOCKLEN_VAL)"

definition sdc_send_extcsd :: "'d device \<Rightarrow> u32 \<Rightarrow> ('d, 'z) mach_scheme \<Rightarrow> (u32 \<times> ('d, 'z) mach_scheme) option" where
  "sdc_send_extcsd D buf s = do {
     (ret, _, s) \<leftarrow> sdc_send_cmd D 8 0 MMC_RSP_R1 None s;
     if ret \<noteq> 0 then Some (ret, s)
     else do {
       (info2_tmp, s) \<leftarrow> sdc_wait_buffer D SDM_INFO2_BRE_BIT s;
       if info2_tmp AND SDM_INFO2_ERR_ALL \<noteq> 0
       then Some (-1, outl D (info2_tmp AND NOT SDM_INFO2_ERR_ALL) SDM_INFO2 s)
       else sdc_wait_end D (sdc_read_block D MMC_HALF_BLOCKLEN_VAL buf s)
     }
   }"

definition sdc_single_read :: "'d device \<Rightarrow> u32 \<Rightarrow> u32 \<Rightarrow> ('d, 'z) mach_scheme \<Rightarrow> (u32 \<times> ('d, 'z) mach_scheme) option" where
  "sdc_single_read D addr buf s = do {
     let s = outl D 0 SDM_STOP s;
     (ret, _, s) \<leftarrow> sdc_send_cmd D 17 (sdc_address addr s) MMC_RSP_R1 None s;
     if ret \<noteq> 0 then Some (ret, s)
     else do {
       (info2_tmp, s) \<leftarrow> sdc_wait_buffer D SDM_INFO2_BRE_BIT s;
       if info2_tmp AND SDM_INFO2_ERR_ALL \<noteq> 0
       then Some (-1, outl D (info2_tmp AND NOT SDM_INFO2_ERR_ALL) SDM_INFO2 s)
       else sdc_wait_end D (sdc_read_block D MMC_HALF_BLOCKLEN_VAL buf s)
     }
   }"

text \<open>The block loop of a multi-block read: \<open>False\<close> is the \<open>return -1\<close> inside the loop.\<close>

primrec sdc_read_blocks :: "'d device \<Rightarrow> nat \<Rightarrow> u32 \<Rightarrow> ('d, 'z) mach_scheme \<Rightarrow> (bool \<times> ('d, 'z) mach_scheme) option" where
  "sdc_read_blocks D 0 tmp_buf s = Some (True, s)"
| "sdc_read_blocks D (Suc n) tmp_buf s = do {
     (info2_tmp, s) \<leftarrow> sdc_wait_buffer D SDM_INFO2_BRE_BIT s;
     if info2_tmp AND SDM_INFO2_ERR_ALL \<noteq> 0 then Some (False, s)
     else do {
       let (info2, s) = inl D SDM_INFO2 s;
       let s = outl D (info2 AND NOT SDM_INFO2_BRE_BIT) SDM_INFO2 s;
       sdc_read_blocks D n (tmp_buf + 512) (sdc_read_block D MMC_HALF_BLOCKLEN_VAL tmp_buf s)
     }
   }"

definition sdc_multi_read :: "'d device \<Rightarrow> u32 \<Rightarrow> u32 \<Rightarrow> u32 \<Rightarrow> ('d, 'z) mach_scheme \<Rightarrow> (u32 \<times> ('d, 'z) mach_scheme) option" where
  "sdc_multi_read D addr buf num s = do {
     let (stop, s) = inl D SDM_STOP s;
     let s = outl D num SDM_SECCNT (outl D (stop OR SDM_STOP_SEC_BIT) SDM_STOP s);
     (ret, _, s) \<leftarrow> sdc_send_cmd D 18 (sdc_address addr s) MMC_RSP_R1 None s;
     if ret \<noteq> 0 then Some (ret, s)
     else do {
       (ok, s) \<leftarrow> sdc_read_blocks D (nat (sint num)) buf s;
       if ok then sdc_wait_end D s else Some (-1, s)
     }
   }"

definition sdc_single_write :: "'d device \<Rightarrow> u32 \<Rightarrow> u32 \<Rightarrow> ('d, 'z) mach_scheme \<Rightarrow> (u32 \<times> ('d, 'z) mach_scheme) option" where
  "sdc_single_write D addr buf s = do {
     let s = outl D 0 SDM_STOP s;
     (ret, _, s) \<leftarrow> sdc_send_cmd D 24 (sdc_address addr s) MMC_RSP_R1 None s;
     if ret \<noteq> 0 then Some (ret, s)
     else do {
       (info2_tmp, s) \<leftarrow> sdc_wait_buffer D SDM_INFO2_BWE_BIT s;
       if info2_tmp AND SDM_INFO2_ERR_ALL \<noteq> 0
       then Some (-1, outl D (info2_tmp AND NOT SDM_INFO2_ERR_ALL) SDM_INFO2 s)
       else sdc_wait_end D (if buf \<noteq> 0 then sdc_write_block D MMC_HALF_BLOCKLEN_VAL buf s
                            else sdc_clear_block D MMC_HALF_BLOCKLEN_VAL s)
     }
   }"

primrec sdc_write_blocks :: "'d device \<Rightarrow> u32 \<Rightarrow> nat \<Rightarrow> u32 \<Rightarrow> ('d, 'z) mach_scheme \<Rightarrow> (bool \<times> ('d, 'z) mach_scheme) option" where
  "sdc_write_blocks D buf 0 tmp_buf s = Some (True, s)"
| "sdc_write_blocks D buf (Suc n) tmp_buf s = do {
     (info2_tmp, s) \<leftarrow> sdc_wait_buffer D SDM_INFO2_BWE_BIT s;
     if info2_tmp AND SDM_INFO2_ERR_ALL \<noteq> 0 then Some (False, s)
     else do {
       let (info2, s) = inl D SDM_INFO2 s;
       let s = outl D (info2 AND NOT SDM_INFO2_BWE_BIT) SDM_INFO2 s;
       if buf \<noteq> 0
       then sdc_write_blocks D buf n (tmp_buf + 512) (sdc_write_block D MMC_HALF_BLOCKLEN_VAL tmp_buf s)
       else sdc_write_blocks D buf n tmp_buf (sdc_clear_block D MMC_HALF_BLOCKLEN_VAL s)
     }
   }"

definition sdc_multi_write :: "'d device \<Rightarrow> u32 \<Rightarrow> u32 \<Rightarrow> u32 \<Rightarrow> ('d, 'z) mach_scheme \<Rightarrow> (u32 \<times> ('d, 'z) mach_scheme) option" where
  "sdc_multi_write D addr buf num s = do {
     let (stop, s) = inl D SDM_STOP s;
     let s = outl D num SDM_SECCNT (outl D (stop OR SDM_STOP_SEC_BIT) SDM_STOP s);
     (ret, _, s) \<leftarrow> sdc_send_cmd D 25 (sdc_address addr s) MMC_RSP_R1 None s;
     if ret \<noteq> 0 then Some (ret, s)
     else do {
       (ok, s) \<leftarrow> sdc_write_blocks D buf (nat (sint num)) buf s;
       if ok then sdc_wait_end D s else Some (-1, s)
     }
   }"

section \<open>Set-up and the function table\<close>

definition sdc_hw_init :: "('d, 'z) mach_scheme \<Rightarrow> ('d, 'z) mach_scheme" where
  "sdc_hw_init s = s"

definition sdc_set_blklength :: "'d device \<Rightarrow> u32 \<Rightarrow> ('d, 'z) mach_scheme \<Rightarrow> ('d, 'z) mach_scheme" where
  "sdc_set_blklength D len s = outl D len SDM_SIZE s"

definition sdc_set_buswidth :: "'d device \<Rightarrow> u32 \<Rightarrow> ('d, 'z) mach_scheme \<Rightarrow> ('d, 'z) mach_scheme" where
  "sdc_set_buswidth D width s =
     (let (v, s) = inl D SDM_OPTION s in
      if width = 1 then outl D (v OR SDM_OPT_WIDTH_BIT) SDM_OPTION s
      else outl D (v AND NOT SDM_OPT_WIDTH_BIT) SDM_OPTION s)"

definition sdc_set_clock :: "'d device \<Rightarrow> bool \<Rightarrow> u32 \<Rightarrow> ('d, 'z) mach_scheme \<Rightarrow> ('d, 'z) mach_scheme" where
  "sdc_set_clock D cpu500 clock s =
     (if clock = MMC_CLK_HIGH then outl D (SDM_CLK_HIGH_SPEED cpu500) SDM_CLK_CTRL s
      else if clock = MMC_CLK_NORMAL then outl D (SDM_CLK_NORMAL_SPEED cpu500) SDM_CLK_CTRL s
      else outl D 0x0020 SDM_CLK_CTRL s)"

definition sdc_if :: "'d device \<Rightarrow> bool \<Rightarrow> ('d, 'z) mach_scheme hw_if" where
  "sdc_if D cpu500 = \<lparr>
     send_cmd = sdc_send_cmd D,
     send_acmd = sdc_send_acmd D,
     send_extcsd = sdc_send_extcsd D,
     single_read = sdc_single_read D,
     multi_read = sdc_multi_read D,
     single_write = sdc_single_write D,
     multi_write = sdc_multi_write D,
     hw_init = sdc_hw_init,
     set_blklength = sdc_set_blklength D,
     set_buswidth = sdc_set_buswidth D,
     set_clock = (\<lambda>clock s. Some (sdc_set_clock D cpu500 clock s))\<rparr>"

section \<open>What the driver leaves alone\<close>

lemma sdm_not_port [simp]:
  "SDM_CMD \<noteq> SDM_BUF0" "SDM_ARG0 \<noteq> SDM_BUF0" "SDM_ARG1 \<noteq> SDM_BUF0" "SDM_STOP \<noteq> SDM_BUF0"
  "SDM_SECCNT \<noteq> SDM_BUF0" "SDM_INFO1 \<noteq> SDM_BUF0" "SDM_INFO2 \<noteq> SDM_BUF0"
  "SDM_INFO1_MASK \<noteq> SDM_BUF0" "SDM_INFO2_MASK \<noteq> SDM_BUF0"
  by (simp_all add: sdm_regs)

lemma sdc_wait_response_keeps:
  assumes K: "keeps D SDM_BUF0 R" and "R s"
  shows "ensures (sdc_wait_response D s) (\<lambda>p. R (snd p))"
  unfolding sdc_wait_response_def
  by (auto simp: Let_def case_prod_beta split: option.splits
      intro!: ensures_loopM [where P = R] keeps_inl [OF K] keeps_outl [OF K] assms(2))

lemma sdc_rsp_keeps: "keeps D SDM_BUF0 R \<Longrightarrow> R s \<Longrightarrow> R (snd (sdc_rsp D lo hi s))"
  by (simp add: sdc_rsp_def Let_def case_prod_beta keeps_inl)

lemma sdc_issue_keeps: "keeps D SDM_BUF0 R \<Longrightarrow> R s \<Longrightarrow> R (sdc_issue D w arg s)"
  by (simp add: sdc_issue_def keeps_outl)

lemma sdc_send_cmd_keeps:
  assumes K: "keeps D SDM_BUF0 R" and "R s"
  shows "ensures (sdc_send_cmd D c a t rs s) (\<lambda>p. R (snd (snd p)))"
  unfolding sdc_send_cmd_def
  by (auto simp: Let_def case_prod_beta split: option.splits
      intro!: ensures_weaken [OF sdc_wait_response_keeps [OF K]] ensures_loopM [where P = R]
        keeps_inl [OF K] sdc_rsp_keeps [OF K] sdc_issue_keeps [OF K] assms(2))

lemma sdc_send_acmd_keeps:
  assumes K: "keeps D SDM_BUF0 R" and "R s"
  shows "ensures (sdc_send_acmd D c a t rs s) (\<lambda>p. R (snd (snd p)))"
  unfolding sdc_send_acmd_def
  by (auto simp: Let_def case_prod_beta split: option.splits
      intro!: ensures_weaken [OF sdc_wait_response_keeps [OF K]]
        keeps_outl [OF K] sdc_rsp_keeps [OF K] assms(2))

lemma sdc_wait_buffer_keeps:
  assumes K: "keeps D SDM_BUF0 R" and "R s"
  shows "ensures (sdc_wait_buffer D m s) (\<lambda>p. R (snd p))"
  unfolding sdc_wait_buffer_def
  by (auto simp: Let_def case_prod_beta intro!: ensures_loopM [where P = R] keeps_inl [OF K] assms(2))

lemma sdc_wait_end_keeps:
  assumes K: "keeps D SDM_BUF0 R" and "R s"
  shows "ensures (sdc_wait_end D s) (\<lambda>p. R (snd p))"
  unfolding sdc_wait_end_def
  by (auto simp: Let_def case_prod_beta intro!: ensures_loopM [where P = R]
      keeps_inl [OF K] keeps_outl [OF K] assms(2))

lemmas sdc_send_cmd_still = sdc_send_cmd_keeps [OF keeps_still still_refl]
lemmas sdc_send_acmd_still = sdc_send_acmd_keeps [OF keeps_still still_refl]
lemmas sdc_wait_buffer_still = sdc_wait_buffer_keeps [OF keeps_still still_refl]
lemmas sdc_wait_end_still = sdc_wait_end_keeps [OF keeps_still still_refl]

lemma sdc_write_block_still [simp]: "still s (sdc_write_block D n p s0) \<longleftrightarrow> still s s0"
  by (induction n arbitrary: p s0) auto

lemma sdc_clear_block_still [simp]: "still s (sdc_clear_block D n s0) \<longleftrightarrow> still s s0"
  by (induction n arbitrary: s0) auto

lemma sdc_block_still2 [simp]:
  "still (sdc_write_block D n p s0) s \<longleftrightarrow> still s0 s" "still (sdc_clear_block D n s0) s \<longleftrightarrow> still s0 s"
  using sdc_write_block_still [of s0 D n p s0] sdc_clear_block_still [of s0 D n s0]
  by (auto simp: still_def quiet_def)

lemma sdc_write_blocks_still: "ensures (sdc_write_blocks D buf n p s) (\<lambda>r. still s (snd r))"
proof (induction n arbitrary: buf p s)
  case 0
  then show ?case by simp
next
  case (Suc n)
  show ?case
    by (auto simp: Let_def case_prod_beta
        intro!: ensures_still [where ?s0.0 = s, OF sdc_wait_buffer_still]
          ensures_still [where ?s0.0 = s, OF Suc.IH])
qed

lemma sdc_multi_write_still: "ensures (sdc_multi_write D a b n s) (\<lambda>r. still s (snd r))"
  unfolding sdc_multi_write_def
  by (auto simp: Let_def case_prod_beta
      intro!: ensures_still [where ?s0.0 = s, OF sdc_send_cmd_still]
        ensures_still [where ?s0.0 = s, OF sdc_write_blocks_still]
        ensures_still [where ?s0.0 = s, OF sdc_wait_end_still])

lemma sdc_single_write_still: "ensures (sdc_single_write D a b s) (\<lambda>r. still s (snd r))"
  unfolding sdc_single_write_def
  by (auto simp: Let_def case_prod_beta
      intro!: ensures_still [where ?s0.0 = s, OF sdc_send_cmd_still]
        ensures_still [where ?s0.0 = s, OF sdc_wait_buffer_still]
        ensures_still [where ?s0.0 = s, OF sdc_wait_end_still])

lemma sdc_read_block_fills: "fills b (2 * n) s (sdc_read_block D n b s)"
proof (induction n arbitrary: b s)
  case 0
  then show ?case by simp
next
  case (Suc n)
  let ?t = "snd (inl D SDM_BUF0 s)\<lparr>mem := store16 (mem s) b (ucast (fst (inl D SDM_BUF0 s)))\<rparr>"
  have "fills b (2 * Suc n) s ?t"
    by (auto simp: fills_def quiet_def intro!: only_changed_mono [OF only_changed_store16])
  moreover have "fills b (2 * Suc n) ?t (sdc_read_block D n (b + 2) ?t)"
    using Suc [of "b + 2" ?t] by (intro fills_sub [of b 2 "2 * n"]) auto
  ultimately show ?case
    by (auto simp: Let_def case_prod_beta intro: fills_trans)
qed

lemma sdc_read_512_fills: "512 \<le> n \<Longrightarrow> fills b n s0 s \<Longrightarrow>
    fills b n s0 (sdc_read_block D MMC_HALF_BLOCKLEN_VAL b s)"
  using sdc_read_block_fills [of b 256 s D]
  by (auto simp: mmc_consts intro: fills_trans fills_mono)

lemma sdc_single_read_fills: "ensures (sdc_single_read D a b s) (\<lambda>r. fills b 512 s (snd r))"
  unfolding sdc_single_read_def
  by (auto simp: Let_def case_prod_beta
      intro!: ensures_still_fills [where ?s0.0 = s, OF sdc_send_cmd_still]
        ensures_still_fills [where ?s0.0 = s, OF sdc_wait_buffer_still]
        ensures_still_fills [where ?s0.0 = s, OF sdc_wait_end_still] sdc_read_512_fills)

lemma sdc_read_blocks_fills:
  "ensures (sdc_read_blocks D n b s) (\<lambda>r. fills b (512 * n) s (snd r))"
proof (induction n arbitrary: b s)
  case 0
  then show ?case by simp
next
  case (Suc n)
  have IH: "ensures (sdc_read_blocks D n (b + 512) t) (\<lambda>r. fills b (512 * Suc n) t (snd r))"
    for t :: "('a, 'b) mach_scheme"
    by (rule ensures_weaken [OF Suc.IH]) (auto intro: fills_sub [of b 512])
  show ?case
    by (auto simp: Let_def case_prod_beta simp del: mult_Suc_right
        intro!: ensures_still_fills [where ?s0.0 = s, OF sdc_wait_buffer_still]
          ensures_fills [where ?s0.0 = s, OF IH] sdc_read_512_fills)
qed

lemma sdc_multi_read_fills:
  "ensures (sdc_multi_read D a b n s) (\<lambda>r. fills b (512 * nat (sint n)) s (snd r))"
  unfolding sdc_multi_read_def
  by (auto simp: Let_def case_prod_beta
      intro!: ensures_still_fills [where ?s0.0 = s, OF sdc_send_cmd_still]
        ensures_fills [where ?s0.0 = s, OF sdc_read_blocks_fills]
        ensures_still_fills [where ?s0.0 = s, OF sdc_wait_end_still])

interpretation sdc: block_io "sdc_if D cpu500" for D cpu500
  by unfold_locales
    (auto simp: sdc_if_def sdc_hw_init_def sdc_set_buswidth_def sdc_set_clock_def Let_def case_prod_beta
      dest: ensuresD [OF sdc_send_cmd_still] ensuresD [OF sdc_send_acmd_still]
        ensuresD [OF sdc_single_read_fills] ensuresD [OF sdc_multi_read_fills]
        ensuresD [OF sdc_multi_write_still])

section \<open>What the driver writes\<close>

text \<open>The half words of a buffer, as the 16-bit data port gets them.\<close>

definition half_words :: "(u32 \<Rightarrow> u8) \<Rightarrow> u32 \<Rightarrow> nat \<Rightarrow> u32 list" where
  "half_words m b n = map (\<lambda>i. ucast (load16 m (b + of_nat (2 * i)))) [0..<n]"

definition sdc_payload :: "(u32 \<Rightarrow> u8) \<Rightarrow> u32 \<Rightarrow> nat \<Rightarrow> u32 list" where
  "sdc_payload m b n = (if b = 0 then replicate n 0 else half_words m b n)"

lemma half_words_append: "half_words m b (j + k) = half_words m b j @ half_words m (b + of_nat (2 * j)) k"
  by (rule nth_equalityI) (auto simp: half_words_def nth_append algebra_simps of_nat_diff)

lemma sdc_write_block_logged:
  assumes R: "records D SDM_BUF0 log"
  shows "logged log m l s \<Longrightarrow> logged log m (l @ half_words m p n) (sdc_write_block D n p s)"
proof (induction n arbitrary: p s l)
  case 0
  then show ?case by (simp add: half_words_def)
next
  case (Suc n)
  have "mem s = m" using Suc.prems by (simp add: logged_def)
  then have "logged log m (l @ half_words m p 1) (outl D (ucast (load16 (mem s) p)) SDM_BUF0 s)"
    using logged_port [OF R Suc.prems] by (simp add: half_words_def)
  from Suc.IH [OF this, of "p + 2"] show ?case
    using half_words_append [of m p 1 n] by simp
qed

lemma sdc_clear_block_logged:
  assumes R: "records D SDM_BUF0 log"
  shows "logged log m l s \<Longrightarrow> logged log m (l @ replicate n 0) (sdc_clear_block D n s)"
proof (induction n arbitrary: s l)
  case (Suc n)
  from Suc.IH [OF logged_port [OF R Suc.prems, of 0]] show ?case by simp
qed simp

lemma sdc_write_blocks_logged:
  fixes s :: "('d, 'z) mach_scheme"
  assumes R: "records D SDM_BUF0 log"
  shows "logged log m l s \<Longrightarrow> ensures (sdc_write_blocks D b n p s)
    (\<lambda>r. fst r \<longrightarrow> logged log m (l @ (if b = 0 then replicate (256 * n) 0 else half_words m p (256 * n))) (snd r))"
proof (induction n arbitrary: p s l)
  case 0
  then show ?case by (simp add: half_words_def)
next
  case (Suc n)
  note K = keeps_logged [OF R]
  show ?case
  proof (cases "b = 0")
    case True
    have IH: "ensures (sdc_write_blocks D 0 n p s1)
        (\<lambda>r. fst r \<longrightarrow> logged log m (l @ replicate (256 + 256 * n) 0) (snd r))"
      if "logged log m (l @ replicate 256 0) s1" for s1 :: "('d, 'z) mach_scheme"
      using Suc.IH [OF that, of p] True by (simp add: replicate_add)
    show ?thesis
      by (auto simp: True Let_def case_prod_beta MMC_HALF_BLOCKLEN_VAL_def
          intro!: ensures_weaken [OF sdc_wait_buffer_keeps [OF K Suc.prems]] ensures_weaken [OF IH]
            sdc_clear_block_logged [OF R] keeps_inl [OF K] keeps_outl [OF K])
  next
    case False
    have IH: "ensures (sdc_write_blocks D b n (p + 512) s1)
        (\<lambda>r. fst r \<longrightarrow> logged log m (l @ half_words m p (256 + 256 * n)) (snd r))"
      if "logged log m (l @ half_words m p 256) s1" for s1 :: "('d, 'z) mach_scheme"
      using Suc.IH [OF that, of "p + 512"] False half_words_append [of m p 256 "256 * n"] by simp
    from False show ?thesis
      by (auto simp: Let_def case_prod_beta MMC_HALF_BLOCKLEN_VAL_def
          intro!: ensures_weaken [OF sdc_wait_buffer_keeps [OF K Suc.prems]] ensures_weaken [OF IH]
            sdc_write_block_logged [OF R] keeps_inl [OF K] keeps_outl [OF K])
  qed
qed

text \<open>
  C33: a multi-block write of the SD driver that reports success has sent the whole buffer,
  half word by half word and in order, through the data port; a \<open>NULL\<close> buffer sends zeros.
\<close>

theorem sdc_multi_write_delivers:
  assumes R: "records D SDM_BUF0 log" and run: "sdc_multi_write D a b n s = Some (0, s')"
  shows "log (dev s') = log (dev s) @ sdc_payload (mem s) b (256 * nat (sint n))"
proof -
  note K = keeps_logged [OF R]
  have s: "logged log (mem s) (log (dev s)) s" by (simp add: logged_def)
  have "ensures (sdc_multi_write D a b n s) (\<lambda>r. fst r = 0 \<longrightarrow>
      logged log (mem s) (log (dev s) @ sdc_payload (mem s) b (256 * nat (sint n))) (snd r))"
    unfolding sdc_multi_write_def sdc_payload_def
    by (auto simp: Let_def case_prod_beta intro!: ensures_weaken [OF sdc_send_cmd_keeps [OF K]]
        ensures_weaken [OF sdc_write_blocks_logged [OF R]] ensures_weaken [OF sdc_wait_end_keeps [OF K]]
        keeps_inl [OF K] keeps_outl [OF K] s)
  from ensuresD [OF this run] show ?thesis by (simp add: logged_def)
qed

section \<open>A card that records what it is sent\<close>

definition recording_card :: "u32 list device" where
  "recording_card = \<lparr>
     dread = (\<lambda>a d. (if a = SDM_INFO1 then SDM_INFO1_RES_END OR SDM_INFO1_RES_RW_END
        else if a = SDM_INFO2 then SDM_INFO2_BWE_BIT else 0, d)),
     dwrite = (\<lambda>a v d. if a = SDM_BUF0 then d @ [v] else d)\<rparr>"

lemma recording_card_reads [simp]:
  "inl recording_card SDM_INFO1 s = (5, s)" "inl recording_card SDM_INFO2 s = (0x200, s)"
  "inl recording_card SDM_STOP s = (0, s)"
  by (simp_all add: inl_def recording_card_def sdm_regs sdm_bits)

lemma recording_card_writes [simp]:
  "a \<noteq> SDM_BUF0 \<Longrightarrow> outl recording_card v a s = s" "outl recording_card v SDM_BUF0 s = s\<lparr>dev := dev s @ [v]\<rparr>"
  by (simp_all add: outl_def recording_card_def)

lemma recording_card_clear [simp]:
  "sdc_clear_block recording_card n s = s\<lparr>dev := dev s @ replicate n 0\<rparr>"
  by (induction n arbitrary: s) simp_all

theorem sdc_multi_write_delivers_witness:
  "\<exists>s'. sdc_multi_write recording_card 9 0 1 \<lparr>mem = (\<lambda>_. 7), dev = [], outp = []\<rparr> = Some (0, s') \<and>
     dev s' = replicate 256 0"
proof -
  let ?s = "\<lparr>mem = (\<lambda>_. 7), dev = [], outp = []\<rparr> :: u32 list mach"
  have "\<exists>s'. sdc_multi_write recording_card 9 0 1 ?s = Some (0, s')"
    by (simp add: sdc_multi_write_def sdc_send_cmd_def sdc_issue_def sdc_wait_response_def
        sdc_wait_buffer_def sdc_wait_end_def loopM.simps sdm_bits mmc_consts)
  then obtain s' where run: "sdc_multi_write recording_card 9 0 1 ?s = Some (0, s')" by blast
  have "records recording_card SDM_BUF0 (\<lambda>d. d)"
    by (simp add: records_def recording_card_def)
  from sdc_multi_write_delivers [OF this run] show ?thesis
    by (simp add: run sdc_payload_def)
qed

end
