(* ===== verification/SdCard.thy ===== *)
theory SdCard
  imports Sdc
begin

text \<open>
  What the SD driver \<open>sdc.c\<close> achieves on a card that follows its data sheet. The peripheral
  stays a parameter; \<open>sd_card\<close> states the part of the documented behaviour of controller and
  card that the read functions rely on, as laws between register accesses and an abstract
  view: the argument and block count registers as latches, the status bits that come up
  after finitely many polls, and a data port that delivers the addressed bytes in order.
\<close>

section \<open>The abstract card\<close>

record sd_view =
  argument :: u32
  sec_enable :: bool
  sec_count :: nat
  port_pos :: nat
  port_left :: nat

text \<open>The half word at byte position \<open>p\<close> of the disk, as the data port delivers it.\<close>

definition disk_half :: "(nat \<Rightarrow> u8) \<Rightarrow> nat \<Rightarrow> u16" where
  "disk_half disk p = ucast (disk p) OR push_bit 8 (ucast (disk (p + 1)))"

text \<open>Where a read command starts: byte addresses on standard cards, sectors on high capacity cards.\<close>

definition start_pos :: "bool \<Rightarrow> u32 \<Rightarrow> nat" where
  "start_pos hc a = (if hc then 512 * unat a else unat a)"

definition sd_status_laws :: "'d device \<Rightarrow> ('d \<Rightarrow> bool) \<Rightarrow> ('d \<Rightarrow> sd_view) \<Rightarrow> ('d \<Rightarrow> nat) \<Rightarrow> bool" where
  "sd_status_laws D ok view lag \<longleftrightarrow> (\<forall>d. ok d \<longrightarrow>
     (case dread D SDM_INFO1 d of (v, d') \<Rightarrow> ok d' \<and> view d' = view d \<and> lag d' \<le> lag d \<and>
        (v AND SDM_INFO1_RES_END = 0 \<longrightarrow> lag d' < lag d) \<and>
        (port_left (view d) = 0 \<longrightarrow> v AND SDM_INFO1_RES_RW_END = 0 \<longrightarrow> lag d' < lag d)) \<and>
     (case dread D SDM_INFO2 d of (v, d') \<Rightarrow> ok d' \<and> view d' = view d \<and> lag d' \<le> lag d \<and>
        v AND SDM_INFO2_ERR_ALL = 0 \<and>
        (0 < port_left (view d) \<longrightarrow> v AND SDM_INFO2_BRE_BIT = 0 \<longrightarrow> lag d' < lag d)))"

definition sd_port_laws :: "'d device \<Rightarrow> ('d \<Rightarrow> bool) \<Rightarrow> ('d \<Rightarrow> sd_view) \<Rightarrow> (nat \<Rightarrow> u8) \<Rightarrow> bool" where
  "sd_port_laws D ok view disk \<longleftrightarrow> (\<forall>d. ok d \<longrightarrow> 0 < port_left (view d) \<longrightarrow>
     (case dread D SDM_BUF0 d of (v, d') \<Rightarrow> ok d' \<and>
        ucast v = disk_half disk (port_pos (view d)) \<and>
        view d' = (view d)\<lparr>port_pos := port_pos (view d) + 2, port_left := port_left (view d) - 1\<rparr>))"

definition sd_register_laws :: "'d device \<Rightarrow> ('d \<Rightarrow> bool) \<Rightarrow> ('d \<Rightarrow> sd_view) \<Rightarrow> bool \<Rightarrow> bool" where
  "sd_register_laws D ok view hc \<longleftrightarrow> (\<forall>d v. ok d \<longrightarrow>
     (case dread D SDM_STOP d of (v, d') \<Rightarrow> ok d' \<and> view d' = view d) \<and>
     ok (dwrite D SDM_INFO1 v d) \<and> view (dwrite D SDM_INFO1 v d) = view d \<and>
     ok (dwrite D SDM_INFO2 v d) \<and> view (dwrite D SDM_INFO2 v d) = view d \<and>
     ok (dwrite D SDM_STOP v d) \<and>
     view (dwrite D SDM_STOP v d) = (view d)\<lparr>sec_enable := v AND SDM_STOP_SEC_BIT \<noteq> 0\<rparr> \<and>
     ok (dwrite D SDM_SECCNT v d) \<and>
     (unat v < 2 ^ 16 \<longrightarrow> view (dwrite D SDM_SECCNT v d) = (view d)\<lparr>sec_count := unat v\<rparr>) \<and>
     ok (dwrite D SDM_ARG0 v d) \<and> view (dwrite D SDM_ARG0 v d) =
       (view d)\<lparr>argument := (argument (view d) AND NOT 0xffff) OR (v AND 0xffff)\<rparr> \<and>
     ok (dwrite D SDM_ARG1 v d) \<and> view (dwrite D SDM_ARG1 v d) =
       (view d)\<lparr>argument := (argument (view d) AND 0xffff) OR push_bit 16 (v AND 0xffff)\<rparr> \<and>
     ok (dwrite D SDM_CMD 0x1811 d) \<and> view (dwrite D SDM_CMD 0x1811 d) =
       (view d)\<lparr>port_pos := start_pos hc (argument (view d)), port_left := 256\<rparr> \<and>
     ok (dwrite D SDM_CMD 0x3812 d) \<and>
     (sec_enable (view d) \<longrightarrow> view (dwrite D SDM_CMD 0x3812 d) =
       (view d)\<lparr>port_pos := start_pos hc (argument (view d)), port_left := 256 * sec_count (view d)\<rparr>))"

definition sd_card where
  "sd_card D ok view lag hc disk \<longleftrightarrow>
     sd_status_laws D ok view lag \<and> sd_port_laws D ok view disk \<and> sd_register_laws D ok view hc"

section \<open>The driver's steps on such a card\<close>

text \<open>\<open>card_in ok view s0 w s\<close>: since \<open>s0\<close> only the peripheral moved, and the card shows \<open>w\<close>.\<close>

definition card_in where
  "card_in ok view s0 w s \<longleftrightarrow> still s0 s \<and> ok (dev s) \<and> view (dev s) = w"

lemma card_in_inl_INFO1:
  assumes "sd_card D ok view lag hc disk" and "card_in ok view s0 w s"
  shows "card_in ok view s0 w (snd (inl D SDM_INFO1 s))"
    "fst (inl D SDM_INFO1 s) AND SDM_INFO1_RES_END = 0 \<Longrightarrow> lag (dev (snd (inl D SDM_INFO1 s))) < lag (dev s)"
    "port_left w = 0 \<Longrightarrow> fst (inl D SDM_INFO1 s) AND SDM_INFO1_RES_RW_END = 0 \<Longrightarrow>
       lag (dev (snd (inl D SDM_INFO1 s))) < lag (dev s)"
proof -
  obtain v d' where r: "dread D SDM_INFO1 (dev s) = (v, d')" by fastforce
  have "ok d' \<and> view d' = view (dev s) \<and> lag d' \<le> lag (dev s) \<and>
      (v AND SDM_INFO1_RES_END = 0 \<longrightarrow> lag d' < lag (dev s)) \<and>
      (port_left (view (dev s)) = 0 \<longrightarrow> v AND SDM_INFO1_RES_RW_END = 0 \<longrightarrow> lag d' < lag (dev s))"
    using assms r by (simp add: sd_card_def sd_status_laws_def card_in_def case_prod_beta) (metis fst_conv snd_conv)
  then show "card_in ok view s0 w (snd (inl D SDM_INFO1 s))"
    "fst (inl D SDM_INFO1 s) AND SDM_INFO1_RES_END = 0 \<Longrightarrow> lag (dev (snd (inl D SDM_INFO1 s))) < lag (dev s)"
    "port_left w = 0 \<Longrightarrow> fst (inl D SDM_INFO1 s) AND SDM_INFO1_RES_RW_END = 0 \<Longrightarrow>
       lag (dev (snd (inl D SDM_INFO1 s))) < lag (dev s)"
    using assms(2) by (simp_all add: card_in_def inl_def r still_def quiet_def)
qed

lemma card_in_inl_INFO2:
  assumes "sd_card D ok view lag hc disk" and "card_in ok view s0 w s"
  shows "card_in ok view s0 w (snd (inl D SDM_INFO2 s))"
    "fst (inl D SDM_INFO2 s) AND SDM_INFO2_ERR_ALL = 0"
    "lag (dev (snd (inl D SDM_INFO2 s))) \<le> lag (dev s)"
    "0 < port_left w \<Longrightarrow> fst (inl D SDM_INFO2 s) AND SDM_INFO2_BRE_BIT = 0 \<Longrightarrow>
       lag (dev (snd (inl D SDM_INFO2 s))) < lag (dev s)"
proof -
  obtain v d' where r: "dread D SDM_INFO2 (dev s) = (v, d')" by fastforce
  have "ok d' \<and> view d' = view (dev s) \<and> lag d' \<le> lag (dev s) \<and> v AND SDM_INFO2_ERR_ALL = 0 \<and>
      (0 < port_left (view (dev s)) \<longrightarrow> v AND SDM_INFO2_BRE_BIT = 0 \<longrightarrow> lag d' < lag (dev s))"
    using assms r by (simp add: sd_card_def sd_status_laws_def card_in_def case_prod_beta) (metis fst_conv snd_conv)
  then show "card_in ok view s0 w (snd (inl D SDM_INFO2 s))"
    "fst (inl D SDM_INFO2 s) AND SDM_INFO2_ERR_ALL = 0"
    "lag (dev (snd (inl D SDM_INFO2 s))) \<le> lag (dev s)"
    "0 < port_left w \<Longrightarrow> fst (inl D SDM_INFO2 s) AND SDM_INFO2_BRE_BIT = 0 \<Longrightarrow>
       lag (dev (snd (inl D SDM_INFO2 s))) < lag (dev s)"
    using assms(2) by (simp_all add: card_in_def inl_def r still_def quiet_def)
qed

text \<open>The effect of a register write on what is known of the card.\<close>

lemma card_in_outl:
  assumes "sd_card D ok view lag hc disk" and "card_in ok view s0 w s"
  shows "card_in ok view s0 w (outl D v SDM_INFO1 s)"
    "card_in ok view s0 w (outl D v SDM_INFO2 s)"
    "card_in ok view s0 (w\<lparr>sec_enable := v AND SDM_STOP_SEC_BIT \<noteq> 0\<rparr>) (outl D v SDM_STOP s)"
    "unat v < 2 ^ 16 \<Longrightarrow> card_in ok view s0 (w\<lparr>sec_count := unat v\<rparr>) (outl D v SDM_SECCNT s)"
    "card_in ok view s0 (w\<lparr>argument := (argument w AND NOT 0xffff) OR (v AND 0xffff)\<rparr>) (outl D v SDM_ARG0 s)"
    "card_in ok view s0 (w\<lparr>argument := (argument w AND 0xffff) OR push_bit 16 (v AND 0xffff)\<rparr>) (outl D v SDM_ARG1 s)"
    "card_in ok view s0 (w\<lparr>port_pos := start_pos hc (argument w), port_left := 256\<rparr>) (outl D 0x1811 SDM_CMD s)"
    "sec_enable w \<Longrightarrow> card_in ok view s0
       (w\<lparr>port_pos := start_pos hc (argument w), port_left := 256 * sec_count w\<rparr>) (outl D 0x3812 SDM_CMD s)"
  using assms unfolding sd_card_def sd_register_laws_def card_in_def
  by (simp_all add: outl_def still_def quiet_def)

lemma card_in_inl_STOP:
  assumes "sd_card D ok view lag hc disk" and "card_in ok view s0 w s"
  shows "card_in ok view s0 w (snd (inl D SDM_STOP s))"
proof -
  obtain v d' where r: "dread D SDM_STOP (dev s) = (v, d')" by fastforce
  have "ok d' \<and> view d' = view (dev s)"
    using assms r by (simp add: sd_card_def sd_register_laws_def card_in_def case_prod_beta) (metis snd_conv)
  then show ?thesis
    using assms(2) by (simp add: card_in_def inl_def r still_def quiet_def)
qed

lemma two_halves:
  fixes x a :: u32
  shows "((x AND NOT 0xffff OR (a AND 0xffff AND 0xffff)) AND 0xffff)
    OR push_bit 16 (drop_bit 16 a AND 0xffff AND 0xffff) = a"
proof -
  have m: "(0xffff :: u32) = mask 16" by (simp add: mask_eq_exp_minus_1)
  show ?thesis
    unfolding m
    by (rule bit_word_eqI)
      (auto simp: bit_or_iff bit_and_iff bit_not_iff bit_push_bit_iff bit_drop_bit_eq bit_mask_iff)
qed

lemma card_in_issue:
  assumes C: "sd_card D ok view lag hc disk" and "card_in ok view s0 w s"
  shows "card_in ok view s0 (w\<lparr>argument := a, port_pos := start_pos hc a, port_left := 256\<rparr>)
      (sdc_issue D 0x1811 a s)"
    "sec_enable w \<Longrightarrow> card_in ok view s0
      (w\<lparr>argument := a, port_pos := start_pos hc a, port_left := 256 * sec_count w\<rparr>)
      (sdc_issue D 0x3812 a s)"
proof -
  let ?s = "outl D (drop_bit 16 a AND 0xffff) SDM_ARG1 (outl D (a AND 0xffff) SDM_ARG0
       (outl D SDM_INFO_CLEAR SDM_INFO2 (outl D SDM_INFO_CLEAR SDM_INFO1 s)))"
  have "card_in ok view s0 (w\<lparr>argument := a\<rparr>) ?s"
    using card_in_outl(6) [OF C card_in_outl(5) [OF C card_in_outl(2) [OF C card_in_outl(1) [OF assms,
          of SDM_INFO_CLEAR], of SDM_INFO_CLEAR], of "a AND 0xffff"], of "drop_bit 16 a AND 0xffff"]
      two_halves [of "argument w" a]
    by simp
  from card_in_outl(7,8) [OF C this] show
    "card_in ok view s0 (w\<lparr>argument := a, port_pos := start_pos hc a, port_left := 256\<rparr>)
      (sdc_issue D 0x1811 a s)"
    "sec_enable w \<Longrightarrow> card_in ok view s0
      (w\<lparr>argument := a, port_pos := start_pos hc a, port_left := 256 * sec_count w\<rparr>)
      (sdc_issue D 0x3812 a s)"
    by (simp_all add: sdc_issue_def)
qed

lemma sdc_wait_response_card:
  assumes C: "sd_card D ok view lag hc disk" and "card_in ok view s0 w s"
  shows "\<exists>s'. sdc_wait_response D s = Some (0, s') \<and> card_in ok view s0 w s'"
proof -
  let ?body = "\<lambda>s. let (info1, s) = inl D SDM_INFO1 s in
         if info1 AND SDM_INFO1_RES_END \<noteq> 0 then Some (Some None, s)
         else let (info2, s) = inl D SDM_INFO2 s; info2_val = info2 AND SDM_INFO2_ERR_ALL in
           if info2_val \<noteq> 0
           then Some (Some (Some info2_val), outl D (info2_val AND NOT SDM_INFO2_ERR_ALL) SDM_INFO2 s)
           else Some (None, s)"
  have "\<exists>v s'. loopM ?body s = Some (v, s') \<and> v = None \<and> card_in ok view s0 w s'"
  proof (rule loopM_total [where P = "card_in ok view s0 w" and f = "\<lambda>s. lag (dev s)"])
    fix s assume s: "card_in ok view s0 w s"
    note i1 = card_in_inl_INFO1 [OF C s] and i2 = card_in_inl_INFO2 [OF C card_in_inl_INFO1(1) [OF C s]]
    show "\<exists>r s1. ?body s = Some (r, s1) \<and> (case r of None \<Rightarrow> card_in ok view s0 w s1 \<and> lag (dev s1) < lag (dev s)
        | Some v \<Rightarrow> v = None \<and> card_in ok view s0 w s1)"
      using i1(1,2) i2(1-3) by (auto simp: Let_def case_prod_beta)
  qed (use assms in simp)
  then obtain s1 where l: "loopM ?body s = Some (None, s1)" and s1: "card_in ok view s0 w s1" by blast
  note i2 = card_in_inl_INFO2 [OF C s1] and i1 = card_in_inl_INFO1 [OF C card_in_inl_INFO2(1) [OF C s1]]
  show ?thesis
    unfolding sdc_wait_response_def
    using l i2(2) card_in_outl(1) [OF C i1(1)] by (simp add: Let_def case_prod_beta)
qed

text \<open>The two read commands: no response is asked for, and R1 needs no busy wait.\<close>

lemma sdc_send_cmd_read:
  assumes C: "sd_card D ok view lag hc disk" and "card_in ok view s0 w s"
  shows "\<exists>s'. sdc_send_cmd D 17 a MMC_RSP_R1 None s = Some (0, None, s') \<and>
      card_in ok view s0 (w\<lparr>argument := a, port_pos := start_pos hc a, port_left := 256\<rparr>) s'"
    "sec_enable w \<Longrightarrow> \<exists>s'. sdc_send_cmd D 18 a MMC_RSP_R1 None s = Some (0, None, s') \<and>
      card_in ok view s0 (w\<lparr>argument := a, port_pos := start_pos hc a, port_left := 256 * sec_count w\<rparr>) s'"
  using sdc_wait_response_card [OF C card_in_issue(1) [OF assms, of a]]
    sdc_wait_response_card [OF C card_in_issue(2) [OF assms, of a]]
  by (auto simp: sdc_send_cmd_def sdc_cmd_word_def mmc_consts)

lemma sdc_wait_buffer_card:
  assumes C: "sd_card D ok view lag hc disk" and "card_in ok view s0 w s" and "0 < port_left w"
  shows "\<exists>v s'. sdc_wait_buffer D SDM_INFO2_BRE_BIT s = Some (v, s') \<and>
      v AND SDM_INFO2_ERR_ALL = 0 \<and> card_in ok view s0 w s'"
  unfolding sdc_wait_buffer_def
proof (rule loopM_total [where P = "card_in ok view s0 w" and f = "\<lambda>s. lag (dev s)"])
  fix s assume s: "card_in ok view s0 w s"
  show "\<exists>r s1. (let (info2_tmp, s) = inl D SDM_INFO2 s
        in Some (if info2_tmp AND (SDM_INFO2_BRE_BIT OR SDM_INFO2_ERR_ALL) \<noteq> 0 then Some info2_tmp else None, s)) =
          Some (r, s1) \<and>
      (case r of None \<Rightarrow> card_in ok view s0 w s1 \<and> lag (dev s1) < lag (dev s)
       | Some v \<Rightarrow> v AND SDM_INFO2_ERR_ALL = 0 \<and> card_in ok view s0 w s1)"
    using card_in_inl_INFO2 [OF C s] assms(3)
    by (auto simp: Let_def case_prod_beta bit.conj_disj_distrib or_eq_0_iff)
qed (use assms in simp)

lemma sdc_wait_end_card:
  assumes C: "sd_card D ok view lag hc disk" and "card_in ok view s0 w s" and "port_left w = 0"
  shows "\<exists>s'. sdc_wait_end D s = Some (0, s') \<and> card_in ok view s0 w s'"
proof -
  let ?body = "\<lambda>s. let (info1, s) = inl D SDM_INFO1 s in
         if info1 AND SDM_INFO1_RES_RW_END \<noteq> 0 then Some (Some True, s)
         else let (info2, s) = inl D SDM_INFO2 s in
           if info2 AND SDM_INFO2_ERR_ALL \<noteq> 0
           then let (info2, s) = inl D SDM_INFO2 s
                in Some (Some False, outl D (info2 AND NOT SDM_INFO2_ERR_ALL) SDM_INFO2 s)
           else Some (None, s)"
  have "\<exists>v s'. loopM ?body s = Some (v, s') \<and> v = True \<and> card_in ok view s0 w s'"
  proof (rule loopM_total [where P = "card_in ok view s0 w" and f = "\<lambda>s. lag (dev s)"])
    fix s assume s: "card_in ok view s0 w s"
    note i1 = card_in_inl_INFO1 [OF C s] and i2 = card_in_inl_INFO2 [OF C card_in_inl_INFO1(1) [OF C s]]
    show "\<exists>r s1. ?body s = Some (r, s1) \<and> (case r of None \<Rightarrow> card_in ok view s0 w s1 \<and> lag (dev s1) < lag (dev s)
        | Some v \<Rightarrow> v = True \<and> card_in ok view s0 w s1)"
      using i1(1,3) i2(1-3) assms(3) by (auto simp: Let_def case_prod_beta)
  qed (use assms in simp)
  then obtain s1 where l: "loopM ?body s = Some (True, s1)" and s1: "card_in ok view s0 w s1" by blast
  show ?thesis
    unfolding sdc_wait_end_def
    using l card_in_outl(1) [OF C card_in_inl_INFO1(1) [OF C s1]] by (simp add: Let_def case_prod_beta)
qed

section \<open>The reads deliver the disk\<close>

lemma store16_disk: "store16 m b (disk_half disk p) = blit m b 2 (\<lambda>i. disk (p + i))"
proof -
  have lo: "ucast (disk_half disk p) = disk p"
    by (rule bit_word_eqI) (auto simp: disk_half_def bit_simps)
  have hi: "ucast (drop_bit 8 (disk_half disk p)) = disk (p + 1)"
    by (rule bit_word_eqI) (auto simp: disk_half_def bit_simps dest: bit_imp_le_length)
  show ?thesis
    unfolding store16_blit lo hi
    by (rule ext) (auto simp: blit_def less_2_cases_iff)
qed

lemma sdc_read_block_card:
  assumes C: "sd_card D ok view lag hc disk"
  shows "ok (dev s) \<Longrightarrow> n \<le> port_left (view (dev s)) \<Longrightarrow> 2 * n \<le> 2 ^ 32 \<Longrightarrow>
    ok (dev (sdc_read_block D n b s)) \<and> quiet s (sdc_read_block D n b s) \<and>
    view (dev (sdc_read_block D n b s)) = (view (dev s))\<lparr>port_pos := port_pos (view (dev s)) + 2 * n,
        port_left := port_left (view (dev s)) - n\<rparr> \<and>
    mem (sdc_read_block D n b s) = blit (mem s) b (2 * n) (\<lambda>i. disk (port_pos (view (dev s)) + i))"
proof (induction n arbitrary: b s)
  case 0
  then show ?case by simp
next
  case (Suc n)
  define w where "w = view (dev s)"
  obtain v d' where r: "dread D SDM_BUF0 (dev s) = (v, d')" by fastforce
  have port: "ok d' \<and> ucast v = disk_half disk (port_pos w) \<and>
      view d' = w\<lparr>port_pos := port_pos w + 2, port_left := port_left w - 1\<rparr>"
    using C r Suc.prems by (fastforce simp: sd_card_def sd_port_laws_def w_def)
  define s1 where "s1 = s\<lparr>dev := d', mem := store16 (mem s) b (ucast v)\<rparr>"
  have step: "sdc_read_block D (Suc n) b s = sdc_read_block D n (b + 2) s1"
    by (simp add: inl_def r s1_def)
  have m1: "mem s1 = blit (mem s) b 2 (\<lambda>i. disk (port_pos w + i))"
    using port by (simp add: s1_def store16_disk)
  have v1: "view (dev s1) = w\<lparr>port_pos := port_pos w + 2, port_left := port_left w - 1\<rparr>"
    using port by (simp add: s1_def)
  have q1: "quiet s s1" by (simp add: quiet_def s1_def)
  have pos: "port_pos (view (dev s1)) = port_pos w + 2" by (simp add: v1)
  have IH: "ok (dev (sdc_read_block D n (b + 2) s1)) \<and> quiet s1 (sdc_read_block D n (b + 2) s1) \<and>
      view (dev (sdc_read_block D n (b + 2) s1)) = (view (dev s1))\<lparr>port_pos := port_pos w + 2 + 2 * n,
          port_left := port_left (view (dev s1)) - n\<rparr> \<and>
      mem (sdc_read_block D n (b + 2) s1) = blit (mem s1) (b + 2) (2 * n) (\<lambda>i. disk (port_pos w + 2 + i))"
    unfolding pos [symmetric] by (rule Suc.IH) (use Suc.prems port v1 in \<open>simp_all add: s1_def w_def\<close>)
  moreover have "blit (mem s1) (b + 2) (2 * n) (\<lambda>i. disk (port_pos w + 2 + i)) =
      blit (mem s) b (2 * Suc n) (\<lambda>i. disk (port_pos w + i))"
    using blit_append [of 2 "2 * n" "mem s" b "\<lambda>i. disk (port_pos w + i)"] Suc.prems(3)
    by (simp add: m1 add.assoc)
  ultimately show ?case
    unfolding step using q1 by (auto simp: v1 w_def [symmetric] intro: quiet_trans)
qed

text \<open>The same for the block loop of a multi-block read.\<close>

lemma sdc_read_blocks_card:
  assumes C: "sd_card D ok view lag hc disk"
  shows "ok (dev s) \<Longrightarrow> port_left (view (dev s)) = 256 * n \<Longrightarrow> 512 * n \<le> 2 ^ 32 \<Longrightarrow>
    \<exists>s'. sdc_read_blocks D n b s = Some (True, s') \<and> ok (dev s') \<and> quiet s s' \<and>
      port_left (view (dev s')) = 0 \<and>
      mem s' = blit (mem s) b (512 * n) (\<lambda>i. disk (port_pos (view (dev s)) + i))"
proof (induction n arbitrary: b s)
  case 0
  then show ?case by simp
next
  case (Suc n)
  define w where "w = view (dev s)"
  have "card_in ok view s w s" using Suc.prems by (simp add: card_in_def w_def)
  from sdc_wait_buffer_card [OF C this] Suc.prems obtain v s1
    where wb: "sdc_wait_buffer D SDM_INFO2_BRE_BIT s = Some (v, s1)"
      and v: "v AND SDM_INFO2_ERR_ALL = 0" and s1: "card_in ok view s w s1"
    by (auto simp: w_def)
  define s2 where "s2 = outl D (fst (inl D SDM_INFO2 s1) AND NOT SDM_INFO2_BRE_BIT) SDM_INFO2 (snd (inl D SDM_INFO2 s1))"
  have s2: "card_in ok view s w s2"
    unfolding s2_def by (rule card_in_outl(2) [OF C card_in_inl_INFO2(1) [OF C s1]])
  define s3 where "s3 = sdc_read_block D 256 b s2"
  have blk: "ok (dev s3) \<and> quiet s2 s3 \<and> view (dev s3) =
       w\<lparr>port_pos := port_pos w + 512, port_left := 256 * n\<rparr> \<and>
       mem s3 = blit (mem s) b 512 (\<lambda>i. disk (port_pos w + i))"
    using sdc_read_block_card [OF C, of s2 256 b] s2 Suc.prems
    by (simp add: s3_def card_in_def still_def w_def)
  have q3: "quiet s s3"
    using s2 blk quiet_trans by (auto simp: card_in_def still_def)
  have "\<exists>s'. sdc_read_blocks D n (b + 512) s3 = Some (True, s') \<and> ok (dev s') \<and> quiet s3 s' \<and>
      port_left (view (dev s')) = 0 \<and>
      mem s' = blit (mem s3) (b + 512) (512 * n) (\<lambda>i. disk (port_pos (view (dev s3)) + i))"
    by (rule Suc.IH) (use blk Suc.prems in simp_all)
  moreover have "blit (mem s3) (b + 512) (512 * n) (\<lambda>i. disk (port_pos (view (dev s3)) + i)) =
      blit (mem s) b (512 * Suc n) (\<lambda>i. disk (port_pos w + i))"
    using blit_append [of 512 "512 * n" "mem s" b "\<lambda>i. disk (port_pos w + i)"] Suc.prems(3)
    by (simp add: blk add.assoc)
  moreover have "sdc_read_blocks D (Suc n) b s = sdc_read_blocks D n (b + 512) s3"
    using wb v by (simp add: Let_def case_prod_beta s3_def s2_def MMC_HALF_BLOCKLEN_VAL_def)
  ultimately show ?case
    using q3 by (auto simp: w_def [symmetric] intro: quiet_trans)
qed

text \<open>The sectors a card can be asked for: on a standard card the byte address has 32 bits.\<close>

definition sd_limit :: "bool \<Rightarrow> nat" where
  "sd_limit hc = (if hc then 2 ^ 32 else 2 ^ 23)"

lemma sdc_start_pos:
  assumes "(acc_mode s \<noteq> 0) = hc" and "unat a < sd_limit hc"
  shows "start_pos hc (sdc_address a s) = 512 * unat a"
  using assms
  by (auto simp: start_pos_def sdc_address_def sd_limit_def mmc_consts unat_word_ariths)

definition sd_ready where
  "sd_ready ok hc s \<longleftrightarrow> ok (dev s) \<and> (acc_mode s \<noteq> 0) = hc"

lemma sdc_single_read_card:
  assumes C: "sd_card D ok view lag hc disk" and s: "sd_ready ok hc s" and a: "unat a < sd_limit hc"
  shows "\<exists>s'. sdc_single_read D a b s = Some (0, s') \<and> quiet s s' \<and>
      mem s' = blit (mem s) b 512 (\<lambda>i. disk (512 * unat a + i)) \<and> ok (dev s')"
proof -
  have "card_in ok view s (view (dev s)) s" using s by (simp add: card_in_def sd_ready_def)
  note s1 = card_in_outl(3) [OF C this, of 0]
  let ?s1 = "outl D 0 SDM_STOP s"
  have pos: "start_pos hc (sdc_address a ?s1) = 512 * unat a"
    using sdc_start_pos [of ?s1 hc a] s a by (simp add: sd_ready_def acc_mode_def)
  obtain s2 w where cmd: "sdc_send_cmd D 17 (sdc_address a ?s1) MMC_RSP_R1 None ?s1 = Some (0, None, s2)"
    and s2: "card_in ok view s w s2" and w: "port_pos w = 512 * unat a" "port_left w = 256"
    using sdc_send_cmd_read(1) [OF C s1, of "sdc_address a ?s1"] pos by fastforce
  obtain v s3 where wb: "sdc_wait_buffer D SDM_INFO2_BRE_BIT s2 = Some (v, s3)"
    and v: "v AND SDM_INFO2_ERR_ALL = 0" and s3: "card_in ok view s w s3"
    using sdc_wait_buffer_card [OF C s2] w by auto
  define s4 where "s4 = sdc_read_block D 256 b s3"
  have s4: "ok (dev s4) \<and> quiet s3 s4 \<and> port_left (view (dev s4)) = 0 \<and>
      mem s4 = blit (mem s) b 512 (\<lambda>i. disk (512 * unat a + i))"
    using sdc_read_block_card [OF C, of s3 256 b] s3 w by (simp add: s4_def card_in_def still_def)
  then have "card_in ok view s4 (view (dev s4)) s4" by (simp add: card_in_def)
  then obtain s5 where "sdc_wait_end D s4 = Some (0, s5)" and "card_in ok view s4 (view (dev s4)) s5"
    using sdc_wait_end_card [OF C] s4 by blast
  then show ?thesis
    using cmd wb v s3 s4
    by (auto simp: sdc_single_read_def Let_def s4_def MMC_HALF_BLOCKLEN_VAL_def card_in_def still_def
        intro: quiet_trans)
qed

lemma sdc_multi_read_card:
  assumes C: "sd_card D ok view lag hc disk" and s: "sd_ready ok hc s" and a: "unat a < sd_limit hc"
    and n: "0 \<le> sint n" "nat (sint n) < 2 ^ 16"
  shows "\<exists>s'. sdc_multi_read D a b n s = Some (0, s') \<and> quiet s s' \<and>
      mem s' = blit (mem s) b (512 * nat (sint n)) (\<lambda>i. disk (512 * unat a + i)) \<and> ok (dev s')"
proof -
  have un: "unat n = nat (sint n)"
    using n(1) by (rule unat_nat_sint)
  have "card_in ok view s (view (dev s)) s" using s by (simp add: card_in_def sd_ready_def)
  note s0 = card_in_inl_STOP [OF C this]
  let ?v = "fst (inl D SDM_STOP s) OR SDM_STOP_SEC_BIT"
  have bit: "?v AND SDM_STOP_SEC_BIT \<noteq> 0"
    by (simp add: bit.conj_disj_distrib bit.conj_disj_distrib2 SDM_STOP_SEC_BIT_def or_eq_0_iff)
  let ?s1 = "outl D n SDM_SECCNT (outl D ?v SDM_STOP (snd (inl D SDM_STOP s)))"
  note s1 = card_in_outl(4) [OF C card_in_outl(3) [OF C s0, of ?v], of n]
  have pos: "start_pos hc (sdc_address a ?s1) = 512 * unat a"
    using sdc_start_pos [of ?s1 hc a] s a by (simp add: sd_ready_def acc_mode_def)
  obtain s2 w where cmd: "sdc_send_cmd D 18 (sdc_address a ?s1) MMC_RSP_R1 None ?s1 = Some (0, None, s2)"
    and s2: "card_in ok view s w s2" and w: "port_pos w = 512 * unat a" "port_left w = 256 * nat (sint n)"
    using sdc_send_cmd_read(2) [OF C s1, of "sdc_address a ?s1"] n pos bit un by fastforce
  obtain s3 where blks: "sdc_read_blocks D (nat (sint n)) b s2 = Some (True, s3)"
    and s3: "ok (dev s3)" "quiet s2 s3" "port_left (view (dev s3)) = 0"
      "mem s3 = blit (mem s) b (512 * nat (sint n)) (\<lambda>i. disk (512 * unat a + i))"
    using sdc_read_blocks_card [OF C, of s2 "nat (sint n)" b] s2 w n by (auto simp: card_in_def still_def)
  then have "card_in ok view s3 (view (dev s3)) s3" by (simp add: card_in_def)
  then obtain s5 where "sdc_wait_end D s3 = Some (0, s5)" and "card_in ok view s3 (view (dev s3)) s5"
    using sdc_wait_end_card [OF C] s3 by blast
  then show ?thesis
    using cmd blks s2 s3
    by (auto simp: sdc_multi_read_def Let_def case_prod_beta card_in_def still_def intro: quiet_trans)
qed

lemma sdc_reads:
  assumes "sd_card D ok view lag hc disk"
  shows "reads_disk (sdc_if D cpu500) (sd_ready ok hc) (sd_limit hc) disk"
  unfolding reads_disk_def
proof (intro conjI allI impI)
  fix s :: "('a, 'c) mach_scheme" and a b :: u32
  assume s: "sd_ready ok hc s" and a: "unat a < sd_limit hc"
  show "\<exists>s'. single_read (sdc_if D cpu500) a b s = Some (0, s') \<and> quiet s s' \<and>
      mem s' = blit (mem s) b 512 (\<lambda>i. disk (512 * unat a + i)) \<and>
      (acc_mode s' = acc_mode s \<longrightarrow> sd_ready ok hc s')"
    using sdc_single_read_card [OF assms s a, of b] s by (auto simp: sdc_if_def sd_ready_def)
next
  fix s :: "('a, 'c) mach_scheme" and a b n :: u32
  assume s: "sd_ready ok hc s" and a: "unat a < sd_limit hc"
    and n: "0 \<le> sint n" "nat (sint n) < 2 ^ 16"
  show "\<exists>s'. multi_read (sdc_if D cpu500) a b n s = Some (0, s') \<and> quiet s s' \<and>
      mem s' = blit (mem s) b (512 * nat (sint n)) (\<lambda>i. disk (512 * unat a + i)) \<and>
      (acc_mode s' = acc_mode s \<longrightarrow> sd_ready ok hc s')"
    using sdc_multi_read_card [OF assms s a n, of b] s by (auto simp: sdc_if_def sd_ready_def)
qed

text \<open>
  C4: on a card that follows the data sheet the reads of the driver terminate, return 0 and
  fill exactly the buffer with the addressed sectors, on standard and high capacity cards.
\<close>

theorem sdc_reads_disk:
  assumes "sd_card D ok view lag hc disk"
  shows "reads_disk (sdc_if D cpu500) (sd_ready ok hc) (sd_limit hc) disk"
  by (rule sdc_reads [OF assms])

section \<open>A card that satisfies the laws\<close>

definition model_card :: "bool \<Rightarrow> (nat \<Rightarrow> u8) \<Rightarrow> sd_view device" where
  "model_card hc disk = \<lparr>
     dread = (\<lambda>a d.
       if a = SDM_INFO1 then (SDM_INFO1_RES_END OR SDM_INFO1_RES_RW_END, d)
       else if a = SDM_INFO2 then (SDM_INFO2_BRE_BIT, d)
       else if a = SDM_BUF0 then (ucast (disk_half disk (port_pos d)),
         d\<lparr>port_pos := port_pos d + 2, port_left := port_left d - 1\<rparr>)
       else (0, d)),
     dwrite = (\<lambda>a v d.
       if a = SDM_STOP then d\<lparr>sec_enable := v AND SDM_STOP_SEC_BIT \<noteq> 0\<rparr>
       else if a = SDM_SECCNT then d\<lparr>sec_count := unat v\<rparr>
       else if a = SDM_ARG0 then d\<lparr>argument := (argument d AND NOT 0xffff) OR (v AND 0xffff)\<rparr>
       else if a = SDM_ARG1 then d\<lparr>argument := (argument d AND 0xffff) OR push_bit 16 (v AND 0xffff)\<rparr>
       else if a = SDM_CMD then d\<lparr>port_pos := start_pos hc (argument d),
         port_left := 256 * (if v = 0x1811 then 1 else sec_count d)\<rparr>
       else d)\<rparr>"

lemma model_card_laws: "sd_card (model_card hc disk) (\<lambda>_. True) (\<lambda>d. d) (\<lambda>_. 0) hc disk"
proof -
  have u: "ucast (ucast h :: u32) = h" for h :: u16
    by (rule bit_word_eqI) (auto simp: bit_simps dest: bit_imp_le_length)
  show ?thesis
    by (simp add: sd_card_def sd_status_laws_def sd_port_laws_def sd_register_laws_def model_card_def
        sdm_regs sdm_bits u)
qed

theorem sdc_reads_disk_witness:
  "\<exists>s'. single_read (sdc_if (model_card True (\<lambda>p. of_nat p)) False) 3 0x42000000
      \<lparr>mem = (\<lambda>_. 1), dev = \<lparr>argument = 0, sec_enable = False, sec_count = 0, port_pos = 0, port_left = 0\<rparr>, outp = []\<rparr>
      = Some (0, s') \<and> mem s' 0x42000005 = 5"
proof -
  let ?s = "\<lparr>mem = (\<lambda>_. 1 :: u8), dev = \<lparr>argument = 0, sec_enable = False, sec_count = 0, port_pos = 0, port_left = 0\<rparr>,
     outp = []\<rparr> :: sd_view mach"
  have "sd_ready (\<lambda>_. True) True ?s"
    by (simp add: sd_ready_def acc_mode_def load32_def or_eq_0_iff)
  moreover have "unat (3 :: u32) < sd_limit True" by (simp add: sd_limit_def)
  moreover have "reads_disk (sdc_if (model_card True (\<lambda>p. of_nat p)) False :: sd_view mach hw_if)
      (sd_ready (\<lambda>_. True) True) (sd_limit True) (\<lambda>p. of_nat p)"
    by (rule sdc_reads_disk [OF model_card_laws])
  ultimately obtain s' where "single_read (sdc_if (model_card True (\<lambda>p. of_nat p)) False) 3 0x42000000 ?s = Some (0, s')"
    "mem s' = blit (mem ?s) 0x42000000 512 (\<lambda>i. of_nat (512 * unat (3 :: u32) + i))"
    unfolding reads_disk_def by blast
  then show ?thesis by (simp add: blit_def)
qed

end
