(* ===== verification/Sdio.thy ===== *)
theory Sdio
  imports HwIf
begin

text \<open>
  The SDIO (eMMC and eSD) controller driver \<open>mini-boot/mmc/sdio.c\<close>: commands, polled block
  reads and writes through a 32-bit data port, soft reset after an error, clock and bus
  set-up. \<open>emmc\<close> is the build option \<open>CONFIG_EMXX_EMMCBOOT\<close> (otherwise eSD), \<open>miniboot\<close> the
  option \<open>EMXX_MINIBOOT\<close>.
\<close>

section \<open>Registers (sdio.h)\<close>

definition SDIO0_BASE :: u32 where "SDIO0_BASE = 0xe2900000"
definition SDIO_BLOCK :: u32 where "SDIO_BLOCK = SDIO0_BASE + 0x0004"
definition SDIO_ARG :: u32 where "SDIO_ARG = SDIO0_BASE + 0x0008"
definition SDIO_MODE_CMD :: u32 where "SDIO_MODE_CMD = SDIO0_BASE + 0x000C"
definition SDIO_RSP01 :: u32 where "SDIO_RSP01 = SDIO0_BASE + 0x0010"
definition SDIO_RSP23 :: u32 where "SDIO_RSP23 = SDIO0_BASE + 0x0014"
definition SDIO_RSP45 :: u32 where "SDIO_RSP45 = SDIO0_BASE + 0x0018"
definition SDIO_RSP67 :: u32 where "SDIO_RSP67 = SDIO0_BASE + 0x001C"
definition SDIO_BUF :: u32 where "SDIO_BUF = SDIO0_BASE + 0x0020"
definition SDIO_STATE :: u32 where "SDIO_STATE = SDIO0_BASE + 0x0024"
definition SDIO_HP_BW :: u32 where "SDIO_HP_BW = SDIO0_BASE + 0x0028"
definition SDIO_CLK_TOUT_RST :: u32 where "SDIO_CLK_TOUT_RST = SDIO0_BASE + 0x002C"
definition SDIO_INT_STS :: u32 where "SDIO_INT_STS = SDIO0_BASE + 0x0030"
definition SDIO_INT_STSEN :: u32 where "SDIO_INT_STSEN = SDIO0_BASE + 0x0034"
definition SDIO_AMBA0 :: u32 where "SDIO_AMBA0 = SDIO0_BASE + 0x0100"
definition SDIO_GIO0 :: u32 where "SDIO_GIO0 = SDIO0_BASE + 0xE004"

definition SDIO_MODE_MULTI :: u32 where "SDIO_MODE_MULTI = push_bit 5 1"
definition SDIO_MODE_READ :: u32 where "SDIO_MODE_READ = push_bit 4 1"
definition SDIO_MODE_ACMD12 :: u32 where "SDIO_MODE_ACMD12 = push_bit 2 1"
definition SDIO_MODE_BLK_COUNT_EN :: u32 where "SDIO_MODE_BLK_COUNT_EN = push_bit 1 1"
definition SDIO_CMD_DATA :: u32 where "SDIO_CMD_DATA = push_bit 21 1"
definition SDIO_CMD_INDEX_CHK :: u32 where "SDIO_CMD_INDEX_CHK = push_bit 20 1"
definition SDIO_CMD_CRC_CHK :: u32 where "SDIO_CMD_CRC_CHK = push_bit 19 1"
definition SDIO_CMD_RESP_136 :: u32 where "SDIO_CMD_RESP_136 = push_bit 16 1"
definition SDIO_CMD_RESP_48 :: u32 where "SDIO_CMD_RESP_48 = push_bit 16 2"
definition SDIO_STATE_DAT0 :: u32 where "SDIO_STATE_DAT0 = push_bit 20 1"
definition SDIO_STATE_RDEN :: u32 where "SDIO_STATE_RDEN = push_bit 11 1"
definition SDIO_STATE_WREN :: u32 where "SDIO_STATE_WREN = push_bit 10 1"
definition SDIO_HOST_HS :: u32 where "SDIO_HOST_HS = push_bit 2 1"
definition SDIO_HOST_WIDTH :: u32 where "SDIO_HOST_WIDTH = push_bit 1 1"
definition SDIO_CLK_CLKDIV1 :: u32 where "SDIO_CLK_CLKDIV1 = 0"
definition SDIO_CLK_CLKDIV2 :: u32 where "SDIO_CLK_CLKDIV2 = push_bit 8 1"
definition SDIO_CLK_SDCLKEN :: u32 where "SDIO_CLK_SDCLKEN = push_bit 2 1"
definition SDIO_CLK_CLKSTA :: u32 where "SDIO_CLK_CLKSTA = push_bit 1 1"
definition SDIO_CLK_CLKEN :: u32 where "SDIO_CLK_CLKEN = 1"
definition SDIO_CLK_MASK :: u32 where "SDIO_CLK_MASK = 0xffff"
definition SDIO_SOFTRST_DATA :: u32 where "SDIO_SOFTRST_DATA = push_bit 26 1"
definition SDIO_SOFTRST_CMD :: u32 where "SDIO_SOFTRST_CMD = push_bit 25 1"
definition SDIO_INT_CMD_TOUT :: u32 where "SDIO_INT_CMD_TOUT = push_bit 16 1"
definition SDIO_INT_RREADY :: u32 where "SDIO_INT_RREADY = push_bit 5 1"
definition SDIO_INT_WREADY :: u32 where "SDIO_INT_WREADY = push_bit 4 1"
definition SDIO_INT_TRANCOMP :: u32 where "SDIO_INT_TRANCOMP = push_bit 1 1"
definition SDIO_INT_CMDCOMP :: u32 where "SDIO_INT_CMDCOMP = 1"
definition SDIO_INT_ALLERR :: u32 where "SDIO_INT_ALLERR = 0x017f8000"
definition SDIO_AMBA0_TMODE_SINGLE :: u32 where "SDIO_AMBA0_TMODE_SINGLE = 4"
definition SDIO_INT_MASK :: u32 where
  "SDIO_INT_MASK = SDIO_INT_ALLERR OR SDIO_INT_CMDCOMP OR SDIO_INT_TRANCOMP OR SDIO_INT_RREADY OR SDIO_INT_WREADY"

definition SDIO_CMD_INDEX :: "u32 \<Rightarrow> u32" where
  "SDIO_CMD_INDEX x = push_bit 24 (x AND 0x3f)"

lemmas sdio_regs = SDIO0_BASE_def SDIO_BLOCK_def SDIO_ARG_def SDIO_MODE_CMD_def SDIO_RSP01_def
  SDIO_RSP23_def SDIO_RSP45_def SDIO_RSP67_def SDIO_BUF_def SDIO_STATE_def SDIO_HP_BW_def
  SDIO_CLK_TOUT_RST_def SDIO_INT_STS_def SDIO_INT_STSEN_def SDIO_AMBA0_def SDIO_GIO0_def

lemmas sdio_bits = SDIO_MODE_MULTI_def SDIO_MODE_READ_def SDIO_MODE_ACMD12_def
  SDIO_MODE_BLK_COUNT_EN_def SDIO_CMD_DATA_def SDIO_CMD_INDEX_CHK_def SDIO_CMD_CRC_CHK_def
  SDIO_CMD_RESP_136_def SDIO_CMD_RESP_48_def SDIO_STATE_DAT0_def SDIO_STATE_RDEN_def
  SDIO_STATE_WREN_def SDIO_HOST_HS_def SDIO_HOST_WIDTH_def SDIO_CLK_CLKDIV1_def
  SDIO_CLK_CLKDIV2_def SDIO_CLK_SDCLKEN_def SDIO_CLK_CLKSTA_def SDIO_CLK_CLKEN_def
  SDIO_CLK_MASK_def SDIO_SOFTRST_DATA_def SDIO_SOFTRST_CMD_def SDIO_INT_CMD_TOUT_def
  SDIO_INT_RREADY_def SDIO_INT_WREADY_def SDIO_INT_TRANCOMP_def SDIO_INT_CMDCOMP_def
  SDIO_INT_ALLERR_def SDIO_AMBA0_TMODE_SINGLE_def SDIO_INT_MASK_def SDIO_CMD_INDEX_def

section \<open>Commands\<close>

definition sdio_write :: "'d device \<Rightarrow> u32 \<Rightarrow> u32 \<Rightarrow> ('d, 'z) mach_scheme \<Rightarrow> ('d, 'z) mach_scheme" where
  "sdio_write D val addr s = outl D val addr s"

definition sdio_read :: "'d device \<Rightarrow> u32 \<Rightarrow> ('d, 'z) mach_scheme \<Rightarrow> u32 \<times> ('d, 'z) mach_scheme" where
  "sdio_read D addr s = inl D addr s"

definition sdio_reset :: "'d device \<Rightarrow> u32 \<Rightarrow> ('d, 'z) mach_scheme \<Rightarrow> ('d, 'z) mach_scheme option" where
  "sdio_reset D msk s = do {
     let (val, s) = sdio_read D SDIO_CLK_TOUT_RST s;
     (_, s) \<leftarrow> loopM (\<lambda>s. let (v, s) = sdio_read D SDIO_CLK_TOUT_RST s
         in Some (if v AND msk \<noteq> 0 then None else Some (), s))
       (sdio_write D (val OR msk) SDIO_CLK_TOUT_RST s);
     Some s
   }"

definition sdio_wait_response :: "'d device \<Rightarrow> ('d, 'z) mach_scheme \<Rightarrow> (u32 \<times> ('d, 'z) mach_scheme) option" where
  "sdio_wait_response D s = do {
     (_, s) \<leftarrow> loopM (\<lambda>s. let (v, s) = sdio_read D SDIO_INT_STS s in
         if v AND SDIO_INT_CMDCOMP \<noteq> 0 then Some (Some (), s)
         else let (v, s) = sdio_read D SDIO_INT_STS s
              in Some (if v AND SDIO_INT_ALLERR \<noteq> 0 then Some () else None, s)) s;
     let (int_status, s) = sdio_read D SDIO_INT_STS s;
     let ret = int_status AND SDIO_INT_ALLERR;
     if ret \<noteq> 0
     then do {
       s \<leftarrow> sdio_reset D (SDIO_SOFTRST_CMD OR SDIO_SOFTRST_DATA) s;
       Some (if ret AND SDIO_INT_CMD_TOUT \<noteq> 0 then MMC_RES_TIMEOUT else ret, s)
     }
     else do {
       let (mode, s) = sdio_read D SDIO_MODE_CMD s;
       Some (0, if mode AND SDIO_CMD_DATA \<noteq> 0 then sdio_write D SDIO_INT_CMDCOMP SDIO_INT_STS s
                else sdio_write D int_status SDIO_INT_STS s)
     }
   }"

definition sdio_cmd_word :: "bool \<Rightarrow> u32 \<Rightarrow> u32 \<Rightarrow> u32" where
  "sdio_cmd_word emmc cmd type =
     (let val = SDIO_CMD_INDEX cmd;
          val = (if type \<in> {MMC_RSP_R1, MMC_RSP_R5, MMC_RSP_R6, MMC_RSP_R7, MMC_RSP_R1B}
                 then val OR SDIO_CMD_CRC_CHK OR SDIO_CMD_INDEX_CHK OR SDIO_CMD_RESP_48
                 else if type = MMC_RSP_R2 then val OR SDIO_CMD_CRC_CHK OR SDIO_CMD_RESP_136
                 else if type = MMC_RSP_R3 \<or> type = MMC_RSP_R4 then val OR SDIO_CMD_RESP_48
                 else val)
      in if emmc \<and> cmd = 8 \<or> cmd = 17 then val OR SDIO_CMD_DATA OR SDIO_MODE_READ
         else if cmd = 18 then val OR SDIO_CMD_DATA OR SDIO_MODE_READ
           OR SDIO_MODE_ACMD12 OR SDIO_MODE_MULTI OR SDIO_MODE_BLK_COUNT_EN
         else if cmd = 24 then val OR SDIO_CMD_DATA
         else if cmd = 25 then val OR SDIO_CMD_DATA
           OR SDIO_MODE_ACMD12 OR SDIO_MODE_MULTI OR SDIO_MODE_BLK_COUNT_EN
         else val)"

definition sdio_send_cmd :: "'d device \<Rightarrow> bool \<Rightarrow> u32 \<Rightarrow> u32 \<Rightarrow> u32 \<Rightarrow> u32 list option \<Rightarrow>
    ('d, 'z) mach_scheme \<Rightarrow> (u32 \<times> u32 list option \<times> ('d, 'z) mach_scheme) option" where
  "sdio_send_cmd D emmc cmd arg type resp s = do {
     (ret, s) \<leftarrow> sdio_wait_response D
       (sdio_write D (sdio_cmd_word emmc cmd type) SDIO_MODE_CMD
         (sdio_write D arg SDIO_ARG (sdio_write D 0xffffffff SDIO_INT_STS s)));
     if ret \<noteq> 0 then Some (ret, resp, s)
     else do {
       (_, s) \<leftarrow> (if type = MMC_RSP_R1B \<or> cmd = 7
         then loopM (\<lambda>s. let (v, s) = sdio_read D SDIO_STATE s
                 in Some (if v AND SDIO_STATE_DAT0 \<noteq> 0 then Some () else None, s)) s
         else Some ((), s));
       case resp of
         None \<Rightarrow> Some (ret, None, s)
       | Some xs \<Rightarrow>
           let (r0, s) = sdio_read D SDIO_RSP01 s; (r1, s) = sdio_read D SDIO_RSP23 s;
               (r2, s) = sdio_read D SDIO_RSP45 s; (r3, s) = sdio_read D SDIO_RSP67 s
           in Some (ret, Some ([r0, r1, r2, r3] @ drop 4 xs), s)
     }
   }"

section \<open>Data transfer\<close>

text \<open>
  The wait for the data port that starts every transfer: \<open>enable\<close> is the read or write ready
  bit; the status word read last is returned, after the ready bit is acknowledged.
\<close>

definition sdio_wait_buffer :: "'d device \<Rightarrow> u32 \<Rightarrow> ('d, 'z) mach_scheme \<Rightarrow> (u32 \<times> ('d, 'z) mach_scheme) option" where
  "sdio_wait_buffer D enable s = do {
     (int_status, s) \<leftarrow> loopM (\<lambda>s. let (int_status, s) = sdio_read D SDIO_INT_STS s
        in Some (if int_status AND (enable OR SDIO_INT_ALLERR) \<noteq> 0 then Some int_status else None, s)) s;
     let s = sdio_write D enable SDIO_INT_STS s;
     if int_status AND SDIO_INT_ALLERR \<noteq> 0
     then do {
       s \<leftarrow> sdio_reset D (SDIO_SOFTRST_CMD OR SDIO_SOFTRST_DATA) s;
       Some (int_status, s)
     }
     else Some (int_status, s)
   }"

primrec sdio_read_block :: "'d device \<Rightarrow> nat \<Rightarrow> u32 \<Rightarrow> ('d, 'z) mach_scheme \<Rightarrow> ('d, 'z) mach_scheme" where
  "sdio_read_block D 0 tmp_buf s = s"
| "sdio_read_block D (Suc n) tmp_buf s =
     (let (v, s) = sdio_read D SDIO_BUF s
      in sdio_read_block D n (tmp_buf + 4) (s\<lparr>mem := store32 (mem s) tmp_buf v\<rparr>))"

primrec sdio_write_block :: "'d device \<Rightarrow> nat \<Rightarrow> u32 \<Rightarrow> ('d, 'z) mach_scheme \<Rightarrow> ('d, 'z) mach_scheme" where
  "sdio_write_block D 0 tmp_buf s = s"
| "sdio_write_block D (Suc n) tmp_buf s =
     sdio_write_block D n (tmp_buf + 4) (sdio_write D (load32 (mem s) tmp_buf) SDIO_BUF s)"

primrec sdio_clear_block :: "'d device \<Rightarrow> nat \<Rightarrow> ('d, 'z) mach_scheme \<Rightarrow> ('d, 'z) mach_scheme" where
  "sdio_clear_block D 0 s = s"
| "sdio_clear_block D (Suc n) s = sdio_clear_block D n (sdio_write D 0 SDIO_BUF s)"

text \<open>The wait for the end of a transfer: 0, or the status word with its error bits.\<close>

definition sdio_wait_end :: "'d device \<Rightarrow> ('d, 'z) mach_scheme \<Rightarrow> (u32 \<times> ('d, 'z) mach_scheme) option" where
  "sdio_wait_end D s = do {
     let (int_status, s) = sdio_read D SDIO_INT_STS s;
     ((e, int_status), s) \<leftarrow> (if int_status AND SDIO_INT_TRANCOMP \<noteq> 0 then Some ((False, int_status), s)
       else loopM (\<lambda>s. let (int_status, s) = sdio_read D SDIO_INT_STS s
          in Some (if int_status AND SDIO_INT_ALLERR \<noteq> 0 then Some (True, int_status)
                   else if int_status AND SDIO_INT_TRANCOMP \<noteq> 0 then Some (False, int_status)
                   else None, s)) s);
     if e then do {
       s \<leftarrow> sdio_reset D (SDIO_SOFTRST_CMD OR SDIO_SOFTRST_DATA) s;
       Some (int_status, s)
     }
     else Some (0, sdio_write D int_status SDIO_INT_STS s)
   }"

definition sdio_address :: "u32 \<Rightarrow> ('d, 'z) mach_scheme \<Rightarrow> u32" where
  "sdio_address addr s = (if acc_mode s \<noteq> 0 then addr else addr * MMC_BLOCKLEN_VAL)"

definition sdio_send_extcsd :: "'d device \<Rightarrow> bool \<Rightarrow> u32 \<Rightarrow> ('d, 'z) mach_scheme \<Rightarrow> (u32 \<times> ('d, 'z) mach_scheme) option" where
  "sdio_send_extcsd D emmc buf s = do {
     (ret, _, s) \<leftarrow> sdio_send_cmd D emmc 8 0 MMC_RSP_R1 None s;
     if ret \<noteq> 0 then Some (ret, s)
     else do {
       (int_status, s) \<leftarrow> sdio_wait_buffer D SDIO_INT_RREADY s;
       if int_status AND SDIO_INT_ALLERR \<noteq> 0 then Some (-1, s)
       else sdio_wait_end D (sdio_read_block D 128 buf s)
     }
   }"

definition sdio_single_read :: "'d device \<Rightarrow> bool \<Rightarrow> u32 \<Rightarrow> u32 \<Rightarrow> ('d, 'z) mach_scheme \<Rightarrow> (u32 \<times> ('d, 'z) mach_scheme) option" where
  "sdio_single_read D emmc addr buf s = do {
     (ret, _, s) \<leftarrow> sdio_send_cmd D emmc 17 (sdio_address addr s) MMC_RSP_R1 None s;
     if ret \<noteq> 0 then Some (ret, s)
     else do {
       (int_status, s) \<leftarrow> sdio_wait_buffer D SDIO_INT_RREADY s;
       if int_status AND SDIO_INT_ALLERR \<noteq> 0 then Some (-1, s)
       else sdio_wait_end D (sdio_read_block D 128 buf s)
     }
   }"

text \<open>
  The wait between two blocks of a transfer, for the port bit of the state register:
  \<open>None\<close> when it came, \<open>Some int_status\<close> when an error bit came first.
\<close>

definition sdio_wait_port :: "'d device \<Rightarrow> u32 \<Rightarrow> ('d, 'z) mach_scheme \<Rightarrow> (u32 option \<times> ('d, 'z) mach_scheme) option" where
  "sdio_wait_port D flag s = do {
     (e, s) \<leftarrow> loopM (\<lambda>s. let (v, s) = sdio_read D SDIO_STATE s in
         if v AND flag \<noteq> 0 then Some (Some None, s)
         else let (int_status, s) = sdio_read D SDIO_INT_STS s
              in Some (if int_status AND SDIO_INT_ALLERR \<noteq> 0 then Some (Some int_status) else None, s)) s;
     case e of
       None \<Rightarrow> Some (None, s)
     | Some int_status \<Rightarrow> do {
         s \<leftarrow> sdio_reset D (SDIO_SOFTRST_CMD OR SDIO_SOFTRST_DATA) s;
         Some (Some int_status, s)
       }
   }"

primrec sdio_read_blocks :: "'d device \<Rightarrow> nat \<Rightarrow> u32 \<Rightarrow> ('d, 'z) mach_scheme \<Rightarrow> (u32 option \<times> ('d, 'z) mach_scheme) option" where
  "sdio_read_blocks D 0 tmp_buf s = Some (None, s)"
| "sdio_read_blocks D (Suc n) tmp_buf s = do {
     (e, s) \<leftarrow> sdio_wait_port D SDIO_STATE_RDEN s;
     if e \<noteq> None then Some (e, s)
     else sdio_read_blocks D n (tmp_buf + 512) (sdio_read_block D 128 tmp_buf s)
   }"

text \<open>The block count goes to the upper half of the block register: only 16 bits of it are kept.\<close>

definition sdio_set_count :: "'d device \<Rightarrow> u32 \<Rightarrow> ('d, 'z) mach_scheme \<Rightarrow> ('d, 'z) mach_scheme" where
  "sdio_set_count D num s =
     (let (val, s) = sdio_read D SDIO_BLOCK s
      in sdio_write D ((val AND 0xffff) OR push_bit 16 num) SDIO_BLOCK s)"

definition sdio_multi_read :: "'d device \<Rightarrow> bool \<Rightarrow> u32 \<Rightarrow> u32 \<Rightarrow> u32 \<Rightarrow> ('d, 'z) mach_scheme \<Rightarrow> (u32 \<times> ('d, 'z) mach_scheme) option" where
  "sdio_multi_read D emmc addr buf num s = do {
     let s = sdio_set_count D num s;
     (ret, _, s) \<leftarrow> sdio_send_cmd D emmc 18 (sdio_address addr s) MMC_RSP_R1 None s;
     if ret \<noteq> 0 then Some (ret, s)
     else do {
       (int_status, s) \<leftarrow> sdio_wait_buffer D SDIO_INT_RREADY s;
       if int_status AND SDIO_INT_ALLERR \<noteq> 0 then Some (int_status, s)
       else do {
         (e, s) \<leftarrow> sdio_read_blocks D (nat (sint num)) buf s;
         case e of Some int_status \<Rightarrow> Some (int_status, s) | None \<Rightarrow> sdio_wait_end D s
       }
     }
   }"

definition sdio_single_write :: "'d device \<Rightarrow> bool \<Rightarrow> u32 \<Rightarrow> u32 \<Rightarrow> ('d, 'z) mach_scheme \<Rightarrow> (u32 \<times> ('d, 'z) mach_scheme) option" where
  "sdio_single_write D emmc addr buf s = do {
     (ret, _, s) \<leftarrow> sdio_send_cmd D emmc 24 (sdio_address addr s) MMC_RSP_R1 None s;
     if ret \<noteq> 0 then Some (ret, s)
     else do {
       (int_status, s) \<leftarrow> sdio_wait_buffer D SDIO_INT_WREADY s;
       if int_status AND SDIO_INT_ALLERR \<noteq> 0 then Some (-1, s)
       else do {
         (e, s) \<leftarrow> sdio_wait_end D (if buf \<noteq> 0 then sdio_write_block D 128 buf s else sdio_clear_block D 128 s);
         Some (if e \<noteq> 0 then -1 else 0, s)
       }
     }
   }"

text \<open>
  The block loop of a multi-block write. The branch for a \<open>NULL\<close> buffer is commented
  "1block clear" and runs the same statement as the other one.
\<close>

primrec sdio_write_blocks :: "'d device \<Rightarrow> u32 \<Rightarrow> nat \<Rightarrow> u32 \<Rightarrow> ('d, 'z) mach_scheme \<Rightarrow> (u32 option \<times> ('d, 'z) mach_scheme) option" where
  "sdio_write_blocks D buf 0 tmp_buf s = Some (None, s)"
| "sdio_write_blocks D buf (Suc n) tmp_buf s = do {
     (e, s) \<leftarrow> sdio_wait_port D SDIO_STATE_WREN s;
     if e \<noteq> None then Some (e, s)
     else if buf \<noteq> 0
     then sdio_write_blocks D buf n (tmp_buf + 512) (sdio_write_block D 128 tmp_buf s)
     else sdio_write_blocks D buf n (tmp_buf + 512) (sdio_write_block D 128 tmp_buf s)
   }"

definition sdio_multi_write :: "'d device \<Rightarrow> bool \<Rightarrow> u32 \<Rightarrow> u32 \<Rightarrow> u32 \<Rightarrow> ('d, 'z) mach_scheme \<Rightarrow> (u32 \<times> ('d, 'z) mach_scheme) option" where
  "sdio_multi_write D emmc addr buf num s = do {
     let s = sdio_set_count D num s;
     (ret, _, s) \<leftarrow> sdio_send_cmd D emmc 25 (sdio_address addr s) MMC_RSP_R1 None s;
     if ret \<noteq> 0 then Some (ret, s)
     else do {
       (int_status, s) \<leftarrow> sdio_wait_buffer D SDIO_INT_WREADY s;
       if int_status AND SDIO_INT_ALLERR \<noteq> 0 then Some (-1, s)
       else do {
         (e, s) \<leftarrow> sdio_write_blocks D buf (nat (sint num)) buf s;
         if e \<noteq> None then Some (-1, s)
         else do {
           (e, s) \<leftarrow> sdio_wait_end D s;
           Some (if e \<noteq> 0 then -1 else 0, s)
         }
       }
     }
   }"

section \<open>Set-up and the function table\<close>

definition sdio_hw_init :: "'d device \<Rightarrow> bool \<Rightarrow> ('d, 'z) mach_scheme \<Rightarrow> ('d, 'z) mach_scheme" where
  "sdio_hw_init D miniboot s =
     (if miniboot
      then sdio_write D SDIO_AMBA0_TMODE_SINGLE SDIO_AMBA0 (sdio_write D SDIO_INT_MASK SDIO_INT_STSEN s)
      else s)"

definition sdio_set_blklength :: "'d device \<Rightarrow> u32 \<Rightarrow> ('d, 'z) mach_scheme \<Rightarrow> ('d, 'z) mach_scheme" where
  "sdio_set_blklength D len s = sdio_write D (len OR push_bit 12 7) SDIO_BLOCK s"

definition sdio_set_buswidth :: "'d device \<Rightarrow> u32 \<Rightarrow> ('d, 'z) mach_scheme \<Rightarrow> ('d, 'z) mach_scheme" where
  "sdio_set_buswidth D width s =
     (let (val, s) = sdio_read D SDIO_HP_BW s in
      if width = 1 then sdio_write D (val AND NOT SDIO_HOST_WIDTH) SDIO_HP_BW s
      else sdio_write D (val OR SDIO_HOST_WIDTH) SDIO_HP_BW s)"

definition sdio_set_clock :: "'d device \<Rightarrow> u32 \<Rightarrow> ('d, 'z) mach_scheme \<Rightarrow> ('d, 'z) mach_scheme option" where
  "sdio_set_clock D clock s = do {
     let (val, s) = sdio_read D SDIO_CLK_TOUT_RST s;
     let val = val AND NOT SDIO_CLK_MASK;
     let s = sdio_write D val SDIO_CLK_TOUT_RST s;
     if clock = 0 then Some s
     else do {
       let (val, s) = (if clock = MMC_CLK_HIGH
         then let (val2, s) = sdio_read D SDIO_GIO0 s;
                  s = sdio_write D (val2 OR 0x80000000) SDIO_GIO0 s;
                  (val2, s) = sdio_read D SDIO_HP_BW s;
                  s = sdio_write D (val2 OR SDIO_HOST_HS) SDIO_HP_BW s
              in (val OR SDIO_CLK_CLKDIV1 OR SDIO_CLK_CLKEN, s)
         else (val OR SDIO_CLK_CLKDIV2 OR SDIO_CLK_CLKEN, s));
       (val, s) \<leftarrow> loopM (\<lambda>s. let (val, s) = sdio_read D SDIO_CLK_TOUT_RST s
           in Some (if val AND SDIO_CLK_CLKSTA \<noteq> 0 then Some val else None, s))
         (sdio_write D val SDIO_CLK_TOUT_RST s);
       Some (sdio_write D (val OR SDIO_CLK_SDCLKEN) SDIO_CLK_TOUT_RST s)
     }
   }"

definition sdio_if :: "'d device \<Rightarrow> bool \<Rightarrow> bool \<Rightarrow> ('d, 'z) mach_scheme hw_if" where
  "sdio_if D emmc miniboot = \<lparr>
     send_cmd = sdio_send_cmd D emmc,
     send_acmd = sdio_send_cmd D emmc,
     send_extcsd = sdio_send_extcsd D emmc,
     single_read = sdio_single_read D emmc,
     multi_read = sdio_multi_read D emmc,
     single_write = sdio_single_write D emmc,
     multi_write = sdio_multi_write D emmc,
     hw_init = sdio_hw_init D miniboot,
     set_blklength = sdio_set_blklength D,
     set_buswidth = sdio_set_buswidth D,
     set_clock = sdio_set_clock D\<rparr>"

section \<open>What the driver leaves alone\<close>

lemma sdio_not_port [simp]:
  "SDIO_BLOCK \<noteq> SDIO_BUF" "SDIO_ARG \<noteq> SDIO_BUF" "SDIO_MODE_CMD \<noteq> SDIO_BUF" "SDIO_HP_BW \<noteq> SDIO_BUF"
  "SDIO_CLK_TOUT_RST \<noteq> SDIO_BUF" "SDIO_INT_STS \<noteq> SDIO_BUF" "SDIO_INT_STSEN \<noteq> SDIO_BUF"
  "SDIO_AMBA0 \<noteq> SDIO_BUF" "SDIO_GIO0 \<noteq> SDIO_BUF"
  by (simp_all add: sdio_regs)

lemma sdio_read_keeps: "keeps D SDIO_BUF R \<Longrightarrow> R s \<Longrightarrow> R (snd (sdio_read D a s))"
  by (simp add: sdio_read_def keeps_inl)

lemma sdio_write_keeps: "keeps D SDIO_BUF R \<Longrightarrow> a \<noteq> SDIO_BUF \<Longrightarrow> R s \<Longrightarrow> R (sdio_write D v a s)"
  by (simp add: sdio_write_def keeps_outl)

lemma sdio_reset_keeps:
  assumes K: "keeps D SDIO_BUF R" and "R s"
  shows "ensures (sdio_reset D m s) R"
  unfolding sdio_reset_def
  by (auto simp: Let_def case_prod_beta
      intro!: ensures_loopM [where P = R] sdio_read_keeps [OF K] sdio_write_keeps [OF K] assms(2))

lemma sdio_wait_response_keeps:
  assumes K: "keeps D SDIO_BUF R" and "R s"
  shows "ensures (sdio_wait_response D s) (\<lambda>p. R (snd p))"
  unfolding sdio_wait_response_def
  by (auto simp: Let_def case_prod_beta intro!: ensures_loopM [where P = R]
      ensures_weaken [OF sdio_reset_keeps [OF K]] sdio_read_keeps [OF K] sdio_write_keeps [OF K] assms(2))

lemma sdio_send_cmd_keeps:
  assumes K: "keeps D SDIO_BUF R" and "R s"
  shows "ensures (sdio_send_cmd D emmc c a t rs s) (\<lambda>p. R (snd (snd p)))"
  unfolding sdio_send_cmd_def
  by (auto simp: Let_def case_prod_beta split: option.splits
      intro!: ensures_weaken [OF sdio_wait_response_keeps [OF K]] ensures_loopM [where P = R]
        sdio_read_keeps [OF K] sdio_write_keeps [OF K] assms(2))

lemma sdio_wait_buffer_keeps:
  assumes K: "keeps D SDIO_BUF R" and "R s"
  shows "ensures (sdio_wait_buffer D m s) (\<lambda>p. R (snd p))"
  unfolding sdio_wait_buffer_def
  by (auto simp: Let_def case_prod_beta intro!: ensures_loopM [where P = R]
      ensures_weaken [OF sdio_reset_keeps [OF K]] sdio_read_keeps [OF K] sdio_write_keeps [OF K] assms(2))

lemma sdio_wait_port_keeps:
  assumes K: "keeps D SDIO_BUF R" and "R s"
  shows "ensures (sdio_wait_port D m s) (\<lambda>p. R (snd p))"
  unfolding sdio_wait_port_def
  by (auto simp: Let_def case_prod_beta split: option.splits intro!: ensures_loopM [where P = R]
      ensures_weaken [OF sdio_reset_keeps [OF K]] sdio_read_keeps [OF K] sdio_write_keeps [OF K] assms(2))

lemma sdio_wait_end_keeps:
  assumes K: "keeps D SDIO_BUF R" and "R s"
  shows "ensures (sdio_wait_end D s) (\<lambda>p. R (snd p))"
  unfolding sdio_wait_end_def
  by (auto simp: Let_def case_prod_beta split: option.splits intro!: ensures_loopM [where P = R]
      ensures_weaken [OF sdio_reset_keeps [OF K]] sdio_read_keeps [OF K] sdio_write_keeps [OF K] assms(2))

lemma sdio_set_count_keeps: "keeps D SDIO_BUF R \<Longrightarrow> R s \<Longrightarrow> R (sdio_set_count D n s)"
  by (simp add: sdio_set_count_def Let_def case_prod_beta sdio_read_keeps sdio_write_keeps)

lemma sdio_set_clock_keeps:
  assumes K: "keeps D SDIO_BUF R" and "R s"
  shows "ensures (sdio_set_clock D k s) R"
  unfolding sdio_set_clock_def
  by (auto simp: Let_def case_prod_beta intro!: ensures_loopM [where P = R]
      sdio_read_keeps [OF K] sdio_write_keeps [OF K] assms(2))

lemmas sdio_send_cmd_still = sdio_send_cmd_keeps [OF keeps_still still_refl]
lemmas sdio_wait_end_still = sdio_wait_end_keeps [OF keeps_still still_refl]
lemmas sdio_wait_port_still = sdio_wait_port_keeps [OF keeps_still still_refl]

lemmas sdio_wait_buffer_still = sdio_wait_buffer_keeps [OF keeps_still still_refl]

lemma sdio_write_still [simp]: "still s (sdio_write D v a s0) \<longleftrightarrow> still s s0"
  by (simp add: sdio_write_def)

lemma sdio_write_block_still [simp]: "still s (sdio_write_block D n p s0) \<longleftrightarrow> still s s0"
  by (induction n arbitrary: p s0) auto

lemma sdio_clear_block_still [simp]: "still s (sdio_clear_block D n s0) \<longleftrightarrow> still s s0"
  by (induction n arbitrary: s0) auto

lemma sdio_write_blocks_still: "still s0 s \<Longrightarrow> ensures (sdio_write_blocks D buf n p s) (\<lambda>r. still s0 (snd r))"
proof (induction n arbitrary: p s)
  case (Suc n)
  from Suc.prems show ?case
    by (auto simp: case_prod_beta intro!: ensures_still [where ?s0.0 = s0, OF sdio_wait_port_still] Suc.IH)
qed simp

lemma sdio_multi_write_still: "ensures (sdio_multi_write D emmc a b n s) (\<lambda>r. still s (snd r))"
  unfolding sdio_multi_write_def
  by (auto simp: Let_def case_prod_beta sdio_set_count_keeps [OF keeps_still]
      intro!: ensures_still [where ?s0.0 = s, OF sdio_send_cmd_still]
        ensures_still [where ?s0.0 = s, OF sdio_wait_buffer_still]
        ensures_weaken [OF sdio_write_blocks_still]
        ensures_still [where ?s0.0 = s, OF sdio_wait_end_still])

lemma sdio_single_write_still: "ensures (sdio_single_write D emmc a b s) (\<lambda>r. still s (snd r))"
  unfolding sdio_single_write_def
  by (auto simp: Let_def case_prod_beta
      intro!: ensures_still [where ?s0.0 = s, OF sdio_send_cmd_still]
        ensures_still [where ?s0.0 = s, OF sdio_wait_buffer_still]
        ensures_still [where ?s0.0 = s, OF sdio_wait_end_still])

lemma sdio_read_block_fills: "fills b (4 * n) s (sdio_read_block D n b s)"
proof (induction n arbitrary: b s)
  case 0
  then show ?case by simp
next
  case (Suc n)
  let ?t = "snd (inl D SDIO_BUF s)\<lparr>mem := store32 (mem s) b (fst (inl D SDIO_BUF s))\<rparr>"
  have "fills b (4 * Suc n) s ?t"
    by (auto simp: fills_def quiet_def intro!: only_changed_mono [OF only_changed_store32])
  moreover have "fills b (4 * Suc n) ?t (sdio_read_block D n (b + 4) ?t)"
    using Suc [of "b + 4" ?t] by (intro fills_sub [of b 4 "4 * n"]) auto
  ultimately show ?case
    by (auto simp: Let_def case_prod_beta sdio_read_def intro: fills_trans)
qed

lemma sdio_read_512_fills: "512 \<le> n \<Longrightarrow> fills b n s0 s \<Longrightarrow> fills b n s0 (sdio_read_block D 128 b s)"
  using sdio_read_block_fills [of b 128 s D] by (auto intro: fills_trans fills_mono)

lemma sdio_single_read_fills: "ensures (sdio_single_read D emmc a b s) (\<lambda>r. fills b 512 s (snd r))"
  unfolding sdio_single_read_def
  by (auto simp: case_prod_beta
      intro!: ensures_still_fills [where ?s0.0 = s, OF sdio_send_cmd_still]
        ensures_still_fills [where ?s0.0 = s, OF sdio_wait_buffer_still]
        ensures_still_fills [where ?s0.0 = s, OF sdio_wait_end_still] sdio_read_512_fills)

lemma sdio_read_blocks_fills:
  fixes s :: "('d, 'z) mach_scheme"
  shows "ensures (sdio_read_blocks D n b s) (\<lambda>r. fills b (512 * n) s (snd r))"
proof (induction n arbitrary: b s)
  case 0
  then show ?case by simp
next
  case (Suc n)
  have IH: "ensures (sdio_read_blocks D n (b + 512) t) (\<lambda>r. fills b (512 * Suc n) t (snd r))"
    for t :: "('d, 'z) mach_scheme"
    by (rule ensures_weaken [OF Suc.IH]) (auto intro: fills_sub [of b 512])
  show ?case
    by (auto simp: case_prod_beta simp del: mult_Suc_right
        intro!: ensures_still_fills [where ?s0.0 = s, OF sdio_wait_port_still]
          ensures_fills [where ?s0.0 = s, OF IH] sdio_read_512_fills)
qed

lemma sdio_multi_read_fills:
  "ensures (sdio_multi_read D emmc a b n s) (\<lambda>r. fills b (512 * nat (sint n)) s (snd r))"
  unfolding sdio_multi_read_def
  by (auto simp: Let_def case_prod_beta still_fills sdio_set_count_keeps [OF keeps_still] split: option.splits
      intro!: ensures_still_fills [where ?s0.0 = s, OF sdio_send_cmd_still]
        ensures_still_fills [where ?s0.0 = s, OF sdio_wait_buffer_still]
        ensures_fills [where ?s0.0 = s, OF sdio_read_blocks_fills]
        ensures_still_fills [where ?s0.0 = s, OF sdio_wait_end_still])

interpretation sdio: block_io "sdio_if D emmc miniboot" for D emmc miniboot
  by unfold_locales
    (auto simp: sdio_if_def sdio_hw_init_def sdio_set_buswidth_def Let_def case_prod_beta
      sdio_read_keeps [OF keeps_still]
      dest: ensuresD [OF sdio_send_cmd_still] ensuresD [OF sdio_single_read_fills]
        ensuresD [OF sdio_multi_read_fills] ensuresD [OF sdio_multi_write_still]
        ensuresD [OF sdio_set_clock_keeps [OF keeps_still still_refl]])

section \<open>What the driver writes\<close>

text \<open>The words of a buffer, as the 32-bit data port gets them.\<close>

definition words_at :: "(u32 \<Rightarrow> u8) \<Rightarrow> u32 \<Rightarrow> nat \<Rightarrow> u32 list" where
  "words_at m b n = map (\<lambda>i. load32 m (b + of_nat (4 * i))) [0..<n]"

lemma words_at_append: "words_at m b (j + k) = words_at m b j @ words_at m (b + of_nat (4 * j)) k"
  by (rule nth_equalityI) (auto simp: words_at_def nth_append algebra_simps of_nat_diff)

lemma sdio_write_block_logged:
  assumes R: "records D SDIO_BUF log"
  shows "logged log m l s \<Longrightarrow> logged log m (l @ words_at m p n) (sdio_write_block D n p s)"
proof (induction n arbitrary: p s l)
  case 0
  then show ?case by (simp add: words_at_def)
next
  case (Suc n)
  have "mem s = m" using Suc.prems by (simp add: logged_def)
  then have "logged log m (l @ words_at m p 1) (sdio_write D (load32 (mem s) p) SDIO_BUF s)"
    using logged_port [OF R Suc.prems] by (simp add: words_at_def sdio_write_def)
  from Suc.IH [OF this, of "p + 4"] show ?case
    using words_at_append [of m p 1 n] by simp
qed

lemma sdio_write_blocks_logged:
  fixes s :: "('d, 'z) mach_scheme"
  assumes R: "records D SDIO_BUF log"
  shows "logged log m l s \<Longrightarrow> ensures (sdio_write_blocks D b n p s)
    (\<lambda>r. fst r = None \<longrightarrow> logged log m (l @ words_at m p (128 * n)) (snd r))"
proof (induction n arbitrary: p s l)
  case 0
  then show ?case by (simp add: words_at_def)
next
  case (Suc n)
  note K = keeps_logged [OF R]
  have IH: "ensures (sdio_write_blocks D b n (p + 512) s1)
      (\<lambda>r. fst r = None \<longrightarrow> logged log m (l @ words_at m p (128 + 128 * n)) (snd r))"
    if "logged log m (l @ words_at m p 128) s1" for s1 :: "('d, 'z) mach_scheme"
    using Suc.IH [OF that, of "p + 512"] words_at_append [of m p 128 "128 * n"] by simp
  show ?case
    by (auto simp: case_prod_beta intro!: ensures_weaken [OF sdio_wait_port_keeps [OF K Suc.prems]]
        ensures_weaken [OF IH] sdio_write_block_logged [OF R])
qed

text \<open>
  A multi-block write of the SDIO driver that reports success has sent 128 words of memory
  from \<open>buf\<close> on for each block, in order. This includes \<open>buf = NULL\<close>, the request of
  \<open>mmc_erase\<close> to clear the blocks: the driver then sends the memory at address 0, where
  \<open>sdc.c\<close> sends zeros.
\<close>

theorem sdio_multi_write_delivers:
  assumes R: "records D SDIO_BUF log" and run: "sdio_multi_write D emmc a b n s = Some (0, s')"
  shows "log (dev s') = log (dev s) @ words_at (mem s) b (128 * nat (sint n))"
proof -
  note K = keeps_logged [OF R]
  have s: "logged log (mem s) (log (dev s)) s" by (simp add: logged_def)
  have "ensures (sdio_multi_write D emmc a b n s) (\<lambda>r. fst r = 0 \<longrightarrow>
      logged log (mem s) (log (dev s) @ words_at (mem s) b (128 * nat (sint n))) (snd r))"
    unfolding sdio_multi_write_def
    by (auto simp: Let_def case_prod_beta intro!: ensures_weaken [OF sdio_send_cmd_keeps [OF K]]
        ensures_weaken [OF sdio_write_blocks_logged [OF R]] ensures_weaken [OF sdio_wait_end_keeps [OF K]]
        ensures_weaken [OF sdio_wait_buffer_keeps [OF K]] sdio_set_count_keeps [OF K] s)
  from ensuresD [OF this run] show ?thesis by (simp add: logged_def)
qed

definition recording_mmc :: "u32 list device" where
  "recording_mmc = \<lparr>
     dread = (\<lambda>a d. (if a = SDIO_INT_STS then 0x33 else if a = SDIO_STATE then 0x100c00 else 0, d)),
     dwrite = (\<lambda>a v d. if a = SDIO_BUF then d @ [v] else d)\<rparr>"

lemma recording_mmc_reads [simp]:
  "sdio_read recording_mmc SDIO_INT_STS s = (0x33, s)" "sdio_read recording_mmc SDIO_STATE s = (0x100c00, s)"
  "sdio_read recording_mmc SDIO_BLOCK s = (0, s)" "sdio_read recording_mmc SDIO_MODE_CMD s = (0, s)"
  by (simp_all add: sdio_read_def inl_def recording_mmc_def sdio_regs)

lemma recording_mmc_writes [simp]:
  "a \<noteq> SDIO_BUF \<Longrightarrow> sdio_write recording_mmc v a s = s"
  "sdio_write recording_mmc v SDIO_BUF s = s\<lparr>dev := dev s @ [v]\<rparr>"
  by (simp_all add: sdio_write_def outl_def recording_mmc_def)

text \<open>A \<open>NULL\<close> buffer over a memory full of ones: the block is filled with ones, not cleared.\<close>

theorem sdio_multi_write_delivers_witness:
  "\<exists>s'. sdio_multi_write recording_mmc True 9 0 1 \<lparr>mem = (\<lambda>_. 0xff), dev = [], outp = []\<rparr> = Some (0, s') \<and>
     dev s' = replicate 128 0xffffffff"
proof -
  let ?s = "\<lparr>mem = (\<lambda>_. 0xff), dev = [], outp = []\<rparr> :: u32 list mach"
  have "\<exists>s'. sdio_multi_write recording_mmc True 9 0 1 ?s = Some (0, s')"
    by (simp add: sdio_multi_write_def sdio_send_cmd_def sdio_set_count_def sdio_wait_response_def
        sdio_wait_buffer_def sdio_wait_port_def sdio_wait_end_def loopM.simps sdio_bits mmc_consts)
  then obtain s' where run: "sdio_multi_write recording_mmc True 9 0 1 ?s = Some (0, s')" by blast
  have rec: "records recording_mmc SDIO_BUF (\<lambda>d. d)"
    by (simp add: records_def recording_mmc_def)
  have "words_at (\<lambda>_. 0xff) b n = replicate n 0xffffffff" for b n
    by (simp add: words_at_def load32_def map_replicate_const)
  then show ?thesis
    using sdio_multi_write_delivers [OF rec run] by (simp add: run)
qed

end
