(* ===== verification/MmcFlash.thy ===== *)
theory MmcFlash
  imports HwIf Sdc Sdio
begin

text \<open>
  The U-Boot side of \<open>mini-boot/mmc/mmc.c\<close>: size detection, the write protect table in SRAM,
  and the erase, write and protect requests of the flash commands. The controller driver is
  the parameter \<open>hw\<close>; \<open>cfg\<close> is the boot device the build selects. A call that never returns,
  in a driver's poll or in a division by zero, is \<open>None\<close>.
\<close>

section \<open>Configuration and state\<close>

datatype boot_cfg = EMMC | ESD | SD

record 'd fmach = "'d mach" +
  mmc_erase_blocks :: u32
  mmc_protect_blk :: u32
  dev_total_blk :: u32

record boot_info =
  bi_addr :: u32
  bi_block :: u32
  bi_size :: u32
  bi_erase :: u32

definition EMXX_MMC_OK :: u32 where "EMXX_MMC_OK = 0"
definition EMXX_MMC_ERR_START :: u32 where "EMXX_MMC_ERR_START = -1"
definition EMXX_MMC_ERR_END :: u32 where "EMXX_MMC_ERR_END = -2"
definition EMXX_MMC_ERR_PARTITION :: u32 where "EMXX_MMC_ERR_PARTITION = -3"
definition EMXX_MMC_ERR_PROTECT :: u32 where "EMXX_MMC_ERR_PROTECT = -4"
definition EMXX_MMC_ERR_WRITE :: u32 where "EMXX_MMC_ERR_WRITE = -5"
definition EMXX_MMC_ERR_OTHER :: u32 where "EMXX_MMC_ERR_OTHER = -9"
definition EMXX_MMC_MAXBLK :: u32 where "EMXX_MMC_MAXBLK = 0x80000000"
definition EMXX_ERASE_MAXBYTE :: u32 where "EMXX_ERASE_MAXBYTE = 0x80000000"
definition EMXX_ERASE_MAXBLK :: u32 where "EMXX_ERASE_MAXBLK = EMXX_ERASE_MAXBYTE div MMC_BLOCKLEN_VAL"

definition CONFIG_MMC_PARTS :: u32 where "CONFIG_MMC_PARTS = 4"
definition CONFIG_MMC_BLOCKS :: u32 where "CONFIG_MMC_BLOCKS = 0x1000000"
definition CONFIG_MMC_SECT_OF_BLOCKS :: u32 where "CONFIG_MMC_SECT_OF_BLOCKS = 0x2000"
definition CONFIG_MMC_SECTS :: u32 where "CONFIG_MMC_SECTS = CONFIG_MMC_BLOCKS div CONFIG_MMC_SECT_OF_BLOCKS"
definition CONFIG_MMC_PROTECT_TBL :: u32 where "CONFIG_MMC_PROTECT_TBL = 0xf0000000"
definition CONFIG_MMC_PROTECT_TBL_SIZE :: u32 where "CONFIG_MMC_PROTECT_TBL_SIZE = CONFIG_MMC_SECTS"
definition CONFIG_ENV_SIZE :: u32 where "CONFIG_ENV_SIZE = 0x20000"
definition PHYS_SDRAM_SIZE :: u32 where "PHYS_SDRAM_SIZE = 0x08000000"
definition PHYS_SDRAM_1 :: u32 where "PHYS_SDRAM_1 = 0x40000000"
definition PHYS_SDRAM_2 :: u32 where "PHYS_SDRAM_2 = PHYS_SDRAM_1 + PHYS_SDRAM_SIZE"
definition PHYS_SDRAM_2_SIZE :: u32 where "PHYS_SDRAM_2_SIZE = PHYS_SDRAM_SIZE"

definition CONFIG_ENV_OFFSET :: "boot_cfg \<Rightarrow> u32" where
  "CONFIG_ENV_OFFSET cfg = (if cfg = SD then 0 else 0x200)"

lemmas flash_errs = EMXX_MMC_OK_def EMXX_MMC_ERR_START_def EMXX_MMC_ERR_END_def
  EMXX_MMC_ERR_PARTITION_def EMXX_MMC_ERR_PROTECT_def EMXX_MMC_ERR_WRITE_def EMXX_MMC_ERR_OTHER_def

lemmas flash_consts = EMXX_MMC_MAXBLK_def EMXX_ERASE_MAXBYTE_def EMXX_ERASE_MAXBLK_def
  CONFIG_MMC_PARTS_def CONFIG_MMC_BLOCKS_def CONFIG_MMC_SECT_OF_BLOCKS_def CONFIG_MMC_SECTS_def
  CONFIG_MMC_PROTECT_TBL_def CONFIG_MMC_PROTECT_TBL_SIZE_def CONFIG_ENV_SIZE_def
  PHYS_SDRAM_SIZE_def PHYS_SDRAM_1_def PHYS_SDRAM_2_def PHYS_SDRAM_2_SIZE_def
  CONFIG_ENV_OFFSET_def

text \<open>The partition table of the packed \<open>MBRecord\<close> the ROM loader left in SRAM.\<close>

definition firstSectorNumbers :: "u32 \<Rightarrow> ('d, 'z) mach_scheme \<Rightarrow> u32" where
  "firstSectorNumbers part s = load32 (mem s) (ROMBOOT_WORK_START + 446 + 16 * part + 8)"

definition numberOfSectors :: "u32 \<Rightarrow> ('d, 'z) mach_scheme \<Rightarrow> u32" where
  "numberOfSectors part s = load32 (mem s) (ROMBOOT_WORK_START + 446 + 16 * part + 12)"

section \<open>Initialisation\<close>

definition c_size_mult :: "u32 list" where
  "c_size_mult = [4, 8, 16, 32, 64, 128, 256, 512]"

definition blk_len :: "u32 list" where
  "blk_len = [0, 0, 0, 0, 0, 0, 0, 0, 0, 512, 1024, 2048, 0, 0, 0, 0]"

text \<open>The erase unit: from the erase group fields of the CSD (eMMC) or its sector size (SD).\<close>

definition csd_erase_blocks :: "boot_cfg \<Rightarrow> u32 list \<Rightarrow> u32" where
  "csd_erase_blocks cfg resp =
     (if cfg = EMMC
      then let block_num = drop_bit 29 (resp ! 0 AND 0xe0000000) OR push_bit 3 (resp ! 1 AND 0x00000003);
               tmp_u32 = drop_bit 2 (resp ! 1 AND 0x0000007c) + 1
           in (block_num + 1) * tmp_u32
      else if drop_bit 6 (resp ! 1 AND 0x00000040) = 0
      then drop_bit 31 (resp ! 0 AND 0x80000000) OR push_bit 1 (resp ! 1 AND 0x0000003f)
      else 1)"

text \<open>The four bytes \<open>ExtCsd[212..215]\<close>, most significant first.\<close>

definition extcsd_blocks :: "(u32 \<Rightarrow> u8) \<Rightarrow> u32 \<Rightarrow> u32" where
  "extcsd_blocks m ExtCsd =
     (let n = ucast (m (ExtCsd + 215)); n = push_bit 8 n OR ucast (m (ExtCsd + 214));
          n = push_bit 8 n OR ucast (m (ExtCsd + 213))
      in push_bit 8 n OR ucast (m (ExtCsd + 212)))"

definition csd_total_blocks :: "u32 list \<Rightarrow> u32 \<Rightarrow> u32 \<Rightarrow> u32" where
  "csd_total_blocks resp sd_ver blks =
     (if sd_ver = 0 \<and> blks = 0
      then let c_size_n = drop_bit 7 (resp ! 1 AND 0x00000380);
               dev_size = drop_bit 22 (resp ! 1 AND 0xffc00000) OR push_bit 10 (resp ! 2 AND 0x00000003);
               dev_size = (dev_size + 1) * c_size_mult ! unat c_size_n;
               read_blk_len = blk_len ! unat (drop_bit 8 (resp ! 2 AND 0x00000f00))
           in (dev_size * read_blk_len) div MMC_BLOCKLEN_VAL
      else if sd_ver = 1 then (drop_bit 8 (resp ! 1 AND 0xffffff00) + 1) * 1024
      else blks)"

text \<open>The loop that doubles the protect sector until the table covers the device.\<close>

definition protect_scale :: "u32 \<Rightarrow> (u32 \<times> nat) option" where
  "protect_scale blks =
     map_option snd (loopM (\<lambda>(block_num, i).
       Some (if block_num < EMXX_MMC_MAXBLK
             then if blks \<le> block_num then (Some (), block_num, i) else (None, push_bit 1 block_num, i + 1)
             else (Some (), block_num, i))) (CONFIG_MMC_BLOCKS, 0))"

primrec fill_words :: "nat \<Rightarrow> u32 \<Rightarrow> u32 \<Rightarrow> (u32 \<Rightarrow> u8) \<Rightarrow> (u32 \<Rightarrow> u8)" where
  "fill_words 0 p v m = m"
| "fill_words (Suc n) p v m = fill_words n (p + 4) v (store32 m p v)"

text \<open>The second half of \<open>mmc_flash_init\<close>: the geometry, the protect table, the result.\<close>

definition flash_setup :: "boot_cfg \<Rightarrow> u32 list \<Rightarrow> u32 \<Rightarrow> ('d, 'z) fmach_scheme \<Rightarrow> (u32 \<times> ('d, 'z) fmach_scheme) option" where
  "flash_setup cfg resp sd_ver s = do {
     let s = s\<lparr>mmc_erase_blocks := csd_erase_blocks cfg resp\<rparr>;
     let s = s\<lparr>dev_total_blk := csd_total_blocks resp sd_ver (dev_total_blk s)\<rparr>;
     (block_num, i) \<leftarrow> protect_scale (dev_total_blk s);
     let s = (if block_num = EMXX_MMC_MAXBLK then s\<lparr>dev_total_blk := EMXX_MMC_MAXBLK\<rparr> else s);
     let s = s\<lparr>mmc_protect_blk := push_bit i CONFIG_MMC_SECT_OF_BLOCKS\<rparr>;
     let s = s\<lparr>mem := fill_words (unat (drop_bit 2 CONFIG_MMC_PROTECT_TBL_SIZE))
                   CONFIG_MMC_PROTECT_TBL 0x01010101 (mem s)\<rparr>;
     let part = (if cfg = SD then 1 else 0);
     Some (if CONFIG_ENV_OFFSET cfg + CONFIG_ENV_SIZE div MMC_BLOCKLEN_VAL \<le> numberOfSectors part s
           then firstSectorNumbers part s + CONFIG_ENV_OFFSET cfg else 0, s)
   }"

definition mmc_flash_init :: "boot_cfg \<Rightarrow> ('d, 'z) fmach_scheme hw_if \<Rightarrow> u32 \<Rightarrow>
    ('d, 'z) fmach_scheme \<Rightarrow> (u32 \<times> ('d, 'z) fmach_scheme) option" where
  "mmc_flash_init cfg hw ExtCsd s = do {
     (_, s) \<leftarrow> (if cfg = EMMC then Some (0, s) else single_read hw 0 ROMBOOT_WORK_START s);
     (_, _, s) \<leftarrow> send_cmd hw 7 0 MMC_RSP_NONE None s;
     (ret, resp, s) \<leftarrow> send_cmd hw 9 (push_bit 16 (RCA_VAL s)) MMC_RSP_R2 (Some [0, 0, 0, 0]) s;
     if ret \<noteq> 0 then Some (ret, s)
     else do {
       (ret, _, s) \<leftarrow> send_cmd hw 7 (push_bit 16 (RCA_VAL s)) MMC_RSP_R1 None s;
       if ret \<noteq> 0 then Some (ret, s)
       else do {
         let resp = (case resp of Some xs \<Rightarrow> xs | None \<Rightarrow> [0, 0, 0, 0]);
         (sd_ver, s) \<leftarrow> (if cfg = EMMC
           then do {
             (ret, s) \<leftarrow> send_extcsd hw ExtCsd s;
             let s = (if ret \<noteq> 0 then s\<lparr>mem := (mem s)(ExtCsd + 511 := 0xff)\<rparr> else s);
             Some (0, s\<lparr>dev_total_blk := extcsd_blocks (mem s) ExtCsd\<rparr>)
           }
           else Some (drop_bit 22 (resp ! 3 AND 0x00c00000), s));
         flash_setup cfg resp sd_ver s
       }
     }
   }"

section \<open>Block requests\<close>

definition block_count :: "u32 \<Rightarrow> u32" where
  "block_count nbytes =
     (let block_num = nbytes div MMC_BLOCKLEN_VAL
      in if nbytes AND (MMC_BLOCKLEN_VAL - 1) \<noteq> 0 then block_num + 1 else block_num)"

definition mmc_multi_block_write :: "('d, 'z) mach_scheme hw_if \<Rightarrow> u32 \<Rightarrow> u32 \<Rightarrow> u32 \<Rightarrow>
    ('d, 'z) mach_scheme \<Rightarrow> (u32 \<times> ('d, 'z) mach_scheme) option" where
  "mmc_multi_block_write hw address data nbytes s =
     (if nbytes = 0 then Some (-1, s) else multi_write hw address data (block_count nbytes) s)"

definition mmc_multi_block_read :: "('d, 'z) mach_scheme hw_if \<Rightarrow> u32 \<Rightarrow> u32 \<Rightarrow> u32 \<Rightarrow>
    ('d, 'z) mach_scheme \<Rightarrow> (u32 \<times> ('d, 'z) mach_scheme) option" where
  "mmc_multi_block_read hw address data nbytes s =
     (if data = 0 \<or> nbytes = 0 then Some (-1, s) else multi_read hw address data (block_count nbytes) s)"

definition erase_range :: "u32 \<Rightarrow> u32 \<Rightarrow> ('d, 'z) mach_scheme \<Rightarrow> u32 \<times> u32" where
  "erase_range address nbytes s =
     (if acc_mode s \<noteq> 0
      then let end_block = address + nbytes div MMC_BLOCKLEN_VAL - 1
           in (address, if nbytes AND (MMC_BLOCKLEN_VAL - 1) \<noteq> 0 then end_block + 1 else end_block)
      else let address = address * MMC_BLOCKLEN_VAL in (address, address + nbytes - 1))"

definition mmc_multi_block_erase :: "boot_cfg \<Rightarrow> ('d, 'z) mach_scheme hw_if \<Rightarrow> u32 \<Rightarrow> u32 \<Rightarrow>
    ('d, 'z) mach_scheme \<Rightarrow> (u32 \<times> ('d, 'z) mach_scheme) option" where
  "mmc_multi_block_erase cfg hw address nbytes s =
     (if nbytes = 0 then Some (-1, s)
      else do {
        let (address, end_block) = erase_range address nbytes s;
        (ret, _, s) \<leftarrow> send_cmd hw (if cfg = EMMC then 35 else 32) address MMC_RSP_R1 None s;
        if ret \<noteq> 0 then Some (ret, s)
        else do {
          (ret, _, s) \<leftarrow> send_cmd hw (if cfg = EMMC then 36 else 33) end_block MMC_RSP_R1 None s;
          if ret \<noteq> 0 then Some (ret, s)
          else do {
            (ret, _, s) \<leftarrow> send_cmd hw 38 0 MMC_RSP_R1B None s;
            if ret \<noteq> 0 then Some (ret, s) else Some (0, s)
          }
        }
      })"

definition mmc_erase :: "boot_cfg \<Rightarrow> ('d, 'z) mach_scheme hw_if \<Rightarrow> boot_info \<Rightarrow>
    ('d, 'z) mach_scheme \<Rightarrow> (u32 \<times> ('d, 'z) mach_scheme) option" where
  "mmc_erase cfg hw info s =
     (if bi_erase info \<noteq> 0 then mmc_multi_block_erase cfg hw (bi_block info) (bi_size info) s
      else mmc_multi_block_write hw (bi_block info) 0 (bi_size info) s)"

definition mmc_write :: "('d, 'z) mach_scheme hw_if \<Rightarrow> boot_info \<Rightarrow>
    ('d, 'z) mach_scheme \<Rightarrow> (u32 \<times> ('d, 'z) mach_scheme) option" where
  "mmc_write hw info s = mmc_multi_block_write hw (bi_block info) (bi_addr info) (bi_size info) s"

definition mmc_read :: "('d, 'z) mach_scheme hw_if \<Rightarrow> boot_info \<Rightarrow>
    ('d, 'z) mach_scheme \<Rightarrow> (u32 \<times> ('d, 'z) mach_scheme) option" where
  "mmc_read hw info s = mmc_multi_block_read hw (bi_block info) (bi_addr info) (bi_size info) s"

section \<open>Write protection\<close>

text \<open>The argument check that \<open>mmc_protect_sect\<close> and \<open>mmc_check_protect\<close> share: 0 if they go on.\<close>

definition protect_range_error :: "u32 \<Rightarrow> u32 \<Rightarrow> ('d, 'z) fmach_scheme \<Rightarrow> u32" where
  "protect_range_error s_blk e_blk s =
     (if s_blk AND (mmc_protect_blk s - 1) \<noteq> 0 \<or> dev_total_blk s \<le> s_blk then EMXX_MMC_ERR_START
      else if e_blk AND (mmc_protect_blk s - 1) \<noteq> 0 \<and> e_blk \<noteq> dev_total_blk s
        \<or> e_blk \<le> s_blk \<or> dev_total_blk s < e_blk then EMXX_MMC_ERR_END
      else 0)"

primrec set_bytes :: "nat \<Rightarrow> u32 \<Rightarrow> u8 \<Rightarrow> (u32 \<Rightarrow> u8) \<Rightarrow> (u32 \<Rightarrow> u8)" where
  "set_bytes 0 p v m = m"
| "set_bytes (Suc n) p v m = set_bytes n (p + 1) v (m(p := v))"

definition mmc_protect_sect :: "u32 \<Rightarrow> u32 \<Rightarrow> u32 \<Rightarrow> ('d, 'z) fmach_scheme \<Rightarrow> (u32 \<times> ('d, 'z) fmach_scheme) option" where
  "mmc_protect_sect s_blk e_blk mode s =
     (let err = protect_range_error s_blk e_blk s in
      if err \<noteq> 0 then Some (err, s)
      else if mode AND 0xFFFFFFFE \<noteq> 0 then Some (EMXX_MMC_ERR_OTHER, s)
      else do {
        sect \<leftarrow> udiv s_blk (mmc_protect_blk s);
        let wp_tbl = CONFIG_MMC_PROTECT_TBL + sect;
        e \<leftarrow> udiv e_blk (mmc_protect_blk s);
        let e_sect = (if e - sect = 0 then 1 else e - sect);
        Some (e_sect, s\<lparr>mem := set_bytes (unat e_sect) wp_tbl (ucast mode) (mem s)\<rparr>)
      })"

text \<open>The rounding of a block range to protect sectors, cut off at the end of the device.\<close>

definition protect_round :: "u32 \<Rightarrow> u32 \<Rightarrow> ('d, 'z) fmach_scheme \<Rightarrow> (u32 \<times> u32) option" where
  "protect_round s_blk e_blk s = do {
     q \<leftarrow> udiv s_blk (mmc_protect_blk s);
     r \<leftarrow> udiv (e_blk + mmc_protect_blk s - 1) (mmc_protect_blk s);
     let chk_eblk = r * mmc_protect_blk s;
     Some (q * mmc_protect_blk s, if dev_total_blk s < chk_eblk then dev_total_blk s else chk_eblk)
   }"

definition mmc_protect_part :: "u32 \<Rightarrow> u32 \<Rightarrow> ('d, 'z) fmach_scheme \<Rightarrow> (u32 \<times> ('d, 'z) fmach_scheme) option" where
  "mmc_protect_part part mode s =
     (if CONFIG_MMC_PARTS < part then Some (EMXX_MMC_ERR_PARTITION, s)
      else if part \<noteq> 0
      then let part = part - 1; s_blk = firstSectorNumbers part s; p_size = numberOfSectors part s
        in if s_blk = 0 \<or> p_size = 0 then Some (EMXX_MMC_ERR_PARTITION, s)
           else do {
             (s_blk, e_blk) \<leftarrow> protect_round s_blk (s_blk + p_size) s;
             mmc_protect_sect s_blk e_blk mode s
           }
      else mmc_protect_sect 0 (dev_total_blk s) mode s)"

primrec print_sectors :: "nat \<Rightarrow> nat \<Rightarrow> u32 \<Rightarrow> u32 \<Rightarrow> ('d, 'z) fmach_scheme \<Rightarrow> ('d, 'z) fmach_scheme" where
  "print_sectors 0 sect wp_tbl p_blk s = printf (line []) [] s"
| "print_sectors (Suc n) sect wp_tbl p_blk s =
     (let s = printf ''%08lX '' [Num p_blk] s;
          s = printf (if mem s wp_tbl \<noteq> 0 then ''(RO) '' else ''     '') [] s;
          s = (if (sect + 1) mod 5 = 0 then printf (line [] @ ''    '') [] s else s)
      in print_sectors n (sect + 1) (wp_tbl + 1) (p_blk + mmc_protect_blk s) s)"

primrec any_set :: "nat \<Rightarrow> u32 \<Rightarrow> (u32 \<Rightarrow> u8) \<Rightarrow> bool" where
  "any_set 0 p m = False"
| "any_set (Suc n) p m = (if m p \<noteq> 0 then True else any_set n (p + 1) m)"

definition mmc_check_protect :: "u32 \<Rightarrow> u32 \<Rightarrow> bool \<Rightarrow> ('d, 'z) fmach_scheme \<Rightarrow> (u32 \<times> ('d, 'z) fmach_scheme) option" where
  "mmc_check_protect s_blk e_blk print s =
     (let err = protect_range_error s_blk e_blk s in
      if err \<noteq> 0 then Some (err, s)
      else do {
        sect \<leftarrow> udiv s_blk (mmc_protect_blk s);
        let wp_tbl = CONFIG_MMC_PROTECT_TBL + sect;
        e \<leftarrow> udiv e_blk (mmc_protect_blk s);
        let e_sect = e - sect;
        if print then Some (EMXX_MMC_OK, print_sectors (unat e_sect) 0 wp_tbl s_blk s)
        else if any_set (unat e_sect) wp_tbl (mem s) then Some (EMXX_MMC_ERR_PROTECT, s)
        else Some (EMXX_MMC_OK, s)
      })"

section \<open>The requests of the flash commands\<close>

definition print_part_size :: "string \<Rightarrow> u32 \<Rightarrow> u32 \<Rightarrow> ('d, 'z) fmach_scheme \<Rightarrow> ('d, 'z) fmach_scheme" where
  "print_part_size tail sect_size sect_num s =
     (if sect_size < 0x400 then printf (line (''%lx Blocks in %ld '' @ tail)) [Num sect_size, Num sect_num] s
      else if sect_size < 0x100000
      then printf (line (''%lxK Blocks in %ld '' @ tail)) [Num (drop_bit 10 sect_size), Num sect_num] s
      else printf (line (''%lxM Blocks in %ld '' @ tail)) [Num (drop_bit 20 sect_size), Num sect_num] s)"

primrec print_partitions :: "nat \<Rightarrow> u32 \<Rightarrow> ('d, 'z) fmach_scheme \<Rightarrow> ('d, 'z) fmach_scheme" where
  "print_partitions 0 part s = s"
| "print_partitions (Suc n) part s =
     (let s_blk = firstSectorNumbers part s; p_size = numberOfSectors part s;
          s = (if p_size \<noteq> 0
               then printf (line ''  Partition %d : %08x - %08x [block]'')
                      [Num (part + 1), Num s_blk, Num (s_blk + p_size - 1)] s
               else s)
      in print_partitions n (part + 1) s)"

definition mmc_print_part :: "u32 \<Rightarrow> ('d, 'z) fmach_scheme \<Rightarrow> (u32 \<times> ('d, 'z) fmach_scheme) option" where
  "mmc_print_part part s =
     (let rule = line ''  -------------------------------------------------'';
          head = (\<lambda>s. printf (line ''  Total       : %x Blocks'') [Num (dev_total_blk s)] (printf rule [] s));
          rest = (\<lambda>chk_sblk chk_eblk s. do {
            sect_num \<leftarrow> udiv (dev_total_blk s) (mmc_erase_blocks s);
            let s = print_part_size ''Erase Unit'' (mmc_erase_blocks s) sect_num (printf ''  Erase Size  : '' [] s);
            sect_num \<leftarrow> udiv (dev_total_blk s) (mmc_protect_blk s);
            let s = print_part_size ''Sectors'' (mmc_protect_blk s) sect_num (printf ''  Protect Size: '' [] s);
            let s = printf (line ''  Sector Start Block Number:'' @ ''    '') [] (printf rule [] s);
            mmc_check_protect chk_sblk chk_eblk True s
          })
      in if CONFIG_MMC_PARTS < part then Some (EMXX_MMC_ERR_PARTITION, s)
      else if part \<noteq> 0
      then let part = part - 1; s_blk = firstSectorNumbers part s; p_size = numberOfSectors part s
        in if s_blk = 0 \<or> p_size = 0 then Some (EMXX_MMC_ERR_PARTITION, s)
           else do {
             let e_blk = s_blk + p_size;
             let s = printf (line ''  Partition %d : %08x - %08x [block]'')
                       [Num (part + 1), Num s_blk, Num (e_blk - 1)] (head s);
             (chk_sblk, chk_eblk) \<leftarrow> protect_round s_blk e_blk s;
             rest chk_sblk chk_eblk s
           }
      else let s = print_partitions (unat CONFIG_MMC_PARTS) 0 (head s)
           in rest 0 (dev_total_blk s) s)"

text \<open>
  The chunk loop of \<open>mmc_erase_sect\<close>: at most \<open>EMXX_ERASE_MAXBLK\<close> blocks a request. \<open>ret0\<close> is
  the value of \<open>ret\<close> before the loop. The recursion is on the number of blocks \<open>n\<close> left.
\<close>

function erase_chunks :: "boot_cfg \<Rightarrow> ('d, 'z) mach_scheme hw_if \<Rightarrow> u32 \<Rightarrow> u32 \<Rightarrow> u32 \<Rightarrow>
    ('d, 'z) mach_scheme \<Rightarrow> (u32 \<times> ('d, 'z) mach_scheme) option" where
  "erase_chunks cfg hw ret0 s_blk n s =
     (if n = 0 then Some (ret0, s)
      else if EMXX_ERASE_MAXBLK < n
      then do {
        (ret, s) \<leftarrow> mmc_erase cfg hw \<lparr>bi_addr = 0, bi_block = s_blk, bi_size = EMXX_ERASE_MAXBYTE, bi_erase = 1\<rparr> s;
        if ret \<noteq> 0 then Some (ret, s)
        else erase_chunks cfg hw ret (s_blk + EMXX_ERASE_MAXBLK) (n - EMXX_ERASE_MAXBLK) s
      }
      else mmc_erase cfg hw \<lparr>bi_addr = 0, bi_block = s_blk, bi_size = n * MMC_BLOCKLEN_VAL, bi_erase = 1\<rparr> s)"
  by pat_completeness auto

termination
  by (relation "measure (\<lambda>(cfg, hw, ret0, s_blk, n, s). unat n)")
    (auto simp: flash_consts mmc_consts word_less_nat_alt unat_sub word_le_nat_alt)

declare erase_chunks.simps [simp del]

definition mmc_erase_sect :: "boot_cfg \<Rightarrow> ('d, 'z) fmach_scheme hw_if \<Rightarrow> u32 \<Rightarrow> u32 \<Rightarrow>
    ('d, 'z) fmach_scheme \<Rightarrow> (u32 \<times> ('d, 'z) fmach_scheme) option" where
  "mmc_erase_sect cfg hw s_blk e_blk s = do {
     let s = printf (line ''erase check:   start = %lx, end = %lx'') [Num s_blk, Num e_blk] s;
     if s_blk AND (mmc_erase_blocks s - 1) \<noteq> 0 \<or> dev_total_blk s \<le> s_blk then Some (EMXX_MMC_ERR_START, s)
     else if e_blk AND (mmc_erase_blocks s - 1) \<noteq> 0 \<or> e_blk \<le> s_blk \<or> dev_total_blk s < e_blk
     then Some (EMXX_MMC_ERR_END, s)
     else do {
       (chk_sblk, chk_eblk) \<leftarrow> protect_round s_blk e_blk s;
       let s = printf (line ''protect check: start = %lx, end = %lx'') [Num chk_sblk, Num chk_eblk] s;
       (ret, s) \<leftarrow> mmc_check_protect chk_sblk chk_eblk False s;
       if ret \<noteq> 0 then Some (EMXX_MMC_ERR_PROTECT, s)
       else erase_chunks cfg hw ret s_blk (e_blk - s_blk) s
     }
   }"

definition mmc_erase_part :: "boot_cfg \<Rightarrow> ('d, 'z) fmach_scheme hw_if \<Rightarrow> u32 \<Rightarrow>
    ('d, 'z) fmach_scheme \<Rightarrow> (u32 \<times> ('d, 'z) fmach_scheme) option" where
  "mmc_erase_part cfg hw part s =
     (if CONFIG_MMC_PARTS < part then Some (EMXX_MMC_ERR_PARTITION, s)
      else if part \<noteq> 0
      then let part = part - 1; s_blk = firstSectorNumbers part s; p_size = numberOfSectors part s
        in if s_blk = 0 \<or> p_size = 0 then Some (EMXX_MMC_ERR_PARTITION, s)
           else mmc_erase_sect cfg hw s_blk (s_blk + p_size) s
      else mmc_erase_sect cfg hw 0 (dev_total_blk s) s)"

definition mmc_write_sect :: "('d, 'z) fmach_scheme hw_if \<Rightarrow> u32 \<Rightarrow> u32 \<Rightarrow> u32 \<Rightarrow>
    ('d, 'z) fmach_scheme \<Rightarrow> (u32 \<times> ('d, 'z) fmach_scheme) option" where
  "mmc_write_sect hw addr s_blk e_blk s =
     (let nbytes = (e_blk - s_blk) * MMC_BLOCKLEN_VAL in
      if addr < PHYS_SDRAM_1 then Some (EMXX_MMC_ERR_OTHER, s)
      else if PHYS_SDRAM_2 + PHYS_SDRAM_2_SIZE < addr + nbytes then Some (EMXX_MMC_ERR_OTHER, s)
      else if dev_total_blk s < s_blk then Some (EMXX_MMC_ERR_START, s)
      else if dev_total_blk s < e_blk then Some (EMXX_MMC_ERR_END, s)
      else do {
        (chk_sblk, chk_eblk) \<leftarrow> protect_round s_blk e_blk s;
        let s = printf (line ''protect check: start = %lx, end = %lx'') [Num chk_sblk, Num chk_eblk] s;
        (ret, s) \<leftarrow> mmc_check_protect chk_sblk chk_eblk False s;
        if ret \<noteq> 0 then Some (EMXX_MMC_ERR_PROTECT, s)
        else do {
          (ret, s) \<leftarrow> mmc_write hw \<lparr>bi_addr = addr, bi_block = s_blk, bi_size = nbytes, bi_erase = 0\<rparr> s;
          if ret \<noteq> 0 then Some (EMXX_MMC_ERR_WRITE, s) else Some (e_blk - s_blk, s)
        }
      })"

definition mmc_write_part :: "('d, 'z) fmach_scheme hw_if \<Rightarrow> u32 \<Rightarrow> u32 \<Rightarrow> u32 \<Rightarrow>
    ('d, 'z) fmach_scheme \<Rightarrow> (u32 \<times> ('d, 'z) fmach_scheme) option" where
  "mmc_write_part hw addr part wb_size s =
     (if part = 0 \<or> CONFIG_MMC_PARTS < part then Some (EMXX_MMC_ERR_PARTITION, s)
      else let part = part - 1; blk = firstSectorNumbers part s in
        if blk = 0 then Some (EMXX_MMC_ERR_PARTITION, s)
        else if numberOfSectors part s < wb_size then Some (EMXX_MMC_ERR_END, s)
        else mmc_write_sect hw addr blk (blk + wb_size) s)"

section \<open>Geometry\<close>

text \<open>
  \<open>flash_ok\<close>: the invariant that \<open>mmc_flash_init\<close> establishes. The protect sector is a power of
  two and the device has no more sectors than the table has bytes.
\<close>

definition flash_ok :: "('d, 'z) fmach_scheme \<Rightarrow> bool" where
  "flash_ok s \<longleftrightarrow> (\<exists>k\<le>7. mmc_protect_blk s = 2 ^ (13 + k) \<and> unat (dev_total_blk s) \<le> 2 ^ (24 + k))"

text \<open>Sector \<open>n\<close> is write protected: its byte of the table is set.\<close>

definition sector_protected :: "('d, 'z) mach_scheme \<Rightarrow> nat \<Rightarrow> bool" where
  "sector_protected s n \<longleftrightarrow> mem s (CONFIG_MMC_PROTECT_TBL + of_nat n) \<noteq> 0"

abbreviation psize :: "('d, 'z) fmach_scheme \<Rightarrow> nat" where
  "psize s \<equiv> unat (mmc_protect_blk s)"

abbreviation ntotal :: "('d, 'z) fmach_scheme \<Rightarrow> nat" where
  "ntotal s \<equiv> unat (dev_total_blk s)"

lemma flash_ok_psize:
  assumes "flash_ok s"
  shows "0 < psize s" "psize s \<le> 2 ^ 20" "ntotal s \<le> 2 ^ 31" "ntotal s \<le> 2048 * psize s"
proof -
  from assms obtain k where k: "k \<le> 7" and p: "mmc_protect_blk s = 2 ^ (13 + k)"
    and t: "ntotal s \<le> 2 ^ (24 + k)" by (auto simp: flash_ok_def)
  have u: "psize s = 2 ^ (13 + k)" unfolding p using k by (intro unat_pow2) simp
  have "(2 :: nat) ^ (13 + k) \<le> 2 ^ 20" "(2 :: nat) ^ (24 + k) \<le> 2 ^ 31"
    using k by (intro power_increasing; simp)+
  moreover have "(2 :: nat) ^ (24 + k) = 2048 * 2 ^ (13 + k)"
    by (simp add: power_add)
  ultimately show "0 < psize s" "psize s \<le> 2 ^ 20" "ntotal s \<le> 2 ^ 31" "ntotal s \<le> 2048 * psize s"
    using t by (simp_all only: u) simp_all
qed

lemma aligned_iff:
  assumes "flash_ok s"
  shows "a AND (mmc_protect_blk s - 1) = 0 \<longleftrightarrow> unat a mod psize s = 0"
proof -
  from assms obtain k where "k \<le> 7" and "mmc_protect_blk s = 2 ^ (13 + k)"
    by (auto simp: flash_ok_def)
  then show ?thesis by (simp add: pow2_mask_iff unat_pow2)
qed

lemma udiv_psize: "flash_ok s \<Longrightarrow> udiv a (mmc_protect_blk s) = Some (a div mmc_protect_blk s)"
  using flash_ok_psize(1) [of s] by (auto simp: udiv_def)

text \<open>The rounding to protect sectors, on natural numbers.\<close>

definition round_down :: "nat \<Rightarrow> nat \<Rightarrow> nat" where
  "round_down p a = a div p * p"

definition round_up :: "nat \<Rightarrow> nat \<Rightarrow> nat" where
  "round_up p a = (a + p - 1) div p * p"

lemma round_up_ge: "0 < p \<Longrightarrow> a \<le> round_up p a"
proof -
  assume "0 < p"
  then have "(a + p - 1) mod p < p" by simp
  moreover have "a + p - 1 = round_up p a + (a + p - 1) mod p"
    by (simp add: round_up_def)
  ultimately show ?thesis by linarith
qed

lemma round_up_le: "round_up p a \<le> a + p - 1"
  by (simp add: round_up_def)

lemma round_down_le: "round_down p a \<le> a"
  by (simp add: round_down_def)

lemma word_mult_div: "a div P * P = (of_nat (round_down (unat P) (unat a)) :: u32)"
  by (simp add: round_down_def flip: unat_div)

lemma protect_round_value:
  assumes ok: "flash_ok s" and e: "unat e \<le> ntotal s"
  shows "protect_round a e s = Some (of_nat (round_down (psize s) (unat a)),
    of_nat (min (ntotal s) (round_up (psize s) (unat e))))"
proof -
  let ?P = "mmc_protect_blk s" and ?p = "psize s"
  note p = flash_ok_psize [OF ok]
  have "unat (e + ?P - 1) = unat e + ?p - 1"
    using p e by (simp add: unat_sub_if' unat_plus_if' unat_1)
  then have up: "(e + ?P - 1) div ?P * ?P = of_nat (round_up ?p (unat e))"
    by (simp only: word_mult_div round_down_def round_up_def)
  have "round_up ?p (unat e) < 2 ^ 32"
    using round_up_le [of ?p "unat e"] p e by simp
  then have "unat (of_nat (round_up ?p (unat e)) :: u32) = round_up ?p (unat e)"
    by (rule unat_of_nat_u32)
  then have "(if dev_total_blk s < of_nat (round_up ?p (unat e)) then dev_total_blk s
      else of_nat (round_up ?p (unat e))) = of_nat (min (ntotal s) (round_up ?p (unat e)))"
    by (auto simp: word_less_nat_alt min_def)
  then show ?thesis
    using udiv_psize [OF ok] by (simp add: protect_round_def up word_mult_div [of a] Let_def del: of_nat_unat split: if_split_asm)
qed

lemma any_set_iff: "any_set n a m \<longleftrightarrow> (\<exists>i<n. m (a + of_nat i) \<noteq> 0)"
proof (induction n arbitrary: a)
  case (Suc n)
  have "(\<exists>i<Suc n. m (a + of_nat i) \<noteq> 0) \<longleftrightarrow> m a \<noteq> 0 \<or> (\<exists>i<n. m (a + 1 + of_nat i) \<noteq> 0)"
    by (auto simp: less_Suc_eq_0_disj add.assoc)
  then show ?case using Suc by auto
qed simp

text \<open>
  The sectors of the table that a check of the blocks from \<open>a\<close> up to \<open>b\<close> looks at, and what it
  answers.
\<close>

definition checked_sectors :: "('d, 'z) fmach_scheme \<Rightarrow> nat \<Rightarrow> nat \<Rightarrow> nat set" where
  "checked_sectors s a b = {a div psize s..<b div psize s}"

lemma check_protect_value:
  assumes ok: "flash_ok s" and "protect_range_error a b s = 0"
  shows "mmc_check_protect a b False s = Some
    (if \<exists>n\<in>checked_sectors s (unat a) (unat b). sector_protected s n then EMXX_MMC_ERR_PROTECT else 0, s)"
proof -
  let ?P = "mmc_protect_blk s" and ?p = "psize s"
  have ab: "unat a < unat b"
    using assms(2) by (auto simp: protect_range_error_def flash_errs word_le_nat_alt split: if_splits)
  then have le: "unat a div ?p \<le> unat b div ?p" by (simp add: div_le_mono)
  have sub: "unat (b div ?P - a div ?P) = unat b div ?p - unat a div ?p"
    using le by (simp add: unat_div unat_sub word_le_nat_alt)
  have addr: "CONFIG_MMC_PROTECT_TBL + a div ?P + of_nat i = CONFIG_MMC_PROTECT_TBL + of_nat (unat a div ?p + i)" for i
    by (simp add: add.assoc flip: unat_div)
  have "any_set (unat (b div ?P - a div ?P)) (CONFIG_MMC_PROTECT_TBL + a div ?P) (mem s) \<longleftrightarrow>
      (\<exists>i<unat b div ?p - unat a div ?p. sector_protected s (unat a div ?p + i))"
    by (simp only: any_set_iff sub addr sector_protected_def)
  also have "\<dots> \<longleftrightarrow> (\<exists>n\<in>checked_sectors s (unat a) (unat b). sector_protected s n)"
    by (auto simp: checked_sectors_def) (metis add_diff_inverse_nat less_diff_conv2 not_less le add.commute)
  finally show ?thesis
    using udiv_psize [OF ok] assms(2)
    by (simp add: mmc_check_protect_def Let_def flash_errs)
qed

text \<open>
  The guard of \<open>mmc_erase_sect\<close> and \<open>mmc_write_sect\<close> on their rounded range: with a block of a
  protected whole sector among the requested ones, the check fails.
\<close>

lemma protect_guard:
  fixes a e :: u32
  assumes ok: "flash_ok s" and e: "unat e \<le> ntotal s" and b: "unat a \<le> b" "b < unat e"
    and whole: "b div psize s < ntotal s div psize s" and prot: "sector_protected s (b div psize s)"
  shows "\<exists>r. mmc_check_protect (of_nat (round_down (psize s) (unat a)))
      (of_nat (min (ntotal s) (round_up (psize s) (unat e)))) False s = Some (r, s) \<and> r \<noteq> 0"
proof -
  let ?p = "psize s" and ?a = "round_down (psize s) (unat a)"
    and ?e = "min (ntotal s) (round_up (psize s) (unat e))"
  note p = flash_ok_psize [OF ok]
  have le: "?a < 2 ^ 32" "?e < 2 ^ 32" using unat_u32_less [of a] round_down_le [of ?p "unat a"] p by auto
  then have u: "unat (of_nat ?a :: u32) = ?a" "unat (of_nat ?e :: u32) = ?e"
    by (simp_all only: unat_of_nat_u32)
  have "?a div ?p = unat a div ?p" using p by (simp add: round_down_def)
  moreover have "unat a div ?p \<le> b div ?p" using b by (simp add: div_le_mono)
  moreover have "b div ?p < ?e div ?p"
  proof (cases "ntotal s \<le> round_up ?p (unat e)")
    case True
    then show ?thesis using whole by (simp add: min_def)
  next
    case False
    have "b + ?p \<le> unat e + ?p - 1" using b p by simp
    then have "(b + ?p) div ?p \<le> (unat e + ?p - 1) div ?p" by (rule div_le_mono)
    moreover have "(b + ?p) div ?p = b div ?p + 1" using p(1) by (intro div_add_self2) linarith
    moreover have "?e div ?p = (unat e + ?p - 1) div ?p"
      using p(1) False by (simp add: min_def round_up_def)
    ultimately show ?thesis by linarith
  qed
  ultimately have "b div ?p \<in> checked_sectors s ?a ?e"
    by (simp add: checked_sectors_def)
  then have "\<exists>n\<in>checked_sectors s ?a ?e. sector_protected s n" using prot by blast
  then have c: "protect_range_error (of_nat ?a) (of_nat ?e) s = 0 \<Longrightarrow> ?thesis"
    using check_protect_value [OF ok, of "of_nat ?a" "of_nat ?e"] by (auto simp: u flash_errs)
  show ?thesis
  proof (cases "protect_range_error (of_nat ?a) (of_nat ?e) s = 0")
    case False
    then show ?thesis by (simp add: mmc_check_protect_def)
  qed (rule c)
qed

definition flash_errors :: "u32 set" where
  "flash_errors = {EMXX_MMC_ERR_START, EMXX_MMC_ERR_END, EMXX_MMC_ERR_PARTITION, EMXX_MMC_ERR_PROTECT,
     EMXX_MMC_ERR_WRITE, EMXX_MMC_ERR_OTHER}"

lemma printf_flash [simp]:
  "flash_ok (printf f xs s) = flash_ok s" "mmc_protect_blk (printf f xs s) = mmc_protect_blk s"
  "dev_total_blk (printf f xs s) = dev_total_blk s" "mmc_erase_blocks (printf f xs s) = mmc_erase_blocks s"
  "sector_protected (printf f xs s) n = sector_protected s n"
  "protect_round a b (printf f xs s) = protect_round a b s"
  by (simp_all add: printf_def flash_ok_def sector_protected_def protect_round_def cong: if_cong)

text \<open>The codes of a request that was refused before the driver was called.\<close>

definition refusals :: "u32 set" where
  "refusals = {EMXX_MMC_ERR_START, EMXX_MMC_ERR_END, EMXX_MMC_ERR_PROTECT, EMXX_MMC_ERR_OTHER}"

lemma refusals_errors: "refusals \<subseteq> flash_errors"
  by (auto simp: refusals_def flash_errors_def)

lemma write_refused:
  assumes "flash_ok s" and "unat s_blk \<le> b" and "b < unat e_blk"
    and "b div psize s < ntotal s div psize s" and "sector_protected s (b div psize s)"
  shows "\<exists>r s'. mmc_write_sect hw addr s_blk e_blk s = Some (r, s') \<and> r \<in> refusals \<and>
    mem s' = mem s \<and> dev s' = dev s"
proof (cases "dev_total_blk s < e_blk")
  case True
  then show ?thesis by (auto simp: mmc_write_sect_def Let_def refusals_def)
next
  case False
  then have e: "unat e_blk \<le> ntotal s" by (simp add: word_less_nat_alt)
  define s1 where "s1 = printf (line ''protect check: start = %lx, end = %lx'')
    [Num (of_nat (round_down (psize s) (unat s_blk))),
     Num (of_nat (min (ntotal s) (round_up (psize s) (unat e_blk))))] s"
  obtain r where "mmc_check_protect (of_nat (round_down (psize s) (unat s_blk)))
      (of_nat (min (ntotal s) (round_up (psize s) (unat e_blk)))) False s1 = Some (r, s1)" and "r \<noteq> 0"
    using protect_guard [of s1 e_blk s_blk b] assms e by (auto simp: s1_def)
  then show ?thesis
    by (auto simp: mmc_write_sect_def Let_def refusals_def protect_round_value [OF assms(1) e]
        s1_def [symmetric]) (simp_all add: s1_def)
qed

lemma erase_refused:
  assumes "flash_ok s" and "unat s_blk \<le> b" and "b < unat e_blk"
    and "b div psize s < ntotal s div psize s" and "sector_protected s (b div psize s)"
  shows "\<exists>r s'. mmc_erase_sect cfg hw s_blk e_blk s = Some (r, s') \<and> r \<in> refusals \<and>
    mem s' = mem s \<and> dev s' = dev s"
proof (cases "dev_total_blk s < e_blk")
  case True
  then show ?thesis by (auto simp: mmc_erase_sect_def Let_def refusals_def)
next
  case False
  then have e: "unat e_blk \<le> ntotal s" by (simp add: word_less_nat_alt)
  define s0 where "s0 = printf (line ''erase check:   start = %lx, end = %lx'') [Num s_blk, Num e_blk] s"
  define s1 where "s1 = printf (line ''protect check: start = %lx, end = %lx'')
    [Num (of_nat (round_down (psize s) (unat s_blk))),
     Num (of_nat (min (ntotal s) (round_up (psize s) (unat e_blk))))] s0"
  obtain r where "mmc_check_protect (of_nat (round_down (psize s) (unat s_blk)))
      (of_nat (min (ntotal s) (round_up (psize s) (unat e_blk)))) False s1 = Some (r, s1)" and "r \<noteq> 0"
    using protect_guard [of s1 e_blk s_blk b] assms e by (auto simp: s0_def s1_def)
  moreover have "protect_round s_blk e_blk s0 = protect_round s_blk e_blk s" by (simp add: s0_def)
  ultimately show ?thesis
    by (auto simp: mmc_erase_sect_def Let_def refusals_def protect_round_value [OF assms(1) e]
        s0_def [symmetric] s1_def [symmetric]) (simp_all add: s0_def s1_def)
qed

text \<open>
  A write request with a write protected block in its range is refused with an error
  code, and neither the peripheral nor memory is touched, whatever the driver would do. The
  block is in a whole protect sector; the last, partial sector is the subject of
  \<open>tail_sector_unchecked\<close>.
\<close>

theorem write_refuses_protected:
  assumes "flash_ok s" and "unat s_blk \<le> b" and "b < unat e_blk"
    and "b div psize s < ntotal s div psize s" and "sector_protected s (b div psize s)"
  shows "\<exists>r s'. mmc_write_sect hw addr s_blk e_blk s = Some (r, s') \<and> r \<in> flash_errors \<and>
    mem s' = mem s \<and> dev s' = dev s"
  using write_refused [OF assms] refusals_errors by blast

text \<open>
  The same for an erase request, on every boot device.\<close>

theorem erase_refuses_protected:
  assumes "flash_ok s" and "unat s_blk \<le> b" and "b < unat e_blk"
    and "b div psize s < ntotal s div psize s" and "sector_protected s (b div psize s)"
  shows "\<exists>r s'. mmc_erase_sect cfg hw s_blk e_blk s = Some (r, s') \<and> r \<in> flash_errors \<and>
    mem s' = mem s \<and> dev s' = dev s"
  using erase_refused [OF assms] refusals_errors by blast

section \<open>Marking sectors\<close>

lemma set_bytes_blit: "n < 2 ^ 32 \<Longrightarrow> set_bytes n p v m = blit m p n (\<lambda>_. v)"
proof (induction n arbitrary: p m)
  case (Suc n)
  have one: "m(p := v) = blit m p 1 (\<lambda>_. v)"
    by (auto simp: blit_def unat_eq_0)
  from Suc show ?case
    using blit_append [of 1 n m p "\<lambda>_. v"] by (simp add: one del: fun_upd_apply)
qed simp

text \<open>The sectors that \<open>mmc_protect_sect\<close> writes: at least one.\<close>

definition marked_sectors :: "('d, 'z) fmach_scheme \<Rightarrow> nat \<Rightarrow> nat \<Rightarrow> nat set" where
  "marked_sectors s a b = {a div psize s..<a div psize s + max 1 (b div psize s - a div psize s)}"

lemma protect_sect_value:
  assumes ok: "flash_ok s" and err: "protect_range_error a b s = 0" and mode: "mode \<le> 1"
  shows "mmc_protect_sect a b mode s =
    (let q = unat a div psize s; n = max 1 (unat b div psize s - q)
     in Some (of_nat n, s\<lparr>mem := blit (mem s) (CONFIG_MMC_PROTECT_TBL + of_nat q) n (\<lambda>_. ucast mode)\<rparr>))"
    and "marked_sectors s (unat a) (unat b) \<subseteq> {..<2048}"
proof -
  let ?P = "mmc_protect_blk s" and ?p = "psize s"
  note p = flash_ok_psize [OF ok]
  have ab: "unat a < unat b" "unat b \<le> ntotal s"
    using err by (auto simp: protect_range_error_def flash_errs word_le_nat_alt word_less_nat_alt split: if_splits)
  then have le: "unat a div ?p \<le> unat b div ?p" by (simp add: div_le_mono)
  have b2048: "unat b div ?p \<le> 2048" and a2048: "unat a div ?p < 2048"
  proof -
    have "unat b \<le> 2048 * ?p" using ab(2) p(4) by linarith
    then have "unat b div ?p \<le> (2048 * ?p) div ?p" by (rule div_le_mono)
    then show "unat b div ?p \<le> 2048" using p(1) by simp
    show "unat a div ?p < 2048"
      by (rule less_mult_imp_div_less) (use ab p(4) in linarith)
  qed
  then show "marked_sectors s (unat a) (unat b) \<subseteq> {..<2048}"
    using le by (auto simp: marked_sectors_def)
  have sub: "unat (b div ?P - a div ?P) = unat b div ?p - unat a div ?p"
    using le by (simp add: unat_div unat_sub word_le_nat_alt)
  have m: "mode AND 0xFFFFFFFE = 0"
  proof -
    have "mode = 0 \<or> mode = 1"
      using mode by (auto simp: word_le_nat_alt le_Suc_eq word_unat_eq_iff)
    then show ?thesis by auto
  qed
  let ?n = "max 1 (unat b div ?p - unat a div ?p)"
  have n: "(if b div ?P - a div ?P = 0 then 1 else b div ?P - a div ?P) = of_nat ?n"
  proof (cases "unat b div ?p - unat a div ?p = 0")
    case True
    then have "b div ?P - a div ?P = 0" using sub by (simp add: unat_eq_0)
    with True show ?thesis by (simp del: of_nat_diff)
  next
    case False
    then have "b div ?P - a div ?P \<noteq> 0" using sub by (simp add: unat_eq_0 [symmetric])
    moreover have "b div ?P - a div ?P = of_nat (unat b div ?p - unat a div ?p)"
      by (simp only: sub [symmetric] of_nat_unat) simp
    ultimately show ?thesis using False by (simp add: max_def Suc_le_eq del: of_nat_diff)
  qed
  have "?n < 2 ^ 32" using b2048 by simp
  then have "unat (of_nat ?n :: u32) = ?n" by (rule unat_of_nat_u32)
  then have "set_bytes (unat (of_nat ?n :: u32)) w v m = blit m w ?n (\<lambda>_. v)" for w v m
    using set_bytes_blit [OF \<open>?n < 2 ^ 32\<close>] by simp
  moreover have "CONFIG_MMC_PROTECT_TBL + a div ?P = CONFIG_MMC_PROTECT_TBL + of_nat (unat a div ?p)"
    by (simp flip: unat_div)
  moreover have "mmc_protect_sect a b mode s =
      (let e_sect = (if b div ?P - a div ?P = 0 then 1 else b div ?P - a div ?P)
       in Some (e_sect, s\<lparr>mem := set_bytes (unat e_sect) (CONFIG_MMC_PROTECT_TBL + a div ?P) (ucast mode) (mem s)\<rparr>))"
    using udiv_psize [OF ok] err m by (simp add: mmc_protect_sect_def Let_def)
  ultimately show "mmc_protect_sect a b mode s =
    (let q = unat a div psize s; n = max 1 (unat b div psize s - q)
     in Some (of_nat n, s\<lparr>mem := blit (mem s) (CONFIG_MMC_PROTECT_TBL + of_nat q) n (\<lambda>_. ucast mode)\<rparr>))"
    by (simp only: n Let_def)
qed

text \<open>
  A protect request that passes the range check sets exactly the bytes of its sectors, at
  most the 2048 bytes of the table, and nothing else in memory.
\<close>

theorem protect_sect_marks:
  assumes ok: "flash_ok s" and err: "protect_range_error a b s = 0" and mode: "mode \<le> 1"
  shows "\<exists>s'. mmc_protect_sect a b mode s = Some (of_nat (card (marked_sectors s (unat a) (unat b))), s') \<and>
    dev s' = dev s \<and> only_changed CONFIG_MMC_PROTECT_TBL 2048 (mem s) (mem s') \<and>
    (\<forall>n < 2048. sector_protected s' n =
       (if n \<in> marked_sectors s (unat a) (unat b) then mode = 1 else sector_protected s n))"
proof -
  let ?q = "unat a div psize s" and ?n = "max 1 (unat b div psize s - unat a div psize s)"
  let ?m = "blit (mem s) (CONFIG_MMC_PROTECT_TBL + of_nat ?q) ?n (\<lambda>_. ucast mode)"
  have bound: "?q + ?n \<le> 2048"
  proof -
    have "?q + ?n - 1 \<in> marked_sectors s (unat a) (unat b)" by (auto simp: marked_sectors_def)
    then have "?q + ?n - 1 < 2048" using protect_sect_value(2) [OF assms] by blast
    then show ?thesis by linarith
  qed
  have "mode = 0 \<or> mode = 1"
    using mode by (auto simp: word_le_nat_alt le_Suc_eq word_unat_eq_iff)
  then have v: "(ucast mode :: u8) \<noteq> 0 \<longleftrightarrow> mode = 1" by auto
  have "only_changed CONFIG_MMC_PROTECT_TBL 2048 (mem s) ?m"
    using bound by (intro only_changed_sub [OF blit_frame])
  moreover have "\<forall>n<2048. sector_protected (s\<lparr>mem := ?m\<rparr>) n =
       (if n \<in> marked_sectors s (unat a) (unat b) then mode = 1 else sector_protected s n)"
    using bound v by (auto simp: sector_protected_def marked_sectors_def blit_at)
  moreover have "card (marked_sectors s (unat a) (unat b)) = ?n"
    by (simp add: marked_sectors_def)
  ultimately show ?thesis
    using protect_sect_value(1) [OF assms] by (simp add: Let_def del: of_nat_max)
qed

text \<open>
  The last protect sector of a device whose size is not a multiple of the sector is
  marked by a protect request and never looked at by the check, so that writes to it are
  never refused.
\<close>

theorem tail_sector_unchecked:
  assumes ok: "flash_ok s" and tail: "ntotal s mod psize s \<noteq> 0"
  shows "let a = of_nat (round_down (psize s) (ntotal s)); n = ntotal s div psize s
    in \<exists>s'. mmc_protect_sect a (dev_total_blk s) 1 s = Some (1, s') \<and> sector_protected s' n \<and>
         mmc_check_protect a (dev_total_blk s) False s' = Some (EMXX_MMC_OK, s')"
proof -
  let ?p = "psize s" and ?a = "round_down (psize s) (ntotal s)"
  note p = flash_ok_psize [OF ok]
  have lt: "?a < ntotal s"
  proof -
    have "ntotal s = ?a + ntotal s mod ?p" by (simp add: round_down_def)
    with tail show ?thesis by linarith
  qed
  then have ua: "unat (of_nat ?a :: u32) = ?a" using p by (intro unat_of_nat_u32) simp
  have div: "?a div ?p = ntotal s div ?p" using p(1) by (simp add: round_down_def)
  have err: "protect_range_error (of_nat ?a) (dev_total_blk t) t = 0"
    if "dev_total_blk t = dev_total_blk s" "mmc_protect_blk t = mmc_protect_blk s" "flash_ok t"
    for t :: "('a, 'b) fmach_scheme"
    using lt that aligned_iff [of t "of_nat ?a"]
    by (simp add: protect_range_error_def word_le_nat_alt ua not_le) (simp add: round_down_def)
  have mark: "marked_sectors s (unat (of_nat ?a :: u32)) (ntotal s) = {ntotal s div ?p}"
    by (auto simp: marked_sectors_def ua div)
  from err [of s] ok have "protect_range_error (of_nat ?a) (dev_total_blk s) s = 0" by simp
  from protect_sect_value(1) [OF ok this, of 1] obtain s' where s': "mmc_protect_sect (of_nat ?a) (dev_total_blk s) 1 s = Some (1, s')"
    and geo: "dev_total_blk s' = dev_total_blk s" "mmc_protect_blk s' = mmc_protect_blk s" "flash_ok s'"
    and m: "mem s' = blit (mem s) (CONFIG_MMC_PROTECT_TBL + of_nat (ntotal s div ?p)) 1 (\<lambda>_. 1)"
    using ok by (simp add: Let_def ua div flash_ok_def)
  have "sector_protected s' (ntotal s div ?p)"
    by (simp add: sector_protected_def m blit_def)
  moreover have "mmc_check_protect (of_nat ?a) (dev_total_blk s') False s' = Some (EMXX_MMC_OK, s')"
    using check_protect_value [OF geo(3) err [OF geo]]
    by (simp add: ua checked_sectors_def geo div flash_errs)
  ultimately show ?thesis using s' geo by (auto simp: Let_def)
qed

section \<open>Initialisation establishes the invariant\<close>

text \<open>The driver table the build selects.\<close>

definition boot_if :: "boot_cfg \<Rightarrow> 'd device \<Rightarrow> bool \<Rightarrow> ('d, 'z) mach_scheme hw_if" where
  "boot_if cfg D cpu500 = (if cfg = SD then sdc_if D cpu500 else sdio_if D (cfg = EMMC) False)"

interpretation boot: block_io "boot_if cfg D cpu500" for cfg D cpu500
  using sdc.block_io_axioms sdio.block_io_axioms by (cases "cfg = SD") (simp_all add: boot_if_def)

lemma protect_scale_value:
  "\<exists>i\<le>7. protect_scale t = Some (2 ^ (24 + i), i) \<and> (unat t \<le> 2 ^ (24 + i) \<or> i = 7)"
proof -
  let ?body = "\<lambda>(block_num :: u32, i :: nat). Some (if block_num < EMXX_MMC_MAXBLK
             then if t \<le> block_num then (Some (), block_num, i) else (None, push_bit 1 block_num, i + 1)
             else (Some (), block_num, i))"
  have "\<exists>v x. loopM ?body (CONFIG_MMC_BLOCKS, 0) = Some (v, x) \<and>
      (snd x \<le> 7 \<and> fst x = 2 ^ (24 + snd x) \<and> (unat t \<le> 2 ^ (24 + snd x) \<or> snd x = 7))"
  proof (rule loopM_total [where P = "\<lambda>x. snd x \<le> 7 \<and> fst x = 2 ^ (24 + snd x)" and f = "\<lambda>x. 7 - snd x"])
    show "snd (CONFIG_MMC_BLOCKS, 0 :: nat) \<le> 7 \<and> fst (CONFIG_MMC_BLOCKS, 0 :: nat) = 2 ^ (24 + snd (CONFIG_MMC_BLOCKS, 0 :: nat))"
      by (simp add: flash_consts)
  next
    fix x :: "u32 \<times> nat"
    assume x: "snd x \<le> 7 \<and> fst x = 2 ^ (24 + snd x)"
    obtain b i where bi: "x = (b, i)" by fastforce
    have ub: "unat b = 2 ^ (24 + i)" using x bi by (simp add: unat_pow2)
    have lt: "b < EMXX_MMC_MAXBLK \<longleftrightarrow> i < 7"
    proof -
      have "b < EMXX_MMC_MAXBLK \<longleftrightarrow> (2 :: nat) ^ (24 + i) < 2 ^ 31"
        by (simp only: word_less_nat_alt ub) (simp add: flash_consts)
      also have "\<dots> \<longleftrightarrow> i < 7" by (subst power_strict_increasing_iff) auto
      finally show ?thesis .
    qed
    have "t \<le> b \<longleftrightarrow> unat t \<le> 2 ^ (24 + i)" by (simp add: word_le_nat_alt ub)
    then show "\<exists>r x1. ?body x = Some (r, x1) \<and> (case r of
        None \<Rightarrow> (snd x1 \<le> 7 \<and> fst x1 = 2 ^ (24 + snd x1)) \<and> 7 - snd x1 < 7 - snd x
      | Some v \<Rightarrow> snd x1 \<le> 7 \<and> fst x1 = 2 ^ (24 + snd x1) \<and> (unat t \<le> 2 ^ (24 + snd x1) \<or> snd x1 = 7))"
      using x lt power_Suc2 [of "2 :: u32" "24 + i"] by (auto simp: bi push_bit_eq_mult)
  qed
  then show ?thesis by (auto simp: protect_scale_def)
qed

lemma fill_words_blit: "4 * n \<le> 2 ^ 32 \<Longrightarrow> fill_words n p 0x01010101 m = blit m p (4 * n) (\<lambda>_. 1)"
proof (induction n arbitrary: p m)
  case (Suc n)
  have one: "store32 m p 0x01010101 = blit m p 4 (\<lambda>_. 1)" for m
  proof
    fix x
    have e: "x = p + of_nat k \<longleftrightarrow> unat (x - p) = k" if "k < 4" for k
    proof -
      have "x = p + of_nat k \<longleftrightarrow> x - p = of_nat k" by (auto simp: algebra_simps)
      then show ?thesis using that by (simp add: word_unat_eq_iff unat_of_nat)
    qed
    have "ucast (0x01010101 :: u32) = (1 :: u8)" "ucast (drop_bit 8 (0x01010101 :: u32)) = (1 :: u8)"
      "ucast (drop_bit 16 (0x01010101 :: u32)) = (1 :: u8)" "ucast (drop_bit 24 (0x01010101 :: u32)) = (1 :: u8)"
      by simp_all
    then show "store32 m p 0x01010101 x = blit m p 4 (\<lambda>_. 1) x"
      using e [of 0] e [of 1] e [of 2] e [of 3] by (auto simp: store32_def blit_def)
  qed
  from Suc show ?case
    using blit_append [of 4 "4 * n" m p "\<lambda>_. 1"] by (simp add: one)
qed simp

lemma flash_ok_scale:
  assumes "i \<le> 7" and "b = 2 ^ (24 + i)" and "unat t \<le> 2 ^ (24 + i) \<or> i = 7"
    and "mmc_protect_blk s = push_bit i CONFIG_MMC_SECT_OF_BLOCKS"
    and "dev_total_blk s = (if b = EMXX_MMC_MAXBLK then EMXX_MMC_MAXBLK else t)"
  shows "flash_ok s"
  unfolding flash_ok_def
proof (intro exI conjI)
  show "i \<le> 7" by fact
  show "mmc_protect_blk s = 2 ^ (13 + i)"
    using assms(4) by (simp add: flash_consts push_bit_eq_mult power_add mult.commute)
  show "ntotal s \<le> 2 ^ (24 + i)"
  proof (cases "i = 7")
    case True
    then show ?thesis using assms(2,5) by (simp add: flash_consts)
  next
    case False
    have "unat b = 2 ^ (24 + i)" using assms(1,2) by (simp add: unat_pow2)
    moreover have "(2 :: nat) ^ (24 + i) < 2 ^ 31"
      using assms(1) False by (intro power_strict_increasing) auto
    ultimately have "b \<noteq> EMXX_MMC_MAXBLK" by (auto simp: flash_consts)
    then show ?thesis using assms(3,5) False by simp
  qed
qed

lemma all_protected:
  assumes "mem s = fill_words (unat (drop_bit 2 CONFIG_MMC_PROTECT_TBL_SIZE)) CONFIG_MMC_PROTECT_TBL 0x01010101 m"
    and "n < 2048"
  shows "sector_protected s n"
proof -
  have "unat (drop_bit 2 CONFIG_MMC_PROTECT_TBL_SIZE) = 512" by (simp add: flash_consts)
  then show ?thesis
    using assms fill_words_blit [of 512 CONFIG_MMC_PROTECT_TBL m] by (simp add: sector_protected_def blit_at_0)
qed

lemma flash_setup_ok:
  "ensures (flash_setup cfg resp sd_ver s) (\<lambda>p. flash_ok (snd p) \<and> (\<forall>n<2048. sector_protected (snd p) n))"
proof -
  let ?t = "csd_total_blocks resp sd_ver (dev_total_blk s)"
  obtain i where i: "i \<le> 7" "protect_scale ?t = Some (2 ^ (24 + i), i)" "unat ?t \<le> 2 ^ (24 + i) \<or> i = 7"
    using protect_scale_value by blast
  show ?thesis
    unfolding flash_setup_def
    by (auto simp: Let_def i(2) intro!: flash_ok_scale [OF i(1) refl i(3)] all_protected)
qed

text \<open>
  C12: after the initialisation either a command failed, the error is returned and the
  variables are as they were, or the geometry is consistent and every sector is protected.
\<close>

theorem flash_init_protects:
  assumes "mmc_flash_init cfg (boot_if cfg D cpu500) ExtCsd s = Some (r, s')"
  shows "r \<noteq> 0 \<and> mach.more s' = mach.more s \<or> flash_ok s' \<and> (\<forall>n<2048. sector_protected s' n)"
proof -
  let ?hw = "\<lambda>cfg. boot_if cfg D cpu500 :: ('a, 'b) fmach_scheme hw_if"
  have cmd: "ensures (send_cmd (?hw cfg) c a t rs u) (\<lambda>p. mach.more (snd (snd p)) = mach.more u)" for cfg c a t rs u
    using boot.send_cmd_frame by (fastforce simp: ensures_def still_def quiet_def)
  have rd: "ensures (single_read (?hw cfg) a b u) (\<lambda>p. mach.more (snd p) = mach.more u)" for cfg a b u
    using boot.single_read_frame by (fastforce simp: ensures_def fills_def quiet_def)
  have ecsd: "ensures (send_extcsd (?hw cfg) E u) (\<lambda>_. True)" for cfg E u
    by (simp add: ensures_def)
  have "ensures (mmc_flash_init cfg (?hw cfg) ExtCsd s) (\<lambda>p. fst p \<noteq> 0 \<and> mach.more (snd p) = mach.more s \<or>
      flash_ok (snd p) \<and> (\<forall>n<2048. sector_protected (snd p) n))"
    unfolding mmc_flash_init_def
    by (auto simp: Let_def case_prod_beta
        intro!: ensures_weaken [OF cmd] ensures_weaken [OF rd] ensures_weaken [OF ecsd]
          ensures_weaken [OF flash_setup_ok])
  from ensuresD [OF this assms] show ?thesis by simp
qed

definition idle_flash :: "u32 list fmach" where
  "idle_flash = \<lparr>mem = (\<lambda>_. 0), dev = [], outp = [], mmc_erase_blocks = 0, mmc_protect_blk = 0, dev_total_blk = 0\<rparr>"

lemma recording_mmc_cmd:
  "sdio_send_cmd recording_mmc emmc c a t None s = Some (0, None, s)"
  "\<exists>rs s'. sdio_send_cmd recording_mmc emmc c a t (Some [0, 0, 0, 0]) s = Some (0, Some rs, s')"
  by (simp_all add: sdio_send_cmd_def sdio_wait_response_def loopM.simps sdio_bits Let_def case_prod_beta)

lemma recording_mmc_read: "\<exists>r s'. sdio_single_read recording_mmc emmc a b s = Some (r, s')"
  by (simp add: sdio_single_read_def recording_mmc_cmd sdio_wait_buffer_def sdio_wait_end_def loopM.simps sdio_bits)

lemma flash_setup_runs: "\<exists>r s'. flash_setup cfg resp v s = Some (r, s')"
  using protect_scale_value [of "csd_total_blocks resp v (dev_total_blk s)"]
  by (auto simp: flash_setup_def Let_def)

lemma idle_flash_init_runs:
  "\<exists>r s'. mmc_flash_init ESD (boot_if ESD recording_mmc False) 0 idle_flash = Some (r, s')"
proof -
  obtain r s1 where "sdio_single_read recording_mmc False 0 ROMBOOT_WORK_START idle_flash = Some (r, s1)"
    using recording_mmc_read by blast
  moreover obtain rs s2 where "sdio_send_cmd recording_mmc False 9 (push_bit 16 (RCA_VAL s1)) MMC_RSP_R2
      (Some [0, 0, 0, 0]) s1 = Some (0, Some rs, s2)"
    using recording_mmc_cmd(2) by blast
  ultimately show ?thesis
    using flash_setup_runs by (simp add: mmc_flash_init_def boot_if_def sdio_if_def recording_mmc_cmd(1) Let_def)
qed

theorem flash_init_protects_witness:
  "\<exists>r s'. mmc_flash_init ESD (boot_if ESD recording_mmc False) 0 idle_flash = Some (r, s') \<and>
     (r \<noteq> 0 \<and> mach.more s' = mach.more idle_flash \<or> flash_ok s' \<and> (\<forall>n<2048. sector_protected s' n))"
  using idle_flash_init_runs flash_init_protects [where cfg = ESD and D = recording_mmc and s = idle_flash]
  by blast

section \<open>What a request asks of the driver\<close>

lemma ceil_512: "(n + 511) div 512 = (if n mod 512 = 0 then n div 512 else n div 512 + 1)" for n :: nat
proof -
  have "n = 512 * (n div 512) + n mod 512" "n mod 512 < 512" by simp_all
  then obtain q r where n: "n = 512 * q + r" "r < 512" by blast
  show ?thesis
  proof (cases r)
    case 0
    then show ?thesis by (simp add: n)
  next
    case (Suc k)
    then have "n + 511 = 512 * (q + 1) + k" "k < 512" using n by simp_all
    then have "(n + 511) div 512 = q + 1" by simp
    then show ?thesis using n Suc by simp
  qed
qed

lemma block_count_value: "unat (block_count n) = (unat n + 511) div 512"
proof -
  have m: "n AND 511 = 0 \<longleftrightarrow> unat n mod 512 = 0"
    using pow2_mask_iff [of 9 n] by simp
  have d: "unat (n div 512) = unat n div 512" by (simp add: unat_div)
  then have "unat (n div 512 + 1) = unat n div 512 + 1"
    using unat_u32_less [of n] by (simp add: unat_plus_if')
  then show ?thesis
    by (simp only: block_count_def mmc_consts Let_def ceil_512) (simp add: m d)
qed

lemma protect_range_ok:
  assumes "flash_ok s" and "unat a mod psize s = 0" and "unat a < ntotal s" and "unat a < unat e"
    and "unat e \<le> ntotal s" and "unat e mod psize s = 0 \<or> unat e = ntotal s"
  shows "protect_range_error a e s = 0"
  using assms aligned_iff [OF assms(1)]
  by (auto simp: protect_range_error_def word_le_nat_alt word_less_nat_alt word_unat_eq_iff)

lemma check_range_ok:
  fixes a e :: u32
  assumes ok: "flash_ok s" and lt: "unat a < ntotal s" "unat e \<le> ntotal s"
    and range: "round_down (psize s) (unat a) < round_up (psize s) (unat e)"
    and free: "\<forall>n \<ge> unat a div psize s. n * psize s < unat e \<longrightarrow> \<not> sector_protected s n"
  shows "mmc_check_protect (of_nat (round_down (psize s) (unat a)))
      (of_nat (min (ntotal s) (round_up (psize s) (unat e)))) False s = Some (0, s)"
proof -
  let ?p = "psize s" and ?a = "round_down (psize s) (unat a)"
    and ?e = "min (ntotal s) (round_up (psize s) (unat e))"
  note p = flash_ok_psize [OF ok]
  have le: "?a < 2 ^ 32" "?e < 2 ^ 32" using unat_u32_less [of a] round_down_le [of ?p "unat a"] p by auto
  then have u: "unat (of_nat ?a :: u32) = ?a" "unat (of_nat ?e :: u32) = ?e"
    by (simp_all only: unat_of_nat_u32)
  have E: "?e mod ?p = 0 \<or> ?e = ntotal s" "?a < ?e" "?e \<le> ntotal s"
    using range lt(1) round_down_le [of ?p "unat a"] by (auto simp: min_def round_up_def)
  moreover have "?a mod ?p = 0" by (simp add: round_down_def)
  ultimately have err: "protect_range_error (of_nat ?a) (of_nat ?e) s = 0"
    by (intro protect_range_ok [OF ok]; unfold u; linarith)
  have "\<not> sector_protected s n" if n: "n \<in> checked_sectors s ?a ?e" for n
  proof -
    have "unat a div ?p \<le> n" using n p(1) by (simp add: checked_sectors_def round_down_def)
    moreover have "n * ?p < unat e"
    proof -
      have "n < round_up ?p (unat e) div ?p"
        using n div_le_mono [of ?e "round_up ?p (unat e)" ?p] by (simp add: checked_sectors_def)
      then have "n < (unat e + ?p - 1) div ?p" using p(1) by (simp add: round_up_def)
      then have "(n + 1) * ?p \<le> (unat e + ?p - 1) div ?p * ?p" by (intro mult_le_mono1) simp
      also have "\<dots> \<le> unat e + ?p - 1" by simp
      finally show ?thesis using p(1) by simp
    qed
    ultimately show ?thesis using free by blast
  qed
  then show ?thesis using check_protect_value [OF ok err] by (auto simp: u)
qed

text \<open>The two kinds of range that pass the guard of \<open>mmc_write_sect\<close>.\<close>

lemma write_passes:
  fixes s_blk e_blk :: u32
  assumes ok: "flash_ok s" and lt: "unat s_blk < ntotal s" "unat e_blk \<le> ntotal s"
    and range: "round_down (psize s) (unat s_blk) < round_up (psize s) (unat e_blk)"
    and free: "\<forall>n \<ge> unat s_blk div psize s. n * psize s < unat e_blk \<longrightarrow> \<not> sector_protected s n"
    and addr: "PHYS_SDRAM_1 \<le> addr" "addr + (e_blk - s_blk) * 512 \<le> PHYS_SDRAM_2 + PHYS_SDRAM_2_SIZE"
    and n: "(e_blk - s_blk) * 512 \<noteq> 0"
  shows "\<exists>x. mmc_write_sect hw addr s_blk e_blk s = do {
       (ret, s') \<leftarrow> multi_write hw s_blk addr (block_count ((e_blk - s_blk) * 512)) (s\<lparr>outp := x # outp s\<rparr>);
       Some (if ret \<noteq> 0 then EMXX_MMC_ERR_WRITE else e_blk - s_blk, s')
     }"
proof -
  define s1 where "s1 = printf (line ''protect check: start = %lx, end = %lx'')
    [Num (of_nat (round_down (psize s) (unat s_blk))),
     Num (of_nat (min (ntotal s) (round_up (psize s) (unat e_blk))))] s"
  have "mmc_check_protect (of_nat (round_down (psize s) (unat s_blk)))
      (of_nat (min (ntotal s) (round_up (psize s) (unat e_blk)))) False s1 = Some (0, s1)"
    using check_range_ok [of s1 s_blk e_blk] assms by (simp add: s1_def)
  moreover have "\<not> dev_total_blk s < s_blk" "\<not> dev_total_blk s < e_blk" "\<not> addr < PHYS_SDRAM_1"
      "\<not> PHYS_SDRAM_2 + PHYS_SDRAM_2_SIZE < addr + (e_blk - s_blk) * 512"
    using lt addr by (auto simp: word_less_nat_alt word_le_nat_alt)
  ultimately have "mmc_write_sect hw addr s_blk e_blk s = do {
       (ret, s') \<leftarrow> multi_write hw s_blk addr (block_count ((e_blk - s_blk) * 512)) s1;
       Some (if ret \<noteq> 0 then EMXX_MMC_ERR_WRITE else e_blk - s_blk, s')
     }"
    using n by (simp add: mmc_write_sect_def Let_def protect_round_value [OF ok lt(2)] s1_def [symmetric]
        mmc_write_def mmc_multi_block_write_def mmc_consts if_distrib [where f = Some] if_distrib [where f = "\<lambda>r. (r, _)"] cong: if_cong)
  then show ?thesis by (auto simp: s1_def printf_def)
qed

lemma block_count_mult:
  assumes "512 * n < 2 ^ 32"
  shows "block_count (of_nat (512 * n)) = of_nat n"
proof -
  have "unat (of_nat (512 * n) :: u32) = 512 * n" using assms by (rule unat_of_nat_u32)
  then have "unat (block_count (of_nat (512 * n))) = n"
    by (simp only: block_count_value ceil_512) simp
  then have "of_nat (unat (block_count (of_nat (512 * n)))) = (of_nat n :: u32)" by (rule arg_cong)
  then show ?thesis by (simp only: of_nat_unat ucast_id)
qed

text \<open>
  A write request for an unprotected, non-empty range of less than 4 GB asks the driver
  for exactly the blocks of the range, from the given address, and reports its length.
\<close>

theorem write_requests_range:
  assumes ok: "flash_ok s" and se: "unat s_blk < unat e_blk" "unat e_blk \<le> ntotal s"
    and small: "unat e_blk - unat s_blk < 2 ^ 23"
    and addr: "PHYS_SDRAM_1 \<le> addr" "unat addr + 512 * (unat e_blk - unat s_blk) \<le> 0x50000000"
    and free: "\<forall>n \<ge> unat s_blk div psize s. n * psize s < unat e_blk \<longrightarrow> \<not> sector_protected s n"
  shows "\<exists>x. mmc_write_sect hw addr s_blk e_blk s = do {
       (ret, s') \<leftarrow> multi_write hw s_blk addr (e_blk - s_blk) (s\<lparr>outp := x # outp s\<rparr>);
       Some (if ret \<noteq> 0 then EMXX_MMC_ERR_WRITE else e_blk - s_blk, s')
     }"
proof -
  let ?n = "unat e_blk - unat s_blk"
  have n: "e_blk - s_blk = of_nat ?n"
    using se by (simp add: of_nat_diff)
  then have size: "(e_blk - s_blk) * 512 = of_nat (512 * ?n)" by (simp del: of_nat_diff)
  have big: "512 * ?n < 2 ^ 32" using small by simp
  have us: "unat ((e_blk - s_blk) * 512) = 512 * ?n"
    unfolding size using big by (rule unat_of_nat_u32)
  have "unat (addr + (e_blk - s_blk) * 512) = unat addr + 512 * ?n"
    using addr(2) by (intro unat_add_value(1) [OF _ us]) simp
  then have a: "addr + (e_blk - s_blk) * 512 \<le> PHYS_SDRAM_2 + PHYS_SDRAM_2_SIZE"
    using addr by (simp add: word_le_nat_alt flash_consts)
  have nz: "(e_blk - s_blk) * 512 \<noteq> 0" using us se by (simp add: unat_eq_0 [symmetric])
  have "round_down (psize s) (unat s_blk) < round_up (psize s) (unat e_blk)"
    using se round_down_le [of "psize s" "unat s_blk"] round_up_ge [of "psize s" "unat e_blk"]
      flash_ok_psize(1) [OF ok] by linarith
  from write_passes [OF ok _ se(2) this free addr(1) a nz] se show ?thesis
    unfolding size block_count_mult [OF big] by (simp add: n del: of_nat_diff)
qed

text \<open>
  An inverted range, its end before its start in the same protect sector, is not refused:
  its length wraps around and the driver is asked for \<open>2 ^ 23\<close> blocks less the gap.
\<close>

theorem write_inverted_range:
  assumes ok: "flash_ok s" and se: "unat e_blk < unat s_blk" "unat s_blk < ntotal s"
    and same: "unat e_blk div psize s = unat s_blk div psize s" "unat e_blk mod psize s \<noteq> 0"
    and free: "\<not> sector_protected s (unat s_blk div psize s)"
    and addr: "PHYS_SDRAM_1 \<le> addr" "unat addr \<le> 0x50000000"
  shows "\<exists>x. mmc_write_sect hw addr s_blk e_blk s = do {
       (ret, s') \<leftarrow> multi_write hw s_blk addr (of_nat (2 ^ 23 - (unat s_blk - unat e_blk))) (s\<lparr>outp := x # outp s\<rparr>);
       Some (if ret \<noteq> 0 then EMXX_MMC_ERR_WRITE else e_blk - s_blk, s')
     }"
proof -
  let ?p = "psize s" and ?g = "unat s_blk - unat e_blk"
  note p = flash_ok_psize [OF ok]
  have s: "unat s_blk = unat s_blk div ?p * ?p + unat s_blk mod ?p"
    and e: "unat e_blk = unat e_blk div ?p * ?p + unat e_blk mod ?p" by simp_all
  have "unat s_blk mod ?p < ?p" using p(1) by simp
  then have "unat s_blk < unat e_blk + ?p" using s e unfolding same by linarith
  then have g: "0 < ?g" "?g < 2 ^ 20" using se p(2) by simp_all
  have n: "e_blk - s_blk = - of_nat ?g"
    using se by (simp add: of_nat_diff)
  have size: "(e_blk - s_blk) * 512 = of_nat (512 * (2 ^ 23 - ?g))"
  proof -
    have "512 * (2 ^ 23 - ?g) = 2 ^ 32 - 512 * ?g" by simp
    moreover have "512 * ?g \<le> 2 ^ 32" using g by simp
    ultimately have "of_nat (512 * (2 ^ 23 - ?g)) = (of_nat (2 ^ 32) - of_nat (512 * ?g) :: u32)"
      by (simp only: of_nat_diff)
    also have "\<dots> = - (512 * of_nat ?g)" by (simp only: of_nat_mult) simp
    finally show ?thesis by (simp only: n) simp
  qed
  have big: "512 * (2 ^ 23 - ?g) < (2 :: nat) ^ 32" using g by simp
  have us: "unat ((e_blk - s_blk) * 512) = 512 * (2 ^ 23 - ?g)"
    unfolding size using big by (rule unat_of_nat_u32)
  have "0x40000000 \<le> unat addr" using addr(1) by (simp add: word_le_nat_alt flash_consts)
  then have "unat (addr + (e_blk - s_blk) * 512) = unat addr - 512 * ?g"
    using unat_add_value(2) [OF _ us, of addr] addr(2) g by simp
  then have a: "addr + (e_blk - s_blk) * 512 \<le> PHYS_SDRAM_2 + PHYS_SDRAM_2_SIZE"
    using addr by (simp add: word_le_nat_alt flash_consts)
  have nz: "(e_blk - s_blk) * 512 \<noteq> 0" using us g by (simp add: unat_eq_0 [symmetric])
  have up: "round_up ?p (unat e_blk) = unat s_blk div ?p * ?p + ?p"
  proof -
    have "unat e_blk + ?p - 1 = (unat e_blk div ?p + 1) * ?p + (unat e_blk mod ?p - 1)"
    proof -
      have "1 \<le> unat e_blk mod ?p" using same(2) by simp
      then show ?thesis unfolding add_mult_distrib using e by linarith
    qed
    moreover have "unat e_blk mod ?p - 1 < ?p" using p(1) mod_less_divisor [OF p(1), of "unat e_blk"] by linarith
    ultimately have "(unat e_blk + ?p - 1) div ?p = unat e_blk div ?p + 1"
      by (metis add.commute div_mult_self3 div_less add_cancel_right_right p(1) less_irrefl_nat)
    then show ?thesis by (simp add: round_up_def same(1))
  qed
  then have "round_down ?p (unat s_blk) < round_up ?p (unat e_blk)"
    using p(1) by (simp add: round_down_def)
  moreover have "\<forall>n \<ge> unat s_blk div ?p. n * ?p < unat e_blk \<longrightarrow> \<not> sector_protected s n"
  proof (intro allI impI)
    fix n assume n: "unat s_blk div ?p \<le> n" "n * ?p < unat e_blk"
    have "n \<le> unat e_blk div ?p" using n(2) p(1) by (metis div_le_mono div_mult_self_is_m less_imp_le)
    with n same(1) have "n = unat s_blk div ?p" by simp
    with free show "\<not> sector_protected s n" by simp
  qed
  ultimately show ?thesis
    using write_passes [OF ok se(2) _ _ _ addr(1) a nz] se
    unfolding size block_count_mult [OF big] by (simp del: of_nat_diff of_nat_mult)
qed

section \<open>Erase requests in chunks\<close>

text \<open>
  The chunks an erase of \<open>n\<close> blocks from \<open>b\<close> on is made of, as a reference on natural numbers,
  and the run of a list of chunks that stops at the first error.
\<close>

function erase_plan :: "nat \<Rightarrow> nat \<Rightarrow> (nat \<times> nat) list" where
  "erase_plan b n =
     (if n = 0 then [] else if 2 ^ 22 < n then (b, 2 ^ 22) # erase_plan (b + 2 ^ 22) (n - 2 ^ 22) else [(b, n)])"
  by pat_completeness auto

termination by (relation "measure snd") auto

declare erase_plan.simps [simp del]

fun run_erases where
  "run_erases cfg hw ret [] s = Some (ret, s)"
| "run_erases cfg hw ret ((b, n) # cs) s = do {
     (ret, s) \<leftarrow> mmc_erase cfg hw
       \<lparr>bi_addr = 0, bi_block = of_nat b, bi_size = of_nat (512 * n), bi_erase = 1\<rparr> s;
     if ret \<noteq> 0 then Some (ret, s) else run_erases cfg hw ret cs s
   }"

lemma erase_plan_blocks:
  "concat (map (\<lambda>(b, n). [b..<b + n]) (erase_plan b n)) = [b..<b + n]"
proof (induction b n rule: erase_plan.induct)
  case (1 b n)
  show ?case
  proof (cases "2 ^ 22 < n")
    case True
    then have "[b..<b + n] = [b..<b + 2 ^ 22] @ [b + 2 ^ 22..<b + n]"
      using upt_add_eq_append [of b "b + 2 ^ 22" "n - 2 ^ 22"] by simp
    then show ?thesis using 1 True by (subst erase_plan.simps) simp
  qed (subst erase_plan.simps, auto)
qed

lemma erase_plan_chunk: "(c, k) \<in> set (erase_plan b n) \<Longrightarrow> 0 < k \<and> k \<le> 2 ^ 22 \<and> c + k \<le> b + n"
proof (induction b n rule: erase_plan.induct)
  case (1 b n)
  then show ?case by (subst (asm) (2) erase_plan.simps) (auto split: if_splits)
qed

lemma erase_chunks_plan:
  "unat b + unat n \<le> 2 ^ 32 \<Longrightarrow>
     erase_chunks cfg hw ret0 b n s = run_erases cfg hw ret0 (erase_plan (unat b) (unat n)) s"
proof (induction cfg hw ret0 b n s rule: erase_chunks.induct)
  case (1 cfg hw ret0 b n s)
  have max: "unat EMXX_ERASE_MAXBLK = 2 ^ 22" "EMXX_ERASE_MAXBYTE = of_nat (512 * 2 ^ 22)"
    by (simp_all add: flash_consts mmc_consts)
  have gt: "EMXX_ERASE_MAXBLK < n \<longleftrightarrow> 2 ^ 22 < unat n"
    by (simp only: word_less_nat_alt max)
  consider "n = 0" | "n \<noteq> 0" "\<not> EMXX_ERASE_MAXBLK < n" | "n \<noteq> 0" "EMXX_ERASE_MAXBLK < n" by blast
  then show ?case
  proof cases
    case 1
    then show ?thesis by (simp add: erase_chunks.simps [of cfg hw ret0 b] erase_plan.simps [of "unat b"])
  next
    case 2
    have "n * MMC_BLOCKLEN_VAL = of_nat (512 * unat n)" by (simp add: mmc_consts)
    with 2 gt show ?thesis
      by (subst erase_chunks.simps, subst erase_plan.simps)
        (cases "mmc_erase cfg hw \<lparr>bi_addr = 0, bi_block = b, bi_size = 512 * n, bi_erase = 1\<rparr> s";
          auto simp: unat_eq_0)
  next
    case 3
    have un: "unat (n - EMXX_ERASE_MAXBLK) = unat n - 2 ^ 22"
      using 3 gt by (simp add: unat_sub word_le_nat_alt max)
    have ub: "unat (b + EMXX_ERASE_MAXBLK) = unat b + 2 ^ 22"
      using unat_add_value(1) [OF _ max(1), of b] 1(2) 3 gt by simp
    have IH: "erase_chunks cfg hw 0 (b + EMXX_ERASE_MAXBLK) (n - EMXX_ERASE_MAXBLK) t =
        run_erases cfg hw 0 (erase_plan (unat b + 2 ^ 22) (unat n - 2 ^ 22)) t"
      if "mmc_erase cfg hw \<lparr>bi_addr = 0, bi_block = b, bi_size = EMXX_ERASE_MAXBYTE, bi_erase = 1\<rparr> s = Some (0, t)" for t
      using 1(1) [OF 3 that refl] 1(2) 3 gt by (simp add: un ub)
    from 3 gt show ?thesis
      by (subst erase_chunks.simps, subst erase_plan.simps)
        (cases "mmc_erase cfg hw \<lparr>bi_addr = 0, bi_block = b, bi_size = EMXX_ERASE_MAXBYTE, bi_erase = 1\<rparr> s";
          use max(2) in \<open>auto simp: unat_eq_0 IH\<close>)
  qed
qed

text \<open>
  The chunk loop of an erase request sends one erase request per chunk until the first
  error, and the chunks are non-empty, of at most 2 GB, and cover exactly the blocks asked for.
\<close>

theorem erase_chunks_cover:
  assumes "unat b + unat n \<le> 2 ^ 32"
  shows "\<exists>cs. erase_chunks cfg hw ret0 b n s = run_erases cfg hw ret0 cs s \<and>
    concat (map (\<lambda>(c, k). [c..<c + k]) cs) = [unat b..<unat b + unat n] \<and>
    list_all (\<lambda>(c, k). 0 < k \<and> k \<le> 2 ^ 22) cs"
  using erase_chunks_plan [OF assms] erase_plan_blocks [of "unat b" "unat n"] erase_plan_chunk [of _ _ "unat b" "unat n"]
  by (intro exI [of _ "erase_plan (unat b) (unat n)"]) (auto simp: list_all_iff)

text \<open>
  The end block of an erase command is the last block of the chunk, as a block number
  on high capacity cards and as the address of its last byte on the others.
\<close>

theorem erase_range_last:
  assumes "0 < k" and "k \<le> 2 ^ 22" and "b + k \<le> (if acc_mode s \<noteq> 0 then 2 ^ 32 else 2 ^ 23)"
  shows "erase_range (of_nat b) (of_nat (512 * k)) s =
    (if acc_mode s \<noteq> 0 then (of_nat b, of_nat (b + k - 1)) else (of_nat (512 * b), of_nat (512 * (b + k) - 1)))"
proof -
  have u: "unat (of_nat (512 * k) :: u32) = 512 * k" using assms(2) by (intro unat_of_nat_u32) simp
  have "unat (of_nat (512 * k) div 512 :: u32) = k" by (simp only: unat_div u) simp
  then have d: "of_nat (512 * k) div 512 = (of_nat k :: u32)" by (metis of_nat_unat ucast_id)
  have m: "of_nat (512 * k) AND 511 = (0 :: u32)"
    using pow2_mask_iff [of 9 "of_nat (512 * k)"] u by simp
  show ?thesis
    using assms(1) by (simp only: erase_range_def mmc_consts Let_def d m)
      (use m in \<open>auto simp: of_nat_diff algebra_simps\<close>)
qed

section \<open>The properties at a concrete device\<close>

text \<open>A card of 65537 blocks: eight whole protect sectors and a partial one of a single block.\<close>

definition sample_flash :: "bool \<Rightarrow> u32 list fmach" where
  "sample_flash ro = \<lparr>mem = (\<lambda>_. if ro then 1 else 0), dev = [], outp = [],
     mmc_erase_blocks = 1, mmc_protect_blk = 0x2000, dev_total_blk = 0x10001\<rparr>"

lemma sample_flash_ok [simp]: "flash_ok (sample_flash ro)"
  unfolding flash_ok_def by (intro exI [of _ 0]) (simp add: sample_flash_def)

lemma sample_flash_simps [simp]:
  "psize (sample_flash ro) = 8192" "ntotal (sample_flash ro) = 65537"
  "sector_protected (sample_flash ro) n \<longleftrightarrow> ro" "dev (sample_flash ro) = []"
  "mmc_protect_blk (sample_flash ro) = 0x2000" "dev_total_blk (sample_flash ro) = 0x10001"
  by (simp_all add: sample_flash_def sector_protected_def)

theorem write_refuses_protected_witness:
  "\<exists>r s'. mmc_write_sect (boot_if SD recording_card False) 0x41000000 0x100 0x180 (sample_flash True) = Some (r, s') \<and>
     r \<in> flash_errors \<and> dev s' = []"
  using write_refuses_protected [of "sample_flash True" "0x100" "0x120" "0x180" "boot_if SD recording_card False" "0x41000000"]
  by auto

theorem erase_refuses_protected_witness:
  "\<exists>r s'. mmc_erase_sect EMMC (boot_if EMMC recording_mmc False) 0x100 0x180 (sample_flash True) = Some (r, s') \<and>
     r \<in> flash_errors \<and> dev s' = []"
  using erase_refuses_protected [of "sample_flash True" "0x100" "0x120" "0x180" EMMC "boot_if EMMC recording_mmc False"]
  by auto

theorem protect_sect_marks_witness:
  "\<exists>s'. mmc_protect_sect 0x2000 0x6000 1 (sample_flash False) = Some (2, s') \<and>
     sector_protected s' 2 \<and> \<not> sector_protected s' 3"
  using protect_sect_marks [of "sample_flash False" "0x2000" "0x6000" 1]
  by (auto simp: protect_range_error_def marked_sectors_def)

theorem tail_sector_unchecked_witness:
  "\<exists>s'. mmc_protect_sect 0x10000 0x10001 1 (sample_flash False) = Some (1, s') \<and> sector_protected s' 8 \<and>
     mmc_check_protect 0x10000 0x10001 False s' = Some (EMXX_MMC_OK, s')"
  using tail_sector_unchecked [of "sample_flash False"] by (simp add: Let_def round_down_def)

theorem write_requests_range_witness:
  "\<exists>x. mmc_write_sect (boot_if SD recording_card False) 0x41000000 0x100 0x180 (sample_flash False) = do {
       (ret, s') \<leftarrow> multi_write (boot_if SD recording_card False) 0x100 0x41000000 0x80
          (sample_flash False\<lparr>outp := x # outp (sample_flash False)\<rparr>);
       Some (if ret \<noteq> 0 then EMXX_MMC_ERR_WRITE else 0x80, s')
     }"
  using write_requests_range [of "sample_flash False" "0x100" "0x180" "0x41000000" "boot_if SD recording_card False"]
  by (simp add: flash_consts cong: if_cong)

theorem write_inverted_range_witness:
  "\<exists>x. mmc_write_sect (boot_if SD recording_card False) 0x41000000 5 4 (sample_flash False) = do {
       (ret, s') \<leftarrow> multi_write (boot_if SD recording_card False) 5 0x41000000 0x7fffff
          (sample_flash False\<lparr>outp := x # outp (sample_flash False)\<rparr>);
       Some (if ret \<noteq> 0 then EMXX_MMC_ERR_WRITE else -1, s')
     }"
  using write_inverted_range [of "sample_flash False" 4 5 "0x41000000" "boot_if SD recording_card False"]
  by (simp add: flash_consts cong: if_cong)

theorem erase_chunks_cover_witness:
  "\<exists>cs. erase_chunks SD (boot_if SD recording_card False) 0 7 0x400001 (sample_flash False) =
       run_erases SD (boot_if SD recording_card False) 0 cs (sample_flash False) \<and>
     concat (map (\<lambda>(c, k). [c..<c + k]) cs) = [unat (7 :: u32)..<unat (7 :: u32) + unat (0x400001 :: u32)]"
proof -
  have "unat (7 :: u32) + unat (0x400001 :: u32) \<le> 2 ^ 32" by simp
  from erase_chunks_cover [OF this, of SD "boot_if SD recording_card False" 0 "sample_flash False"]
  show ?thesis by blast
qed

theorem erase_range_last_witness:
  "erase_range 5 1024 (sample_flash True) = (5, 6)"
proof -
  have "acc_mode (sample_flash True) \<noteq> 0"
    by (simp add: acc_mode_def load32_def sample_flash_def or_eq_0_iff)
  with erase_range_last [of 2 5 "sample_flash True"] show ?thesis by simp
qed

end
