(* ===== verification/MiniBoot.thy ===== *)
theory MiniBoot
  imports MmcFlash SdCard
begin

text \<open>
  The mini-boot side of \<open>mini-boot/mmc/mmc.c\<close>: the FAT16/FAT32 loader of the SD boot, the raw
  partition loader of the eMMC and eSD boot, and \<open>mini_boot\<close> itself, over an arbitrary
  controller driver \<open>hw\<close>. \<open>DEBUG\<close> is off, so that \<open>uart_init\<close> and the \<open>dbg_print\<close> calls do
  nothing. \<open>text_addr\<close> and \<open>uboot_size\<close> are \<open>U_BOOT_TEXTADDR\<close> and \<open>U_BOOT_SIZE\<close>, which the
  Makefile takes from the linked image; \<open>line_sys\<close> is \<open>CONFIG_EMXX_SDBOOT_LINE\<close>.
\<close>

section \<open>Constants and data\<close>

definition SD_BOOT_MAX_LOADSIZE :: u32 where "SD_BOOT_MAX_LOADSIZE = 0x00040000"
definition KERNEL_START :: u32 where "KERNEL_START = 0x40007fc0"
definition KERNEL_SIZE :: u32 where "KERNEL_SIZE = 0x00480000"
definition FS_START :: u32 where "FS_START = 0x46000000"
definition FS_SIZE :: u32 where "FS_SIZE = 0x01c00000"
definition MINIBOOT_WORK :: u32 where "MINIBOOT_WORK = 0x42000000"
definition IMAGE_DATA_SIZE :: u32 where "IMAGE_DATA_SIZE = 0x0c"
definition MINIBOOT_EMMC_SIZE :: u32 where "MINIBOOT_EMMC_SIZE = 0x2000"

datatype load_type = LOAD_TYPE_UBOOT | LOAD_TYPE_KERNEL | LOAD_TYPE_FS

lemmas miniboot_consts = SD_BOOT_MAX_LOADSIZE_def KERNEL_START_def KERNEL_SIZE_def FS_START_def
  FS_SIZE_def MINIBOOT_WORK_def IMAGE_DATA_SIZE_def MINIBOOT_EMMC_SIZE_def

record fat_info =
  bpb_sec_pos :: u32
  fat_sec_pos :: u32
  rde_sec_pos :: u32
  user_sec_pos :: u32
  byte_per_sec :: u32
  sec_per_clus :: u32
  root_entry :: u32
  sec_per_fat :: u32
  sec_rde_size :: u32
  data_num_clus :: u32
  now_fat_sec :: u32

text \<open>\<open>memcpy(&fat_info, fat_info_data, sizeof(fat_info_t))\<close>: eleven words from memory.\<close>

definition fat_info_at :: "(u32 \<Rightarrow> u8) \<Rightarrow> u32 \<Rightarrow> fat_info" where
  "fat_info_at m a = \<lparr>bpb_sec_pos = load32 m a, fat_sec_pos = load32 m (a + 4),
     rde_sec_pos = load32 m (a + 8), user_sec_pos = load32 m (a + 12), byte_per_sec = load32 m (a + 16),
     sec_per_clus = load32 m (a + 20), root_entry = load32 m (a + 24), sec_per_fat = load32 m (a + 28),
     sec_rde_size = load32 m (a + 32), data_num_clus = load32 m (a + 36), now_fat_sec = load32 m (a + 40)\<rparr>"

fun match_name :: "load_type \<Rightarrow> u8 list" where
  "match_name LOAD_TYPE_UBOOT = [0x75, 0x62, 0x6F, 0x6F, 0x74, 0x2D, 0x73, 0x64]"
| "match_name LOAD_TYPE_KERNEL = [0x75, 0x49, 0x6D, 0x61, 0x67, 0x65, 0x20, 0x20]"
| "match_name LOAD_TYPE_FS = [0x63, 0x72, 0x61, 0x6D, 0x66, 0x73, 0x20, 0x20]"

fun MATCH_NAME :: "load_type \<Rightarrow> u8 list" where
  "MATCH_NAME LOAD_TYPE_UBOOT = [0x55, 0x42, 0x4F, 0x4F, 0x54, 0x2D, 0x53, 0x44]"
| "MATCH_NAME LOAD_TYPE_KERNEL = [0x55, 0x49, 0x4D, 0x41, 0x47, 0x45, 0x20, 0x20]"
| "MATCH_NAME LOAD_TYPE_FS = [0x43, 0x52, 0x41, 0x4D, 0x46, 0x53, 0x20, 0x20]"

definition match_exet :: "u8 list" where "match_exet = [0x62, 0x69, 0x6E]"
definition MACTH_EXET :: "u8 list" where "MACTH_EXET = [0x42, 0x49, 0x4E]"

text \<open>
  The loader's own \<open>memcmp\<close> (\<open>main/etc.c\<close>), of memory against a constant: the difference of
  the first bytes that differ, as an \<open>int\<close>.
\<close>

fun mb_memcmp :: "(u32 \<Rightarrow> u8) \<Rightarrow> u32 \<Rightarrow> u8 list \<Rightarrow> int" where
  "mb_memcmp m p [] = 0"
| "mb_memcmp m p (c # cs) =
     (let ret = uint (m p) - uint c in if ret \<noteq> 0 then ret else mb_memcmp m (p + 1) cs)"

section \<open>Directory entries\<close>

definition rde_matches :: "(u32 \<Rightarrow> u8) \<Rightarrow> u32 \<Rightarrow> load_type \<Rightarrow> bool" where
  "rde_matches m rde type \<longleftrightarrow>
     (mb_memcmp m rde (match_name type) = 0 \<or> mb_memcmp m rde (MATCH_NAME type) = 0) \<and>
     (type \<noteq> LOAD_TYPE_UBOOT \<or>
      mb_memcmp m (rde + 8) match_exet = 0 \<or> mb_memcmp m (rde + 8) MACTH_EXET = 0)"

text \<open>The first of \<open>n\<close> entries from \<open>rde\<close> on that matches.\<close>

primrec find_rde :: "(u32 \<Rightarrow> u8) \<Rightarrow> nat \<Rightarrow> u32 \<Rightarrow> load_type \<Rightarrow> u32 option" where
  "find_rde m 0 rde type = None"
| "find_rde m (Suc n) rde type =
     (if rde_matches m rde type then Some rde else find_rde m n (rde + 32) type)"

definition rde_cluster16 :: "(u32 \<Rightarrow> u8) \<Rightarrow> u32 \<Rightarrow> u32" where
  "rde_cluster16 m rde = ucast (load16 m (rde + 26))"

definition rde_cluster32 :: "(u32 \<Rightarrow> u8) \<Rightarrow> u32 \<Rightarrow> u32" where
  "rde_cluster32 m rde = ucast (load16 m (rde + 26)) OR push_bit 16 (ucast (load16 m (rde + 20)))"

definition cluster_sector :: "fat_info \<Rightarrow> u32 \<Rightarrow> u32" where
  "cluster_sector fi clus = user_sec_pos fi + (clus - 2) * sec_per_clus fi"

section \<open>The file allocation table\<close>

text \<open>
  Bring the FAT sector of cluster \<open>clus\<close> into the buffer, unless it is there (\<open>now_fat_sec\<close>).
  \<open>sh\<close> is the number of bits of the entry index within a sector.
\<close>

definition fat_load_sector :: "('d, 'z) mach_scheme hw_if \<Rightarrow> nat \<Rightarrow> u32 \<Rightarrow> u32 \<Rightarrow>
    fat_info \<times> ('d, 'z) mach_scheme \<Rightarrow> (u32 \<times> fat_info \<times> ('d, 'z) mach_scheme) option" where
  "fat_load_sector hw sh read_data clus = (\<lambda>(fi, s).
     let fat_sec_num = signed_drop_bit sh clus in
     if now_fat_sec fi \<noteq> fat_sec_num
     then do {
       (ret, s) \<leftarrow> single_read hw (fat_sec_pos fi + fat_sec_num) read_data s;
       if ret \<noteq> 0 then Some (ret, fi, s) else Some (0, fi\<lparr>now_fat_sec := fat_sec_num\<rparr>, s)
     }
     else Some (0, fi, s))"

definition fat32_entry :: "(u32 \<Rightarrow> u8) \<Rightarrow> u32 \<Rightarrow> u32 \<Rightarrow> u32" where
  "fat32_entry m read_data clus = load32 m (read_data + 4 * (clus AND 0x7F))"

definition fat16_entry :: "(u32 \<Rightarrow> u8) \<Rightarrow> u32 \<Rightarrow> u32 \<Rightarrow> u32" where
  "fat16_entry m read_data clus = ucast (load16 m (read_data + 2 * (clus AND 0xFF)))"

text \<open>The two tests on an entry, comparisons of \<open>int\<close> values.\<close>

definition fat_ends :: "bool \<Rightarrow> u32 \<Rightarrow> bool" where
  "fat_ends fat32 get_clus \<longleftrightarrow> sint get_clus < 2 \<or> (if fat32 then 0x0FFFFFF6 else 0xFFF6) < sint get_clus"

definition fat_last :: "bool \<Rightarrow> u32 \<Rightarrow> bool" where
  "fat_last fat32 get_clus \<longleftrightarrow>
     (if fat32 then 0x0FFFFFF8 \<le> sint get_clus \<and> sint get_clus \<le> 0x0FFFFFFF
      else 0xFFF8 \<le> sint get_clus \<and> sint get_clus \<le> 0xFFFF)"

section \<open>Finding a file\<close>

text \<open>The FAT32 branch of \<open>fat_get_cluster\<close>: the root directory is a chain of clusters.\<close>

definition fat32_get_cluster :: "('d, 'z) mach_scheme hw_if \<Rightarrow> u32 \<Rightarrow> load_type \<Rightarrow>
    fat_info \<times> ('d, 'z) mach_scheme \<Rightarrow> (u32 \<times> fat_info \<times> ('d, 'z) mach_scheme) option" where
  "fat32_get_cluster hw read_data type = (\<lambda>(fi, s). do {
     (ret, _, fi, s) \<leftarrow> loopM (\<lambda>(rde_clus, fi, s). do {
         (ret, s) \<leftarrow> multi_read hw (cluster_sector fi rde_clus) MINIBOOT_WORK (sec_per_clus fi) s;
         if ret \<noteq> 0 then Some (Some ret, rde_clus, fi, s)
         else case find_rde (mem s) (nat (sint (16 * sec_per_clus fi))) MINIBOOT_WORK type of
           Some rde \<Rightarrow> Some (Some 0, rde_clus, fi\<lparr>data_num_clus := rde_cluster32 (mem s) rde\<rparr>, s)
         | None \<Rightarrow> do {
             (ret, fi, s) \<leftarrow> fat_load_sector hw 7 read_data rde_clus (fi, s);
             if ret \<noteq> 0 then Some (Some ret, rde_clus, fi, s)
             else let get_clus = fat32_entry (mem s) read_data rde_clus in
               if fat_ends True get_clus then Some (Some (-1), rde_clus, fi, s)
               else Some (None, get_clus, fi, s)
           }
       }) (rde_sec_pos fi, fi, s);
     Some (ret, fi, s)
   })"

text \<open>The FAT16 branch: the root directory is an area of \<open>sec_rde_size\<close> sectors; \<open>i\<close> counts up.\<close>

primrec fat16_get_cluster :: "('d, 'z) mach_scheme hw_if \<Rightarrow> u32 \<Rightarrow> load_type \<Rightarrow> nat \<Rightarrow> u32 \<Rightarrow>
    fat_info \<times> ('d, 'z) mach_scheme \<Rightarrow> (u32 \<times> fat_info \<times> ('d, 'z) mach_scheme) option" where
  "fat16_get_cluster hw read_data type 0 i st = Some (-1, st)"
| "fat16_get_cluster hw read_data type (Suc n) i st = (case st of (fi, s) \<Rightarrow> do {
     (ret, s) \<leftarrow> single_read hw (rde_sec_pos fi + i) read_data s;
     if ret \<noteq> 0 then Some (ret, fi, s)
     else case find_rde (mem s) 16 read_data type of
       Some rde \<Rightarrow> Some (0, fi\<lparr>data_num_clus := rde_cluster16 (mem s) rde\<rparr>, s)
     | None \<Rightarrow> fat16_get_cluster hw read_data type n (i + 1) (fi, s)
   })"

definition fat_get_cluster :: "('d, 'z) mach_scheme hw_if \<Rightarrow> bool \<Rightarrow> u32 \<Rightarrow> load_type \<Rightarrow>
    fat_info \<times> ('d, 'z) mach_scheme \<Rightarrow> (u32 \<times> fat_info \<times> ('d, 'z) mach_scheme) option" where
  "fat_get_cluster hw fat32 read_data type st =
     (if fat32 then fat32_get_cluster hw read_data type st
      else fat16_get_cluster hw read_data type (nat (sint (sec_rde_size (fst st)))) 0 st)"

section \<open>Loading a file\<close>

text \<open>
  One round of the loop of \<open>fat_cpy_data\<close>. The loop ends with an error (\<open>Inl\<close>) or with the
  final value of \<open>last_flag\<close> (\<open>Inr\<close>). The loop condition adds two \<open>int\<close>s and compares with an
  \<open>unsigned int\<close>, so it is an unsigned comparison.
\<close>

definition fat_cpy_step :: "('d, 'z) mach_scheme hw_if \<Rightarrow> bool \<Rightarrow> u32 \<Rightarrow> u32 \<Rightarrow> u32 \<Rightarrow>
    u32 \<times> fat_info \<times> ('d, 'z) mach_scheme \<Rightarrow>
    ((u32 + bool) option \<times> u32 \<times> fat_info \<times> ('d, 'z) mach_scheme) option" where
  "fat_cpy_step hw fat32 read_data boot_addr max_size = (\<lambda>(write_size, fi, s).
     let clus_size = MMC_BLOCKLEN_VAL * sec_per_clus fi in
     if write_size + clus_size \<le> max_size
     then do {
       (ret, s) \<leftarrow> multi_read hw (cluster_sector fi (data_num_clus fi)) (boot_addr + write_size) (sec_per_clus fi) s;
       if ret \<noteq> 0 then Some (Some (Inl ret), write_size, fi, s)
       else do {
         (ret, fi, s) \<leftarrow> fat_load_sector hw (if fat32 then 7 else 8) read_data (data_num_clus fi) (fi, s);
         if ret \<noteq> 0 then Some (Some (Inl ret), write_size, fi, s)
         else let get_clus = (if fat32 then fat32_entry (mem s) read_data (data_num_clus fi)
                              else fat16_entry (mem s) read_data (data_num_clus fi)) in
           if fat_ends fat32 get_clus then Some (Some (Inr (fat_last fat32 get_clus)), write_size, fi, s)
           else Some (None, write_size + clus_size, fi\<lparr>data_num_clus := get_clus\<rparr>, s)
       }
     }
     else Some (Some (Inr False), write_size, fi, s))"

definition fat_cpy_data :: "('d, 'z) mach_scheme hw_if \<Rightarrow> bool \<Rightarrow> u32 \<Rightarrow> u32 \<Rightarrow> u32 \<Rightarrow>
    fat_info \<times> ('d, 'z) mach_scheme \<Rightarrow> (u32 \<times> fat_info \<times> ('d, 'z) mach_scheme) option" where
  "fat_cpy_data hw fat32 read_data start_addr max_size = (\<lambda>(fi, s). do {
     (r, _, fi, s) \<leftarrow> loopM (fat_cpy_step hw fat32 read_data start_addr max_size) (0, fi, s);
     case r of
       Inl ret \<Rightarrow> Some (ret, fi, s)
     | Inr last_flag \<Rightarrow> Some (if last_flag then 0 else -1, fi, s)
   })"

section \<open>Booting\<close>

datatype boot_result = Jump u32 | ERR_END

text \<open>The card set-up that starts \<open>mini_boot\<close>: \<open>False\<close> is the \<open>goto ERR_END\<close>.\<close>

definition boot_setup :: "boot_cfg \<Rightarrow> ('d, 'z) mach_scheme hw_if \<Rightarrow> ('d, 'z) mach_scheme \<Rightarrow>
    (bool \<times> ('d, 'z) mach_scheme) option" where
  "boot_setup cfg hw s =
     (if cfg = EMMC
      then do {
        let s = s\<lparr>mem := store32 (mem s) RCA_VAL_ADDR 1\<rparr>;
        s \<leftarrow> set_clock hw MMC_CLK_HIGH s;
        Some (True, s)
      }
      else do {
        s \<leftarrow> set_clock hw MMC_CLK_NORMAL s;
        (ret, _, s) \<leftarrow> send_cmd hw 55 (push_bit 16 (RCA_VAL s)) MMC_RSP_R1 None s;
        if ret \<noteq> 0 then Some (False, s)
        else do {
          (ret, _, s) \<leftarrow> send_acmd hw 6 0x0002 MMC_RSP_R1 None s;
          if ret \<noteq> 0 then Some (False, s) else Some (True, set_buswidth hw 4 s)
        }
      })"

text \<open>The loader of the eMMC and eSD boot: U-Boot and kernel from raw partitions.\<close>

definition kernel_size :: "(u32 \<Rightarrow> u8) \<Rightarrow> u32 \<Rightarrow> u32" where
  "kernel_size m head_ptr =
     (let k_size = ucast (m head_ptr); k_size = push_bit 8 k_size OR ucast (m (head_ptr + 1));
          k_size = push_bit 8 k_size OR ucast (m (head_ptr + 2))
      in push_bit 8 k_size OR ucast (m (head_ptr + 3)))"

definition raw_boot :: "('d, 'z) mach_scheme hw_if \<Rightarrow> u32 \<Rightarrow> u32 \<Rightarrow> ('d, 'z) mach_scheme \<Rightarrow>
    (boot_result \<times> ('d, 'z) mach_scheme) option" where
  "raw_boot hw text_addr uboot_size s = do {
     let s = hw_init hw s;
     let src = firstSectorNumbers 0 s + MINIBOOT_EMMC_SIZE div MMC_BLOCKLEN_VAL;
     (ret, s) \<leftarrow> mmc_multi_block_read hw src text_addr uboot_size s;
     if ret \<noteq> 0 then Some (ERR_END, s)
     else do {
       let src = firstSectorNumbers 1 s;
       (ret, s) \<leftarrow> mmc_multi_block_read hw src KERNEL_START MMC_BLOCKLEN_VAL s;
       if ret \<noteq> 0 then Some (ERR_END, s)
       else do {
         let k_size = kernel_size (mem s) (KERNEL_START + IMAGE_DATA_SIZE);
         (ret, s) \<leftarrow> mmc_multi_block_read hw src KERNEL_START (k_size + 64) s;
         if ret \<noteq> 0 then Some (ERR_END, s) else Some (Jump text_addr, s)
       }
     }
   }"

text \<open>One file of the SD boot: find it, then load it, the FAT buffer cold before each step.\<close>

definition load_file :: "('d, 'z) mach_scheme hw_if \<Rightarrow> bool \<Rightarrow> u32 \<Rightarrow> load_type \<Rightarrow> u32 \<Rightarrow> u32 \<Rightarrow>
    fat_info \<times> ('d, 'z) mach_scheme \<Rightarrow> (bool \<times> fat_info \<times> ('d, 'z) mach_scheme) option" where
  "load_file hw fat32 read_data type start_addr max_size = (\<lambda>(fi, s). do {
     (ret, fi, s) \<leftarrow> fat_get_cluster hw fat32 read_data type (fi\<lparr>now_fat_sec := -1\<rparr>, s);
     if ret \<noteq> 0 then Some (False, fi, s)
     else do {
       (ret, fi, s) \<leftarrow> fat_cpy_data hw fat32 read_data start_addr max_size (fi\<lparr>now_fat_sec := -1\<rparr>, s);
       Some (ret = 0, fi, s)
     }
   })"

definition sd_boot :: "bool \<Rightarrow> ('d, 'z) mach_scheme hw_if \<Rightarrow> u32 \<Rightarrow> ('d, 'z) mach_scheme \<Rightarrow>
    (boot_result \<times> ('d, 'z) mach_scheme) option" where
  "sd_boot line_sys hw text_addr s = do {
     let read_data = ROMBOOT_WORK_START + MMC_BLOCKLEN_VAL;
     let fi = fat_info_at (mem s) ROMBOOT_WORK_START;
     let fat32 = (root_entry fi = 0);
     (ok, fi, s) \<leftarrow> load_file hw fat32 read_data LOAD_TYPE_UBOOT text_addr SD_BOOT_MAX_LOADSIZE (fi, s);
     if \<not> ok then Some (ERR_END, s)
     else do {
       (ok, fi, s) \<leftarrow> load_file hw fat32 read_data LOAD_TYPE_KERNEL KERNEL_START KERNEL_SIZE (fi, s);
       if \<not> ok then Some (ERR_END, s)
       else if line_sys
       then do {
         (_, fi, s) \<leftarrow> load_file hw fat32 read_data LOAD_TYPE_FS FS_START FS_SIZE (fi, s);
         Some (Jump text_addr, s)
       }
       else Some (Jump text_addr, s)
     }
   }"

definition mini_boot :: "boot_cfg \<Rightarrow> bool \<Rightarrow> ('d, 'z) mach_scheme hw_if \<Rightarrow> u32 \<Rightarrow> u32 \<Rightarrow>
    ('d, 'z) mach_scheme \<Rightarrow> (boot_result \<times> ('d, 'z) mach_scheme) option" where
  "mini_boot cfg line_sys hw text_addr uboot_size s = do {
     (ok, s) \<leftarrow> boot_setup cfg hw s;
     if \<not> ok then Some (ERR_END, s)
     else if cfg = SD then sd_boot line_sys hw text_addr s
     else raw_boot hw text_addr uboot_size s
   }"

end
