(* ===== verification/FatLoad.thy ===== *)
theory FatLoad
  imports MiniBoot
begin

text \<open>
  What the FAT loader of the SD boot achieves: on a disk that reads back (\<open>reads_disk\<close>, which
  \<open>SdCard\<close> proves of \<open>sdc.c\<close>) the file whose cluster chain starts at \<open>data_num_clus\<close> ends up at
  the load address; on any card whatever, memory outside the load window is safe.
\<close>

section \<open>The file system on the disk\<close>

definition disk_word :: "(nat \<Rightarrow> u8) \<Rightarrow> nat \<Rightarrow> u32" where
  "disk_word disk p = ucast (disk p) OR push_bit 8 (ucast (disk (p + 1)))
     OR push_bit 16 (ucast (disk (p + 2))) OR push_bit 24 (ucast (disk (p + 3)))"

text \<open>The FAT entry of cluster \<open>c\<close>, as the loader reads it into an \<open>int\<close>.\<close>

definition fat_value :: "bool \<Rightarrow> (nat \<Rightarrow> u8) \<Rightarrow> fat_info \<Rightarrow> nat \<Rightarrow> u32" where
  "fat_value fat32 disk fi c =
     (if fat32 then disk_word disk (512 * unat (fat_sec_pos fi) + 4 * c)
      else ucast (disk_half disk (512 * unat (fat_sec_pos fi) + 2 * c)))"

text \<open>A cluster chain that ends with an end-of-file mark.\<close>

fun fat_chain :: "bool \<Rightarrow> (nat \<Rightarrow> u8) \<Rightarrow> fat_info \<Rightarrow> nat list \<Rightarrow> bool" where
  "fat_chain fat32 disk fi [] = False"
| "fat_chain fat32 disk fi [c] = fat_last fat32 (fat_value fat32 disk fi c)"
| "fat_chain fat32 disk fi (c # d # cs) =
     (fat_value fat32 disk fi c = of_nat d \<and> \<not> fat_ends fat32 (of_nat d) \<and> fat_chain fat32 disk fi (d # cs))"

definition clus_bytes :: "fat_info \<Rightarrow> nat" where
  "clus_bytes fi = 512 * unat (sec_per_clus fi)"

definition clus_start :: "fat_info \<Rightarrow> nat \<Rightarrow> nat" where
  "clus_start fi c = unat (user_sec_pos fi) + (c - 2) * unat (sec_per_clus fi)"

text \<open>Byte \<open>i\<close> of the file with the clusters \<open>cs\<close>.\<close>

definition file_byte :: "(nat \<Rightarrow> u8) \<Rightarrow> fat_info \<Rightarrow> nat list \<Rightarrow> nat \<Rightarrow> u8" where
  "file_byte disk fi cs i =
     disk (512 * clus_start fi (cs ! (i div clus_bytes fi)) + i mod clus_bytes fi)"

text \<open>Clusters, and the FAT sectors of their entries, lie on the part of the disk that reads back.\<close>

definition fat_bits :: "bool \<Rightarrow> nat" where
  "fat_bits fat32 = (if fat32 then 7 else 8)"

definition clus_ok :: "bool \<Rightarrow> fat_info \<Rightarrow> nat \<Rightarrow> nat \<Rightarrow> bool" where
  "clus_ok fat32 fi limit c \<longleftrightarrow> 2 \<le> c \<and> c < 2 ^ 28 \<and> clus_start fi c < limit \<and>
     unat (fat_sec_pos fi) + c div 2 ^ fat_bits fat32 < limit"

section \<open>The FAT buffer\<close>

definition fat_cached :: "(nat \<Rightarrow> u8) \<Rightarrow> u32 \<Rightarrow> fat_info \<Rightarrow> ('d, 'z) mach_scheme \<Rightarrow> bool" where
  "fat_cached disk rd fi s \<longleftrightarrow> now_fat_sec fi = -1 \<or>
     (\<forall>j<512. mem s (rd + of_nat j) = disk (512 * (unat (fat_sec_pos fi) + unat (now_fat_sec fi)) + j))"

lemma buffer_load32:
  assumes "\<forall>j<512. m (rd + of_nat j) = disk (base + j)" and "k + 4 \<le> 512"
  shows "load32 m (rd + of_nat k) = disk_word disk (base + k)"
  using assms(1)[rule_format, of k] assms(1)[rule_format, of "k + 1"] assms(1)[rule_format, of "k + 2"]
    assms(1)[rule_format, of "k + 3"] assms(2)
  by (simp add: load32_def disk_word_def add_ac)

lemma buffer_load16:
  assumes "\<forall>j<512. m (rd + of_nat j) = disk (base + j)" and "k + 2 \<le> 512"
  shows "load16 m (rd + of_nat k) = disk_half disk (base + k)"
  using assms(1)[rule_format, of k] assms(1)[rule_format, of "k + 1"] assms(2)
  by (simp add: load16_def disk_half_def add_ac)

lemma and_mask_nat: "n < 32 \<Longrightarrow> (c :: u32) AND (2 ^ n - 1) = of_nat (unat c mod 2 ^ n)"
proof -
  assume "n < 32"
  have "c AND (2 ^ n - 1) = take_bit n c"
    by (simp add: take_bit_eq_mask mask_eq_exp_minus_1)
  moreover have "unat (take_bit n c) = unat c mod 2 ^ n"
    by (simp only: unsigned_take_bit_eq take_bit_eq_mod [of n "unat c"])
  ultimately show ?thesis by (metis of_nat_unat ucast_id)
qed

lemma split_index: "512 = m * k \<Longrightarrow> 512 * (f + c div k) + m * (c mod k) = 512 * f + m * (c :: nat)"
proof -
  assume "512 = m * k"
  then have "512 * (c div k) + m * (c mod k) = m * (k * (c div k) + c mod k)"
    by (simp only: distrib_left mult.assoc)
  then show ?thesis by (simp add: distrib_left)
qed

lemma split_32: "512 * (f + c div 128) + 4 * (c mod 128) = 512 * f + 4 * (c :: nat)"
  and split_16: "512 * (f + c div 256) + 2 * (c mod 256) = 512 * f + 2 * (c :: nat)"
  by (rule split_index, simp)+

text \<open>With the right sector in the buffer, the entry that is read is the entry on the disk.\<close>

lemma fat_entry_value:
  assumes "\<forall>j<512. m (rd + of_nat j) = disk (512 * (unat (fat_sec_pos fi) + c div 2 ^ fat_bits fat32) + j)"
    and "c < 2 ^ 28"
  shows "(if fat32 then fat32_entry m rd (of_nat c) else fat16_entry m rd (of_nat c)) = fat_value fat32 disk fi c"
proof -
  have u: "unat (of_nat c :: u32) = c" using assms(2) by (intro unat_of_nat_u32) simp
  show ?thesis
  proof (cases fat32)
    case True
    have *: "4 * (of_nat c AND 0x7F) = (of_nat (4 * (c mod 128)) :: u32)"
      using and_mask_nat [of 7 "of_nat c"] by (simp add: u)
    have "load32 m (rd + of_nat (4 * (c mod 128))) =
        disk_word disk (512 * (unat (fat_sec_pos fi) + c div 128) + 4 * (c mod 128))"
      using assms(1) True by (intro buffer_load32) (auto simp: fat_bits_def)
    then have "load32 m (rd + of_nat (4 * (c mod 128))) = disk_word disk (512 * unat (fat_sec_pos fi) + 4 * c)"
      by (simp only: split_32)
    moreover note *
    ultimately show ?thesis using True by (simp add: fat32_entry_def fat_value_def)
  next
    case False
    have *: "2 * (of_nat c AND 0xFF) = (of_nat (2 * (c mod 256)) :: u32)"
      using and_mask_nat [of 8 "of_nat c"] by (simp add: u)
    have "load16 m (rd + of_nat (2 * (c mod 256))) =
        disk_half disk (512 * (unat (fat_sec_pos fi) + c div 256) + 2 * (c mod 256))"
      using assms(1) False by (intro buffer_load16) (auto simp: fat_bits_def)
    then have "load16 m (rd + of_nat (2 * (c mod 256))) = disk_half disk (512 * unat (fat_sec_pos fi) + 2 * c)"
      by (simp only: split_16)
    moreover note *
    ultimately show ?thesis using False by (simp add: fat16_entry_def fat_value_def)
  qed
qed

section \<open>Memory safety on any card\<close>

text \<open>Only the \<open>n\<close> bytes at \<open>a\<close> and the \<open>k\<close> bytes at \<open>b\<close> may have changed.\<close>

definition confined :: "u32 \<Rightarrow> nat \<Rightarrow> u32 \<Rightarrow> nat \<Rightarrow> (u32 \<Rightarrow> u8) \<Rightarrow> (u32 \<Rightarrow> u8) \<Rightarrow> bool" where
  "confined a n b k m m' \<longleftrightarrow> (\<forall>x. n \<le> unat (x - a) \<longrightarrow> k \<le> unat (x - b) \<longrightarrow> m' x = m x)"

lemma confined_refl [simp]: "confined a n b k m m"
  by (simp add: confined_def)

lemma confined_trans: "confined a n b k m1 m2 \<Longrightarrow> confined a n b k m2 m3 \<Longrightarrow> confined a n b k m1 m3"
  by (simp add: confined_def)

lemma confined_left: "only_changed a n m m' \<Longrightarrow> confined a n b k m m'"
  by (simp add: confined_def only_changed_def)

lemma confined_right: "only_changed b k m m' \<Longrightarrow> confined a n b k m m'"
  by (simp add: confined_def only_changed_def)

lemma boot_single_read_fills:
  "ensures (single_read (boot_if cfg D cpu500) a b s) (\<lambda>p. fills b 512 s (snd p))"
  using boot.single_read_frame by (fastforce simp: ensures_def)

lemma boot_multi_read_fills:
  "ensures (multi_read (boot_if cfg D cpu500) a b n s) (\<lambda>p. fills b (512 * nat (sint n)) s (snd p))"
  using boot.multi_read_frame by (fastforce simp: ensures_def)

lemma fat_load_sector_frame:
  "ensures (fat_load_sector (boot_if cfg D cpu500) sh rd c (fi, s))
     (\<lambda>p. (fst (snd p))\<lparr>now_fat_sec := 0\<rparr> = fi\<lparr>now_fat_sec := 0\<rparr> \<and> fills rd 512 s (snd (snd p)))"
proof (rule ensuresI)
  fix p
  assume *: "fat_load_sector (boot_if cfg D cpu500) sh rd c (fi, s) = Some p"
  show "(fst (snd p))\<lparr>now_fat_sec := 0\<rparr> = fi\<lparr>now_fat_sec := 0\<rparr> \<and> fills rd 512 s (snd (snd p))"
  proof (cases "now_fat_sec fi = signed_drop_bit sh c")
    case True
    with * show ?thesis by (auto simp: fat_load_sector_def Let_def)
  next
    case False
    with * obtain r s1 where m: "single_read (boot_if cfg D cpu500) (fat_sec_pos fi + signed_drop_bit sh c) rd s = Some (r, s1)"
      and p: "p = (if r \<noteq> 0 then (r, fi, s1) else (0, fi\<lparr>now_fat_sec := signed_drop_bit sh c\<rparr>, s1))"
      by (auto simp: fat_load_sector_def Let_def bind_eq_Some_conv split: if_splits)
    show ?thesis using ensuresD [OF boot_single_read_fills m] by (simp add: p)
  qed
qed

lemma fat_load_sector_sec_per_clus:
  "fi'\<lparr>now_fat_sec := 0\<rparr> = fi\<lparr>now_fat_sec := 0\<rparr> \<Longrightarrow> sec_per_clus fi' = sec_per_clus fi"
  by (cases fi, cases fi') simp

lemma fat_cpy_step_frame:
  assumes spc: "unat (sec_per_clus fi) < 256" and max: "unat max_size \<le> 2 ^ 31"
    and ws: "unat ws \<le> unat max_size"
  shows "ensures (fat_cpy_step (boot_if cfg D cpu500) fat32 rd start max_size (ws, fi, s))
     (\<lambda>p. unat (fst (snd p)) \<le> unat max_size \<and> sec_per_clus (fst (snd (snd p))) = sec_per_clus fi \<and>
          confined start (unat max_size) rd 512 (mem s) (mem (snd (snd (snd p)))))"
proof -
  let ?c = "MMC_BLOCKLEN_VAL * sec_per_clus fi"
  have uc: "unat ?c = 512 * unat (sec_per_clus fi)"
    using spc by (simp add: mmc_consts unat_word_ariths)
  have sum: "unat (ws + ?c) = unat ws + unat ?c"
    using spc ws max uc by (intro unat_add_value(1)) auto
  have n: "nat (sint (sec_per_clus fi)) = unat (sec_per_clus fi)"
    using spc by (simp add: sint_small)
  have win: "confined start (unat max_size) rd 512 (mem s) (mem s1)"
    if "ws + ?c \<le> max_size" and "fills (start + ws) (512 * nat (sint (sec_per_clus fi))) s s1"
    for s1 :: "('a, 'b) mach_scheme"
  proof (rule confined_left)
    have "unat ws + 512 * unat (sec_per_clus fi) \<le> unat max_size"
      using that(1) sum uc by (simp add: word_le_nat_alt)
    then show "only_changed start (unat max_size) (mem s) (mem s1)"
      using that(2) by (intro only_changed_sub [of start "unat ws"]) (auto simp: fills_def n)
  qed
  show ?thesis
  proof (cases "ws + ?c \<le> max_size")
    case False
    then show ?thesis using ws by (simp add: fat_cpy_step_def Let_def)
  next
    case True
    note w = win [OF True]
    have both: "confined start (unat max_size) rd 512 (mem s) (mem s2)"
      if "fills (start + ws) (512 * nat (sint (sec_per_clus fi))) s s1" and "fills rd 512 s1 s2"
      for s1 s2 :: "('a, 'b) mach_scheme"
      using confined_trans [OF w [OF that(1)] confined_right] that(2) by (simp add: fills_def)
    have ws': "unat (ws + ?c) \<le> unat max_size" using True by (simp add: word_le_nat_alt)
    show ?thesis
    proof (rule ensuresI)
      fix p
      assume "fat_cpy_step (boot_if cfg D cpu500) fat32 rd start max_size (ws, fi, s) = Some p"
      then obtain r s1 where m: "multi_read (boot_if cfg D cpu500) (cluster_sector fi (data_num_clus fi))
            (start + ws) (sec_per_clus fi) s = Some (r, s1)"
        and err: "r \<noteq> 0 \<Longrightarrow> p = (Some (Inl r), ws, fi, s1)"
        and ok: "r = 0 \<Longrightarrow> \<exists>r' fi' s2. fat_load_sector (boot_if cfg D cpu500) (if fat32 then 7 else 8) rd (data_num_clus fi) (fi, s1)
               = Some (r', fi', s2) \<and> (fst (snd p) = ws \<or> fst (snd p) = ws + ?c) \<and>
               sec_per_clus (fst (snd (snd p))) = sec_per_clus fi' \<and> snd (snd (snd p)) = s2"
        using True by (auto simp: fat_cpy_step_def Let_def bind_eq_Some_conv split: if_splits)
      note f1 = ensuresD [OF boot_multi_read_fills m, unfolded snd_conv]
      show "unat (fst (snd p)) \<le> unat max_size \<and> sec_per_clus (fst (snd (snd p))) = sec_per_clus fi \<and>
          confined start (unat max_size) rd 512 (mem s) (mem (snd (snd (snd p))))"
      proof (cases "r = 0")
        case False
        then show ?thesis using err ws w [OF f1] by simp
      next
        case True
        then obtain r' fi' s2 where l: "fat_load_sector (boot_if cfg D cpu500) (if fat32 then 7 else 8) rd (data_num_clus fi) (fi, s1)
               = Some (r', fi', s2)" and p: "fst (snd p) = ws \<or> fst (snd p) = ws + ?c"
               "sec_per_clus (fst (snd (snd p))) = sec_per_clus fi'" "snd (snd (snd p)) = s2"
          using ok by blast
        have "sec_per_clus fi' = sec_per_clus fi" and "fills rd 512 s1 s2"
          using ensuresD [OF fat_load_sector_frame l] by (auto dest: fat_load_sector_sec_per_clus)
        then show ?thesis using p ws ws' both [OF f1] by auto
      qed
    qed
  qed
qed

text \<open>
  C18: the FAT loader is memory safe on any card. Whatever the card, the FAT and the directory
  say (cyclic chains, cluster numbers past the end of the card, read errors), \<open>fat_cpy_data\<close>
  writes nothing outside the \<open>max_size\<close> bytes of the load window and its one FAT buffer.
\<close>
theorem fat_cpy_window:
  assumes "unat (sec_per_clus fi) < 256" and "unat max_size \<le> 2 ^ 31"
    and "fat_cpy_data (boot_if cfg D cpu500) fat32 rd start max_size (fi, s) = Some (r, fi', s')"
  shows "confined start (unat max_size) rd 512 (mem s) (mem s')"
proof -
  let ?P = "\<lambda>p. unat (fst p) \<le> unat max_size \<and> sec_per_clus (fst (snd p)) = sec_per_clus fi \<and>
      confined start (unat max_size) rd 512 (mem s) (mem (snd (snd p)))"
  have loop: "ensures (loopM (fat_cpy_step (boot_if cfg D cpu500) fat32 rd start max_size) (0, fi, s))
      (\<lambda>q. ?P (snd q))"
  proof (rule ensures_loopM [of ?P])
    fix p :: "u32 \<times> fat_info \<times> ('a, 'b) mach_scheme"
    assume P: "?P p"
    obtain ws g s1 where p: "p = (ws, g, s1)" by (cases p)
    show "ensures (fat_cpy_step (boot_if cfg D cpu500) fat32 rd start max_size p)
        (\<lambda>q. case fst q of None \<Rightarrow> ?P (snd q) | Some v \<Rightarrow> ?P (snd (v, snd q)))"
      unfolding p
      by (rule ensures_weaken [OF fat_cpy_step_frame])
        (use P p assms(1,2) in \<open>auto split: option.splits elim: confined_trans\<close>)
  qed simp
  obtain v ws1 fi1 s1 where
    l: "loopM (fat_cpy_step (boot_if cfg D cpu500) fat32 rd start max_size) (0, fi, s) = Some (v, ws1, fi1, s1)"
    and r: "(case v of Inl ret \<Rightarrow> Some (ret, fi1, s1) | Inr b \<Rightarrow> Some (if b then 0 else -1, fi1, s1)) = Some (r, fi', s')"
    using assms(3) by (auto simp: fat_cpy_data_def bind_eq_Some_conv)
  from r have "s1 = s'" by (cases v) auto
  with ensuresD [OF loop l] show ?thesis by simp
qed

section \<open>The loader reads the file\<close>

lemma file_byte_other [simp]:
  "file_byte disk (fi\<lparr>now_fat_sec := k\<rparr>) = file_byte disk fi"
  "file_byte disk (fi\<lparr>data_num_clus := d\<rparr>) = file_byte disk fi"
  by (simp_all add: fun_eq_iff file_byte_def clus_start_def clus_bytes_def)

lemma fat_value_other [simp]:
  "fat_value fat32 disk (fi\<lparr>now_fat_sec := k\<rparr>) = fat_value fat32 disk fi"
  "fat_value fat32 disk (fi\<lparr>data_num_clus := d\<rparr>) = fat_value fat32 disk fi"
  by (simp_all add: fun_eq_iff fat_value_def)

lemma fat_chain_other [simp]:
  "fat_chain fat32 disk (fi\<lparr>now_fat_sec := k\<rparr>) cs = fat_chain fat32 disk fi cs"
  "fat_chain fat32 disk (fi\<lparr>data_num_clus := d\<rparr>) cs = fat_chain fat32 disk fi cs"
  by (induction fat32 disk fi cs rule: fat_chain.induct) simp_all

lemma clus_other [simp]:
  "clus_bytes (fi\<lparr>now_fat_sec := k\<rparr>) = clus_bytes fi" "clus_bytes (fi\<lparr>data_num_clus := d\<rparr>) = clus_bytes fi"
  "clus_ok fat32 (fi\<lparr>now_fat_sec := k\<rparr>) = clus_ok fat32 fi"
  "clus_ok fat32 (fi\<lparr>data_num_clus := d\<rparr>) = clus_ok fat32 fi"
  "fat_cached disk rd (fi\<lparr>data_num_clus := d\<rparr>) = fat_cached disk rd fi"
  by (simp_all add: fun_eq_iff clus_bytes_def clus_ok_def clus_start_def fat_cached_def)

lemma cluster_sector_value:
  assumes "clus_ok fat32 fi limit c" and "limit \<le> 2 ^ 32"
  shows "unat (cluster_sector fi (of_nat c)) = clus_start fi c"
proof -
  have "cluster_sector fi (of_nat c) = of_nat (clus_start fi c)"
    using assms(1) by (simp add: cluster_sector_def clus_start_def clus_ok_def)
  then show ?thesis
    using assms by (simp add: clus_ok_def unat_of_nat_u32)
qed

lemma acc_mode_clear:
  assumes "only_changed a n (mem s) (mem s')" and "clear_of ACC_MODE_ADDR 4 a n"
  shows "acc_mode s' = acc_mode s"
  using only_changed_load32 [OF assms, of 0] by (simp add: acc_mode_def)

text \<open>Bringing the FAT sector of a cluster into the buffer.\<close>

lemma fat_load_sector_reads:
  assumes disk: "reads_disk hw P limit disk" and P: "P s" and ok: "clus_ok fat32 fi limit c"
    and limit: "limit \<le> 2 ^ 32" and cached: "fat_cached disk rd fi s" and acc: "clear_of ACC_MODE_ADDR 4 rd 512"
  shows "\<exists>s'. fat_load_sector hw (fat_bits fat32) rd (of_nat c) (fi, s) =
      Some (0, fi\<lparr>now_fat_sec := of_nat (c div 2 ^ fat_bits fat32)\<rparr>, s') \<and> P s' \<and> quiet s s' \<and>
      only_changed rd 512 (mem s) (mem s') \<and>
      (\<forall>j<512. mem s' (rd + of_nat j) = disk (512 * (unat (fat_sec_pos fi) + c div 2 ^ fat_bits fat32) + j))"
proof -
  let ?q = "c div 2 ^ fat_bits fat32"
  have c: "c < 2 ^ 28" and lim: "unat (fat_sec_pos fi) + ?q < limit" using ok by (simp_all add: clus_ok_def)
  have b: "fat_bits fat32 < 32" by (simp add: fat_bits_def)
  have u: "unat (of_nat c :: u32) = c" using c by (intro unat_of_nat_u32) simp
  have q28: "?q < 2 ^ 28" using c by (meson div_le_dividend le_less_trans)
  then have uq: "unat (of_nat ?q :: u32) = ?q" by (intro unat_of_nat_u32) simp
  have num: "signed_drop_bit (fat_bits fat32) (of_nat c :: u32) = of_nat ?q"
    using drop_bit_nonneg [OF _ b, of "of_nat c"] c by (simp only: word_unat_eq_iff u uq) simp
  show ?thesis
  proof (cases "now_fat_sec fi = of_nat ?q")
    case True
    have "now_fat_sec fi \<noteq> -1"
    proof
      assume "now_fat_sec fi = -1"
      with True uq have "?q = 4294967295" by (metis unat_minus_1_u32)
      with q28 show False by simp
    qed
    with cached True uq have "\<forall>j<512. mem s (rd + of_nat j) = disk (512 * (unat (fat_sec_pos fi) + ?q) + j)"
      by (simp add: fat_cached_def)
    with True num P show ?thesis
      by (intro exI [of _ s]) (simp add: fat_load_sector_def Let_def)
  next
    case False
    have usum: "unat (fat_sec_pos fi + of_nat ?q) = unat (fat_sec_pos fi) + ?q"
      using lim limit uq by (intro unat_add_value) simp_all
    with disk P lim obtain s' where s': "single_read hw (fat_sec_pos fi + of_nat ?q) rd s = Some (0, s')" "quiet s s'"
      "mem s' = blit (mem s) rd 512 (\<lambda>i. disk (512 * (unat (fat_sec_pos fi) + ?q) + i))"
      "acc_mode s' = acc_mode s \<longrightarrow> P s'"
      unfolding reads_disk_def by metis
    have oc: "only_changed rd 512 (mem s) (mem s')" by (simp add: s'(3) blit_frame)
    moreover have "P s'" using s'(4) acc_mode_clear [OF oc acc] by simp
    ultimately show ?thesis
      using s' False num
      by (intro exI [of _ s']) (simp add: fat_load_sector_def Let_def blit_at_0)
  qed
qed

lemma clear_of_sym: "clear_of a n b k \<Longrightarrow> clear_of b k a n"
  unfolding clear_of_def by (metis (full_types))

lemma fat_last_ends: "fat_last fat32 v \<Longrightarrow> fat_ends fat32 v"
  by (cases fat32) (simp_all add: fat_last_def fat_ends_def)

lemma fat_bits_cases: "fat_bits fat32 = (if fat32 then 7 else 8)"
  by (rule fat_bits_def)

text \<open>One round of the loop on a cluster that reads back.\<close>

lemma fat_cpy_step_reads:
  assumes disk: "reads_disk hw P limit disk" and limit: "limit \<le> 2 ^ 32"
    and rd: "clear_of rd 512 start (unat max_size)" and acc: "clear_of ACC_MODE_ADDR 4 rd 512"
    and acc': "clear_of ACC_MODE_ADDR 4 start (unat max_size)"
    and spc: "unat (sec_per_clus fi) < 256"
    and P: "P s" and ok: "clus_ok fat32 fi limit c" and fits: "w + clus_bytes fi \<le> unat max_size"
    and dnc: "data_num_clus fi = of_nat c" and cached: "fat_cached disk rd fi s"
  defines "fi1 \<equiv> fi\<lparr>now_fat_sec := of_nat (c div 2 ^ fat_bits fat32)\<rparr>"
    and "v \<equiv> fat_value fat32 disk fi c"
  shows "\<exists>s2. fat_cpy_step hw fat32 rd start max_size (of_nat w, fi, s) =
      Some (if fat_ends fat32 v then (Some (Inr (fat_last fat32 v)), of_nat w, fi1, s2)
            else (None, of_nat (w + clus_bytes fi), fi1\<lparr>data_num_clus := v\<rparr>, s2)) \<and>
      P s2 \<and> quiet s s2 \<and> fat_cached disk rd fi1 s2 \<and>
      (\<forall>i<clus_bytes fi. mem s2 (start + of_nat (w + i)) = disk (512 * clus_start fi c + i)) \<and>
      (\<forall>i<w. mem s2 (start + of_nat i) = mem s (start + of_nat i))"
proof -
  let ?cb = "clus_bytes fi" and ?q = "c div 2 ^ fat_bits fat32"
  have M: "unat max_size < 2 ^ 32" using unat_u32_less [of max_size] by simp
  have c: "c < 2 ^ 28" and start: "clus_start fi c < limit" using ok by (simp_all add: clus_ok_def)
  have uw: "unat (of_nat (w + ?cb) :: u32) = w + ?cb" using fits M by (intro unat_of_nat_u32) linarith
  have size: "MMC_BLOCKLEN_VAL * sec_per_clus fi = of_nat ?cb"
    by (simp add: mmc_consts clus_bytes_def)
  have le: "of_nat (w + ?cb) \<le> max_size" using fits uw by (simp only: word_le_nat_alt)
  have n: "sint (sec_per_clus fi) = int (unat (sec_per_clus fi))" using spc by (intro sint_small) simp
  then have n1: "0 \<le> sint (sec_per_clus fi)" and n2: "nat (sint (sec_per_clus fi)) < 2 ^ 16"
    and cb: "512 * nat (sint (sec_per_clus fi)) = ?cb"
    using spc by (simp_all add: clus_bytes_def)
  note sec = cluster_sector_value [OF ok limit]
  obtain s1 where s1: "multi_read hw (cluster_sector fi (of_nat c)) (start + of_nat w) (sec_per_clus fi) s = Some (0, s1)"
    "quiet s s1" "mem s1 = blit (mem s) (start + of_nat w) ?cb (\<lambda>i. disk (512 * clus_start fi c + i))"
    "acc_mode s1 = acc_mode s \<longrightarrow> P s1"
    using disk P start n1 n2 unfolding reads_disk_def cb [symmetric] sec [symmetric] by blast
  have oc1: "only_changed start (unat max_size) (mem s) (mem s1)"
    unfolding s1(3) by (rule only_changed_sub [OF blit_frame fits])
  have P1: "P s1" using s1(4) acc_mode_clear [OF oc1 acc'] by simp
  have cached1: "fat_cached disk rd fi s1"
    using cached only_changed_clear [OF oc1 rd] by (simp add: fat_cached_def)
  obtain s2 where s2: "fat_load_sector hw (fat_bits fat32) rd (of_nat c) (fi, s1) = Some (0, fi1, s2)"
    "P s2" "quiet s1 s2" "only_changed rd 512 (mem s1) (mem s2)"
    "\<forall>j<512. mem s2 (rd + of_nat j) = disk (512 * (unat (fat_sec_pos fi) + ?q) + j)"
    using fat_load_sector_reads [OF disk P1 ok limit cached1 acc] unfolding fi1_def by blast
  have entry: "(if fat32 then fat32_entry (mem s2) rd (of_nat c) else fat16_entry (mem s2) rd (of_nat c)) = v"
    unfolding v_def by (rule fat_entry_value [OF s2(5) c])
  have d1: "data_num_clus fi1 = of_nat c" by (simp add: fi1_def dnc)
  have q: "unat (of_nat ?q :: u32) = ?q"
    by (rule unat_of_nat_u32, rule le_less_trans [OF div_le_dividend]) (use c in simp)
  have "fat_cached disk rd fi1 s2" using s2(5) q by (simp add: fat_cached_def fi1_def)
  moreover have keep: "mem s2 (start + of_nat k) = mem s1 (start + of_nat k)" if "k < unat max_size" for k
    using only_changed_clear [OF s2(4) clear_of_sym [OF rd] that] .
  have "mem s2 (start + of_nat (w + i)) = disk (512 * clus_start fi c + i)" if "i < ?cb" for i
    using keep [of "w + i"] that fits M by (simp only: s1(3) blit_at) simp
  moreover have "mem s2 (start + of_nat i) = mem s (start + of_nat i)" if "i < w" for i
    using keep [of i] that fits M by (simp only: s1(3) blit_at) simp
  moreover have "fat_cpy_step hw fat32 rd start max_size (of_nat w, fi, s) =
      Some (if fat_ends fat32 v then (Some (Inr (fat_last fat32 v)), of_nat w, fi1, s2)
            else (None, of_nat (w + ?cb), fi1\<lparr>data_num_clus := v\<rparr>, s2))"
    using le s1(1) s2(1) entry d1
    by (cases fat32) (simp_all add: fat_cpy_step_def Let_def size dnc fat_bits_def)
  moreover have "quiet s s2" using s1(2) s2(3) by (rule quiet_trans)
  ultimately show ?thesis using s2(2) by blast
qed

lemma file_byte_first: "i < clus_bytes fi \<Longrightarrow> file_byte disk fi (c # cs) i = disk (512 * clus_start fi c + i)"
  by (simp add: file_byte_def)

lemma file_byte_rest:
  assumes "clus_bytes fi \<le> i" and "0 < clus_bytes fi"
  shows "file_byte disk fi (c # cs) i = file_byte disk fi cs (i - clus_bytes fi)"
  using assms by (simp add: file_byte_def le_div_geq le_mod_geq)

text \<open>The loop, from any round on: \<open>w\<close> bytes are loaded, the clusters \<open>cs\<close> are to come.\<close>

lemma fat_cpy_loop:
  assumes disk: "reads_disk hw P limit disk" and limit: "limit \<le> 2 ^ 32"
    and rd: "clear_of rd 512 start (unat max_size)" and acc: "clear_of ACC_MODE_ADDR 4 rd 512"
    and acc': "clear_of ACC_MODE_ADDR 4 start (unat max_size)"
  shows "fat_chain fat32 disk fi cs \<Longrightarrow> \<forall>c\<in>set cs. clus_ok fat32 fi limit c \<Longrightarrow>
      data_num_clus fi = of_nat (hd cs) \<Longrightarrow> unat (sec_per_clus fi) < 256 \<Longrightarrow> P s \<Longrightarrow>
      fat_cached disk rd fi s \<Longrightarrow> w + length cs * clus_bytes fi \<le> unat max_size \<Longrightarrow>
    \<exists>ws fi' s'. loopM (fat_cpy_step hw fat32 rd start max_size) (of_nat w, fi, s) = Some (Inr True, ws, fi', s') \<and>
      P s' \<and> quiet s s' \<and>
      (\<forall>i<length cs * clus_bytes fi. mem s' (start + of_nat (w + i)) = file_byte disk fi cs i) \<and>
      (\<forall>i<w. mem s' (start + of_nat i) = mem s (start + of_nat i))"
proof (induction cs arbitrary: w fi s rule: induct_list012)
  case 1
  then show ?case by simp
next
  case (2 c)
  obtain s2 where st: "fat_cpy_step hw fat32 rd start max_size (of_nat w, fi, s) =
      Some (Some (Inr True), of_nat w, fi\<lparr>now_fat_sec := of_nat (c div 2 ^ fat_bits fat32)\<rparr>, s2)"
    and s2: "P s2" "quiet s s2" "\<forall>i<clus_bytes fi. mem s2 (start + of_nat (w + i)) = disk (512 * clus_start fi c + i)"
      "\<forall>i<w. mem s2 (start + of_nat i) = mem s (start + of_nat i)"
    using fat_cpy_step_reads [OF disk limit rd acc acc', of fi s fat32 c w] 2 fat_last_ends by auto
  show ?case
    using s2 by (simp add: loopM_step(2) [where body = "fat_cpy_step hw fat32 rd start max_size", OF st] file_byte_first)
next
  case (3 c d cs)
  let ?f = "fi\<lparr>now_fat_sec := of_nat (c div 2 ^ fat_bits fat32), data_num_clus := of_nat d\<rparr>"
  have v: "fat_value fat32 disk fi c = of_nat d" "\<not> fat_ends fat32 (of_nat d)" "fat_chain fat32 disk fi (d # cs)"
    using 3 by simp_all
  obtain s2 where st: "fat_cpy_step hw fat32 rd start max_size (of_nat w, fi, s) =
      Some (None, of_nat (w + clus_bytes fi), ?f, s2)"
    and s2: "P s2" "quiet s s2" "fat_cached disk rd (fi\<lparr>now_fat_sec := of_nat (c div 2 ^ fat_bits fat32)\<rparr>) s2"
      "\<forall>i<clus_bytes fi. mem s2 (start + of_nat (w + i)) = disk (512 * clus_start fi c + i)"
      "\<forall>i<w. mem s2 (start + of_nat i) = mem s (start + of_nat i)"
    using fat_cpy_step_reads [OF disk limit rd acc acc', of fi s fat32 c w] 3 v by auto
  have fits: "w + clus_bytes fi + length (d # cs) * clus_bytes fi \<le> unat max_size" using 3 by simp
  obtain ws fi' s' where r: "loopM (fat_cpy_step hw fat32 rd start max_size) (of_nat (w + clus_bytes fi), ?f, s2) =
      Some (Inr True, ws, fi', s')" and s': "P s'" "quiet s2 s'"
      "\<forall>i<length (d # cs) * clus_bytes fi. mem s' (start + of_nat (w + clus_bytes fi + i)) = file_byte disk fi (d # cs) i"
      "\<forall>i<w + clus_bytes fi. mem s' (start + of_nat i) = mem s2 (start + of_nat i)"
    using "3.IH"(2) [of ?f s2 "w + clus_bytes fi"] fits v(3) "3.prems" s2(1,3) by auto
  have "mem s' (start + of_nat (w + i)) = file_byte disk fi (c # d # cs) i" if "i < length (c # d # cs) * clus_bytes fi" for i
  proof (cases "i < clus_bytes fi")
    case True
    then show ?thesis using s'(4)[rule_format, of "w + i"] s2(4)[rule_format, OF True] by (simp add: file_byte_first)
  next
    case False
    moreover have "0 < clus_bytes fi" using that by (cases "clus_bytes fi") auto
    moreover have "w + i = w + clus_bytes fi + (i - clus_bytes fi)" using False by simp
    moreover have "i - clus_bytes fi < length (d # cs) * clus_bytes fi" using that False by simp
    ultimately show ?thesis using s'(3) by (metis file_byte_rest not_less)
  qed
  moreover have "\<forall>i<w. mem s' (start + of_nat i) = mem s (start + of_nat i)" using s'(4) s2(5) by simp
  ultimately show ?case
    using r s'(1) quiet_trans [OF s2(2) s'(2)] loopM_step(1) [where body = "fat_cpy_step hw fat32 rd start max_size", OF st] by auto
qed

lemma clear_of_below:
  assumes "unat a + n \<le> unat b" and "unat b + k \<le> 2 ^ 32"
  shows "clear_of b k a n"
  unfolding clear_of_def
proof (intro allI impI notI)
  fix i j
  assume "i < k" and "j < n" and eq: "b + of_nat i = a + of_nat j"
  have "unat (b + of_nat i) = unat b + i"
    by (intro unat_add_value(1) unat_of_nat_u32) (use assms \<open>i < k\<close> in simp_all)
  moreover have "unat (a + of_nat j) = unat a + j"
    by (intro unat_add_value(1) unat_of_nat_u32) (use assms \<open>j < n\<close> unat_u32_less [of b] in simp_all)
  ultimately show False using eq \<open>j < n\<close> assms(1) by simp
qed

lemma sdc_file_loads:
  assumes card: "sd_card D ok view lag hc disk" "sd_ready ok hc s"
    and chain: "fat_chain fat32 disk fi cs" "\<forall>c\<in>set cs. clus_ok fat32 fi (sd_limit hc) c"
    and start: "data_num_clus fi = of_nat (hd cs)" "now_fat_sec fi = -1" "unat (sec_per_clus fi) < 256"
    and fits: "length cs * clus_bytes fi \<le> unat max_size" "unat start + unat max_size \<le> unat SRAM_START"
  shows "\<exists>fi' s'. fat_cpy_data (sdc_if D cpu500) fat32 (ROMBOOT_WORK_START + MMC_BLOCKLEN_VAL) start max_size (fi, s)
      = Some (0, fi', s') \<and>
    (\<forall>i<length cs * clus_bytes fi. mem s' (start + of_nat i) = file_byte disk fi cs i)"
proof -
  let ?rd = "ROMBOOT_WORK_START + MMC_BLOCKLEN_VAL"
  have limit: "sd_limit hc \<le> 2 ^ 32" by (simp add: sd_limit_def)
  have "clear_of ?rd 512 start (unat max_size)" "clear_of ACC_MODE_ADDR 4 start (unat max_size)"
    using fits(2) by (auto intro!: clear_of_below simp: mmc_consts)
  moreover have "clear_of ACC_MODE_ADDR 4 ?rd 512"
    by (rule clear_of_below) (simp_all add: mmc_consts)
  moreover have "fat_cached disk ?rd fi s" using start(2) by (simp add: fat_cached_def)
  ultimately obtain ws fi' s' where
    "loopM (fat_cpy_step (sdc_if D cpu500) fat32 ?rd start max_size) (0, fi, s) = Some (Inr True, ws, fi', s')"
    "\<forall>i<length cs * clus_bytes fi. mem s' (start + of_nat (0 + i)) = file_byte disk fi cs i"
    using fat_cpy_loop [OF sdc_reads [OF card(1)] limit, of ?rd start max_size fat32 fi cs s 0 cpu500]
      chain start fits(1) card(2) by auto
  then show ?thesis by (simp add: fat_cpy_data_def)
qed


definition sample_disk :: "nat \<Rightarrow> u8" where
  "sample_disk p = (if p = 516 \<or> p = 517 then 0xFF else of_nat p)"

definition sample_fat :: fat_info where
  "sample_fat = \<lparr>bpb_sec_pos = 0, fat_sec_pos = 1, rde_sec_pos = 60, user_sec_pos = 100, byte_per_sec = 512,
     sec_per_clus = 1, root_entry = 512, sec_per_fat = 50, sec_rde_size = 32, data_num_clus = 2, now_fat_sec = -1\<rparr>"

definition sample_state :: "sd_view mach" where
  "sample_state = \<lparr>mem = (\<lambda>_. 1), dev = \<lparr>argument = 0, sec_enable = False, sec_count = 0, port_pos = 0, port_left = 0\<rparr>, outp = []\<rparr>"

lemma sample_ready: "sd_ready (\<lambda>_. True) True sample_state"
  by (simp add: sample_state_def sd_ready_def acc_mode_def load32_def or_eq_0_iff)

lemma sample_chain:
  "fat_chain False sample_disk sample_fat [2]" "\<forall>c\<in>set [2]. clus_ok False sample_fat (sd_limit True) c"
proof -
  have "fat_value False sample_disk sample_fat 2 = 0xFFFF"
    by (simp add: fat_value_def disk_half_def sample_disk_def sample_fat_def)
  then show "fat_chain False sample_disk sample_fat [2]" by (simp add: fat_last_def)
  show "\<forall>c\<in>set [2]. clus_ok False sample_fat (sd_limit True) c"
    by (simp add: clus_ok_def sample_fat_def clus_start_def sd_limit_def fat_bits_def)
qed

lemma sample_start:
  "data_num_clus sample_fat = of_nat (hd [2])" "now_fat_sec sample_fat = -1" "unat (sec_per_clus sample_fat) < 256"
  by (simp_all add: sample_fat_def)

lemma sample_fits:
  "length [2 :: nat] * clus_bytes sample_fat \<le> unat KERNEL_SIZE" "unat KERNEL_START + unat KERNEL_SIZE \<le> unat SRAM_START"
  by (simp_all add: sample_fat_def clus_bytes_def miniboot_consts mmc_consts)

lemmas sample_facts = sample_chain sample_start sample_fits


theorem fat_cpy_window_witness:
  "\<exists>fi' s'. fat_cpy_data (boot_if SD (model_card True sample_disk) False) False (ROMBOOT_WORK_START + MMC_BLOCKLEN_VAL)
      KERNEL_START KERNEL_SIZE (sample_fat, sample_state) = Some (0, fi', s') \<and> mem s' 0x30000000 = 1"
proof -
  obtain fi' s' where s': "fat_cpy_data (boot_if SD (model_card True sample_disk) False) False
       (ROMBOOT_WORK_START + MMC_BLOCKLEN_VAL) KERNEL_START KERNEL_SIZE (sample_fat, sample_state) = Some (0, fi', s')"
    using sdc_file_loads [OF model_card_laws sample_ready sample_facts, of False] by (auto simp: boot_if_def)
  have "confined KERNEL_START (unat KERNEL_SIZE) (ROMBOOT_WORK_START + MMC_BLOCKLEN_VAL) 512 (mem sample_state) (mem s')"
    by (rule fat_cpy_window [OF _ _ s']) (simp_all add: sample_fat_def miniboot_consts)
  then have "mem s' 0x30000000 = 1"
    by (simp add: confined_def miniboot_consts mmc_consts sample_state_def)
  with s' show ?thesis by blast
qed

section \<open>Termination\<close>

text \<open>\<open>reads_return hw\<close>: the read operations of the driver always come back, with or without an error.\<close>

definition reads_return :: "('d, 'z) mach_scheme hw_if \<Rightarrow> bool" where
  "reads_return hw \<longleftrightarrow> (\<forall>a b s. single_read hw a b s \<noteq> None) \<and> (\<forall>a b n s. multi_read hw a b n s \<noteq> None)"

lemma fat_load_sector_returns:
  "reads_return hw \<Longrightarrow> \<exists>r fi' s'. fat_load_sector hw sh rd c (fi, s) = Some (r, fi', s') \<and> sec_per_clus fi' = sec_per_clus fi"
proof -
  assume "reads_return hw"
  then obtain r s1 where "single_read hw (fat_sec_pos fi + signed_drop_bit sh c) rd s = Some (r, s1)"
    unfolding reads_return_def by fastforce
  then show ?thesis by (auto simp: fat_load_sector_def Let_def)
qed

lemma fat_cpy_step_progress:
  assumes ret: "reads_return hw" and spc: "0 < unat (sec_per_clus fi)" "unat (sec_per_clus fi) < 256"
    and max: "unat max_size \<le> 2 ^ 31" and ws: "unat ws \<le> unat max_size"
  shows "\<exists>v ws' fi' s'. fat_cpy_step hw fat32 rd start max_size (ws, fi, s) = Some (v, ws', fi', s') \<and>
    (v = None \<longrightarrow> unat ws < unat ws' \<and> unat ws' \<le> unat max_size \<and> sec_per_clus fi' = sec_per_clus fi)"
proof -
  let ?c = "MMC_BLOCKLEN_VAL * sec_per_clus fi"
  have uc: "unat ?c = 512 * unat (sec_per_clus fi)"
    using spc(2) by (simp add: mmc_consts unat_word_ariths)
  have sum: "unat (ws + ?c) = unat ws + unat ?c"
    using spc(2) ws max uc by (intro unat_add_value(1)) auto
  show ?thesis
  proof (cases "ws + ?c \<le> max_size")
    case False
    then show ?thesis by (simp add: fat_cpy_step_def Let_def)
  next
    case True
    obtain r s1 where m: "multi_read hw (cluster_sector fi (data_num_clus fi)) (start + ws) (sec_per_clus fi) s = Some (r, s1)"
      using ret unfolding reads_return_def by fastforce
    obtain r' fi' s2 where l: "fat_load_sector hw (if fat32 then 7 else 8) rd (data_num_clus fi) (fi, s1) = Some (r', fi', s2)"
      "sec_per_clus fi' = sec_per_clus fi"
      using fat_load_sector_returns [OF ret] by blast
    have "unat ws < unat (ws + ?c)" "unat (ws + ?c) \<le> unat max_size"
      using sum uc spc(1) True by (simp_all add: word_le_nat_alt)
    then show ?thesis
      using True m l by (cases "r = 0"; cases "r' = 0") (simp_all add: fat_cpy_step_def Let_def)
  qed
qed

text \<open>
  C24: the loader returns on any card whose reads return, cyclic cluster chains included: the
  size limit stops it. The cluster size of the volume is not 0 and below 256 sectors (it is a byte
  of the boot sector, which the code does not check; \<open>empty_cluster_never_ends\<close> shows what 0 does),
  and the limit is at most 2 GB, as those of the kernel and the loader are.
\<close>
theorem fat_cpy_terminates:
  assumes "reads_return hw" and "0 < unat (sec_per_clus fi)" and "unat (sec_per_clus fi) < 256"
    and "unat max_size \<le> 2 ^ 31"
  shows "\<exists>r fi' s'. fat_cpy_data hw fat32 rd start max_size (fi, s) = Some (r, fi', s')"
proof -
  let ?I = "\<lambda>p. unat (fst p) \<le> unat max_size \<and> sec_per_clus (fst (snd p)) = sec_per_clus fi"
  have "\<exists>v p. loopM (fat_cpy_step hw fat32 rd start max_size) (0, fi, s) = Some (v, p)"
  proof (rule loopM_returns [of ?I, where f = "\<lambda>p. unat max_size - unat (fst p)"])
    fix p :: "u32 \<times> fat_info \<times> ('a, 'b) mach_scheme"
    assume I: "?I p"
    obtain ws g t where p: "p = (ws, g, t)" by (cases p)
    then obtain v ws' g' t' where step: "fat_cpy_step hw fat32 rd start max_size p = Some (v, ws', g', t')"
      "v = None \<longrightarrow> unat ws < unat ws' \<and> unat ws' \<le> unat max_size \<and> sec_per_clus g' = sec_per_clus g"
      using fat_cpy_step_progress [of hw g max_size ws fat32 rd start t] I assms by auto
    then show "(\<exists>v p1. fat_cpy_step hw fat32 rd start max_size p = Some (Some v, p1)) \<or>
        (\<exists>p1. fat_cpy_step hw fat32 rd start max_size p = Some (None, p1) \<and> ?I p1 \<and>
           unat max_size - unat (fst p1) < unat max_size - unat (fst p))"
      using I p by (cases v) auto
  qed simp
  then obtain v p where "loopM (fat_cpy_step hw fat32 rd start max_size) (0, fi, s) = Some (v, p)" by blast
  then show ?thesis by (cases p; cases v) (simp_all add: fat_cpy_data_def)
qed

text \<open>
  A card that reads as ones: each entry of its FAT names the cluster 0x01010101, so the chain of
  every file ends in the circle of this cluster with itself.
\<close>

definition ring_card_if :: "('d, 'z) mach_scheme hw_if" where
  "ring_card_if = \<lparr>send_cmd = (\<lambda>_ _ _ rs s. Some (0, rs, s)), send_acmd = (\<lambda>_ _ _ rs s. Some (0, rs, s)),
     send_extcsd = (\<lambda>_ s. Some (0, s)),
     single_read = (\<lambda>a b s. Some (0, s\<lparr>mem := blit (mem s) b 512 (\<lambda>_. 1)\<rparr>)),
     multi_read = (\<lambda>a b n s. Some (0, s\<lparr>mem := blit (mem s) b (512 * nat (sint n)) (\<lambda>_. 1)\<rparr>)),
     single_write = (\<lambda>_ _ s. Some (0, s)), multi_write = (\<lambda>_ _ _ s. Some (0, s)), hw_init = (\<lambda>s. s),
     set_blklength = (\<lambda>_ s. s), set_buswidth = (\<lambda>_ s. s), set_clock = (\<lambda>_ s. Some s)\<rparr>"

definition ring_state :: "unit mach" where
  "ring_state = \<lparr>mem = (\<lambda>_. 1), dev = (), outp = []\<rparr>"

lemma ring_reads:
  "single_read ring_card_if a b ring_state = Some (0, ring_state)"
  "multi_read ring_card_if a b n ring_state = Some (0, ring_state)"
  by (simp_all add: ring_card_if_def ring_state_def blit_def cong: if_cong)

lemma ring_entry: "fat32_entry (mem ring_state) rd clus = 0x01010101" "\<not> fat_ends True 0x01010101"
  by (simp_all add: fat32_entry_def ring_state_def load32_def fat_ends_def)

lemma ring_step:
  "\<exists>ws' fi'. sec_per_clus fi' = sec_per_clus fi \<and> (sec_per_clus fi = 0 \<longrightarrow> ws' = ws) \<and>
    fat_cpy_step ring_card_if True rd start max_size (ws, fi, ring_state) =
      (if ws + MMC_BLOCKLEN_VAL * sec_per_clus fi \<le> max_size then Some (None, ws', fi', ring_state)
       else Some (Some (Inr False), ws, fi, ring_state))"
proof -
  obtain fi' where fi': "sec_per_clus fi' = sec_per_clus fi"
    "fat_load_sector ring_card_if 7 rd (data_num_clus fi) (fi, ring_state) = Some (0, fi', ring_state)"
  proof (cases "now_fat_sec fi = signed_drop_bit 7 (data_num_clus fi)")
    case True
    then show ?thesis by (intro that [of fi]) (simp_all add: fat_load_sector_def)
  next
    case False
    then show ?thesis
      by (intro that [of "fi\<lparr>now_fat_sec := signed_drop_bit 7 (data_num_clus fi)\<rparr>"])
         (simp_all add: fat_load_sector_def Let_def ring_reads)
  qed
  show ?thesis
    by (intro exI [of _ "ws + MMC_BLOCKLEN_VAL * sec_per_clus fi"] exI [of _ "fi'\<lparr>data_num_clus := 0x01010101\<rparr>"])
       (simp add: fat_cpy_step_def Let_def ring_reads fi' ring_entry)
qed

text \<open>With clusters of no sector the circle is never left: nothing counts towards the limit.\<close>

theorem empty_cluster_never_ends:
  assumes "sec_per_clus fi = 0"
  shows "fat_cpy_data ring_card_if True rd start max_size (fi, ring_state) = None"
proof (rule ccontr)
  assume "\<not> ?thesis"
  then obtain v p where "loopM (fat_cpy_step ring_card_if True rd start max_size) (0, fi, ring_state) = Some (v, p)"
    by (cases "loopM (fat_cpy_step ring_card_if True rd start max_size) (0, fi, ring_state)") (auto simp: fat_cpy_data_def)
  then show False
  proof (rule loopM_rule [where P = "\<lambda>(ws, fi, s). ws = 0 \<and> sec_per_clus fi = 0 \<and> s = ring_state"])
    fix p p' :: "u32 \<times> fat_info \<times> unit mach" and v
    assume "case p of (ws, fi, s) \<Rightarrow> ws = 0 \<and> sec_per_clus fi = 0 \<and> s = ring_state"
    then obtain g where p: "p = (0, g, ring_state)" "sec_per_clus g = 0" by auto
    show "case p' of (ws, fi, s) \<Rightarrow> ws = 0 \<and> sec_per_clus fi = 0 \<and> s = ring_state"
      if "fat_cpy_step ring_card_if True rd start max_size p = Some (None, p')"
      using that ring_step [of g 0 rd start max_size] p by auto
    show False if "fat_cpy_step ring_card_if True rd start max_size p = Some (Some v, p')"
      using that ring_step [of g 0 rd start max_size] p by auto
  qed (simp add: assms)
qed

lemma ring_result:
  "fat_cpy_data ring_card_if True rd start max_size (fi, ring_state) = Some (r, fi', s') \<Longrightarrow> r = -1"
proof -
  assume "fat_cpy_data ring_card_if True rd start max_size (fi, ring_state) = Some (r, fi', s')"
  then obtain v p where l: "loopM (fat_cpy_step ring_card_if True rd start max_size) (0, fi, ring_state) = Some (v, p)"
    "(case v of Inl ret \<Rightarrow> ret | Inr last_flag \<Rightarrow> if last_flag then 0 else -1) = r"
    by (cases "loopM (fat_cpy_step ring_card_if True rd start max_size) (0, fi, ring_state)")
       (auto simp: fat_cpy_data_def split: sum.splits)
  from l(1) have "v = Inr False"
  proof (rule loopM_rule [where P = "\<lambda>(_, _, s). s = ring_state"])
    fix p p' :: "u32 \<times> fat_info \<times> unit mach" and v
    assume "case p of (_, _, s) \<Rightarrow> s = ring_state"
    then obtain ws g where p: "p = (ws, g, ring_state)" by (cases p) auto
    show "case p' of (_, _, s) \<Rightarrow> s = ring_state"
      if "fat_cpy_step ring_card_if True rd start max_size p = Some (None, p')"
      using that ring_step [of g ws rd start max_size] p by (auto split: if_splits)
    show "v = Inr False" if "fat_cpy_step ring_card_if True rd start max_size p = Some (Some v, p')"
      using that ring_step [of g ws rd start max_size] p by (auto split: if_splits)
  qed simp
  with l(2) show "r = -1" by simp
qed

text \<open>On the circle the size limit ends the loader, with the result -1.\<close>

theorem fat_cpy_terminates_witness:
  "\<exists>fi' s'. fat_cpy_data ring_card_if True 0x1000 KERNEL_START KERNEL_SIZE (sample_fat, ring_state) = Some (-1, fi', s')"
proof -
  have "\<exists>r fi' s'. fat_cpy_data ring_card_if True 0x1000 KERNEL_START KERNEL_SIZE (sample_fat, ring_state) = Some (r, fi', s')"
    by (rule fat_cpy_terminates) (simp_all add: reads_return_def ring_card_if_def sample_fat_def miniboot_consts)
  then show ?thesis using ring_result by blast
qed

end
