(* ===== verification/Crc32.thy ===== *)
theory Crc32
  imports Prelude
begin

text \<open>
  \<open>lib_generic/crc32.c\<close>, the checksum of the environment and of images. A buffer with its length
  is the list of its bytes. The table of the build is \<open>crc_table\<close>; \<open>make_crc_table\<close> is the
  generator of the \<open>DYNAMIC_CRC_TABLE\<close> variant, against which the table is checked. The
  reference is the shift register that the comment of the source describes, one bit at a time.
\<close>

section \<open>The table\<close>

definition crc_table :: "u32 list" where
  "crc_table = [
     0x00000000, 0x77073096, 0xEE0E612C, 0x990951BA, 0x076DC419, 0x706AF48F, 0xE963A535, 0x9E6495A3,
     0x0EDB8832, 0x79DCB8A4, 0xE0D5E91E, 0x97D2D988, 0x09B64C2B, 0x7EB17CBD, 0xE7B82D07, 0x90BF1D91,
     0x1DB71064, 0x6AB020F2, 0xF3B97148, 0x84BE41DE, 0x1ADAD47D, 0x6DDDE4EB, 0xF4D4B551, 0x83D385C7,
     0x136C9856, 0x646BA8C0, 0xFD62F97A, 0x8A65C9EC, 0x14015C4F, 0x63066CD9, 0xFA0F3D63, 0x8D080DF5,
     0x3B6E20C8, 0x4C69105E, 0xD56041E4, 0xA2677172, 0x3C03E4D1, 0x4B04D447, 0xD20D85FD, 0xA50AB56B,
     0x35B5A8FA, 0x42B2986C, 0xDBBBC9D6, 0xACBCF940, 0x32D86CE3, 0x45DF5C75, 0xDCD60DCF, 0xABD13D59,
     0x26D930AC, 0x51DE003A, 0xC8D75180, 0xBFD06116, 0x21B4F4B5, 0x56B3C423, 0xCFBA9599, 0xB8BDA50F,
     0x2802B89E, 0x5F058808, 0xC60CD9B2, 0xB10BE924, 0x2F6F7C87, 0x58684C11, 0xC1611DAB, 0xB6662D3D,
     0x76DC4190, 0x01DB7106, 0x98D220BC, 0xEFD5102A, 0x71B18589, 0x06B6B51F, 0x9FBFE4A5, 0xE8B8D433,
     0x7807C9A2, 0x0F00F934, 0x9609A88E, 0xE10E9818, 0x7F6A0DBB, 0x086D3D2D, 0x91646C97, 0xE6635C01,
     0x6B6B51F4, 0x1C6C6162, 0x856530D8, 0xF262004E, 0x6C0695ED, 0x1B01A57B, 0x8208F4C1, 0xF50FC457,
     0x65B0D9C6, 0x12B7E950, 0x8BBEB8EA, 0xFCB9887C, 0x62DD1DDF, 0x15DA2D49, 0x8CD37CF3, 0xFBD44C65,
     0x4DB26158, 0x3AB551CE, 0xA3BC0074, 0xD4BB30E2, 0x4ADFA541, 0x3DD895D7, 0xA4D1C46D, 0xD3D6F4FB,
     0x4369E96A, 0x346ED9FC, 0xAD678846, 0xDA60B8D0, 0x44042D73, 0x33031DE5, 0xAA0A4C5F, 0xDD0D7CC9,
     0x5005713C, 0x270241AA, 0xBE0B1010, 0xC90C2086, 0x5768B525, 0x206F85B3, 0xB966D409, 0xCE61E49F,
     0x5EDEF90E, 0x29D9C998, 0xB0D09822, 0xC7D7A8B4, 0x59B33D17, 0x2EB40D81, 0xB7BD5C3B, 0xC0BA6CAD,
     0xEDB88320, 0x9ABFB3B6, 0x03B6E20C, 0x74B1D29A, 0xEAD54739, 0x9DD277AF, 0x04DB2615, 0x73DC1683,
     0xE3630B12, 0x94643B84, 0x0D6D6A3E, 0x7A6A5AA8, 0xE40ECF0B, 0x9309FF9D, 0x0A00AE27, 0x7D079EB1,
     0xF00F9344, 0x8708A3D2, 0x1E01F268, 0x6906C2FE, 0xF762575D, 0x806567CB, 0x196C3671, 0x6E6B06E7,
     0xFED41B76, 0x89D32BE0, 0x10DA7A5A, 0x67DD4ACC, 0xF9B9DF6F, 0x8EBEEFF9, 0x17B7BE43, 0x60B08ED5,
     0xD6D6A3E8, 0xA1D1937E, 0x38D8C2C4, 0x4FDFF252, 0xD1BB67F1, 0xA6BC5767, 0x3FB506DD, 0x48B2364B,
     0xD80D2BDA, 0xAF0A1B4C, 0x36034AF6, 0x41047A60, 0xDF60EFC3, 0xA867DF55, 0x316E8EEF, 0x4669BE79,
     0xCB61B38C, 0xBC66831A, 0x256FD2A0, 0x5268E236, 0xCC0C7795, 0xBB0B4703, 0x220216B9, 0x5505262F,
     0xC5BA3BBE, 0xB2BD0B28, 0x2BB45A92, 0x5CB36A04, 0xC2D7FFA7, 0xB5D0CF31, 0x2CD99E8B, 0x5BDEAE1D,
     0x9B64C2B0, 0xEC63F226, 0x756AA39C, 0x026D930A, 0x9C0906A9, 0xEB0E363F, 0x72076785, 0x05005713,
     0x95BF4A82, 0xE2B87A14, 0x7BB12BAE, 0x0CB61B38, 0x92D28E9B, 0xE5D5BE0D, 0x7CDCEFB7, 0x0BDBDF21,
     0x86D3D2D4, 0xF1D4E242, 0x68DDB3F8, 0x1FDA836E, 0x81BE16CD, 0xF6B9265B, 0x6FB077E1, 0x18B74777,
     0x88085AE6, 0xFF0F6A70, 0x66063BCA, 0x11010B5C, 0x8F659EFF, 0xF862AE69, 0x616BFFD3, 0x166CCF45,
     0xA00AE278, 0xD70DD2EE, 0x4E048354, 0x3903B3C2, 0xA7672661, 0xD06016F7, 0x4969474D, 0x3E6E77DB,
     0xAED16A4A, 0xD9D65ADC, 0x40DF0B66, 0x37D83BF0, 0xA9BCAE53, 0xDEBB9EC5, 0x47B2CF7F, 0x30B5FFE9,
     0xBDBDF21C, 0xCABAC28A, 0x53B39330, 0x24B4A3A6, 0xBAD03605, 0xCDD70693, 0x54DE5729, 0x23D967BF,
     0xB3667A2E, 0xC4614AB8, 0x5D681B02, 0x2A6F2B94, 0xB40BBE37, 0xC30C8EA1, 0x5A05DF1B, 0x2D02EF8D]"

text \<open>The exclusive-or pattern, from the exponents of the polynomial.\<close>

definition crc_poly :: u32 where
  "crc_poly = fold (\<lambda>p poly. poly OR push_bit (31 - p) 1) [0,1,2,4,5,7,8,10,11,12,16,22,23,26] 0"

definition crc_shift :: "u32 \<Rightarrow> u32" where
  "crc_shift c = (if c AND 1 \<noteq> 0 then crc_poly XOR drop_bit 1 c else drop_bit 1 c)"

definition make_crc_table :: "u32 list" where
  "make_crc_table = map (\<lambda>n. (crc_shift ^^ 8) (of_nat n)) [0..<256]"

section \<open>The checksum\<close>

fun DO1 :: "u32 \<times> u8 list \<Rightarrow> u32 \<times> u8 list" where
  "DO1 (crc, []) = (crc, [])"
| "DO1 (crc, b # buf) = (crc_table ! unat ((crc XOR ucast b) AND 0xff) XOR drop_bit 8 crc, buf)"

definition DO2 :: "u32 \<times> u8 list \<Rightarrow> u32 \<times> u8 list" where "DO2 s = DO1 (DO1 s)"
definition DO4 :: "u32 \<times> u8 list \<Rightarrow> u32 \<times> u8 list" where "DO4 s = DO2 (DO2 s)"
definition DO8 :: "u32 \<times> u8 list \<Rightarrow> u32 \<times> u8 list" where "DO8 s = DO4 (DO4 s)"

lemma DO8_fields: "snd (DO8 s) = drop 8 (snd s)"
proof -
  have 1: "snd (DO1 t) = drop 1 (snd t)" for t by (induction t rule: DO1.induct) simp_all
  show ?thesis by (simp add: DO8_def DO4_def DO2_def 1 numeral_eq_Suc)
qed

text \<open>The unrolled loop, then the bytes that are left.\<close>

function crc_loop8 :: "u32 \<times> u8 list \<Rightarrow> u32 \<times> u8 list" where
  "crc_loop8 s = (if 8 \<le> length (snd s) then crc_loop8 (DO8 s) else s)"
  by auto
termination by (relation "measure (\<lambda>s. length (snd s))") (auto simp: DO8_fields)

declare crc_loop8.simps [simp del]

definition crc32_no_comp :: "u32 \<Rightarrow> u8 list \<Rightarrow> u32" where
  "crc32_no_comp crc buf =
     (let s = crc_loop8 (crc, buf) in fst ((DO1 ^^ length (snd s)) s))"

definition crc32 :: "u32 \<Rightarrow> u8 list \<Rightarrow> u32" where
  "crc32 crc buf =
     (let s = crc_loop8 (crc XOR 0xffffffff, buf)
      in fst ((DO1 ^^ length (snd s)) s) XOR 0xffffffff)"

text \<open>
  The variant that resets the watchdog after every \<open>chunk_sz\<close> bytes; \<open>wd\<close> is the build option.
  Without a watchdog the chunk size is not used. The loop does not end when it is 0.
\<close>

definition crc32_wd :: "bool \<Rightarrow> u32 \<Rightarrow> u8 list \<Rightarrow> u32 \<Rightarrow> u32 option" where
  "crc32_wd wd crc buf chunk_sz =
     (if wd
      then do {
        (crc, _) \<leftarrow> loopM (\<lambda>(crc, curr).
            if curr = [] then Some (Some crc, crc, curr)
            else let chunk = min (length curr) (unat chunk_sz)
                 in Some (None, crc32 crc (take chunk curr), drop chunk curr)) (crc, buf);
        Some crc
      }
      else Some (crc32 crc buf))"

section \<open>The shift register\<close>

text \<open>One byte of the reference: the byte goes into the low end, then eight single-bit steps.\<close>

definition crc_byte :: "u32 \<Rightarrow> u8 \<Rightarrow> u32" where
  "crc_byte c b = (crc_shift ^^ 8) (c XOR ucast b)"

lemma crc_poly_value: "crc_poly = 0xEDB88320"
  by (simp add: crc_poly_def)

lemma crc_table_length: "length crc_table = 256"
  by (simp add: crc_table_def)

lemma bit_0_iff_and: "c AND 1 \<noteq> 0 \<longleftrightarrow> bit (c :: u32) 0"
  by (simp add: and_one_eq bit_0 mod2_eq_if)

lemma crc_shift_bit: "crc_shift c = (if bit c 0 then crc_poly XOR drop_bit 1 c else drop_bit 1 c)"
  by (simp add: crc_shift_def bit_0_iff_and)

text \<open>A step is linear over exclusive-or, and so is a byte.\<close>

lemma crc_shift_xor: "crc_shift (x XOR y) = crc_shift x XOR crc_shift y"
  by (rule bit_word_eqI) (auto simp: crc_shift_bit bit_simps)

lemma crc_shift_0 [simp]: "crc_shift 0 = 0"
  by (simp add: crc_shift_bit)

lemma crc_shifts_xor: "(crc_shift ^^ n) (x XOR y) = (crc_shift ^^ n) x XOR (crc_shift ^^ n) y"
  by (induction n) (simp_all add: crc_shift_xor)

lemma crc_shifts_chain:
 "crc_shift 0xEDB88320 = 0x76DC4190"
  "crc_shift 0x76DC4190 = 0x3B6E20C8"
  "crc_shift 0x3B6E20C8 = 0x1DB71064"
  "crc_shift 0x1DB71064 = 0x0EDB8832"
  "crc_shift 0x0EDB8832 = 0x076DC419"
  "crc_shift 0x076DC419 = 0xEE0E612C"
  "crc_shift 0xEE0E612C = 0x77073096"
  by (simp_all add: crc_shift_def crc_poly_value)

lemma funpow_8: "(f ^^ 8) x = f (f (f (f (f (f (f (f x)))))))"
  by (simp add: numeral_eq_Suc)

lemma crc_shift_small: "crc_shift 1 = 0xEDB88320"
  by (simp add: crc_shift_def crc_poly_value)

lemma crc_shifts_base:
 "(crc_shift ^^ 8) 0x1 = 0x77073096"
  "(crc_shift ^^ 8) 0x2 = 0xEE0E612C"
  "(crc_shift ^^ 8) 0x4 = 0x076DC419"
  "(crc_shift ^^ 8) 0x8 = 0x0EDB8832"
  "(crc_shift ^^ 8) 0x10 = 0x1DB71064"
  "(crc_shift ^^ 8) 0x20 = 0x3B6E20C8"
  "(crc_shift ^^ 8) 0x40 = 0x76DC4190"
  "(crc_shift ^^ 8) 0x80 = 0xEDB88320"
proof -
  have "crc_shift 2 = 1" "crc_shift 4 = 2" "crc_shift 8 = 4" "crc_shift 16 = 8" "crc_shift 32 = 16"
    "crc_shift 64 = 32" "crc_shift 128 = 64"
    by (simp_all add: crc_shift_def crc_poly_value)
  note s = this crc_shifts_chain crc_shift_small
  show "(crc_shift ^^ 8) 0x1 = 0x77073096"
    "(crc_shift ^^ 8) 0x2 = 0xEE0E612C"
    "(crc_shift ^^ 8) 0x4 = 0x076DC419"
    "(crc_shift ^^ 8) 0x8 = 0x0EDB8832"
    "(crc_shift ^^ 8) 0x10 = 0x1DB71064"
    "(crc_shift ^^ 8) 0x20 = 0x3B6E20C8"
    "(crc_shift ^^ 8) 0x40 = 0x76DC4190"
    "(crc_shift ^^ 8) 0x80 = 0xEDB88320"
    by (simp_all only: funpow_8 s)
qed

lemma table_double:
  assumes "k < 8"
  shows "map (\<lambda>n. (crc_shift ^^ 8) (of_nat n)) [0..<2 * 2 ^ k] =
    map (\<lambda>n. (crc_shift ^^ 8) (of_nat n)) [0..<2 ^ k] @
    map (\<lambda>c. c XOR (crc_shift ^^ 8) (2 ^ k)) (map (\<lambda>n. (crc_shift ^^ 8) (of_nat n)) [0..<2 ^ k])"
proof -
  have *: "(crc_shift ^^ 8) (of_nat (n + 2 ^ k)) = (crc_shift ^^ 8) (of_nat n) XOR (crc_shift ^^ 8) (2 ^ k)" if "n < 2 ^ k" for n
  proof -
    have "\<not> bit (of_nat n :: u32) k"
      unfolding bit_of_nat_iff using that by (simp add: bit_iff_odd [of n])
    then have "of_nat n AND (2 ^ k :: u32) = 0" by (simp add: and_exp_eq_0_iff_not_bit)
    then have "of_nat (n + 2 ^ k) = (of_nat n XOR 2 ^ k :: u32)"
      by (simp add: disjunctive_add_eq_xor)
    then show ?thesis by (simp add: crc_shifts_xor)
  qed
  have "[0..<2 * 2 ^ k] = [0..<2 ^ k] @ map (\<lambda>n. n + 2 ^ k) [0..<2 ^ k]"
    by (simp add: map_add_upt mult_2 flip: upt_add_eq_append)
  then show ?thesis by (simp add: * del: of_nat_add)
qed

lemma crc_table_made: "crc_table = make_crc_table"
proof -
  let ?T = "\<lambda>k. map (\<lambda>n. (crc_shift ^^ 8) (of_nat n)) [0..<k]"
  have T: "?T (2 * 2 ^ k) = ?T (2 ^ k) @ map (\<lambda>c. c XOR (crc_shift ^^ 8) (2 ^ k)) (?T (2 ^ k))" if "k < 8" for k
    using table_double [OF that] .
  have z: "(crc_shift ^^ 8) 0 = 0" by (simp add: funpow_8)
  have t0: "?T 1 = [0]" by (simp add: z)
  have t1: "?T 2 = take 2 crc_table"
    using T [of 0] by (simp add: t0 crc_table_def crc_shifts_base z)
  have t2: "?T 4 = take 4 crc_table"
    using T [of 1] by (simp add: t1 crc_table_def crc_shifts_base z)
  have t3: "?T 8 = take 8 crc_table"
    using T [of 2] by (simp add: t2 crc_table_def crc_shifts_base z)
  have t4: "?T 16 = take 16 crc_table"
    using T [of 3] by (simp add: t3 crc_table_def crc_shifts_base z)
  have t5: "?T 32 = take 32 crc_table"
    using T [of 4] by (simp add: t4 crc_table_def crc_shifts_base z)
  have t6: "?T 64 = take 64 crc_table"
    using T [of 5] by (simp add: t5 crc_table_def crc_shifts_base z)
  have t7: "?T 128 = take 128 crc_table"
    using T [of 6] by (simp add: t6 crc_table_def crc_shifts_base z)
  have t8: "?T 256 = take 256 crc_table"
    using T [of 7] by (simp add: t7 crc_table_def crc_shifts_base z)
  then show ?thesis by (simp add: make_crc_table_def crc_table_def)
qed


section \<open>The table-driven loop is the shift register\<close>

lemma crc_table_nth: "n < 256 \<Longrightarrow> crc_table ! n = (crc_shift ^^ 8) (of_nat n)"
  by (simp add: crc_table_made make_crc_table_def)

lemma mask_8: "(0xff :: u32) = mask 8"
  by (simp add: mask_eq_exp_minus_1)

lemma crc_shifts_high:
  assumes "c AND 0xff = 0"
  shows "(crc_shift ^^ 8) c = drop_bit 8 c"
proof -
  have low: "\<not> bit c k" if "k < 8" for k
    using arg_cong [OF assms [unfolded mask_8], of "\<lambda>x. bit x k"] that
    by (auto simp: bit_simps dest: bit_imp_le_length)
  have "(crc_shift ^^ k) c = drop_bit k c" if "k \<le> 8" for k
    using that
  proof (induction k)
    case (Suc k)
    then have "\<not> bit (drop_bit k c) 0" using low [of k] by (simp add: bit_simps)
    then show ?case using Suc by (simp add: crc_shift_bit)
  qed simp
  then show ?thesis by simp
qed

lemma DO1_byte: "DO1 (c, b # buf) = (crc_byte c b, buf)"
proof -
  let ?x = "c XOR ucast b :: u32"
  let ?l = "?x AND 0xff" and ?h = "?x AND NOT 0xff"
  have l: "unat ?l < 256"
    using word_and_le1 [of ?x "0xff"] by (simp add: word_le_nat_alt)
  have split: "?x = ?h XOR ?l" by (rule bit_word_eqI) (auto simp: bit_simps)
  have "crc_byte c b = (crc_shift ^^ 8) ?h XOR (crc_shift ^^ 8) ?l"
    unfolding crc_byte_def by (subst split) (rule crc_shifts_xor)
  also have "(crc_shift ^^ 8) ?l = crc_table ! unat ?l"
    using crc_table_nth [OF l] by simp
  also have "(crc_shift ^^ 8) ?h = drop_bit 8 ?h"
    by (rule crc_shifts_high) (rule bit_word_eqI, auto simp: bit_simps mask_8 simp del: mask_numeral)
  also have "drop_bit 8 ?h = drop_bit 8 c"
    unfolding mask_8 by (rule bit_word_eqI) (auto simp: bit_simps dest: bit_imp_le_length)
  finally show ?thesis by (simp add: xor.commute)
qed

lemma DO1_run: "(DO1 ^^ n) (c, buf) = (foldl crc_byte c (take n buf), drop n buf)"
proof (induction n arbitrary: c buf)
  case (Suc n)
  then show ?case by (cases buf) (simp_all add: DO1_byte funpow_Suc_right del: DO1.simps(2) funpow.simps(2))
qed simp

lemma DO8_run: "DO8 s = (DO1 ^^ 8) s"
  by (simp add: DO8_def DO4_def DO2_def funpow_8)

lemma crc_loop8_run:
  "(let t = crc_loop8 s in (DO1 ^^ length (snd t)) t) = (DO1 ^^ length (snd s)) s"
proof (induction s rule: crc_loop8.induct)
  case (1 s)
  show ?case
  proof (cases "8 \<le> length (snd s)")
    case True
    then have "length (snd s) = (length (snd s) - 8) + 8" by simp
    then have "(DO1 ^^ length (snd s)) s = (DO1 ^^ (length (snd s) - 8)) (DO8 s)"
      by (metis DO8_run funpow_add o_apply)
    with 1 [OF True] True show ?thesis by (simp add: crc_loop8.simps [of s] DO8_fields)
  next
    case False
    then show ?thesis by (simp add: crc_loop8.simps [of s])
  qed
qed

lemma crc32_no_comp_value: "crc32_no_comp crc buf = foldl crc_byte crc buf"
  using crc_loop8_run [of "(crc, buf)"]
  by (simp add: crc32_no_comp_def Let_def DO1_run)

lemma crc32_value: "crc32 crc buf = NOT (foldl crc_byte (NOT crc) buf)"
proof -
  have ones: "x XOR 0xffffffff = NOT (x :: u32)" for x
  proof -
    have "(0xffffffff :: u32) = -1" by simp
    then show ?thesis by (simp only: bit.xor_one_right)
  qed
  show ?thesis
    using crc_loop8_run [of "(NOT crc, buf)"]
    by (simp add: crc32_def Let_def DO1_run ones)
qed

text \<open>
  C19: the table of the build is the table the generator makes from the polynomial, and the
  unrolled table-driven loop computes the shift register of the comment, bit by bit, on every
  buffer and from every start value, with and without the complement.
\<close>
theorem crc32_is_shift_register:
  "crc_table = make_crc_table \<and> crc32 crc buf = NOT (foldl crc_byte (NOT crc) buf) \<and>
   crc32_no_comp crc buf = foldl crc_byte crc buf"
  by (simp only: crc_table_made crc32_value crc32_no_comp_value simp_thms)

text \<open>The checksum can be computed piece by piece.\<close>

lemma crc32_append: "crc32 (crc32 crc a) b = crc32 crc (a @ b)"
  by (simp add: crc32_value)

text \<open>
  The watchdog variant, which cuts the buffer into chunks and continues the checksum from
  chunk to chunk, returns the same checksum for every chunk size but 0.
\<close>
theorem crc32_wd_is_crc32:
  assumes "chunk_sz \<noteq> 0"
  shows "crc32_wd wd crc buf chunk_sz = Some (crc32 crc buf)"
proof (cases wd)
  case True
  let ?body = "\<lambda>(c :: u32, curr :: u8 list). if curr = [] then Some (Some c, c, curr)
      else let chunk = min (length curr) (unat chunk_sz)
           in Some (None, crc32 c (take chunk curr), drop chunk curr)"
  have "loopM ?body (c, curr) = Some (crc32 c curr, crc32 c curr, [])" for c curr
  proof (induction "length curr" arbitrary: c curr rule: less_induct)
    case less
    show ?case
    proof (cases "curr = []")
      case True
      then show ?thesis by (simp add: loopM.simps [of ?body] crc32_value)
    next
      case False
      let ?n = "min (length curr) (unat chunk_sz)"
      have "0 < unat chunk_sz" using assms by (simp add: unat_gt_0)
      then have "loopM ?body (crc32 c (take ?n curr), drop ?n curr) =
          Some (crc32 c curr, crc32 c curr, [])"
        using less [of "drop ?n curr" "crc32 c (take ?n curr)"] False by (simp add: crc32_append)
      then show ?thesis using False by (subst loopM.simps) (simp add: Let_def)
    qed
  qed
  from this [of crc buf] show ?thesis using True by (simp add: crc32_wd_def)
qed (simp add: crc32_wd_def)

theorem crc32_wd_is_crc32_witness:
  "crc32_wd True 0 [0x31, 0x32, 0x33] 2 = Some (crc32 0 [0x31, 0x32, 0x33])"
  by (rule crc32_wd_is_crc32) simp

end
