(* ===== verification/Vsprintf.thy ===== *)
theory Vsprintf
  imports Prelude
begin

text \<open>
  Numbers and text: the character classes of \<open>lib_generic/ctype.c\<close>, \<open>simple_strtoul\<close> and its
  relatives, and the formatter \<open>number\<close> / \<open>vsprintf\<close> of \<open>lib_generic/vsprintf.c\<close>. A C string is
  the list of its bytes without the terminator: \<open>*cp\<close> is \<open>peek cp 0\<close>, which is 0 at the end,
  \<open>cp[1]\<close> is \<open>peek cp 1\<close>, \<open>cp++\<close> is \<open>tl cp\<close>. \<open>CONFIG_SYS_64BIT_VSPRINTF\<close> is off. The pads
  and lengths of the formatter are \<open>int\<close> values of the source, taken as unbounded integers.
\<close>

section \<open>Character classes\<close>

definition CT_U :: u8 where "CT_U = 0x01"
definition CT_L :: u8 where "CT_L = 0x02"
definition CT_D :: u8 where "CT_D = 0x04"
definition CT_C :: u8 where "CT_C = 0x08"
definition CT_P :: u8 where "CT_P = 0x10"
definition CT_S :: u8 where "CT_S = 0x20"
definition CT_X :: u8 where "CT_X = 0x40"
definition CT_SP :: u8 where "CT_SP = 0x80"

lemmas ctype_bits = CT_U_def CT_L_def CT_D_def CT_C_def CT_P_def CT_S_def CT_X_def CT_SP_def

definition ctype_table :: "u8 list" where
  "ctype_table =
     replicate 8 CT_C @
     [CT_C] @ replicate 5 (CT_C OR CT_S) @ replicate 2 CT_C @
     replicate 8 CT_C @
     replicate 8 CT_C @
     [CT_S OR CT_SP] @ replicate 7 CT_P @
     replicate 8 CT_P @
     replicate 8 CT_D @
     replicate 2 CT_D @ replicate 6 CT_P @
     [CT_P] @ replicate 6 (CT_U OR CT_X) @ [CT_U] @
     replicate 8 CT_U @
     replicate 8 CT_U @
     replicate 3 CT_U @ replicate 5 CT_P @
     [CT_P] @ replicate 6 (CT_L OR CT_X) @ [CT_L] @
     replicate 8 CT_L @
     replicate 8 CT_L @
     replicate 3 CT_L @ replicate 4 CT_P @ [CT_C] @
     replicate 16 0 @
     replicate 16 0 @
     [CT_S OR CT_SP] @ replicate 15 CT_P @
     replicate 16 CT_P @
     replicate 16 CT_U @
     replicate 7 CT_U @ [CT_P] @ replicate 7 CT_U @ [CT_L] @
     replicate 16 CT_L @
     replicate 7 CT_L @ [CT_P] @ replicate 8 CT_L"

definition ismask :: "u8 \<Rightarrow> u8" where "ismask c = ctype_table ! unat c"

definition isdigit :: "u8 \<Rightarrow> bool" where "isdigit c \<longleftrightarrow> ismask c AND CT_D \<noteq> 0"
definition islower :: "u8 \<Rightarrow> bool" where "islower c \<longleftrightarrow> ismask c AND CT_L \<noteq> 0"
definition isxdigit :: "u8 \<Rightarrow> bool" where "isxdigit c \<longleftrightarrow> ismask c AND (CT_D OR CT_X) \<noteq> 0"

definition toupper :: "u8 \<Rightarrow> u8" where
  "toupper c = (if islower c then c - (0x61 - 0x41) else c)"

section \<open>Reading numbers\<close>

definition peek :: "u8 list \<Rightarrow> nat \<Rightarrow> u8" where
  "peek cp i = (if i < length cp then cp ! i else 0)"

lemma peek_Cons [simp]: "peek (c # cp) 0 = c" "peek (c # cp) (Suc i) = peek cp i" "peek [] i = 0"
  by (simp_all add: peek_def)

definition digit_value :: "u8 \<Rightarrow> u32" where
  "digit_value c = (if isdigit c then ucast c - 0x30
     else ucast (if islower c then toupper c else c) - 0x41 + 10)"

fun strtoul_digits :: "u32 \<Rightarrow> u32 \<Rightarrow> u8 list \<Rightarrow> u32 \<times> u8 list" where
  "strtoul_digits base result [] = (result, [])"
| "strtoul_digits base result (c # cp) =
     (if isxdigit c \<and> digit_value c < base
      then strtoul_digits base (result * base + digit_value c) cp
      else (result, c # cp))"

text \<open>The value and the rest of the string, which goes to \<open>*endp\<close>.\<close>

definition simple_strtoul :: "u8 list \<Rightarrow> u32 \<Rightarrow> u32 \<times> u8 list" where
  "simple_strtoul cp base =
     (let (cp, base) =
        (if peek cp 0 = 0x30
         then let cp = tl cp;
                  (cp, base) = (if peek cp 0 = 0x78 \<and> isxdigit (peek cp 1) then (tl cp, 16) else (cp, base))
              in (cp, if base = 0 then 8 else base)
         else (cp, base));
        base = (if base = 0 then 10 else base)
      in strtoul_digits base 0 cp)"

definition simple_strtol :: "u8 list \<Rightarrow> u32 \<Rightarrow> u32 \<times> u8 list" where
  "simple_strtol cp base =
     (if peek cp 0 = 0x2D
      then (case simple_strtoul (tl cp) base of (v, endp) \<Rightarrow> (- v, endp))
      else simple_strtoul cp base)"

definition ustrtoul :: "u8 list \<Rightarrow> u32 \<Rightarrow> u32 \<times> u8 list" where
  "ustrtoul cp base =
     (let (result, endp) = simple_strtoul cp base;
          c = peek endp 0;
          result = (if c = 0x47 then result * 1024 else result);
          result = (if c = 0x47 \<or> c = 0x4D then result * 1024 else result)
      in if c = 0x47 \<or> c = 0x4D \<or> c = 0x4B \<or> c = 0x6B
         then (result * 1024,
               if peek endp 1 = 0x69
               then (if peek endp 2 = 0x42 then drop 3 endp else drop 2 endp)
               else endp)
         else (result, endp))"

section \<open>Writing numbers\<close>

definition is_digit :: "u8 \<Rightarrow> bool" where "is_digit c \<longleftrightarrow> 0x30 \<le> c \<and> c \<le> 0x39"

fun skip_atoi :: "u32 \<Rightarrow> u8 list \<Rightarrow> u32 \<times> u8 list" where
  "skip_atoi i [] = (i, [])"
| "skip_atoi i (c # s) = (if is_digit c then skip_atoi (i * 10 + ucast c - 0x30) s else (i, c # s))"

definition ZEROPAD :: u32 where "ZEROPAD = 1"
definition SIGN :: u32 where "SIGN = 2"
definition PLUS :: u32 where "PLUS = 4"
definition SPACE :: u32 where "SPACE = 8"
definition LEFT :: u32 where "LEFT = 16"
definition SPECIAL :: u32 where "SPECIAL = 32"
definition LARGE :: u32 where "LARGE = 64"

lemmas number_flags = ZEROPAD_def SIGN_def PLUS_def SPACE_def LEFT_def SPECIAL_def LARGE_def

definition lower_digits :: "u8 list" where
  "lower_digits = map of_nat ([0x30..<0x3A] @ [0x61..<0x7B])"

definition upper_digits :: "u8 list" where
  "upper_digits = map of_nat ([0x30..<0x3A] @ [0x41..<0x5B])"

text \<open>The buffer \<open>tmp\<close>: the digits from the lowest on.\<close>

function num_digits :: "u8 list \<Rightarrow> u32 \<Rightarrow> u32 \<Rightarrow> u8 list" where
  "num_digits digits base num =
     (if num = 0 \<or> base < 2 then []
      else digits ! unat (num mod base) # num_digits digits base (num div base))"
  by auto
termination
proof (relation "measure (\<lambda>(_, _, num). unat num)")
  fix digits :: "u8 list" and base num :: u32
  assume "\<not> (num = 0 \<or> base < 2)"
  then have "1 < unat base" and "0 < unat num"
    by (simp_all add: word_less_nat_alt unat_gt_0)
  then have "unat (num div base) < unat num" by (simp add: unat_div)
  then show "((digits, base, num div base), digits, base, num) \<in> measure (\<lambda>(_, _, num). unat num)" by simp
qed auto

declare num_digits.simps [simp del]

text \<open>\<open>while (size-- > 0) *str++ = c\<close>: what is written, and \<open>size\<close> after the loop.\<close>

definition pad :: "u8 \<Rightarrow> int \<Rightarrow> u8 list \<times> int" where
  "pad c sz = (replicate (nat sz) c, if 0 < sz then -1 else sz - 1)"

text \<open>The sign character, the magnitude and what the sign leaves of the field.\<close>

definition number_sign :: "u32 \<Rightarrow> int \<Rightarrow> u32 \<Rightarrow> u8 list \<times> u32 \<times> int" where
  "number_sign num sz type =
     (if type AND SIGN \<noteq> 0
      then if sint num < 0 then ([0x2D], - num, sz - 1)
           else if type AND PLUS \<noteq> 0 then ([0x2B], num, sz - 1)
           else if type AND SPACE \<noteq> 0 then ([0x20], num, sz - 1)
           else ([], num, sz)
      else ([], num, sz))"

definition number_special :: "u8 list \<Rightarrow> u32 \<Rightarrow> u32 \<Rightarrow> u8 list" where
  "number_special digits base type =
     (if type AND SPECIAL \<noteq> 0
      then if base = 8 then [0x30] else if base = 16 then [0x30, digits ! 33] else []
      else [])"

text \<open>What is written: blanks, sign and prefix, padding, digits, blanks.\<close>

definition number_field :: "u8 \<Rightarrow> u32 \<Rightarrow> int \<Rightarrow> u8 list \<Rightarrow> u8 list \<Rightarrow> u8 list" where
  "number_field c type sz front digits =
     (let (pad1, sz) = (if type AND (ZEROPAD + LEFT) = 0 then pad 0x20 sz else ([], sz));
          (pad2, sz) = (if type AND LEFT = 0 then pad c sz else ([], sz));
          (pad3, sz) = pad 0x20 sz
      in pad1 @ front @ pad2 @ digits @ pad3)"

lemma number_field_width: "sz + int (length front + length digits) \<le> int (length (number_field c type sz front digits))"
  by (simp add: number_field_def pad_def)

definition number :: "u32 \<Rightarrow> u32 \<Rightarrow> int \<Rightarrow> int \<Rightarrow> u32 \<Rightarrow> u8 list option" where
  "number num base sz precision type =
     (let digits = (if type AND LARGE \<noteq> 0 then upper_digits else lower_digits);
          type = (if type AND LEFT \<noteq> 0 then type AND NOT ZEROPAD else type)
      in if base < 2 \<or> 36 < base then None
      else
      (let c = (if type AND ZEROPAD \<noteq> 0 then 0x30 else 0x20);
           (sign, num, sz) = number_sign num sz type;
           sz = (if type AND SPECIAL \<noteq> 0
                 then if base = 16 then sz - 2 else if base = 8 then sz - 1 else sz
                 else sz);
           tmp = (if num = 0 then [0x30] else num_digits digits base num);
           i = int (length tmp);
           precision = (if precision < i then i else precision);
           zeros = replicate (nat (precision - i)) 0x30
       in Some (number_field c type (sz - precision) (sign @ number_special digits base type) (zeros @ rev tmp))))"

lemma number_sign_width: "snd (snd (number_sign num sz type)) = sz - int (length (fst (number_sign num sz type)))"
  by (simp add: number_sign_def)

lemma number_special_width:
  "(if type AND SPECIAL \<noteq> 0 then if base = 16 then sz - 2 else if base = 8 then sz - 1 else sz else sz) =
    sz - int (length (number_special digits base type))"
  by (simp add: number_special_def)

section \<open>Formatting\<close>

text \<open>An argument of the variable list: a word or a string pointer, \<open>None\<close> for \<open>NULL\<close>.\<close>

datatype varg = VInt u32 | VPtr "u8 list option"

fun fmt_flags :: "u32 \<Rightarrow> u8 list \<Rightarrow> u32 \<times> u8 list" where
  "fmt_flags flags [] = (flags, [])"
| "fmt_flags flags (c # fmt) =
     (if c = 0x2D then fmt_flags (flags OR LEFT) fmt
      else if c = 0x2B then fmt_flags (flags OR PLUS) fmt
      else if c = 0x20 then fmt_flags (flags OR SPACE) fmt
      else if c = 0x23 then fmt_flags (flags OR SPECIAL) fmt
      else if c = 0x30 then fmt_flags (flags OR ZEROPAD) fmt
      else (flags, c # fmt))"

text \<open>\<open>va_arg\<close>; a missing argument or one of the wrong type is undefined.\<close>

fun va_int :: "varg list \<Rightarrow> (u32 \<times> varg list) option" where
  "va_int (VInt v # args) = Some (v, args)"
| "va_int args = None"

fun va_str :: "varg list \<Rightarrow> (u8 list option \<times> varg list) option" where
  "va_str (VPtr s # args) = Some (s, args)"
| "va_str args = None"

definition fmt_width :: "u32 \<Rightarrow> u8 list \<Rightarrow> varg list \<Rightarrow> (int \<times> u32 \<times> u8 list \<times> varg list) option" where
  "fmt_width flags fmt args =
     (if is_digit (peek fmt 0)
      then (case skip_atoi 0 fmt of (w, fmt) \<Rightarrow> Some (sint w, flags, fmt, args))
      else if peek fmt 0 = 0x2A
      then do {
        (w, args) \<leftarrow> va_int args;
        Some (if sint w < 0 then (- sint w, flags OR LEFT, tl fmt, args) else (sint w, flags, tl fmt, args))
      }
      else Some (-1, flags, fmt, args))"

definition fmt_precision :: "u8 list \<Rightarrow> varg list \<Rightarrow> (int \<times> u8 list \<times> varg list) option" where
  "fmt_precision fmt args =
     (if peek fmt 0 = 0x2E
      then do {
        let fmt = tl fmt;
        (pr, fmt, args) \<leftarrow>
          (if is_digit (peek fmt 0)
           then (case skip_atoi 0 fmt of (v, fmt) \<Rightarrow> Some (sint v, fmt, args))
           else if peek fmt 0 = 0x2A
           then (case va_int args of None \<Rightarrow> None | Some (v, args) \<Rightarrow> Some (sint v, tl fmt, args))
           else Some (-1, fmt, args));
        Some (if pr < 0 then 0 else pr, fmt, args)
      }
      else Some (-1, fmt, args))"

text \<open>The conversion qualifier, 0 for none.\<close>

definition fmt_qualifier :: "u8 list \<Rightarrow> u8 \<times> u8 list" where
  "fmt_qualifier fmt =
     (let c = peek fmt 0
      in if c = 0x68 \<or> c = 0x6C \<or> c = 0x4C \<or> c = 0x5A \<or> c = 0x7A \<or> c = 0x74 \<or> c = 0x71
         then if c = 0x6C \<and> peek fmt 1 = 0x6C then (0x71, drop 2 fmt) else (c, tl fmt)
         else (0, fmt))"

definition fmt_string :: "u8 list option \<Rightarrow> u32 \<Rightarrow> int \<Rightarrow> int \<Rightarrow> u8 list" where
  "fmt_string s flags field_width precision =
     (let s = (case s of None \<Rightarrow> [0x3C, 0x4E, 0x55, 0x4C, 0x4C, 0x3E] | Some s \<Rightarrow> s);
          s = take (unat (of_int precision :: u32)) s;
          blanks = replicate (nat (field_width - int (length s))) 0x20
      in if flags AND LEFT = 0 then blanks @ s else s @ blanks)"

definition fmt_char :: "u8 \<Rightarrow> u32 \<Rightarrow> int \<Rightarrow> u8 list" where
  "fmt_char c flags field_width =
     (let blanks = replicate (nat (field_width - 1)) 0x20
      in if flags AND LEFT = 0 then blanks @ [c] else c # blanks)"

text \<open>The integer argument, after its qualifier.\<close>

definition fmt_value :: "u8 \<Rightarrow> u32 \<Rightarrow> u32 \<Rightarrow> u32" where
  "fmt_value qualifier flags v =
     (if qualifier = 0x68
      then if flags AND SIGN \<noteq> 0 then scast (ucast v :: u16) else ucast (ucast v :: u16)
      else v)"

text \<open>
  One directive, \<open>fmt\<close> after the percent sign, \<open>n\<close> bytes written so far: the output, the stores
  of \<open>%n\<close> (address and value), the rest of the format and of the arguments.
\<close>

definition fmt_directive :: "nat \<Rightarrow> u8 list \<Rightarrow> varg list \<Rightarrow>
    (u8 list \<times> (u32 \<times> u32) list \<times> u8 list \<times> varg list) option" where
  "fmt_directive n fmt args = do {
     let (flags, fmt) = fmt_flags 0 fmt;
     (field_width, flags, fmt, args) \<leftarrow> fmt_width flags fmt args;
     (precision, fmt, args) \<leftarrow> fmt_precision fmt args;
     let (qualifier, fmt) = fmt_qualifier fmt;
     let c = peek fmt 0;
     if c = 0x63
     then do { (v, args) \<leftarrow> va_int args; Some (fmt_char (ucast v) flags field_width, [], tl fmt, args) }
     else if c = 0x73
     then do { (s, args) \<leftarrow> va_str args; Some (fmt_string s flags field_width precision, [], tl fmt, args) }
     else if c = 0x70
     then do {
       let (field_width, flags) = (if field_width = -1 then (8, flags OR ZEROPAD) else (field_width, flags));
       (v, args) \<leftarrow> va_int args;
       out \<leftarrow> number v 16 field_width precision flags;
       Some (out, [], tl fmt, args)
     }
     else if c = 0x6E
     then do { (ip, args) \<leftarrow> va_int args; Some ([], [(ip, of_nat n)], tl fmt, args) }
     else if c = 0x25 then Some ([0x25], [], tl fmt, args)
     else if c = 0x6F \<or> c = 0x58 \<or> c = 0x78 \<or> c = 0x64 \<or> c = 0x69 \<or> c = 0x75
     then do {
       let base = (if c = 0x6F then 8 else if c = 0x58 \<or> c = 0x78 then 16 else 10);
       let flags = (if c = 0x58 then flags OR LARGE else if c = 0x64 \<or> c = 0x69 then flags OR SIGN else flags);
       (v, args) \<leftarrow> va_int args;
       out \<leftarrow> number (fmt_value qualifier flags v) base field_width precision flags;
       Some (out, [], tl fmt, args)
     }
     else if fmt = [] then Some ([0x25], [], [], args)
     else Some ([0x25, c], [], tl fmt, args)
   }"

lemma fmt_flags_length: "length (snd (fmt_flags flags fmt)) \<le> length fmt"
  by (induction flags fmt rule: fmt_flags.induct) auto

lemma skip_atoi_length: "length (snd (skip_atoi i s)) \<le> length s"
  by (induction i s rule: skip_atoi.induct) auto

lemma fmt_width_length:
  "fmt_width flags fmt args = Some (w, flags', fmt', args') \<Longrightarrow> length fmt' \<le> length fmt"
  using skip_atoi_length [of 0 fmt]
  by (auto simp: fmt_width_def bind_eq_Some_conv split: if_splits prod.splits)

lemma fmt_precision_length:
  "fmt_precision fmt args = Some (w, fmt', args') \<Longrightarrow> length fmt' \<le> length fmt"
  using skip_atoi_length [of 0 "tl fmt"]
  by (auto simp: fmt_precision_def bind_eq_Some_conv Let_def split: if_splits prod.splits option.splits)

lemma fmt_qualifier_length: "length (snd (fmt_qualifier fmt)) \<le> length fmt"
  by (simp add: fmt_qualifier_def Let_def)

lemma fmt_directive_length:
  assumes "fmt_directive n fmt args = Some (out, st, fmt', args')"
  shows "length fmt' \<le> length fmt"
proof -
  obtain flags f1 where f1: "fmt_flags 0 fmt = (flags, f1)" by fastforce
  obtain w fl f2 a2 where f2: "fmt_width flags f1 args = Some (w, fl, f2, a2)"
    using assms f1 by (auto simp: fmt_directive_def bind_eq_Some_conv)
  obtain pr f3 a3 where f3: "fmt_precision f2 a2 = Some (pr, f3, a3)"
    using assms f1 f2 by (auto simp: fmt_directive_def bind_eq_Some_conv)
  obtain q f4 where f4: "fmt_qualifier f3 = (q, f4)" by fastforce
  have "fmt' = tl f4 \<or> fmt' = []"
    using assms f1 f2 f3 f4
    by (auto simp: fmt_directive_def bind_eq_Some_conv Let_def split: if_splits prod.splits)
  moreover have "length f4 \<le> length fmt"
    using fmt_flags_length [of 0 fmt] fmt_width_length [OF f2] fmt_precision_length [OF f3]
      fmt_qualifier_length [of f3] f1 f4 by simp
  ultimately show ?thesis by auto
qed

text \<open>\<open>out\<close> is the text written so far, \<open>st\<close> the stores of \<open>%n\<close>, latest first.\<close>

function vsprintf_loop :: "u8 list \<Rightarrow> (u32 \<times> u32) list \<Rightarrow> u8 list \<Rightarrow> varg list \<Rightarrow>
    (u8 list \<times> (u32 \<times> u32) list) option" where
  "vsprintf_loop out st [] args = Some (out, st)"
| "vsprintf_loop out st (c # fmt) args =
     (if c \<noteq> 0x25 then vsprintf_loop (out @ [c]) st fmt args
      else case fmt_directive (length out) fmt args of
        None \<Rightarrow> None
      | Some (o1, s1, fmt', args') \<Rightarrow> vsprintf_loop (out @ o1) (s1 @ st) fmt' args')"
  by pat_completeness auto
termination
  by (relation "measure (\<lambda>(_, _, fmt, _). length fmt)") (auto dest: fmt_directive_length)

text \<open>\<open>sprintf\<close>: the text and its length; a \<open>%n\<close> store goes with it.\<close>

definition vsprintf :: "u8 list \<Rightarrow> varg list \<Rightarrow> (u32 \<times> u8 list \<times> (u32 \<times> u32) list) option" where
  "vsprintf fmt args = do {
     (out, st) \<leftarrow> vsprintf_loop [] [] fmt args;
     Some (of_nat (length out), out, st)
   }"

text \<open>\<open>panic\<close> on a board that does not hang: the message, a pause of 100 milliseconds and a reset.\<close>

definition panic :: "(u32 \<Rightarrow> ('d, 'z) mach_scheme \<Rightarrow> ('d, 'z) mach_scheme option) \<Rightarrow>
    (('d, 'z) mach_scheme \<Rightarrow> ('d, 'z) mach_scheme option) \<Rightarrow> string \<Rightarrow> parg list \<Rightarrow> ('d, 'z) mach_scheme \<Rightarrow>
    ('d, 'z) mach_scheme option" where
  "panic udelay do_reset fmt args s = do {
     s \<leftarrow> udelay 100000 (printf ''%c'' [Num 0x0A] (printf fmt args s));
     do_reset s
   }"

section \<open>Digits\<close>

lemma replicate_numeral: "replicate (numeral k) x = x # replicate (pred_numeral k) x"
  by (simp add: numeral_eq_Suc)

definition class_of :: "u8 \<Rightarrow> bool \<times> bool \<times> bool" where
  "class_of x = (x AND CT_D \<noteq> 0, x AND CT_L \<noteq> 0, x AND (CT_D OR CT_X) \<noteq> 0)"

lemma class_of_bits [simp]:
  "class_of 0 = (False, False, False)" "class_of CT_C = (False, False, False)"
  "class_of (CT_C OR CT_S) = (False, False, False)" "class_of (CT_S OR CT_SP) = (False, False, False)"
  "class_of CT_P = (False, False, False)" "class_of CT_D = (True, False, True)"
  "class_of CT_U = (False, False, False)" "class_of (CT_U OR CT_X) = (False, False, True)"
  "class_of CT_L = (False, True, False)" "class_of (CT_L OR CT_X) = (False, True, True)"
  by (simp_all add: class_of_def ctype_bits)

lemma hex_classes:
  "take 128 (map class_of ctype_table) =
     replicate 48 (False, False, False) @ replicate 10 (True, False, True) @
     replicate 7 (False, False, False) @ replicate 6 (False, False, True) @ replicate 26 (False, False, False) @
     replicate 6 (False, True, True) @ replicate 20 (False, True, False) @ replicate 5 (False, False, False)"
  "list_all (\<lambda>c. c \<in> {(False, False, False), (False, True, False)}) (drop 128 (map class_of ctype_table))"
  unfolding ctype_table_def map_append map_replicate list.map class_of_bits
  by (simp_all add: replicate_numeral)

lemma nth_replicate_append:
  "n < k \<Longrightarrow> (replicate k x @ ys) ! n = x" "k \<le> n \<Longrightarrow> (replicate k x @ ys) ! n = ys ! (n - k)"
  by (simp_all add: nth_append)

lemma class_nth:
  assumes "n < 128"
  shows "take 128 (map class_of ctype_table) ! n =
    (48 \<le> n \<and> n \<le> 57, 97 \<le> n \<and> n \<le> 122, 48 \<le> n \<and> n \<le> 57 \<or> 65 \<le> n \<and> n \<le> 70 \<or> 97 \<le> n \<and> n \<le> 102)"
proof -
  consider "n < 48" | "48 \<le> n" "n < 58" | "58 \<le> n" "n < 65" | "65 \<le> n" "n < 71" | "71 \<le> n" "n < 97"
    | "97 \<le> n" "n < 103" | "103 \<le> n" "n < 123" | "123 \<le> n" by linarith
  then show ?thesis
    unfolding hex_classes(1) by cases (use assms in \<open>simp_all add: nth_replicate_append\<close>)
qed

lemma class_at:
  "class_of (ismask c) =
    (48 \<le> unat c \<and> unat c \<le> 57,
     97 \<le> unat c \<and> unat c \<le> 122 \<or> 128 \<le> unat c \<and> fst (snd (class_of (ismask c))),
     48 \<le> unat c \<and> unat c \<le> 57 \<or> 65 \<le> unat c \<and> unat c \<le> 70 \<or> 97 \<le> unat c \<and> unat c \<le> 102)"
proof -
  have len: "length ctype_table = 256" by (simp add: ctype_table_def)
  have c: "unat c < 256" by (rule unat_u8_less)
  show ?thesis
  proof (cases "unat c < 128")
    case True
    have "class_of (ismask c) = take 128 (map class_of ctype_table) ! unat c"
      using True len by (simp add: ismask_def)
    then show ?thesis using True class_nth [OF True] by simp
  next
    case False
    then have "class_of (ismask c) = drop 128 (map class_of ctype_table) ! (unat c - 128)"
      using len c by (simp add: ismask_def)
    then have "class_of (ismask c) \<in> {(False, False, False), (False, True, False)}"
      using hex_classes(2) [unfolded list_all_length, rule_format, of "unat c - 128"] False len c by simp
    then show ?thesis using False by auto
  qed
qed

lemma classes:
  "isdigit c \<longleftrightarrow> 48 \<le> unat c \<and> unat c \<le> 57"
  "isxdigit c \<longleftrightarrow> 48 \<le> unat c \<and> unat c \<le> 57 \<or> 65 \<le> unat c \<and> unat c \<le> 70 \<or> 97 \<le> unat c \<and> unat c \<le> 102"
  "unat c < 128 \<Longrightarrow> islower c \<longleftrightarrow> 97 \<le> unat c \<and> unat c \<le> 122"
  using class_at [of c] by (simp_all add: class_of_def isdigit_def isxdigit_def islower_def)

text \<open>The digits below 16 of both alphabets are hexadecimal digits with their own value.\<close>

definition hex_alphabet :: "u8 list \<Rightarrow> bool" where
  "hex_alphabet digits \<longleftrightarrow> digits = lower_digits \<or> digits = upper_digits"

lemma alphabet_nth:
  "d < 36 \<Longrightarrow> map of_nat ([x..<x + 10] @ [y..<y + 26]) ! d = (of_nat (if d < 10 then x + d else y + (d - 10)) :: u8)"
  by (simp add: nth_append)

lemma digits_nth:
  assumes "d < 36"
  shows "lower_digits ! d = of_nat (if d < 10 then 48 + d else 97 + (d - 10))"
    and "upper_digits ! d = of_nat (if d < 10 then 48 + d else 65 + (d - 10))"
proof -
  have l: "lower_digits = map of_nat ([48..<48 + 10] @ [97..<97 + 26])"
    and u: "upper_digits = map of_nat ([48..<48 + 10] @ [65..<65 + 26])"
    by (simp_all add: lower_digits_def upper_digits_def)
  show "lower_digits ! d = of_nat (if d < 10 then 48 + d else 97 + (d - 10))"
    unfolding l by (rule alphabet_nth [OF assms])
  show "upper_digits ! d = of_nat (if d < 10 then 48 + d else 65 + (d - 10))"
    unfolding u by (rule alphabet_nth [OF assms])
qed

lemma unat_of_nat_u8: "n < 256 \<Longrightarrow> unat (of_nat n :: u8) = n"
  by (simp add: unat_of_nat)

lemma alphabet_digit:
  assumes "hex_alphabet digits" and "d < 16"
  shows "isxdigit (digits ! d)" and "digit_value (digits ! d) = of_nat d"
proof -
  have u: "unat (digits ! d) = (if d < 10 then 48 + d else if digits = lower_digits then 87 + d else 55 + d)"
    using assms unfolding hex_alphabet_def
    by (auto simp only: digits_nth less_trans [of d 16 36] intro!: trans [OF unat_of_nat_u8] split: if_split)
  then show "isxdigit (digits ! d)" using assms(2) by (simp add: classes)
  have v: "(ucast (digits ! d) :: u32) = of_nat (unat (digits ! d))" by simp
  show "digit_value (digits ! d) = of_nat d"
  proof (cases "d < 10")
    case True
    then show ?thesis using u by (simp add: digit_value_def classes v)
  next
    case False
    then show ?thesis
    proof (cases "digits = lower_digits")
      case True
      with u False have u': "unat (digits ! d) = 87 + d" by simp
      then have "unat (toupper (digits ! d)) = 55 + d"
        using assms(2) False by (simp add: toupper_def classes unat_sub word_le_nat_alt)
      then have "(ucast (toupper (digits ! d)) :: u32) = of_nat (55 + d)"
        by (metis of_nat_unat)
      then show ?thesis using u' assms(2) False by (simp add: digit_value_def classes)
    next
      case upper: False
      with u False have u': "unat (digits ! d) = 55 + d" by simp
      then show ?thesis using assms(2) False by (simp add: digit_value_def classes v)
    qed
  qed
qed

section \<open>What is printed can be read back\<close>

lemma num_digits_0 [simp]: "num_digits digits base 0 = []"
  by (simp add: num_digits.simps [of digits base 0])

lemma num_digits_chars:
  assumes "2 \<le> base" and "base \<le> 16"
  shows "\<forall>c\<in>set (num_digits digits base num). \<exists>d<unat base. c = digits ! d"
proof (induction digits base num rule: num_digits.induct)
  case (1 digits base num)
  show ?case
  proof (cases "num = 0 \<or> base < 2")
    case True
    then show ?thesis by (simp add: num_digits.simps [of digits base num])
  next
    case False
    have "unat (num mod base) < unat base"
      using False by (simp add: unat_mod word_less_nat_alt not_less word_le_nat_alt)
    with 1 [OF False] False show ?thesis by (auto simp: num_digits.simps [of digits base num])
  qed
qed

text \<open>Reading the digits of \<open>num\<close>, highest first, shifts in \<open>num\<close>.\<close>

lemma strtoul_num_digits:
  assumes "hex_alphabet digits" and "2 \<le> base" and "base \<le> 16"
  shows "strtoul_digits base r (rev (num_digits digits base num) @ cp) =
    strtoul_digits base (r * base ^ length (num_digits digits base num) + num) cp"
  using assms
proof (induction digits base num arbitrary: cp rule: num_digits.induct)
  case (1 digits base num)
  show ?case
  proof (cases "num = 0 \<or> base < 2")
    case True
    then have "num = 0" using "1.prems"(2) by (auto simp: word_le_nat_alt word_less_nat_alt)
    then show ?thesis by simp
  next
    case False
    let ?d = "num mod base" and ?ds = "num_digits digits base (num div base)"
    have m: "?d < base"
      using False by (simp add: word_less_nat_alt unat_mod not_less word_le_nat_alt)
    then have "unat ?d < 16"
      using "1.prems"(3) by (simp add: word_less_nat_alt word_le_nat_alt)
    note digit = alphabet_digit [OF "1.prems"(1) this]
    have "strtoul_digits base r (rev (num_digits digits base num) @ cp) =
        strtoul_digits base r (rev ?ds @ (digits ! unat ?d # cp))"
      using False by (simp add: num_digits.simps [of digits base num])
    also have "\<dots> = strtoul_digits base (r * base ^ length ?ds + num div base) (digits ! unat ?d # cp)"
      by (rule "1.IH" [OF False "1.prems"])
    also have "\<dots> = strtoul_digits base ((r * base ^ length ?ds + num div base) * base + ?d) cp"
      using digit m by simp
    also have "(r * base ^ length ?ds + num div base) * base + ?d =
        r * base ^ length (num_digits digits base num) + num"
      using False by (simp add: num_digits.simps [of digits base num] algebra_simps mod_mult_div_eq)
    finally show ?thesis .
  qed
qed

text \<open>A string of digits of the base has no prefix.\<close>

definition digits_of :: "u32 \<Rightarrow> u8 list \<Rightarrow> bool" where
  "digits_of base cp \<longleftrightarrow> (\<forall>c\<in>set cp. isxdigit c \<and> digit_value c < base)"

lemma simple_strtoul_digits:
  assumes "digits_of base cp" and "2 \<le> base"
  shows "simple_strtoul cp base = strtoul_digits base 0 cp"
proof -
  have b: "base \<noteq> 0" using assms(2) by (auto simp: word_le_nat_alt)
  have x: "\<not> isxdigit 0x78" by (simp add: classes)
  show ?thesis
  proof (cases "peek cp 0 = 0x30")
    case True
    then obtain cp' where cp: "cp = 0x30 # cp'" by (cases cp) (auto simp: peek_def)
    then have "peek cp' 0 \<noteq> 0x78"
      using assms(1) x by (cases cp') (auto simp: peek_def digits_of_def)
    moreover have "digit_value 0x30 = 0" "isxdigit 0x30" by (simp_all add: digit_value_def classes)
    ultimately show ?thesis
      using True b cp by (simp add: simple_strtoul_def Let_def word_gt_0)
  next
    case False
    then show ?thesis using b by (simp add: simple_strtoul_def Let_def)
  qed
qed

lemma digits_of_append [simp]: "digits_of base (a @ b) \<longleftrightarrow> digits_of base a \<and> digits_of base b"
  by (auto simp: digits_of_def)

lemma digits_of_zeros: "2 \<le> base \<Longrightarrow> digits_of base (replicate n 0x30)"
  by (auto simp: digits_of_def digit_value_def classes word_gt_0 word_le_nat_alt)

lemma strtoul_zeros:
  "2 \<le> base \<Longrightarrow> strtoul_digits base 0 (replicate n 0x30 @ cp) = strtoul_digits base 0 cp"
  using digits_of_zeros [of base 1] by (induction n) (simp_all add: digits_of_def digit_value_def classes)

definition digit_text :: "u8 list \<Rightarrow> u32 \<Rightarrow> u32 \<Rightarrow> u8 list" where
  "digit_text digits base num = rev (if num = 0 then [0x30] else num_digits digits base num)"

lemma digits_of_text:
  assumes "hex_alphabet digits" and "2 \<le> base" and "base \<le> 16"
  shows "digits_of base (digit_text digits base num)"
proof -
  have "isxdigit (digits ! d) \<and> digit_value (digits ! d) < base" if "d < unat base" for d
  proof -
    have d: "d < 16" using that assms(3) by (simp add: word_le_nat_alt)
    then have "of_nat d < base" using that by (simp add: word_less_nat_alt unat_of_nat)
    with alphabet_digit [OF assms(1) d] show ?thesis by simp
  qed
  with num_digits_chars [OF assms(2,3), of digits num] digits_of_zeros [OF assms(2), of 1]
  show ?thesis by (auto simp: digits_of_def digit_text_def)
qed

lemma strtoul_text:
  assumes "hex_alphabet digits" and "2 \<le> base" and "base \<le> 16"
  shows "simple_strtoul (replicate n 0x30 @ digit_text digits base num) base = (num, [])"
proof -
  have "simple_strtoul (replicate n 0x30 @ digit_text digits base num) base =
      strtoul_digits base 0 (digit_text digits base num)"
    using digits_of_text [OF assms] digits_of_zeros [OF assms(2)] strtoul_zeros [OF assms(2)]
    by (simp add: simple_strtoul_digits [OF _ assms(2)])
  also have "\<dots> = (num, [])"
    using strtoul_num_digits [OF assms, of 0 num "[]"] strtoul_zeros [OF assms(2), of 1 "[]"]
    by (simp add: digit_text_def)
  finally show ?thesis .
qed

lemma num_digits_nonempty: "2 \<le> base \<Longrightarrow> num \<noteq> 0 \<Longrightarrow> num_digits digits base num \<noteq> []"
  by (simp add: num_digits.simps [of digits base num] word_less_nat_alt word_le_nat_alt)

lemma digit_text_length: "2 \<le> base \<Longrightarrow> 1 \<le> length (digit_text digits base num)"
  using num_digits_nonempty [of base num digits] by (cases "num = 0") (auto simp: digit_text_def Suc_le_eq)

text \<open>The flags that a plain number may carry: alphabet and zero padding.\<close>

definition plain_type :: "u32 \<Rightarrow> bool" where
  "plain_type type \<longleftrightarrow> type AND SIGN = 0 \<and> type AND SPECIAL = 0 \<and> type AND LEFT = 0"

lemma number_plain:
  assumes "plain_type type" and base: "2 \<le> base" "base \<le> 16" and fit: "type AND ZEROPAD \<noteq> 0 \<or> sz \<le> 1"
  shows "\<exists>n digits. hex_alphabet digits \<and>
    number num base sz precision type = Some (replicate n 0x30 @ digit_text digits base num)"
proof -
  let ?D = "if type AND LARGE \<noteq> 0 then upper_digits else lower_digits"
  let ?t = "if num = 0 then [0x30] else num_digits ?D base num"
  let ?p = "max precision (int (length ?t))"
  have b: "\<not> (base < 2 \<or> 36 < base)"
    using base by (auto simp: word_less_nat_alt word_le_nat_alt)
  have t: "1 \<le> int (length ?t)"
    using num_digits_nonempty [OF base(1), of num ?D] by (cases "num = 0") (auto simp: Suc_le_eq)
  have zl: "type AND (ZEROPAD + LEFT) = 0 \<longleftrightarrow> type AND ZEROPAD = 0"
  proof -
    have "ZEROPAD + LEFT = (ZEROPAD OR LEFT :: u32)" by (simp add: number_flags)
    then have "type AND (ZEROPAD + LEFT) = (type AND ZEROPAD) OR (type AND LEFT)"
      by (simp add: bit.conj_disj_distrib)
    then show ?thesis using assms(1) by (simp add: plain_type_def)
  qed
  have "number num base sz precision type =
      Some (replicate (if type AND ZEROPAD = 0 then 0 else nat (sz - ?p)) 0x30 @
        replicate (nat (?p - int (length ?t))) 0x30 @ rev ?t)"
    using assms(1) b zl t fit
    by (simp add: number_def number_sign_def number_special_def number_field_def Let_def pad_def plain_type_def max_def split del: if_split cong: if_cong)
       (auto simp: max_def)
  then show ?thesis
    by (intro exI [of _ "(if type AND ZEROPAD = 0 then 0 else nat (sz - ?p)) + nat (?p - int (length ?t))"] exI [of _ ?D])
       (simp add: replicate_add digit_text_def hex_alphabet_def)
qed

lemma num_digits_length:
  "2 \<le> base \<Longrightarrow> unat num < unat base ^ k \<Longrightarrow> length (num_digits digits base num) \<le> k"
proof (induction k arbitrary: num)
  case 0
  then show ?case by (simp add: unat_eq_0)
next
  case (Suc k)
  show ?case
  proof (cases "num = 0 \<or> base < 2")
    case True
    then have "num = 0" using Suc.prems(1) by (auto simp: word_less_nat_alt word_le_nat_alt)
    then show ?thesis by simp
  next
    case False
    have "unat (num div base) < unat base ^ k"
      using Suc.prems(2) by (simp add: unat_div less_mult_imp_div_less mult.commute)
    from Suc.IH [OF Suc.prems(1) this] show ?thesis
      using False by (simp add: num_digits.simps [of digits base num])
  qed
qed

text \<open>
  The formatter stays inside its buffer of 66 characters, in every base (at most 32 digits are
  produced), and writes at least the field width it is asked for.
\<close>
theorem number_fits:
  assumes "number num base sz precision type = Some out"
  shows "length (num_digits digits base num) \<le> 32 \<and> sz \<le> int (length out)"
proof
  have b: "2 \<le> base" using assms by (auto simp: number_def Let_def split: if_splits)
  then have "unat num < unat base ^ 32"
    using unat_u32_less [of num] power_mono [of 2 "unat base" 32] by (simp add: word_le_nat_alt)
  with b show "length (num_digits digits base num) \<le> 32" by (rule num_digits_length)
  show "sz \<le> int (length out)"
  proof -
    let ?t = "if type AND LEFT \<noteq> 0 then type AND NOT ZEROPAD else type"
      and ?D = "if type AND LARGE \<noteq> 0 then upper_digits else lower_digits"
    obtain sg nm s1 where sg: "number_sign num sz ?t = (sg, nm, s1)" by (metis prod_cases3)
    then have s1: "s1 = sz - int (length sg)" using number_sign_width [of num sz ?t] by simp
    let ?n = "length (if nm = 0 then [0x30 :: u8] else num_digits ?D base nm)"
    let ?p = "if precision < int ?n then int ?n else precision"
    obtain c z where "out = number_field c ?t (s1 - int (length (number_special ?D base ?t)) - ?p)
        (sg @ number_special ?D base ?t) (z @ rev (if nm = 0 then [0x30] else num_digits ?D base nm))"
      and "length z = nat (?p - int ?n)"
      using assms b unfolding number_def Let_def number_special_width [of _ _ _ ?D] sg prod.case
      by (metis length_replicate option.inject option.distinct(1))
    then show ?thesis
      using number_field_width [of "s1 - int (length (number_special ?D base ?t)) - ?p" "sg @ number_special ?D base ?t"
          "z @ rev (if nm = 0 then [0x30] else num_digits ?D base nm)" c ?t] s1
      by (simp split: if_splits)
  qed
qed

theorem number_fits_witness:
  "\<exists>out. number 255 16 12 (-1) SPECIAL = Some out \<and> 12 \<le> int (length out)"
proof -
  obtain out where out: "number 255 16 12 (-1) SPECIAL = Some out"
    by (simp add: number_def number_sign_def number_special_def number_field_def Let_def pad_def number_flags)
  with number_fits [OF out] show ?thesis by blast
qed

lemma number_reads_back_lemma:
  assumes "plain_type type" and "2 \<le> base" and "base \<le> 16" and "type AND ZEROPAD \<noteq> 0 \<or> sz \<le> 1"
  shows "\<exists>s. number num base sz precision type = Some s \<and> simple_strtoul s base = (num, [])"
  using number_plain [OF assms, of num precision] strtoul_text [OF _ assms(2,3), of _ _ num] by metis

text \<open>
  A number that is printed without sign, prefix or blanks reads back as itself, in every base
  that \<open>simple_strtoul\<close> knows, with any zero padding and precision, in both alphabets.
\<close>
theorem number_reads_back:
  assumes "plain_type type" and "2 \<le> base" and "base \<le> 16" and "type AND ZEROPAD \<noteq> 0 \<or> sz \<le> 1"
  shows "\<exists>s. number num base sz precision type = Some s \<and> simple_strtoul s base = (num, [])"
  by (rule number_reads_back_lemma [OF assms])

theorem number_reads_back_witness:
  "\<exists>s. number 0xBEEF 16 8 (-1) (ZEROPAD OR LARGE) = Some s \<and> simple_strtoul s 16 = (0xBEEF, [])"
  by (rule number_reads_back) (simp_all add: plain_type_def number_flags)

text \<open>A directive of the conversion \<open>d\<close> without flags.\<close>

lemma digit_text_first:
  assumes "hex_alphabet digits" and "2 \<le> base" and "base \<le> 16"
  shows "peek (digit_text digits base num) 0 \<noteq> 0x2D"
proof
  assume "peek (digit_text digits base num) 0 = 0x2D"
  moreover have "digit_text digits base num \<noteq> []" using digit_text_length [OF assms(2), of digits num] by auto
  ultimately have "0x2D \<in> set (digit_text digits base num)" unfolding peek_def by (metis length_greater_0_conv nth_mem)
  then have "isxdigit 0x2D" using digits_of_text [OF assms, of num] by (auto simp: digits_of_def)
  then show False by (simp add: classes)
qed

lemma number_signed:
  "number v 10 (-1) (-1) SIGN =
    Some (if sint v < 0 then 0x2D # digit_text lower_digits 10 (- v) else digit_text lower_digits 10 v)"
  by (simp add: number_def number_sign_def number_special_def number_field_def Let_def number_flags pad_def digit_text_def)

lemma hex8_length: "length (digit_text lower_digits 16 v) \<le> 8"
  using num_digits_length [of 16 v 8 lower_digits] unat_u32_less [of v] by (simp add: digit_text_def)

lemma number_hex8:
  "number v 16 8 (-1) ZEROPAD =
    Some (replicate (8 - length (digit_text lower_digits 16 v)) 0x30 @ digit_text lower_digits 16 v)"
proof -
  have "nat (8 - int n) = 8 - n" for n :: nat by simp
  then show ?thesis
    using hex8_length [of v]
    by (simp add: number_def number_sign_def number_special_def number_field_def Let_def number_flags pad_def
        digit_text_def del: nat_diff_distrib')
qed

text \<open>
  C26: \<open>sprintf\<close> and the number parsers are inverse: what \<open>%d\<close> prints, \<open>simple_strtol\<close> reads back,
  the most negative number included, and what \<open>%08x\<close> prints is eight characters that
  \<open>simple_strtoul\<close> reads back.
\<close>
theorem sprintf_reads_back:
  "(\<exists>s. vsprintf [0x25, 0x64] [VInt v] = Some (of_nat (length s), s, []) \<and> simple_strtol s 10 = (v, [])) \<and>
   (\<exists>s. vsprintf [0x25, 0x30, 0x38, 0x78] [VInt v] = Some (8, s, []) \<and> simple_strtoul s 16 = (v, []))"
proof
  have lower: "hex_alphabet lower_digits" by (simp add: hex_alphabet_def)
  let ?s = "if sint v < 0 then 0x2D # digit_text lower_digits 10 (- v) else digit_text lower_digits 10 v"
  have "vsprintf [0x25, 0x64] [VInt v] = Some (of_nat (length ?s), ?s, [])"
    using number_signed [of v]
    by (simp add: vsprintf_def fmt_directive_def fmt_width_def fmt_precision_def fmt_qualifier_def
        is_digit_def peek_def fmt_value_def number_flags del: of_nat_Suc)
  moreover have "simple_strtol ?s 10 = (v, [])"
    using strtoul_text [OF lower, of 10 0] digit_text_first [OF lower, of 10 v]
    by (cases "sint v < 0") (simp_all add: simple_strtol_def)
  ultimately show "\<exists>s. vsprintf [0x25, 0x64] [VInt v] = Some (of_nat (length s), s, []) \<and> simple_strtol s 10 = (v, [])"
    by blast
next
  have lower: "hex_alphabet lower_digits" by (simp add: hex_alphabet_def)
  let ?s = "replicate (8 - length (digit_text lower_digits 16 v)) 0x30 @ digit_text lower_digits 16 v"
  have "length ?s = 8" using hex8_length [of v] by simp
  then have "vsprintf [0x25, 0x30, 0x38, 0x78] [VInt v] = Some (8, ?s, [])"
    using number_hex8 [of v]
    by (simp add: vsprintf_def fmt_directive_def fmt_width_def fmt_precision_def fmt_qualifier_def
        is_digit_def peek_def fmt_value_def number_flags)
  moreover have "simple_strtoul ?s 16 = (v, [])"
    by (rule strtoul_text [OF lower]) simp_all
  ultimately show "\<exists>s. vsprintf [0x25, 0x30, 0x38, 0x78] [VInt v] = Some (8, s, []) \<and> simple_strtoul s 16 = (v, [])"
    by blast
qed

end
