(* ===== verification/Cstring.thy ===== *)
theory Cstring
  imports Prelude
begin

text \<open>
  The string library \<open>lib_generic/string.c\<close> on memory. A pointer is an address, \<open>char\<close> is
  unsigned as on every ARM build, a \<open>NULL\<close> result is the address 0. A loop that is bounded by a
  count is a recursion on it; a loop that looks for a terminator is a partial function, \<open>None\<close>
  if it never finds one. \<open>strdup\<close> (which needs the allocator) is left out.
\<close>

section \<open>Copying and concatenating\<close>

partial_function (option) strcpy :: "u32 \<Rightarrow> u32 \<Rightarrow> (u32 \<Rightarrow> u8) \<Rightarrow> (u32 \<Rightarrow> u8) option" where
  "strcpy dest src m =
     (let c = m src; m = m(dest := c)
      in if c \<noteq> 0 then strcpy (dest + 1) (src + 1) m else Some m)"

primrec strncpy_loop :: "nat \<Rightarrow> u32 \<Rightarrow> u32 \<Rightarrow> (u32 \<Rightarrow> u8) \<Rightarrow> (u32 \<Rightarrow> u8)" where
  "strncpy_loop 0 dest src m = m"
| "strncpy_loop (Suc count) dest src m =
     (let c = m src; m = m(dest := c)
      in if c \<noteq> 0 then strncpy_loop count (dest + 1) (src + 1) m else m)"

definition strncpy :: "u32 \<Rightarrow> u32 \<Rightarrow> u32 \<Rightarrow> (u32 \<Rightarrow> u8) \<Rightarrow> (u32 \<Rightarrow> u8)" where
  "strncpy dest src count m = strncpy_loop (unat count) dest src m"

text \<open>\<open>while (*dest) dest++\<close>, here and in \<open>strlen\<close>: the address of the terminator.\<close>

partial_function (option) str_end :: "(u32 \<Rightarrow> u8) \<Rightarrow> u32 \<Rightarrow> u32 option" where
  "str_end m s = (if m s \<noteq> 0 then str_end m (s + 1) else Some s)"

definition strcat :: "u32 \<Rightarrow> u32 \<Rightarrow> (u32 \<Rightarrow> u8) \<Rightarrow> (u32 \<Rightarrow> u8) option" where
  "strcat dest src m = do { dest \<leftarrow> str_end m dest; strcpy dest src m }"

text \<open>The copy loop of \<open>strncat\<close>, entered with a count that is not 0.\<close>

fun strncat_loop :: "nat \<Rightarrow> u32 \<Rightarrow> u32 \<Rightarrow> (u32 \<Rightarrow> u8) \<Rightarrow> (u32 \<Rightarrow> u8)" where
  "strncat_loop 0 dest src m = m"
| "strncat_loop (Suc count) dest src m =
     (let c = m src; m = m(dest := c); dest = dest + 1
      in if c = 0 then m else if count = 0 then m(dest := 0) else strncat_loop count dest (src + 1) m)"

definition strncat :: "u32 \<Rightarrow> u32 \<Rightarrow> u32 \<Rightarrow> (u32 \<Rightarrow> u8) \<Rightarrow> (u32 \<Rightarrow> u8) option" where
  "strncat dest src count m =
     (if count \<noteq> 0 then do { dest \<leftarrow> str_end m dest; Some (strncat_loop (unat count) dest src m) }
      else Some m)"

section \<open>Comparing\<close>

text \<open>\<open>__res\<close> is a \<open>signed char\<close>: the difference of two bytes is cut to eight bits.\<close>

partial_function (option) strcmp_loop :: "(u32 \<Rightarrow> u8) \<Rightarrow> u32 \<Rightarrow> u32 \<Rightarrow> u8 option" where
  "strcmp_loop m cs ct =
     (let res = m cs - m ct
      in if res \<noteq> 0 \<or> m cs = 0 then Some res else strcmp_loop m (cs + 1) (ct + 1))"

definition strcmp :: "(u32 \<Rightarrow> u8) \<Rightarrow> u32 \<Rightarrow> u32 \<Rightarrow> u32 option" where
  "strcmp m cs ct = map_option scast (strcmp_loop m cs ct)"

primrec strncmp_loop :: "nat \<Rightarrow> u8 \<Rightarrow> (u32 \<Rightarrow> u8) \<Rightarrow> u32 \<Rightarrow> u32 \<Rightarrow> u8" where
  "strncmp_loop 0 res m cs ct = res"
| "strncmp_loop (Suc count) res m cs ct =
     (let res = m cs - m ct
      in if res \<noteq> 0 \<or> m cs = 0 then res else strncmp_loop count res m (cs + 1) (ct + 1))"

definition strncmp :: "(u32 \<Rightarrow> u8) \<Rightarrow> u32 \<Rightarrow> u32 \<Rightarrow> u32 \<Rightarrow> u32" where
  "strncmp m cs ct count = scast (strncmp_loop (unat count) 0 m cs ct)"

primrec memcmp_loop :: "nat \<Rightarrow> (u32 \<Rightarrow> u8) \<Rightarrow> u32 \<Rightarrow> u32 \<Rightarrow> u32" where
  "memcmp_loop 0 m su1 su2 = 0"
| "memcmp_loop (Suc count) m su1 su2 =
     (let res = ucast (m su1) - ucast (m su2)
      in if res \<noteq> 0 then res else memcmp_loop count m (su1 + 1) (su2 + 1))"

definition memcmp :: "(u32 \<Rightarrow> u8) \<Rightarrow> u32 \<Rightarrow> u32 \<Rightarrow> u32 \<Rightarrow> u32" where
  "memcmp m cs ct count = memcmp_loop (unat count) m cs ct"

section \<open>Searching\<close>

partial_function (option) strchr :: "(u32 \<Rightarrow> u8) \<Rightarrow> u32 \<Rightarrow> u8 \<Rightarrow> u32 option" where
  "strchr m s c = (if m s \<noteq> c then if m s = 0 then Some 0 else strchr m (s + 1) c else Some s)"

definition strlen :: "(u32 \<Rightarrow> u8) \<Rightarrow> u32 \<Rightarrow> u32 option" where
  "strlen m s = map_option (\<lambda>sc. sc - s) (str_end m s)"

text \<open>The loop of \<open>strrchr\<close> goes down while \<open>--p >= s\<close>, a comparison of pointers.\<close>

partial_function (option) strrchr_loop :: "(u32 \<Rightarrow> u8) \<Rightarrow> u32 \<Rightarrow> u8 \<Rightarrow> u32 \<Rightarrow> u32 option" where
  "strrchr_loop m s c p =
     (if m p = c then Some p
      else if s \<le> p - 1 then strrchr_loop m s c (p - 1) else Some 0)"

definition strrchr :: "(u32 \<Rightarrow> u8) \<Rightarrow> u32 \<Rightarrow> u8 \<Rightarrow> u32 option" where
  "strrchr m s c = do { n \<leftarrow> strlen m s; strrchr_loop m s c (s + n) }"

primrec strnlen_loop :: "nat \<Rightarrow> (u32 \<Rightarrow> u8) \<Rightarrow> u32 \<Rightarrow> u32" where
  "strnlen_loop 0 m sc = sc"
| "strnlen_loop (Suc count) m sc = (if m sc \<noteq> 0 then strnlen_loop count m (sc + 1) else sc)"

definition strnlen :: "(u32 \<Rightarrow> u8) \<Rightarrow> u32 \<Rightarrow> u32 \<Rightarrow> u32" where
  "strnlen m s count = strnlen_loop (unat count) m s - s"

text \<open>The inner loop of \<open>strspn\<close> and \<open>strpbrk\<close>: does the string at \<open>a\<close> contain the byte?\<close>

partial_function (option) char_in :: "(u32 \<Rightarrow> u8) \<Rightarrow> u8 \<Rightarrow> u32 \<Rightarrow> bool option" where
  "char_in m c a = (if m a \<noteq> 0 then if c = m a then Some True else char_in m c (a + 1) else Some False)"

partial_function (option) strspn_loop :: "(u32 \<Rightarrow> u8) \<Rightarrow> u32 \<Rightarrow> u32 \<Rightarrow> u32 \<Rightarrow> u32 option" where
  "strspn_loop m accept p count =
     (if m p \<noteq> 0
      then Option.bind (char_in m (m p) accept)
        (\<lambda>found. if \<not> found then Some count else strspn_loop m accept (p + 1) (count + 1))
      else Some count)"

definition strspn :: "(u32 \<Rightarrow> u8) \<Rightarrow> u32 \<Rightarrow> u32 \<Rightarrow> u32 option" where
  "strspn m s accept = strspn_loop m accept s 0"

partial_function (option) strpbrk :: "(u32 \<Rightarrow> u8) \<Rightarrow> u32 \<Rightarrow> u32 \<Rightarrow> u32 option" where
  "strpbrk m cs ct =
     (if m cs \<noteq> 0
      then Option.bind (char_in m (m cs) ct) (\<lambda>found. if found then Some cs else strpbrk m (cs + 1) ct)
      else Some 0)"

primrec memscan_loop :: "nat \<Rightarrow> (u32 \<Rightarrow> u8) \<Rightarrow> u32 \<Rightarrow> u32 \<Rightarrow> u32" where
  "memscan_loop 0 m p c = p"
| "memscan_loop (Suc n) m p c = (if ucast (m p) = c then p else memscan_loop n m (p + 1) c)"

definition memscan :: "(u32 \<Rightarrow> u8) \<Rightarrow> u32 \<Rightarrow> u32 \<Rightarrow> u32 \<Rightarrow> u32" where
  "memscan m addr c n = memscan_loop (unat n) m addr c"

primrec memchr_loop :: "nat \<Rightarrow> (u32 \<Rightarrow> u8) \<Rightarrow> u32 \<Rightarrow> u8 \<Rightarrow> u32" where
  "memchr_loop 0 m p c = 0"
| "memchr_loop (Suc n) m p c = (if c = m p then p else memchr_loop n m (p + 1) c)"

definition memchr :: "(u32 \<Rightarrow> u8) \<Rightarrow> u32 \<Rightarrow> u8 \<Rightarrow> u32 \<Rightarrow> u32" where
  "memchr m s c n = memchr_loop (unat n) m s c"

text \<open>\<open>l1\<close> and \<open>l2\<close> are \<open>int\<close>; the count of \<open>memcmp\<close> is \<open>l2\<close> again.\<close>

partial_function (option) strstr_loop :: "(u32 \<Rightarrow> u8) \<Rightarrow> u32 \<Rightarrow> u32 \<Rightarrow> u32 \<Rightarrow> u32 \<Rightarrow> u32 option" where
  "strstr_loop m s1 s2 l1 l2 =
     (if sint l2 \<le> sint l1
      then if memcmp m s1 s2 l2 = 0 then Some s1 else strstr_loop m (s1 + 1) s2 (l1 - 1) l2
      else Some 0)"

definition strstr :: "(u32 \<Rightarrow> u8) \<Rightarrow> u32 \<Rightarrow> u32 \<Rightarrow> u32 option" where
  "strstr m s1 s2 = do {
     l2 \<leftarrow> strlen m s2;
     if l2 = 0 then Some s1
     else do { l1 \<leftarrow> strlen m s1; strstr_loop m s1 s2 l1 l2 }
   }"

section \<open>Tokens\<close>

text \<open>\<open>strtok\<close> keeps its place in the global \<open>___strtok\<close>, an argument and a result here.\<close>

definition strtok :: "u32 \<Rightarrow> u32 \<Rightarrow> u32 \<times> (u32 \<Rightarrow> u8) \<Rightarrow> (u32 \<times> u32 \<times> (u32 \<Rightarrow> u8)) option" where
  "strtok s ct = (\<lambda>(strtok_ptr, m).
     let sbegin = (if s \<noteq> 0 then s else strtok_ptr) in
     if sbegin = 0 then Some (0, strtok_ptr, m)
     else do {
       n \<leftarrow> strspn m sbegin ct;
       let sbegin = sbegin + n;
       if m sbegin = 0 then Some (0, 0, m)
       else do {
         send \<leftarrow> strpbrk m sbegin ct;
         if send \<noteq> 0 \<and> m send \<noteq> 0 then Some (sbegin, send + 1, m(send := 0))
         else Some (sbegin, send, m)
       }
     })"

text \<open>\<open>strsep\<close>: the token and the new value of \<open>*s\<close>.\<close>

definition strsep :: "u32 \<Rightarrow> u32 \<Rightarrow> (u32 \<Rightarrow> u8) \<Rightarrow> (u32 \<times> u32 \<times> (u32 \<Rightarrow> u8)) option" where
  "strsep s ct m =
     (if s = 0 then Some (0, 0, m)
      else do {
        e \<leftarrow> strpbrk m s ct;
        if e \<noteq> 0 then Some (s, e + 1, m(e := 0)) else Some (s, 0, m)
      })"

partial_function (option) strswab_loop :: "u32 \<Rightarrow> u32 \<Rightarrow> (u32 \<Rightarrow> u8) \<Rightarrow> (u32 \<Rightarrow> u8) option" where
  "strswab_loop p q m =
     (if m p \<noteq> 0 \<and> m q \<noteq> 0 then strswab_loop (p + 2) (q + 2) (m(p := m q, q := m p)) else Some m)"

definition strswab :: "u32 \<Rightarrow> (u32 \<Rightarrow> u8) \<Rightarrow> (u32 \<times> (u32 \<Rightarrow> u8)) option" where
  "strswab s m =
     (if s = 0 \<or> m s = 0 then Some (0, m)
      else do { m \<leftarrow> strswab_loop s (s + 1) m; Some (s, m) })"

section \<open>Blocks of memory\<close>

primrec memset_loop :: "nat \<Rightarrow> u32 \<Rightarrow> u8 \<Rightarrow> (u32 \<Rightarrow> u8) \<Rightarrow> (u32 \<Rightarrow> u8)" where
  "memset_loop 0 xs c m = m"
| "memset_loop (Suc count) xs c m = memset_loop count (xs + 1) c (m(xs := c))"

definition memset :: "u32 \<Rightarrow> u32 \<Rightarrow> u32 \<Rightarrow> (u32 \<Rightarrow> u8) \<Rightarrow> (u32 \<Rightarrow> u8)" where
  "memset s c count m = memset_loop (unat count) s (ucast c) m"

primrec copy_up :: "nat \<Rightarrow> u32 \<Rightarrow> u32 \<Rightarrow> (u32 \<Rightarrow> u8) \<Rightarrow> (u32 \<Rightarrow> u8)" where
  "copy_up 0 tmp s m = m"
| "copy_up (Suc count) tmp s m = copy_up count (tmp + 1) (s + 1) (m(tmp := m s))"

primrec copy_down :: "nat \<Rightarrow> u32 \<Rightarrow> u32 \<Rightarrow> (u32 \<Rightarrow> u8) \<Rightarrow> (u32 \<Rightarrow> u8)" where
  "copy_down 0 tmp s m = m"
| "copy_down (Suc count) tmp s m = copy_down count (tmp - 1) (s - 1) (m(tmp - 1 := m (s - 1)))"

definition memcpy :: "u32 \<Rightarrow> u32 \<Rightarrow> u32 \<Rightarrow> (u32 \<Rightarrow> u8) \<Rightarrow> (u32 \<Rightarrow> u8)" where
  "memcpy dest src count m = copy_up (unat count) dest src m"

definition bcopy :: "u32 \<Rightarrow> u32 \<Rightarrow> u32 \<Rightarrow> (u32 \<Rightarrow> u8) \<Rightarrow> (u32 \<Rightarrow> u8)" where
  "bcopy src dest count m = copy_up (unat count) dest src m"

definition memmove :: "u32 \<Rightarrow> u32 \<Rightarrow> u32 \<Rightarrow> (u32 \<Rightarrow> u8) \<Rightarrow> (u32 \<Rightarrow> u8)" where
  "memmove dest src count m =
     (if dest \<le> src then copy_up (unat count) dest src m
      else copy_down (unat count) (dest + count) (src + count) m)"

section \<open>Strings in memory\<close>

fun cstring :: "(u32 \<Rightarrow> u8) \<Rightarrow> u32 \<Rightarrow> u8 list \<Rightarrow> bool" where
  "cstring m p [] \<longleftrightarrow> m p = 0"
| "cstring m p (c # cs) \<longleftrightarrow> m p = c \<and> c \<noteq> 0 \<and> cstring m (p + 1) cs"

lemma cstring_append:
  "cstring m p (xs @ ys) \<longleftrightarrow>
     (\<forall>i<length xs. m (p + of_nat i) = xs ! i) \<and> 0 \<notin> set xs \<and> cstring m (p + of_nat (length xs)) ys"
  by (induction xs arbitrary: p) (auto simp: All_less_Suc2 add_ac)

lemma cstring_iff:
  "cstring m p xs \<longleftrightarrow> (\<forall>i<length xs. m (p + of_nat i) = xs ! i) \<and> 0 \<notin> set xs \<and> m (p + of_nat (length xs)) = 0"
  using cstring_append [of m p xs "[]"] by simp

lemma str_end_value: "cstring m p xs \<Longrightarrow> str_end m p = Some (p + of_nat (length xs))"
  by (induction xs arbitrary: p) (simp_all add: str_end.simps [of m] add_ac)

lemma strlen_value: "cstring m p xs \<Longrightarrow> strlen m p = Some (of_nat (length xs))"
  by (simp add: strlen_def str_end_value)

section \<open>Comparison\<close>

text \<open>The difference of the first bytes that differ, the terminator included, in eight bits.\<close>

fun str_diff :: "u8 list \<Rightarrow> u8 list \<Rightarrow> u8" where
  "str_diff [] [] = 0"
| "str_diff [] (y # ys) = - y"
| "str_diff (x # xs) [] = x"
| "str_diff (x # xs) (y # ys) = (if x = y then str_diff xs ys else x - y)"

lemma strcmp_loop_value:
  "cstring m a xs \<Longrightarrow> cstring m b ys \<Longrightarrow> strcmp_loop m a b = Some (str_diff xs ys)"
  by (induction xs ys arbitrary: a b rule: str_diff.induct) (auto simp: strcmp_loop.simps [of m] Let_def)

lemma str_diff_0: "0 \<notin> set xs \<Longrightarrow> 0 \<notin> set ys \<Longrightarrow> str_diff xs ys = 0 \<longleftrightarrow> xs = ys"
  by (induction xs ys rule: str_diff.induct) auto

lemma str_diff_prefix: "str_diff (ps @ xs) (ps @ ys) = str_diff xs ys"
  by (induction ps) simp_all

lemma sint_scast_u8: "sint (scast (d :: u8) :: u32) = sint d"
  by (rule sint_up_scast) (simp add: is_up)

text \<open>
  \<open>strcmp\<close> decides equality of strings.
\<close>
theorem strcmp_decides:
  assumes "cstring m a xs" and "cstring m b ys"
  shows "\<exists>r. strcmp m a b = Some r \<and> (r = 0 \<longleftrightarrow> xs = ys)"
proof -
  have z: "(scast (d :: u8) :: u32) = 0 \<longleftrightarrow> d = 0" for d
    using sint_scast_u8 [of d] by (metis signed_eq_0_iff)
  have "0 \<notin> set xs" "0 \<notin> set ys" using assms by (simp_all add: cstring_iff)
  then show ?thesis
    using strcmp_loop_value [OF assms] by (simp add: strcmp_def z str_diff_0)
qed

theorem strcmp_decides_witness:
  "\<exists>r. strcmp ((\<lambda>_. 0)(16 := 65, 32 := 66)) 16 32 = Some r \<and> (r = 0 \<longleftrightarrow> [65 :: u8] = [66])"
  by (rule strcmp_decides) simp_all

lemma sint_u8_neg: "sint (d :: u8) < 0 \<longleftrightarrow> 128 \<le> unat d"
proof -
  have "bit d 7 \<longleftrightarrow> odd (unat d div 128)"
    using bit_unsigned_iff [of d 7, where ?'a = nat] by (simp add: bit_iff_odd [of "unat d"])
  also have "\<dots> \<longleftrightarrow> 128 \<le> unat d"
  proof (cases "128 \<le> unat d")
    case True
    then have "unat d div 128 = 1" using unat_u8_less [of d] by simp
    with True show ?thesis by simp
  qed simp
  finally show ?thesis using bit_last_iff [of d] by simp
qed

text \<open>
  The sign of \<open>strcmp\<close> orders the strings when both deciding bytes are ASCII, and is the
  wrong way round when the larger byte is more than 128 above the smaller one: the difference is
  kept in a \<open>signed char\<close>.
\<close>
theorem strcmp_sign:
  assumes "cstring m a (ps @ x # xs)" and "cstring m b (ps @ y # ys)" and "x \<noteq> y"
  shows "\<exists>r. strcmp m a b = Some r \<and> r \<noteq> 0 \<and>
    (x < 128 \<and> y < 128 \<longrightarrow> (sint r < 0 \<longleftrightarrow> x < y)) \<and>
    (unat y + 128 < unat x \<longrightarrow> sint r < 0) \<and> (unat x + 128 < unat y \<longrightarrow> 0 < sint r)"
proof -
  let ?r = "scast (x - y) :: u32"
  have r: "strcmp m a b = Some ?r"
    using strcmp_loop_value [OF assms(1,2)] assms(3) by (simp add: strcmp_def str_diff_prefix)
  have u: "unat (x - y) = (if unat y \<le> unat x then unat x - unat y else 256 + unat x - unat y)"
    using unat_u8_less [of y] by (auto simp: unat_sub_if')
  have nz: "sint ?r \<noteq> 0" using assms(3) by (simp add: sint_scast_u8 signed_eq_0_iff)
  moreover have "sint ?r < 0 \<longleftrightarrow> 128 \<le> unat (x - y)" by (simp add: sint_scast_u8 sint_u8_neg)
  moreover have "?r \<noteq> 0" using nz by auto
  ultimately show ?thesis
    using unat_u8_less [of x] unat_u8_less [of y] assms(3) r u
    by (intro exI [of _ ?r]) (auto simp: word_less_nat_alt word_unat_eq_iff)
qed

section \<open>Copying blocks\<close>

lemma blit_cong: "(\<And>i. i < n \<Longrightarrow> f i = g i) \<Longrightarrow> blit m a n f = blit m a n g"
  by (auto simp: blit_def fun_eq_iff)

lemma blit_Suc:
  assumes "Suc n \<le> 2 ^ 32"
  shows "blit (m(a := f 0)) (a + 1) n (\<lambda>i. f (Suc i)) = blit m a (Suc n) f"
proof -
  have "blit m a 1 f = m(a := f 0)" by (auto simp: blit_def fun_eq_iff unat_eq_0)
  then show ?thesis using blit_append [of 1 n m a f] assms by simp
qed

lemma blit_last:
  assumes "Suc n \<le> 2 ^ 32"
  shows "blit (m(a + of_nat n := f n)) a n f = blit m a (Suc n) f"
proof
  fix x
  have "x = a + of_nat n \<longleftrightarrow> unat (x - a) = n"
    using assms by (metis add_diff_cancel_left' diff_add_cancel add.commute of_nat_unat ucast_id Suc_le_eq unat_of_nat_u32)
  then show "blit (m(a + of_nat n := f n)) a n f x = blit m a (Suc n) f x"
    by (auto simp: blit_def less_Suc_eq)
qed

lemma copy_up_blit:
  assumes "n \<le> 2 ^ 32" and "\<And>i j. j < i \<Longrightarrow> i < n \<Longrightarrow> src + of_nat i \<noteq> dest + of_nat j"
  shows "copy_up n dest src m = blit m dest n (\<lambda>i. m (src + of_nat i))"
  using assms
proof (induction n arbitrary: dest src m)
  case (Suc n)
  have "copy_up n (dest + 1) (src + 1) (m(dest := m src)) =
      blit (m(dest := m src)) (dest + 1) n (\<lambda>i. (m(dest := m src)) (src + 1 + of_nat i))"
    using Suc.prems(1) Suc.prems(2) [of "Suc _" "Suc _"] by (intro Suc.IH) (auto simp: add_ac)
  also have "\<dots> = blit (m(dest := m src)) (dest + 1) n (\<lambda>i. m (src + of_nat (Suc i)))"
    using Suc.prems(2) [of 0 "Suc _"] by (intro blit_cong) (auto simp: add_ac)
  also have "\<dots> = blit m dest (Suc n) (\<lambda>i. m (src + of_nat i))"
    using blit_Suc [OF Suc.prems(1), of m dest "\<lambda>i. m (src + of_nat i)"] by simp
  finally show ?case by simp
qed simp

lemma copy_down_blit:
  assumes "n \<le> 2 ^ 32" and "\<And>i j. i < j \<Longrightarrow> j < n \<Longrightarrow> src + of_nat i \<noteq> dest + of_nat j"
  shows "copy_down n (dest + of_nat n) (src + of_nat n) m = blit m dest n (\<lambda>i. m (src + of_nat i))"
  using assms
proof (induction n arbitrary: m)
  case (Suc n)
  let ?m = "m(dest + of_nat n := m (src + of_nat n))"
  have "copy_down n (dest + of_nat n) (src + of_nat n) ?m = blit ?m dest n (\<lambda>i. ?m (src + of_nat i))"
    using Suc.prems by (intro Suc.IH) auto
  also have "\<dots> = blit ?m dest n (\<lambda>i. m (src + of_nat i))"
    using Suc.prems(2) [of _ n] by (intro blit_cong) auto
  also have "\<dots> = blit m dest (Suc n) (\<lambda>i. m (src + of_nat i))"
    by (rule blit_last [OF Suc.prems(1)])
  finally show ?case by (simp add: add_ac)
qed simp

theorem strcmp_sign_witness:
  "\<exists>r. strcmp ((\<lambda>_. 0)(16 := 0xE9, 32 := 0x41)) 16 32 = Some r \<and> sint r < 0"
  using strcmp_sign [of "(\<lambda>_. 0)(16 := 0xE9, 32 := 0x41)" 16 "[]" "0xE9" "[]" 32 "0x41" "[]"]
  by auto

lemma offsets_apart:
  assumes "unat d + n \<le> 2 ^ 32" and "unat s + n \<le> 2 ^ 32" and "i < n" and "j < n"
    and "s + of_nat i = d + (of_nat j :: u32)"
  shows "unat s + i = unat d + j"
proof -
  have "unat (s + of_nat i) = unat s + i" "unat (d + of_nat j) = unat d + j"
    by (intro unat_add_value(1) unat_of_nat_u32; use assms in simp)+
  with assms(5) show ?thesis by simp
qed

text \<open>
  C29: \<open>memmove\<close> moves a block correctly wherever the two blocks lie, overlapping ones included,
  and changes nothing else; \<open>memcpy\<close> does when the destination is not above the source or the
  blocks do not overlap.
\<close>
theorem memmove_moves:
  assumes "unat dest + unat count \<le> 2 ^ 32" and "unat src + unat count \<le> 2 ^ 32"
  shows "memmove dest src count m = blit m dest (unat count) (\<lambda>i. m (src + of_nat i)) \<and>
    (dest \<le> src \<or> unat src + unat count \<le> unat dest \<longrightarrow>
      memcpy dest src count m = blit m dest (unat count) (\<lambda>i. m (src + of_nat i)))"
proof -
  have n: "unat count \<le> 2 ^ 32" using unat_u32_less [of count] by simp
  note apart = offsets_apart [OF assms]
  have up: "copy_up (unat count) dest src m = blit m dest (unat count) (\<lambda>i. m (src + of_nat i))"
    if "dest \<le> src \<or> unat src + unat count \<le> unat dest"
  proof (rule copy_up_blit [OF n], rule notI)
    fix i j
    assume ij: "j < i" "i < unat count" and "src + of_nat i = dest + of_nat j"
    from apart [OF _ _ this(3)] ij have "unat src + i = unat dest + j" by simp
    with that ij show False by (auto simp: word_le_nat_alt)
  qed
  have down: "copy_down (unat count) (dest + of_nat (unat count)) (src + of_nat (unat count)) m =
      blit m dest (unat count) (\<lambda>i. m (src + of_nat i))" if "\<not> dest \<le> src"
  proof (rule copy_down_blit [OF n], rule notI)
    fix i j
    assume ij: "i < j" "j < unat count" and "src + of_nat i = dest + of_nat j"
    from apart [OF _ _ this(3)] ij have "unat src + i = unat dest + j" by simp
    with that ij show False by (auto simp: word_le_nat_alt)
  qed
  with up show ?thesis by (simp add: memmove_def memcpy_def)
qed

theorem memmove_moves_witness:
  "memmove 12 10 4 (\<lambda>a. ucast a) 14 = 12"
  using memmove_moves [of 12 4 10 "\<lambda>a. ucast a"] by (simp add: blit_def)

section \<open>Tokens\<close>

lemma char_in_value: "cstring m a ds \<Longrightarrow> c \<noteq> 0 \<Longrightarrow> char_in m c a = Some (c \<in> set ds)"
  by (induction ds arbitrary: a) (auto simp: char_in.simps [of m])

lemma strpbrk_found:
  assumes "cstring m ct ds" and "d \<in> set ds"
  shows "\<forall>c\<in>set tok. c \<notin> set ds \<Longrightarrow> cstring m cs (tok @ d # rest) \<Longrightarrow>
    strpbrk m cs ct = Some (cs + of_nat (length tok))"
  by (induction tok arbitrary: cs)
     (auto simp: strpbrk.simps [of m] char_in_value [OF assms(1)] assms(2) add_ac)

lemma strpbrk_none:
  assumes "cstring m ct ds"
  shows "\<forall>c\<in>set tok. c \<notin> set ds \<Longrightarrow> cstring m cs tok \<Longrightarrow> strpbrk m cs ct = Some 0"
  by (induction tok arbitrary: cs) (auto simp: strpbrk.simps [of m] char_in_value [OF assms])

text \<open>
  \<open>strsep\<close> cuts the string at the first delimiter: the token is terminated in place and the
  new position is the rest of the string. Without a delimiter the whole string is the token and
  the position becomes \<open>NULL\<close>.
\<close>
theorem strsep_splits:
  assumes "cstring m ct ds" and "\<forall>c\<in>set tok. c \<notin> set ds" and "s \<noteq> 0"
  shows "(cstring m s tok \<longrightarrow> strsep s ct m = Some (s, 0, m)) \<and>
    (d \<in> set ds \<and> cstring m s (tok @ d # rest) \<and> length (tok @ d # rest) < 2 ^ 32 - unat s \<longrightarrow>
      (\<exists>m'. strsep s ct m = Some (s, s + of_nat (length tok) + 1, m') \<and>
        cstring m' s tok \<and> cstring m' (s + of_nat (length tok) + 1) rest))"
proof (intro conjI impI)
  assume "cstring m s tok"
  then show "strsep s ct m = Some (s, 0, m)"
    using strpbrk_none [OF assms(1,2)] assms(3) by (simp add: strsep_def)
next
  assume "d \<in> set ds \<and> cstring m s (tok @ d # rest) \<and> length (tok @ d # rest) < 2 ^ 32 - unat s"
  then have d: "d \<in> set ds" and str: "cstring m s (tok @ d # rest)"
    and len: "unat s + length tok + 1 + length rest < 2 ^ 32" by (auto simp: less_diff_conv)
  let ?e = "s + of_nat (length tok)"
  let ?m = "m(?e := 0)"
  have at: "unat (s + of_nat i) = unat s + i" if "i \<le> length tok + 1 + length rest" for i
    by (intro unat_add_value(1) unat_of_nat_u32; use len that in simp)
  have "?e \<noteq> 0" using at [of "length tok"] assms(3) by (auto simp: unat_gt_0 dest: arg_cong [of _ _ unat])
  then have "strsep s ct m = Some (s, ?e + 1, ?m)"
    using strpbrk_found [OF assms(1) d assms(2) str] assms(3) by (simp add: strsep_def)
  moreover have same: "?m (s + of_nat i) = m (s + of_nat i)" if "i \<le> length tok + 1 + length rest" "i \<noteq> length tok" for i
    using at [OF that(1)] at [of "length tok"] that(2) by (auto dest: arg_cong [of _ _ unat])
  have str': "\<forall>i<length (tok @ d # rest). m (s + of_nat i) = (tok @ d # rest) ! i" "0 \<notin> set (tok @ d # rest)"
    "m (s + of_nat (length (tok @ d # rest))) = 0"
    using str unfolding cstring_iff by simp_all
  have "cstring ?m s tok"
    unfolding cstring_iff
  proof (intro conjI allI impI)
    fix i assume "i < length tok"
    then show "?m (s + of_nat i) = tok ! i" using same [of i] str'(1) by (simp add: nth_append)
  qed (use str'(2) in auto)
  moreover have "cstring ?m (?e + 1) rest"
    unfolding cstring_iff
  proof (intro conjI allI impI)
    fix i assume "i < length rest"
    then show "?m (?e + 1 + of_nat i) = rest ! i"
      using same [of "length tok + 1 + i"] str'(1) [rule_format, of "length tok + 1 + i"]
      by (simp add: nth_append add_ac)
  next
    show "?m (?e + 1 + of_nat (length rest)) = 0"
      using same [of "length tok + 1 + length rest"] str'(3) by (simp add: add_ac)
  qed (use str'(2) in auto)
  ultimately show "\<exists>m'. strsep s ct m = Some (s, ?e + 1, m') \<and> cstring m' s tok \<and> cstring m' (?e + 1) rest"
    by blast
qed

theorem strsep_splits_witness:
  "\<exists>m'. strsep 16 32 ((\<lambda>_. 0)(16 := 65, 17 := 44, 18 := 66, 32 := 44)) = Some (16, 18, m') \<and>
     cstring m' 16 [65] \<and> cstring m' 18 [66]"
  using strsep_splits [of "(\<lambda>_. 0)(16 := 65, 17 := 44, 18 := 66, 32 := 44)" 32 "[44]" "[65]" 16 44 "[66]"]
  by simp

end
