(* ===== verification/EnvData.thy ===== *)
theory EnvData
  imports Prelude
begin

text \<open>
  The environment as an array: the loops of \<open>common/cmd_nvedit.c\<close> over the environment data, as
  functions of the array \<open>d\<close> of its bytes. A pointer into the data is its index, a string argument
  the list of its bytes. \<open>None\<close> is a loop that runs off the data, or a read behind the terminator
  of an argument.
\<close>

section \<open>The loops of the code\<close>

partial_function (option) env_end :: "(nat \<Rightarrow> u8) \<Rightarrow> nat \<Rightarrow> nat option" where
  "env_end d nxt = (if d nxt \<noteq> 0 then env_end d (nxt + 1) else Some nxt)"

text \<open>
  Match a name or a \<open>name=value\<close> pair. When the name and the entry end together, the loop of the
  source goes on behind the terminator of the name.
\<close>

fun envmatch :: "(nat \<Rightarrow> u8) \<Rightarrow> u8 list \<Rightarrow> nat \<Rightarrow> int option" where
  "envmatch d [] i2 =
     (if d i2 = 0 then None else Some (if d i2 = 0x3D then int i2 + 1 else -1))"
| "envmatch d (c # s1) i2 =
     (if c = d i2 then if c = 0x3D then Some (int i2 + 1) else envmatch d s1 (i2 + 1) else Some (-1))"

text \<open>The search of \<open>_do_setenv\<close>: \<open>oldval\<close>, \<open>env\<close> and \<open>nxt\<close> after the loop.\<close>

partial_function (option) setenv_find :: "(nat \<Rightarrow> u8) \<Rightarrow> u8 list \<Rightarrow> int \<Rightarrow> nat \<Rightarrow> nat \<Rightarrow> (int \<times> nat \<times> nat) option" where
  "setenv_find d name oldval env nxt =
     (if d env = 0 then Some (oldval, env, nxt)
      else Option.bind (env_end d env) (\<lambda>nxt. Option.bind (envmatch d name env) (\<lambda>oldval.
        if 0 \<le> oldval then Some (oldval, env, nxt) else setenv_find d name oldval (nxt + 1) nxt)))"

partial_function (option) env_shift :: "(nat \<Rightarrow> u8) \<Rightarrow> nat \<Rightarrow> nat \<Rightarrow> (nat \<times> (nat \<Rightarrow> u8)) option" where
  "env_shift d env nxt =
     (let d = d(env := d nxt); nxt = nxt + 1
      in if d env = 0 \<and> d nxt = 0 then Some (env, d) else env_shift d (env + 1) nxt)"

definition env_delete :: "(nat \<Rightarrow> u8) \<Rightarrow> nat \<Rightarrow> nat \<Rightarrow> (nat \<Rightarrow> u8) option" where
  "env_delete d env nxt = do {
     let nxt = nxt + 1;
     (env, d) \<leftarrow> (if d nxt = 0 then if 0 < env then Some (env - 1, d) else Some (env, d(env := 0))
                   else env_shift d env nxt);
     Some (d(env + 1 := 0))
   }"

partial_function (option) env_last :: "(nat \<Rightarrow> u8) \<Rightarrow> nat \<Rightarrow> nat option" where
  "env_last d env = (if d env \<noteq> 0 \<or> d (env + 1) \<noteq> 0 then env_last d (env + 1) else Some env)"

text \<open>Where a new entry goes.\<close>

definition env_append_at :: "(nat \<Rightarrow> u8) \<Rightarrow> nat option" where
  "env_append_at d = do { env \<leftarrow> env_last d 0; Some (if 0 < env then env + 1 else env) }"

text \<open>\<open>while ((*env = *name++) != 0) env++\<close>; \<open>env\<close> ends on the terminator.\<close>

primrec put_str :: "(nat \<Rightarrow> u8) \<Rightarrow> nat \<Rightarrow> u8 list \<Rightarrow> nat \<times> (nat \<Rightarrow> u8)" where
  "put_str d env [] = (env, d(env := 0))"
| "put_str d env (b # bs) = put_str (d(env := b)) (env + 1) bs"

primrec put_args :: "(nat \<Rightarrow> u8) \<Rightarrow> nat \<Rightarrow> bool \<Rightarrow> u8 list list \<Rightarrow> nat \<times> (nat \<Rightarrow> u8)" where
  "put_args d env first [] = (env, d)"
| "put_args d env first (val # vals) =
     (case put_str (d(env := (if first then 0x3D else 0x20))) (env + 1) val of
        (env, d) \<Rightarrow> put_args d env False vals)"

definition env_append :: "(nat \<Rightarrow> u8) \<Rightarrow> nat \<Rightarrow> u8 list \<Rightarrow> u8 list list \<Rightarrow> (nat \<Rightarrow> u8)" where
  "env_append d env name vals =
     (let (env, d) = put_str d env name; (env, d) = put_args d env True vals
      in d(env + 1 := 0))"

definition env_need :: "u8 list \<Rightarrow> u8 list list \<Rightarrow> nat" where
  "env_need name vals = length name + 2 + sum_list (map (\<lambda>v. length v + 1) vals)"

text \<open>The bounded scan of \<open>getenv\<close>; \<open>lim\<close> is \<open>CONFIG_ENV_SIZE\<close>. Its result is \<open>NULL\<close> (\<open>Some None\<close>) or an index.\<close>

function getenv_end :: "(nat \<Rightarrow> u8) \<Rightarrow> nat \<Rightarrow> nat \<Rightarrow> nat option" where
  "getenv_end d lim nxt = (if d nxt = 0 then Some nxt else if lim \<le> nxt then None else getenv_end d lim (nxt + 1))"
  by auto
termination by (relation "measure (\<lambda>(_, lim, nxt). lim - nxt)") auto

declare getenv_end.simps [simp del]

lemma getenv_end_le: "getenv_end d lim i = Some nxt \<Longrightarrow> i \<le> nxt"
  by (induction d lim i rule: getenv_end.induct)
     (auto simp: getenv_end.simps split: if_splits dest: Suc_leD)

lemma getenv_end_lim: "getenv_end d lim i = Some nxt \<Longrightarrow> i < nxt \<Longrightarrow> i < lim"
  by (simp add: getenv_end.simps [of d lim i] split: if_splits)

function getenv_find :: "(nat \<Rightarrow> u8) \<Rightarrow> nat \<Rightarrow> u8 list \<Rightarrow> nat \<Rightarrow> nat option option" where
  "getenv_find d lim name i =
     (if d i = 0 then Some None
      else case getenv_end d lim i of
        None \<Rightarrow> Some None
      | Some nxt \<Rightarrow> (case envmatch d name i of
          None \<Rightarrow> None
        | Some val \<Rightarrow> if val < 0 then getenv_find d lim name (nxt + 1) else Some (Some (nat val))))"
  by pat_completeness auto
termination
proof (relation "measure (\<lambda>(_, lim, _, i). Suc lim - i)")
  fix d :: "nat \<Rightarrow> u8" and lim name i nxt val
  assume "d i \<noteq> 0" and e: "getenv_end d lim i = Some nxt"
  then have "i < lim"
    by (simp add: getenv_end.simps [of d lim i] split: if_splits)
  then show "((d, lim, name, nxt + 1), d, lim, name, i) \<in> measure (\<lambda>(_, lim, _, i). Suc lim - i)"
    using getenv_end_le [OF e] by simp
qed auto

declare getenv_find.simps [simp del]

text \<open>
  The copy loop of \<open>getenv_r\<close>: \<open>n\<close> and the buffer after it. The count is incremented by the
  test that ends the loop, too.
\<close>

function getenv_r_copy :: "(nat \<Rightarrow> u8) \<Rightarrow> nat \<Rightarrow> nat \<Rightarrow> nat \<Rightarrow> (nat \<Rightarrow> u8) \<Rightarrow> nat \<times> (nat \<Rightarrow> u8)" where
  "getenv_r_copy d val len n buf =
     (if n < len
      then let c = d (val + n); buf = buf(n := c)
           in if c \<noteq> 0 then getenv_r_copy d val len (n + 1) buf else (n + 1, buf)
      else (n + 1, buf))"
  by auto
termination by (relation "measure (\<lambda>(_, _, len, n, _). len - n)") auto

declare getenv_r_copy.simps [simp del]

section \<open>The environment as a list of entries\<close>

primrec holds :: "(nat \<Rightarrow> u8) \<Rightarrow> nat \<Rightarrow> u8 list \<Rightarrow> bool" where
  "holds d p [] \<longleftrightarrow> True"
| "holds d p (b # bs) \<longleftrightarrow> d p = b \<and> holds d (Suc p) bs"

lemma holds_append [simp]: "holds d p (xs @ ys) \<longleftrightarrow> holds d p xs \<and> holds d (p + length xs) ys"
  by (induction xs arbitrary: p) simp_all

lemma holds_nth: "holds d p bs \<longleftrightarrow> (\<forall>i<length bs. d (p + i) = bs ! i)"
  by (induction bs arbitrary: p) (auto simp: All_less_Suc2)

lemma holds_cong: "(\<And>i. p \<le> i \<Longrightarrow> i < p + length bs \<Longrightarrow> d' i = d i) \<Longrightarrow> holds d' p bs = holds d p bs"
  by (simp add: holds_nth)

lemma holds_upd [simp]: "i < p \<or> p + length bs \<le> i \<Longrightarrow> holds (d(i := v)) p bs = holds d p bs"
  by (intro holds_cong) auto

definition entry_ok :: "u8 list \<Rightarrow> bool" where
  "entry_ok e \<longleftrightarrow> 0 \<notin> set e \<and> 0x3D \<in> set e"

definition name_ok :: "u8 list \<Rightarrow> bool" where
  "name_ok name \<longleftrightarrow> 0 \<notin> set name \<and> 0x3D \<notin> set name"

text \<open>The data part of an environment: the entries with their terminators.\<close>

primrec entries :: "u8 list list \<Rightarrow> u8 list" where
  "entries [] = []"
| "entries (e # es) = e @ 0 # entries es"

lemma entries_append [simp]: "entries (es @ fs) = entries es @ entries fs"
  by (induction es) simp_all

text \<open>\<open>env_holds d es\<close>: the array holds the entries \<open>es\<close> and the end mark.\<close>

definition env_holds :: "(nat \<Rightarrow> u8) \<Rightarrow> u8 list list \<Rightarrow> bool" where
  "env_holds d es \<longleftrightarrow> (\<forall>e\<in>set es. entry_ok e) \<and> holds d 0 (entries es) \<and> d (length (entries es)) = 0 \<and>
     (es = [] \<longrightarrow> d 1 = 0)"

text \<open>An entry is for a name when it is \<open>name=value\<close>.\<close>

definition entry_for :: "u8 list \<Rightarrow> u8 list \<Rightarrow> bool" where
  "entry_for name e \<longleftrightarrow> take (Suc (length name)) e = name @ [0x3D]"

definition env_lookup :: "u8 list \<Rightarrow> u8 list list \<Rightarrow> u8 list option" where
  "env_lookup name es = map_option (drop (Suc (length name))) (List.find (entry_for name) es)"

primrec env_remove :: "u8 list \<Rightarrow> u8 list list \<Rightarrow> u8 list list" where
  "env_remove name [] = []"
| "env_remove name (e # es) = (if entry_for name e then es else e # env_remove name es)"

text \<open>The arguments joined by blanks.\<close>

primrec join_args :: "bool \<Rightarrow> u8 list list \<Rightarrow> u8 list" where
  "join_args first [] = []"
| "join_args first (val # vals) = (if first then 0x3D else 0x20) # val @ join_args False vals"

definition env_set :: "u8 list \<Rightarrow> u8 list list \<Rightarrow> u8 list list \<Rightarrow> u8 list list" where
  "env_set name vals es = env_remove name es @ [name @ join_args True vals]"

section \<open>Searching\<close>

lemma env_end_value: "holds d p (e @ [0]) \<Longrightarrow> 0 \<notin> set e \<Longrightarrow> env_end d p = Some (p + length e)"
  by (induction e arbitrary: p) (auto simp: env_end.simps [of d])

lemma entry_for_Nil [simp]: "entry_for name [] = False"
  by (simp add: entry_for_def)

lemma envmatch_value:
  "name_ok name \<Longrightarrow> entry_ok e \<Longrightarrow> holds d p (e @ [0]) \<Longrightarrow>
    envmatch d name p = Some (if entry_for name e then int (p + length name + 1) else -1)"
proof (induction name arbitrary: e p)
  case Nil
  then show ?case by (cases e) (auto simp: entry_ok_def entry_for_def)
next
  case (Cons n ns)
  obtain c e' where e: "e = c # e'" using Cons.prems(2) by (cases e) (auto simp: entry_ok_def)
  show ?case
  proof (cases "n = c")
    case True
    then have "c \<noteq> 0x3D" using Cons.prems(1) by (auto simp: name_ok_def)
    moreover have "entry_ok e'" using Cons.prems(2) e \<open>c \<noteq> 0x3D\<close> by (auto simp: entry_ok_def)
    ultimately show ?thesis
      using Cons.IH [of e' "p + 1"] Cons.prems True e by (auto simp: name_ok_def entry_for_def)
  next
    case False
    then show ?thesis using Cons.prems e by (auto simp: entry_for_def)
  qed
qed

lemma entry_ok_first: "entry_ok e \<Longrightarrow> holds d p (e @ 0 # rest) \<Longrightarrow> d p \<noteq> 0"
  by (cases e) (auto simp: entry_ok_def)

lemma setenv_find_step:
  assumes "name_ok name" and "entry_ok e" and "holds d p (e @ 0 # rest)"
  shows "setenv_find d name oldval p nxt =
    (if entry_for name e then Some (int (p + length name + 1), p, p + length e)
     else setenv_find d name (-1) (p + length e + 1) (p + length e))"
  using assms entry_ok_first [OF assms(2,3)]
  by (subst setenv_find.simps) (simp add: env_end_value envmatch_value, auto simp: entry_ok_def env_end_value)

lemma setenv_find_found:
  assumes "name_ok name" and "entry_for name e"
  shows "\<forall>e\<in>set (es @ e # fs). entry_ok e \<Longrightarrow> holds d p (entries (es @ e # fs)) \<Longrightarrow> \<forall>e\<in>set es. \<not> entry_for name e \<Longrightarrow>
    setenv_find d name oldval p nxt = Some (int (p + length (entries es) + length name + 1),
      p + length (entries es), p + length (entries es) + length e)"
proof (induction es arbitrary: p oldval nxt)
  case Nil
  then show ?case using assms setenv_find_step [of name e d p "entries fs"] by simp
next
  case (Cons x es)
  then show ?case
    using setenv_find_step [OF assms(1), of x d p "entries (es @ e # fs)" oldval nxt]
      Cons.IH [of "p + length x + 1" "-1" "p + length x"] by (simp add: add_ac)
qed

lemma setenv_find_none:
  assumes "name_ok name"
  shows "\<forall>e\<in>set es. entry_ok e \<and> \<not> entry_for name e \<Longrightarrow> holds d p (entries es) \<Longrightarrow> d (p + length (entries es)) = 0 \<Longrightarrow>
    oldval < 0 \<Longrightarrow> \<exists>old nxt'. old < 0 \<and> setenv_find d name oldval p nxt = Some (old, p + length (entries es), nxt')"
proof (induction es arbitrary: p oldval nxt)
  case Nil
  then show ?case by (simp add: setenv_find.simps [of d])
next
  case (Cons x es)
  then show ?case
    using setenv_find_step [OF assms, of x d p "entries es" oldval nxt]
      Cons.IH [of "p + length x + 1" "-1" "p + length x"] by (simp add: add_ac)
qed

lemma getenv_end_value:
  "holds d p (e @ 0 # rest) \<Longrightarrow> 0 \<notin> set e \<Longrightarrow> p + length e \<le> lim \<Longrightarrow> getenv_end d lim p = Some (p + length e)"
  by (induction e arbitrary: p) (auto simp: getenv_end.simps [of d lim])

lemma getenv_find_value:
  assumes "name_ok name"
  shows "\<forall>e\<in>set es. entry_ok e \<Longrightarrow> holds d p (entries es) \<Longrightarrow> d (p + length (entries es)) = 0 \<Longrightarrow>
    p + length (entries es) \<le> lim \<Longrightarrow>
    (case env_lookup name es of
       None \<Rightarrow> getenv_find d lim name p = Some None
     | Some v \<Rightarrow> \<exists>k. getenv_find d lim name p = Some (Some k) \<and> holds d k (v @ [0]))"
proof (induction es arbitrary: p)
  case Nil
  then show ?case by (simp add: env_lookup_def getenv_find.simps [of d])
next
  case (Cons e es)
  have e: "entry_ok e" "holds d p (e @ 0 # entries es)" using Cons.prems by simp_all
  have end_: "getenv_end d lim p = Some (p + length e)"
    using e Cons.prems by (intro getenv_end_value [of d p e "entries es"]) (auto simp: entry_ok_def)
  have match: "envmatch d name p = Some (if entry_for name e then int (p + length name + 1) else -1)"
    using e by (intro envmatch_value assms) auto
  have step: "getenv_find d lim name p =
      (if entry_for name e then Some (Some (p + length name + 1)) else getenv_find d lim name (p + length e + 1))"
    using entry_ok_first [OF e] end_ match by (simp add: getenv_find.simps [of d lim name p] nat_add_distrib)
  show ?case
  proof (cases "entry_for name e")
    case True
    then obtain v where v: "e = name @ 0x3D # v"
      by (metis append_take_drop_id entry_for_def append_Cons append_Nil append_assoc)
    then show ?thesis using True step e by (simp add: env_lookup_def)
  next
    case False
    then show ?thesis
      using step Cons.IH [of "p + length e + 1"] Cons.prems by (auto simp: env_lookup_def add_ac split: option.splits)
  qed
qed

section \<open>Deleting\<close>

text \<open>A block of \<open>n\<close> bytes that ends in a terminator and has no double terminator inside.\<close>

definition block_ends :: "(nat \<Rightarrow> u8) \<Rightarrow> nat \<Rightarrow> nat \<Rightarrow> bool" where
  "block_ends d q n \<longleftrightarrow> 0 < n \<and> d (q + n - 1) = 0 \<and> d (q + n) = 0 \<and>
     (\<forall>i<n - 1. \<not> (d (q + i) = 0 \<and> d (q + i + 1) = 0))"

lemma env_shift_value:
  "block_ends d q n \<Longrightarrow> p < q \<Longrightarrow>
    env_shift d p q = Some (p + n - 1, \<lambda>i. if p \<le> i \<and> i < p + n then d (i + (q - p)) else d i)"
proof (induction n arbitrary: d p q)
  case 0
  then show ?case by (simp add: block_ends_def)
next
  case (Suc n)
  show ?case
  proof (cases "n = 0")
    case True
    with Suc.prems show ?thesis
      by (subst env_shift.simps) (auto simp: block_ends_def Let_def fun_eq_iff)
  next
    case False
    then have "\<not> (d q = 0 \<and> d (q + 1) = 0)"
      using Suc.prems(1) by (auto simp: block_ends_def dest: spec [of _ 0])
    then have step: "env_shift d p q = env_shift (d(p := d q)) (p + 1) (q + 1)"
      using Suc.prems(2) by (subst env_shift.simps) (auto simp: Let_def)
    have b: "block_ends (d(p := d q)) (q + 1) n"
    proof -
      have "\<forall>i<n. \<not> (d (q + i) = 0 \<and> d (q + i + 1) = 0)" using Suc.prems(1) by (simp add: block_ends_def)
      then have "\<forall>i<n - 1. \<not> (d (q + 1 + i) = 0 \<and> d (q + 1 + i + 1) = 0)"
        by (metis Suc_eq_plus1 add.commute add_Suc_right less_diff_conv)
      then show ?thesis using Suc.prems False by (simp add: block_ends_def)
    qed
    have "env_shift d p q = Some (p + 1 + n - 1,
        \<lambda>i. if p + 1 \<le> i \<and> i < p + 1 + n then (d(p := d q)) (i + (q + 1 - (p + 1))) else (d(p := d q)) i)"
      unfolding step by (rule Suc.IH [OF b]) (use Suc.prems(2) in simp)
    moreover have "(\<lambda>i. if p + 1 \<le> i \<and> i < p + 1 + n then (d(p := d q)) (i + (q + 1 - (p + 1))) else (d(p := d q)) i) =
        (\<lambda>i. if p \<le> i \<and> i < p + Suc n then d (i + (q - p)) else d i)"
      using Suc.prems(2) by (auto simp: fun_eq_iff)
    ultimately show ?thesis by simp
  qed
qed

lemma entries_block:
  "\<forall>e\<in>set es. entry_ok e \<Longrightarrow> es \<noteq> [] \<Longrightarrow> holds d p (entries es) \<Longrightarrow> d (p + length (entries es)) = 0 \<Longrightarrow>
    block_ends d p (length (entries es))"
proof (induction es arbitrary: p)
  case (Cons e es)
  let ?n = "length (entries es)" and ?q = "p + length e + 1"
  have e: "e \<noteq> []" "\<forall>i<length e. d (p + i) \<noteq> 0" "d (p + length e) = 0"
  proof -
    have h: "holds d p e" "entry_ok e" "d (p + length e) = 0" using Cons.prems by simp_all
    then show "e \<noteq> []" "\<forall>i<length e. d (p + i) \<noteq> 0" "d (p + length e) = 0"
      by (auto simp: entry_ok_def holds_nth in_set_conv_nth)
  qed
  show ?case
  proof (cases "es = []")
    case True
    then show ?thesis using e Cons.prems by (auto simp: block_ends_def)
  next
    case False
    then obtain f fs where es: "es = f # fs" by (cases es) auto
    have q: "block_ends d ?q ?n" using Cons False by (simp add: add_ac)
    have "d ?q \<noteq> 0" using entry_ok_first [of f d ?q "entries fs"] Cons.prems es by simp
    have "\<not> (d (p + i) = 0 \<and> d (p + i + 1) = 0)" if "i < length e + ?n" for i
    proof (cases "i \<le> length e")
      case True
      then show ?thesis using e(2) \<open>d ?q \<noteq> 0\<close> by (cases "i = length e") auto
    next
      case False
      then have "i - length e - 1 < ?n - 1" using that by simp
      then have "\<not> (d (?q + (i - length e - 1)) = 0 \<and> d (?q + (i - length e - 1) + 1) = 0)"
        using q by (simp only: block_ends_def) blast
      moreover have "?q + (i - length e - 1) = p + i" using False by simp
      ultimately show ?thesis by simp
    qed
    then show ?thesis using q by (simp add: block_ends_def add_ac)
  qed
qed simp

lemma env_delete_value:
  assumes "env_holds d (es @ e # fs)"
  defines "p \<equiv> length (entries es)" and "n \<equiv> length (entries (es @ e # fs))"
  shows "\<exists>d'. env_delete d p (p + length e) = Some d' \<and> env_holds d' (es @ fs) \<and> (\<forall>i>n. d' i = d i)"
proof (cases "fs = []")
  case True
  have h: "holds d 0 (entries es)" "entry_ok e" "d (p + length e + 1) = 0" "\<forall>e\<in>set es. entry_ok e"
    using assms True by (simp_all add: env_holds_def add_ac)
  have l: "0 < length e" using h(2) by (auto simp: entry_ok_def)
  show ?thesis
  proof (cases "es = []")
    case True
    then show ?thesis using h(3) \<open>fs = []\<close> l by (simp add: env_delete_def p_def n_def env_holds_def)
  next
    case False
    then have "0 < p" by (cases es) (simp_all add: p_def)
    then show ?thesis using h \<open>fs = []\<close> False l by (auto simp: env_delete_def p_def n_def env_holds_def)
  qed
next
  case False
  let ?q = "p + length e + 1" and ?n = "length (entries fs)"
  have h: "holds d 0 (entries es)" "entry_ok e" "holds d ?q (entries fs)" "d (?q + ?n) = 0"
    "\<forall>e\<in>set fs. entry_ok e" "\<forall>e\<in>set es. entry_ok e"
    using assms by (simp_all add: env_holds_def p_def add_ac)
  have b: "block_ends d ?q ?n" using entries_block [OF h(5) False h(3,4)] .
  obtain f fs' where "fs = f # fs'" using False by (cases fs) auto
  then have "d ?q \<noteq> 0" using entry_ok_first [of f d ?q "entries fs'"] h(3,5) by simp
  let ?d = "\<lambda>i. if p \<le> i \<and> i < p + ?n then d (i + (?q - p)) else d i"
  have n: "0 < ?n" using b by (simp add: block_ends_def)
  have "env_delete d p (p + length e) = Some (?d(p + ?n := 0))"
    using env_shift_value [OF b, of p] \<open>d ?q \<noteq> 0\<close> n by (simp add: env_delete_def)
  moreover have "holds (?d(p + ?n := 0)) 0 (entries es)"
    using h(1) by (subst holds_cong) (auto simp: p_def)
  moreover have "holds (?d(p + ?n := 0)) p (entries fs)"
    using h(3) by (simp add: holds_nth add_ac)
  ultimately show ?thesis
    using h False by (auto simp: env_holds_def p_def n_def)
qed

section \<open>Appending\<close>

lemma env_last_value: "block_ends d p n \<Longrightarrow> env_last d p = Some (p + n - 1)"
proof (induction n arbitrary: p)
  case (Suc n)
  show ?case
  proof (cases "n = 0")
    case True
    then show ?thesis using Suc.prems by (subst env_last.simps) (simp add: block_ends_def)
  next
    case False
    have all: "\<forall>i<n. \<not> (d (p + i) = 0 \<and> d (p + i + 1) = 0)" using Suc.prems by (simp add: block_ends_def)
    then have "\<forall>i<n - 1. \<not> (d (p + 1 + i) = 0 \<and> d (p + 1 + i + 1) = 0)"
      by (metis Suc_eq_plus1 add.commute add_Suc_right less_diff_conv)
    then have "block_ends d (p + 1) n" using Suc.prems False by (simp add: block_ends_def)
    then have "env_last d (p + 1) = Some (p + 1 + n - 1)" by (rule Suc.IH)
    moreover have "d p \<noteq> 0 \<or> d (p + 1) \<noteq> 0" using all False by (auto dest: spec [of _ 0])
    ultimately show ?thesis by (subst env_last.simps) auto
  qed
qed (simp add: block_ends_def)

lemma env_append_at_value:
  assumes "env_holds d es"
  shows "env_append_at d = Some (length (entries es))"
proof (cases "es = []")
  case True
  then show ?thesis using assms by (simp add: env_append_at_def env_last.simps [of d 0] env_holds_def)
next
  case False
  have "block_ends d 0 (length (entries es))"
    using assms False by (intro entries_block) (simp_all add: env_holds_def)
  then have "env_last d 0 = Some (length (entries es) - 1)" using env_last_value [of d 0] by simp
  moreover have "2 \<le> length (entries es)"
    using False assms by (cases es) (auto simp: env_holds_def entry_ok_def Suc_le_eq)
  ultimately show ?thesis by (simp add: env_append_at_def)
qed

lemma put_str_value:
  "fst (put_str d p bs) = p + length bs \<and> holds (snd (put_str d p bs)) p (bs @ [0]) \<and>
    (\<forall>i. i < p \<or> p + length bs < i \<longrightarrow> snd (put_str d p bs) i = d i)"
proof (induction bs arbitrary: d p)
  case (Cons b bs)
  define d' where "d' = d(p := b)"
  have "d' p = b" "\<And>i. i \<noteq> p \<Longrightarrow> d' i = d i" by (simp_all add: d'_def)
  then show ?case using Cons.IH [of d' "p + 1"] by (auto simp: d'_def [symmetric])
qed simp

lemma put_args_value:
  "d p = 0 \<Longrightarrow> fst (put_args d p first vals) = p + length (join_args first vals) \<and>
    holds (snd (put_args d p first vals)) p (join_args first vals @ [0]) \<and>
    (\<forall>i. i < p \<or> p + length (join_args first vals) < i \<longrightarrow> snd (put_args d p first vals) i = d i)"
proof (induction vals arbitrary: d p first)
  case (Cons v vals)
  let ?d0 = "d(p := if first then 0x3D else 0x20)"
  obtain p1 d1 where 1: "put_str ?d0 (p + 1) v = (p1, d1)" by fastforce
  have h1: "p1 = p + 1 + length v" "holds d1 (p + 1) (v @ [0])"
    "\<forall>i. i < p + 1 \<or> p + 1 + length v < i \<longrightarrow> d1 i = ?d0 i"
    using put_str_value [of ?d0 "p + 1" v] 1 by auto
  obtain p2 d2 where 2: "put_args d1 p1 False vals = (p2, d2)" by fastforce
  have "d1 p1 = 0" using h1 by simp
  with Cons.IH [of d1 p1 False] 2 have h2: "p2 = p1 + length (join_args False vals)"
    "holds d2 p1 (join_args False vals @ [0])"
    "\<forall>i. i < p1 \<or> p1 + length (join_args False vals) < i \<longrightarrow> d2 i = d1 i" by auto
  have "holds d2 (p + 1) v" using h1(1,2) h2(3) by (subst holds_cong [of _ _ _ d1]) auto
  then show ?case using 1 2 h1 h2 by (auto simp: add_ac)
qed simp

lemma join_args_length: "length (join_args first vals) = sum_list (map (\<lambda>v. length v + 1) vals)"
  by (induction vals arbitrary: first) simp_all

lemma join_args_no_end: "\<forall>v\<in>set vals. 0 \<notin> set v \<Longrightarrow> 0 \<notin> set (join_args first vals)"
  by (induction vals arbitrary: first) auto

lemma join_args_equals: "vals \<noteq> [] \<Longrightarrow> 0x3D \<in> set (join_args True vals)"
  by (cases vals) auto

lemma env_append_value:
  assumes "env_holds d es" and "name_ok name" and "vals \<noteq> []" and "\<forall>v\<in>set vals. 0 \<notin> set v"
  defines "p \<equiv> length (entries es)"
  shows "env_holds (env_append d p name vals) (es @ [name @ join_args True vals]) \<and>
    (\<forall>i. i < p \<or> p + env_need name vals \<le> i \<longrightarrow> env_append d p name vals i = d i)"
proof -
  let ?j = "join_args True vals"
  obtain p1 d1 where 1: "put_str d p name = (p1, d1)" by fastforce
  have h1: "p1 = p + length name" "holds d1 p (name @ [0])" "\<forall>i. i < p \<or> p + length name < i \<longrightarrow> d1 i = d i"
    using put_str_value [of d p name] 1 by auto
  obtain p2 d2 where 2: "put_args d1 p1 True vals = (p2, d2)" by fastforce
  have "d1 p1 = 0" using h1 by simp
  with put_args_value [of d1 p1 True vals] 2 have h2: "p2 = p1 + length ?j" "holds d2 p1 (?j @ [0])"
    "\<forall>i. i < p1 \<or> p1 + length ?j < i \<longrightarrow> d2 i = d1 i" by auto
  have a: "env_append d p name vals = d2(p2 + 1 := 0)"
    by (simp add: env_append_def 1 2)
  have "holds d2 p name" using h1 h2(3) by (subst holds_cong [of _ _ _ d1]) auto
  moreover have "holds d2 0 (entries es)"
    using assms(1) h1 h2(3) by (subst holds_cong [of _ _ _ d]) (auto simp: env_holds_def p_def)
  moreover have "entry_ok (name @ ?j)"
    using assms(2-4) join_args_no_end [of vals True] join_args_equals [of vals] by (auto simp: entry_ok_def name_ok_def)
  moreover have need: "p + env_need name vals = p2 + 2"
    using h1(1) h2(1) by (simp add: env_need_def join_args_length)
  ultimately have "env_holds (d2(p2 + 1 := 0)) (es @ [name @ ?j])"
    using assms(1) h1(1) h2(1,2) by (simp add: env_holds_def p_def add_ac)
  moreover have "\<forall>i. i < p \<or> p + env_need name vals \<le> i \<longrightarrow> (d2(p2 + 1 := 0)) i = d i"
    unfolding need using h1 h2 by auto
  ultimately show ?thesis unfolding a by blast
qed

section \<open>Copying a value out\<close>

lemma getenv_r_copy_value:
  "holds d val (v @ [0]) \<Longrightarrow> 0 \<notin> set v \<Longrightarrow> n \<le> length v \<Longrightarrow> n \<le> len \<Longrightarrow>
    getenv_r_copy d val len n buf =
      (if len \<le> length v then (len + 1, \<lambda>i. if n \<le> i \<and> i < len then v ! i else buf i)
       else (length v + 1, \<lambda>i. if n \<le> i \<and> i < length v then v ! i else if i = length v then 0 else buf i))"
proof (induction d val len n buf rule: getenv_r_copy.induct)
  case (1 d val len n buf)
  have at: "d (val + i) = (if i < length v then v ! i else 0)" if "i \<le> length v" for i
    using 1(2) that by (auto simp: holds_nth nth_append)
  show ?case
  proof (cases "n < len \<and> n < length v")
    case True
    then have "d (val + n) \<noteq> 0" using at [of n] 1(3) by (auto simp: in_set_conv_nth)
    moreover have "getenv_r_copy d val len (n + 1) (buf(n := d (val + n))) =
      (if len \<le> length v then (len + 1, \<lambda>i. if n + 1 \<le> i \<and> i < len then v ! i else (buf(n := d (val + n))) i)
       else (length v + 1, \<lambda>i. if n + 1 \<le> i \<and> i < length v then v ! i else if i = length v then 0 else (buf(n := d (val + n))) i))"
      by (rule "1.IH" [OF _ refl refl]) (use True calculation 1 in auto)
    ultimately show ?thesis
      using True at [of n] by (subst getenv_r_copy.simps) (auto simp: Let_def fun_eq_iff)
  next
    case False
    then show ?thesis using at [of n] 1(4,5) by (subst getenv_r_copy.simps) (auto simp: Let_def fun_eq_iff)
  qed
qed

end
