(* ===== verification/Env.thy ===== *)
theory Env
  imports EnvData MmcFlash Crc32 Vsprintf
begin

text \<open>
  The environment: \<open>common/env_common.c\<close>, \<open>common/env_mmc.c\<close> and the environment commands of
  \<open>common/cmd_nvedit.c\<close>, in the configuration \<open>include/configs/emev.h\<close> (environment on the boot
  card, \<open>CONFIG_ENV_OVERWRITE\<close>, one serial console). \<open>env_ptr->data\<close> is the array \<open>env_ram\<close> of
  the state, \<open>env_ptr->crc\<close> is \<open>ptr_crc\<close>; the copy the boot code reads from the card is in
  memory at \<open>CONFIG_ENV_TMP_ADDR\<close>. \<open>C\<close> holds the configuration strings, \<open>io\<close> the calls to the
  console and serial drivers.
\<close>

section \<open>Configuration and state\<close>

definition asc :: "string \<Rightarrow> u8 list" where "asc str = map of_char str"

definition CONFIG_ENV_TMP_ADDR :: u32 where "CONFIG_ENV_TMP_ADDR = 0x410C0000"

definition ENV_SIZE :: nat where "ENV_SIZE = unat CONFIG_ENV_SIZE - 4"

definition baudrate_table :: "u32 list" where
  "baudrate_table = [9600, 19200, 38400, 57600, 115200, 230400, 460800]"

definition BOOTFILE_SIZE :: nat where "BOOTFILE_SIZE = 128"

text \<open>The macros that make up the default environment, \<open>None\<close> for one that is not defined.\<close>

record env_config =
  BOOTARGS :: "string option"
  BOOTCOMMAND :: "string option"
  RAMBOOTCOMMAND :: "string option"
  NFSBOOTCOMMAND :: "string option"
  BOOTDELAY :: "string option"
  BAUDRATE :: "string option"
  LOADS_ECHO :: "string option"
  ETHADDR :: "string option"
  ETH1ADDR :: "string option"
  ETH2ADDR :: "string option"
  ETH3ADDR :: "string option"
  ETH4ADDR :: "string option"
  ETH5ADDR :: "string option"
  IPADDR :: "string option"
  SERVERIP :: "string option"
  SYS_AUTOLOAD :: "string option"
  PREBOOT :: "string option"
  ROOTPATH :: "string option"
  GATEWAYIP :: "string option"
  NETMASK :: "string option"
  HOSTNAME :: "string option"
  BOOTFILE :: "string option"
  LOADADDR :: "string option"
  CLOCKS_IN_MHZ :: "string option"
  PCI_BOOTDELAY :: "string option"
  EXTRA_ENV_SETTINGS :: "string list"

definition default_entries :: "env_config \<Rightarrow> u8 list list" where
  "default_entries C =
     concat (map (\<lambda>(name, v). case v of None \<Rightarrow> [] | Some v \<Rightarrow> [asc (name @ ''='' @ v)])
       [(''bootargs'', BOOTARGS C), (''bootcmd'', BOOTCOMMAND C), (''ramboot'', RAMBOOTCOMMAND C),
        (''nfsboot'', NFSBOOTCOMMAND C), (''bootdelay'', BOOTDELAY C), (''baudrate'', BAUDRATE C),
        (''loads_echo'', LOADS_ECHO C), (''ethaddr'', ETHADDR C), (''eth1addr'', ETH1ADDR C),
        (''eth2addr'', ETH2ADDR C), (''eth3addr'', ETH3ADDR C), (''eth4addr'', ETH4ADDR C),
        (''eth5addr'', ETH5ADDR C), (''ipaddr'', IPADDR C), (''serverip'', SERVERIP C),
        (''autoload'', SYS_AUTOLOAD C), (''preboot'', PREBOOT C), (''rootpath'', ROOTPATH C),
        (''gatewayip'', GATEWAYIP C), (''netmask'', NETMASK C), (''hostname'', HOSTNAME C),
        (''bootfile'', BOOTFILE C), (''loadaddr'', LOADADDR C), (''clocks_in_mhz'', CLOCKS_IN_MHZ C),
        (''pcidelay'', PCI_BOOTDELAY C)]) @
     map asc (EXTRA_ENV_SETTINGS C)"

text \<open>The array, with the terminator the compiler adds to the string literal.\<close>

definition default_environment :: "env_config \<Rightarrow> u8 list" where
  "default_environment C = entries (default_entries C) @ [0, 0]"

datatype env_place = Env_tmp | Env_ram

record 'd emach = "'d fmach" +
  env_ram :: "nat \<Rightarrow> u8"
  ptr_crc :: u32
  env_addr :: env_place
  env_valid :: bool
  gd_reloc :: bool
  env_offset :: u32
  env_id :: u32
  gd_baudrate :: u32
  load_addr :: u32
  bi_ip_addr :: u32
  bi_enetaddr :: "u8 list"
  boot_file :: "u8 list"

record 's env_io =
  console_assign :: "u32 \<Rightarrow> u8 list \<Rightarrow> 's \<Rightarrow> u32 \<times> 's"
  serial_setbrg :: "'s \<Rightarrow> 's"
  io_udelay :: "u32 \<Rightarrow> 's \<Rightarrow> 's option"
  io_getc :: "'s \<Rightarrow> (u8 \<times> 's) option"
  ctrlc :: "'s \<Rightarrow> bool \<times> 's"

section \<open>Access to the environment (env_common.c)\<close>

definition env_get_char_spec :: "('d, 'z) emach_scheme \<Rightarrow> nat \<Rightarrow> u8" where
  "env_get_char_spec s index =
     (case env_addr s of Env_tmp \<Rightarrow> mem s (CONFIG_ENV_TMP_ADDR + 4 + of_nat index)
      | Env_ram \<Rightarrow> env_ram s index)"

definition default_char :: "env_config \<Rightarrow> nat \<Rightarrow> u8" where
  "default_char C index = (if index < length (default_environment C) then default_environment C ! index else 0)"

definition env_get_char_init :: "env_config \<Rightarrow> ('d, 'z) emach_scheme \<Rightarrow> nat \<Rightarrow> u8" where
  "env_get_char_init C s index = (if env_valid s then env_get_char_spec s index else default_char C index)"

definition env_get_char_memory :: "env_config \<Rightarrow> ('d, 'z) emach_scheme \<Rightarrow> nat \<Rightarrow> u8" where
  "env_get_char_memory C s index = (if env_valid s then env_get_char_spec s index else default_char C index)"

definition env_get_char :: "env_config \<Rightarrow> ('d, 'z) emach_scheme \<Rightarrow> nat \<Rightarrow> u8" where
  "env_get_char C s index =
     (if gd_reloc s then env_get_char_memory C s index else env_get_char_init C s index)"

text \<open>The checksum of the data in RAM.\<close>

definition env_data_crc :: "(nat \<Rightarrow> u8) \<Rightarrow> u32" where
  "env_data_crc d = crc32 0 (map d [0..<ENV_SIZE])"

definition env_crc_update :: "('d, 'z) emach_scheme \<Rightarrow> ('d, 'z) emach_scheme" where
  "env_crc_update s = s\<lparr>ptr_crc := env_data_crc (env_ram s)\<rparr>"

definition set_default_env :: "env_config \<Rightarrow> ('d, 'z) emach_scheme \<Rightarrow> ('d, 'z) emach_scheme" where
  "set_default_env C s =
     (if ENV_SIZE < length (default_environment C)
      then printf (line (line ''*** Error - default environment is too large'')) [] s
      else env_crc_update (s\<lparr>env_ram := (\<lambda>i. if i < length (default_environment C) then default_environment C ! i
             else if i < ENV_SIZE then 0 else env_ram s i)\<rparr>)\<lparr>env_valid := True\<rparr>)"

section \<open>The environment on the card (env_mmc.c)\<close>

text \<open>\<open>memcpy\<close> between \<open>env_ptr\<close> and the buffer at \<open>CONFIG_ENV_TMP_ADDR\<close>, an \<open>env_t\<close> each.\<close>

definition env_image :: "('d, 'z) emach_scheme \<Rightarrow> nat \<Rightarrow> u8" where
  "env_image s i = (if i < 4 then ucast (drop_bit (8 * i) (ptr_crc s)) else env_ram s (i - 4))"

definition env_to_tmp :: "('d, 'z) emach_scheme \<Rightarrow> ('d, 'z) emach_scheme" where
  "env_to_tmp s =
     (case env_addr s of Env_tmp \<Rightarrow> s
      | Env_ram \<Rightarrow> s\<lparr>mem := blit (mem s) CONFIG_ENV_TMP_ADDR (unat CONFIG_ENV_SIZE) (env_image s)\<rparr>)"

definition env_relocate_spec :: "('d, 'z) emach_scheme \<Rightarrow> ('d, 'z) emach_scheme" where
  "env_relocate_spec s =
     s\<lparr>env_ram := (\<lambda>i. if i < ENV_SIZE then mem s (CONFIG_ENV_TMP_ADDR + 4 + of_nat i) else env_ram s i),
       ptr_crc := load32 (mem s) CONFIG_ENV_TMP_ADDR\<rparr>"

text \<open>\<open>heap\<close> is what the block from \<open>malloc\<close> holds.\<close>

definition env_relocate :: "env_config \<Rightarrow> (nat \<Rightarrow> u8) \<Rightarrow> ('d, 'z) emach_scheme \<Rightarrow> ('d, 'z) emach_scheme" where
  "env_relocate C heap s =
     (let s = s\<lparr>env_ram := heap\<rparr>;
          s = (if \<not> env_valid s
               then set_default_env C
                 (printf (line (line ''*** Warning - bad CRC, using default environment'')) [] s)
               else env_relocate_spec s)
      in s\<lparr>env_addr := Env_ram\<rparr>)"

text \<open>The decision of \<open>env_init\<close> whether what was read is an environment.\<close>

definition env_accept :: "u32 \<Rightarrow> ('d, 'z) emach_scheme \<Rightarrow> ('d, 'z) emach_scheme" where
  "env_accept ret s =
     (if ret = 0 \<and> crc32 0 (bytes_at (mem s) (CONFIG_ENV_TMP_ADDR + 4) ENV_SIZE) = load32 (mem s) CONFIG_ENV_TMP_ADDR
      then s\<lparr>env_addr := Env_tmp, env_valid := True\<rparr>
      else s\<lparr>env_valid := False\<rparr>)"

definition env_init :: "boot_cfg \<Rightarrow> ('d, 'z) emach_scheme hw_if \<Rightarrow> u32 \<Rightarrow> ('d, 'z) emach_scheme \<Rightarrow>
    (u32 \<times> ('d, 'z) emach_scheme) option" where
  "env_init cfg hw ExtCsd s = do {
     (off, s) \<leftarrow> mmc_flash_init cfg hw ExtCsd s;
     let s = s\<lparr>env_offset := off\<rparr>;
     (ret, s) \<leftarrow> (if env_offset s \<noteq> 0
       then mmc_read hw \<lparr>bi_addr = CONFIG_ENV_TMP_ADDR, bi_block = env_offset s, bi_size = CONFIG_ENV_SIZE, bi_erase = 0\<rparr> s
       else Some (-1, s));
     Some (0, env_accept ret s)
   }"

definition env_name_spec :: "boot_cfg \<Rightarrow> parg" where
  "env_name_spec cfg = Str (asc (case cfg of EMMC \<Rightarrow> ''eMMC NAND Flash'' | ESD \<Rightarrow> ''eSD NAND Flash''
     | SD \<Rightarrow> ''SD Memory Card''))"

definition saveenv :: "boot_cfg \<Rightarrow> ('d, 'z) emach_scheme hw_if \<Rightarrow> ('d, 'z) emach_scheme \<Rightarrow>
    (u32 \<times> ('d, 'z) emach_scheme) option" where
  "saveenv cfg hw s =
     (if env_offset s = 0
      then Some (1, printf (line ''error: no area to save enviroment information in %s'') [env_name_spec cfg] s)
      else do {
        let s = env_to_tmp s;
        let s = printf ''Writing to %s... '' [env_name_spec cfg] s;
        (ret, s) \<leftarrow> mmc_write hw
          \<lparr>bi_addr = CONFIG_ENV_TMP_ADDR, bi_block = env_offset s, bi_size = CONFIG_ENV_SIZE, bi_erase = 0\<rparr> s;
        Some (if ret = 0 then (0, printf (line ''done'') [] s) else (1, printf (line ''error'') [] s))
      })"

text \<open>\<open>initenv\<close> has no \<open>return\<close> after a successful erase: the value \<open>None\<close> is an undefined one.\<close>

definition initenv :: "boot_cfg \<Rightarrow> ('d, 'z) emach_scheme hw_if \<Rightarrow> ('d, 'z) emach_scheme \<Rightarrow>
    (u32 option \<times> ('d, 'z) emach_scheme) option" where
  "initenv cfg hw s =
     (if env_offset s = 0
      then Some (Some 1, printf (line ''error: no area to save enviroment information in %s'') [env_name_spec cfg] s)
      else do {
        let s = printf ''Erasing to %s... '' [env_name_spec cfg] s;
        (ret, s) \<leftarrow> mmc_erase cfg hw
          \<lparr>bi_addr = 0, bi_block = env_offset s, bi_size = CONFIG_ENV_SIZE, bi_erase = 0\<rparr> s;
        Some (if ret = 0 then (None, printf (line ''done'') [] s) else (Some 1, printf (line ''error'') [] s))
      })"

section \<open>Setting a variable (cmd_nvedit.c)\<close>

definition STDIN :: u32 where "STDIN = 0"
definition STDOUT :: u32 where "STDOUT = 1"
definition STDERR :: u32 where "STDERR = 2"

text \<open>The array at \<open>env_get_addr(0)\<close>; setting a variable works only on the copy in RAM.\<close>

definition env_data_ram :: "('d, 'z) emach_scheme \<Rightarrow> (nat \<Rightarrow> u8) option" where
  "env_data_ram s = (if env_valid s \<and> env_addr s = Env_ram then Some (env_ram s) else None)"

definition console_of :: "u8 list \<Rightarrow> u32" where
  "console_of name =
     (if name = asc ''stdin'' then STDIN else if name = asc ''stdout'' then STDOUT
      else if name = asc ''stderr'' then STDERR else -1)"

text \<open>A new console device: the result is the value of an early return.\<close>

definition setenv_console :: "('d, 'z) emach_scheme env_io \<Rightarrow> u8 list \<Rightarrow> u8 list list \<Rightarrow> ('d, 'z) emach_scheme \<Rightarrow>
    u32 option \<times> ('d, 'z) emach_scheme" where
  "setenv_console io name vals s =
     (let console = console_of name
      in if console = -1 then (None, s)
         else if vals = [] then (Some 1, printf (line ''Can't delete \"%s\"'') [Str name] s)
         else case console_assign io console (hd vals) s of
           (r, s) \<Rightarrow> if sint r < 0 then (Some 1, s) else (None, s))"

text \<open>
  A new baud rate: wait for the user's return key at the new speed. Deleting \<open>baudrate\<close> reads
  the string at the address \<open>NULL\<close>, which is undefined.
\<close>

definition setenv_baudrate :: "('d, 'z) emach_scheme env_io \<Rightarrow> u8 list \<Rightarrow> u8 list list \<Rightarrow> ('d, 'z) emach_scheme \<Rightarrow>
    (u32 option \<times> ('d, 'z) emach_scheme) option" where
  "setenv_baudrate io name vals s =
     (if name \<noteq> asc ''baudrate'' then Some (None, s)
      else if vals = [] then None
      else let baudrate = fst (simple_strtoul (hd vals) 10)
        in if baudrate \<notin> set baudrate_table
           then Some (Some 1, printf (line ''## Baudrate %d bps not supported'') [Num baudrate] s)
           else do {
             let s = printf (line ''## Switch baudrate to %d bps and press ENTER ...'') [Num baudrate] s;
             s \<leftarrow> io_udelay io 50000 s;
             let s = serial_setbrg io (s\<lparr>gd_baudrate := baudrate\<rparr>);
             s \<leftarrow> io_udelay io 50000 s;
             (_, s) \<leftarrow> loopM (\<lambda>s. do {
                 (c, s) \<leftarrow> io_getc io s;
                 Some (if c = 0x0D then (Some (), s) else (None, s))
               }) s;
             Some (None, s)
           })"

text \<open>The variables that mirror an environment variable.\<close>

primrec parse_enetaddr :: "nat \<Rightarrow> u8 list \<Rightarrow> u8 list" where
  "parse_enetaddr 0 s = []"
| "parse_enetaddr (Suc n) s =
     (case simple_strtoul s 16 of (v, e) \<Rightarrow> ucast v # parse_enetaddr n (if e \<noteq> [] then tl e else e))"

primrec parse_ipaddr :: "nat \<Rightarrow> u32 \<Rightarrow> u8 list \<Rightarrow> u32" where
  "parse_ipaddr 0 addr s = addr"
| "parse_ipaddr (Suc n) addr s =
     (case simple_strtoul s 10 of (val, e) \<Rightarrow>
        parse_ipaddr n (push_bit 8 addr OR (val AND 0xFF)) (if e \<noteq> [] then tl e else e))"

definition htonl :: "u32 \<Rightarrow> u32" where
  "htonl x = push_bit 24 (x AND 0xFF) OR push_bit 8 (x AND 0xFF00) OR drop_bit 8 (x AND 0xFF0000) OR drop_bit 24 x"

definition copy_filename :: "u8 list \<Rightarrow> nat \<Rightarrow> u8 list" where
  "copy_filename src sz =
     (let (src, sz) = (if peek src 0 = 0x22 then (tl src, sz - 1) else (src, sz))
      in takeWhile (\<lambda>c. c \<noteq> 0x22) (take (sz - 1) src))"

definition setenv_mirror :: "u8 list \<Rightarrow> u8 list \<Rightarrow> ('d, 'z) emach_scheme \<Rightarrow> ('d, 'z) emach_scheme" where
  "setenv_mirror name val s =
     (if name = asc ''ethaddr'' then s\<lparr>bi_enetaddr := parse_enetaddr 6 val\<rparr>
      else if name = asc ''ipaddr'' then s\<lparr>bi_ip_addr := htonl (parse_ipaddr 4 0 val)\<rparr>
      else if name = asc ''loadaddr'' then s\<lparr>load_addr := fst (simple_strtoul val 16)\<rparr>
      else if name = asc ''bootfile'' then s\<lparr>boot_file := copy_filename val BOOTFILE_SIZE\<rparr>
      else s)"

text \<open>The variable is deleted, unless the search did not find it (\<open>oldval < 0\<close>).\<close>

definition setenv_delete :: "int \<Rightarrow> nat \<Rightarrow> nat \<Rightarrow> ('d, 'z) emach_scheme \<Rightarrow> ('d, 'z) emach_scheme option" where
  "setenv_delete oldval env nxt s =
     (if 0 \<le> oldval then do { d \<leftarrow> env_delete (env_ram s) env nxt; Some (s\<lparr>env_ram := d\<rparr>) } else Some s)"

text \<open>\<open>_do_setenv\<close> from the deletion on.\<close>

definition setenv_store :: "u8 list \<Rightarrow> u8 list list \<Rightarrow> ('d, 'z) emach_scheme \<Rightarrow> (u32 \<times> ('d, 'z) emach_scheme) option" where
  "setenv_store name vals s =
     (if vals = [] then Some (0, env_crc_update s)
      else do {
        env \<leftarrow> env_append_at (env_ram s);
        if int ENV_SIZE - int env < int (env_need name vals)
        then Some (1, printf (line ''## Error: environment overflow, \"%s\" deleted'') [Str name] s)
        else Some (0, setenv_mirror name (hd vals)
          (env_crc_update (s\<lparr>env_ram := env_append (env_ram s) env name vals\<rparr>)))
      })"

definition do_setenv_args :: "('d, 'z) emach_scheme env_io \<Rightarrow> u8 list \<Rightarrow> u8 list list \<Rightarrow> ('d, 'z) emach_scheme \<Rightarrow>
    (u32 \<times> ('d, 'z) emach_scheme) option" where
  "do_setenv_args io name vals s = do {
     d \<leftarrow> env_data_ram s;
     if 0x3D \<in> set name
     then Some (1, printf (line ''## Error: illegal character '' @ ''in variable name \"%s\"'') [Str name] s)
     else do {
       let s = s\<lparr>env_id := env_id s + 1\<rparr>;
       (oldval, env, nxt) \<leftarrow> setenv_find d name (-1) 0 0;
       (r, s) \<leftarrow> (if 0 \<le> oldval
         then case setenv_console io name vals s of
             (Some v, s) \<Rightarrow> Some (Some v, s)
           | (None, s) \<Rightarrow> setenv_baudrate io name vals s
         else Some (None, s));
       case r of
         Some v \<Rightarrow> Some (v, s)
       | None \<Rightarrow> do { s \<leftarrow> setenv_delete oldval env nxt s; setenv_store name vals s }
     }
   }"

text \<open>\<open>setenv\<close> and the command \<open>setenv\<close>, whose \<open>argv\<close> starts with the command itself.\<close>

definition setenv :: "('d, 'z) emach_scheme env_io \<Rightarrow> u8 list \<Rightarrow> u8 list option \<Rightarrow> ('d, 'z) emach_scheme \<Rightarrow>
    (u32 \<times> ('d, 'z) emach_scheme) option" where
  "setenv io varname varvalue s =
     do_setenv_args io varname (case varvalue of None \<Rightarrow> [] | Some v \<Rightarrow> [v]) s"

definition do_setenv :: "('d, 'z) emach_scheme env_io \<Rightarrow> (('d, 'z) emach_scheme \<Rightarrow> ('d, 'z) emach_scheme) \<Rightarrow>
    u8 list list \<Rightarrow> ('d, 'z) emach_scheme \<Rightarrow> (u32 \<times> ('d, 'z) emach_scheme) option" where
  "do_setenv io usage argv s =
     (case argv of
        cmd # name # vals \<Rightarrow> do_setenv_args io name vals s
      | _ \<Rightarrow> Some (1, usage s))"

section \<open>Reading variables\<close>

definition getenv :: "env_config \<Rightarrow> ('d, 'z) emach_scheme \<Rightarrow> u8 list \<Rightarrow> nat option option" where
  "getenv C s name = getenv_find (env_get_char C s) (unat CONFIG_ENV_SIZE) name 0"

text \<open>\<open>getenv_r\<close>: the result and the buffer, whose size is \<open>len\<close>.\<close>

definition getenv_r :: "env_config \<Rightarrow> ('d, 'z) emach_scheme \<Rightarrow> u8 list \<Rightarrow> (nat \<Rightarrow> u8) \<Rightarrow> nat \<Rightarrow> (int \<times> (nat \<Rightarrow> u8)) option" where
  "getenv_r C s name buf len = do {
     r \<leftarrow> getenv_find (env_get_char C s) (unat CONFIG_ENV_SIZE) name 0;
     case r of
       None \<Rightarrow> Some (-1, buf)
     | Some val \<Rightarrow>
         let (n, buf) = getenv_r_copy (env_get_char C s) val len 0 buf
         in Some (int n, if n = len then buf(len := 0) else buf)
   }"

definition putc :: "u8 \<Rightarrow> ('d, 'z) mach_scheme \<Rightarrow> ('d, 'z) mach_scheme" where
  "putc c s = printf ''%c'' [Num (ucast c)] s"

text \<open>All variables; \<open>i\<close> and the result of an abort come out of the loop.\<close>

definition printenv_all :: "env_config \<Rightarrow> ('d, 'z) emach_scheme env_io \<Rightarrow> ('d, 'z) emach_scheme \<Rightarrow>
    (u32 \<times> ('d, 'z) emach_scheme) option" where
  "printenv_all C io s = do {
     (r, i, s) \<leftarrow> loopM (\<lambda>(i, s).
         if env_get_char C s i = 0 then Some (Some None, i, s)
         else do {
           nxt \<leftarrow> env_end (env_get_char C s) i;
           let s = putc 0x0A (fold (\<lambda>k s. putc (env_get_char C s k) s) [i..<nxt] s);
           let (stop, s) = ctrlc io s;
           if stop then Some (Some (Some 1), i, printf (line (line [] @ '' ** Abort'')) [] s)
           else Some (None, nxt + 1, s)
         }) (0 :: nat, s);
     case r of
       Some v \<Rightarrow> Some (v, s)
     | None \<Rightarrow> Some (0, printf (line (line [] @ ''Environment size: %d/%ld bytes''))
         [Num (of_nat i), Num (of_nat ENV_SIZE)] s)
   }"

primrec printenv_names :: "env_config \<Rightarrow> u8 list list \<Rightarrow> u32 \<Rightarrow> ('d, 'z) emach_scheme \<Rightarrow> (u32 \<times> ('d, 'z) emach_scheme) option" where
  "printenv_names C [] rcode s = Some (rcode, s)"
| "printenv_names C (name # names) rcode s = do {
     (k, j, nxt) \<leftarrow> setenv_find (env_get_char C s) name (-1) 0 0;
     if 0 \<le> k
     then printenv_names C names rcode
       (putc 0x0A (fold (\<lambda>k s. putc (env_get_char C s k) s) [nat k..<nxt]
          (putc 0x3D (printf ''%s'' [Str name] s))))
     else printenv_names C names (rcode + 1) (printf (line ''## Error: \"%s\" not defined'') [Str name] s)
   }"

definition do_printenv :: "env_config \<Rightarrow> ('d, 'z) emach_scheme env_io \<Rightarrow> u8 list list \<Rightarrow> ('d, 'z) emach_scheme \<Rightarrow>
    (u32 \<times> ('d, 'z) emach_scheme) option" where
  "do_printenv C io argv s =
     (if length argv = 1 then printenv_all C io s else printenv_names C (tl argv) 0 s)"

text \<open>The commands \<open>saveenv\<close> and \<open>initenv\<close>; the latter has no defined result after a success.\<close>

definition do_saveenv :: "boot_cfg \<Rightarrow> ('d, 'z) emach_scheme hw_if \<Rightarrow> ('d, 'z) emach_scheme \<Rightarrow>
    (u32 \<times> ('d, 'z) emach_scheme) option" where
  "do_saveenv cfg hw s = do {
     (r, s) \<leftarrow> saveenv cfg hw (printf (line ''Saving Environment to %s...'') [env_name_spec cfg] s);
     Some (if r \<noteq> 0 then 1 else 0, s)
   }"

definition do_initenv :: "boot_cfg \<Rightarrow> ('d, 'z) emach_scheme hw_if \<Rightarrow> ('d, 'z) emach_scheme \<Rightarrow>
    (u32 option \<times> ('d, 'z) emach_scheme) option" where
  "do_initenv cfg hw s = do {
     (r, s) \<leftarrow> initenv cfg hw (printf (line ''Clear Environment to %s...'') [env_name_spec cfg] s);
     Some (map_option (\<lambda>v. if v \<noteq> 0 then 1 else 0) r, s)
   }"

section \<open>What setting a variable does\<close>

text \<open>
  The state after start-up: the environment in RAM holds the entries \<open>es\<close>, fits its array, and
  its checksum is right.
\<close>

definition env_good :: "('d, 'z) emach_scheme \<Rightarrow> u8 list list \<Rightarrow> bool" where
  "env_good s es \<longleftrightarrow> env_valid s \<and> env_addr s = Env_ram \<and> env_holds (env_ram s) es \<and>
     length (entries es) < ENV_SIZE \<and> ptr_crc s = env_data_crc (env_ram s)"

text \<open>A variable that is not tied to a console device or to the baud rate.\<close>

definition ordinary :: "u8 list \<Rightarrow> bool" where
  "ordinary name \<longleftrightarrow> name_ok name \<and> name \<notin> {asc ''stdin'', asc ''stdout'', asc ''stderr'', asc ''baudrate''}"

lemma ENV_SIZE_value: "ENV_SIZE = 131068"
  by (simp add: ENV_SIZE_def CONFIG_ENV_SIZE_def)

lemma setenv_mirror_fields [simp]:
  "env_ram (setenv_mirror name v s) = env_ram s" "ptr_crc (setenv_mirror name v s) = ptr_crc s"
  "env_valid (setenv_mirror name v s) = env_valid s" "env_addr (setenv_mirror name v s) = env_addr s"
  "gd_reloc (setenv_mirror name v s) = gd_reloc s" "mem (setenv_mirror name v s) = mem s"
  by (simp_all add: setenv_mirror_def)

lemma env_crc_update_fields [simp]:
  "env_ram (env_crc_update s) = env_ram s" "ptr_crc (env_crc_update s) = env_data_crc (env_ram s)"
  "env_valid (env_crc_update s) = env_valid s" "env_addr (env_crc_update s) = env_addr s"
  "gd_reloc (env_crc_update s) = gd_reloc s"
  by (simp_all add: env_crc_update_def)

lemma printf_env_fields [simp]:
  "env_ram (printf f xs s) = env_ram s" "ptr_crc (printf f xs s) = ptr_crc s"
  "env_valid (printf f xs s) = env_valid s" "env_addr (printf f xs s) = env_addr s"
  "gd_reloc (printf f xs s) = gd_reloc s"
  by (simp_all add: printf_def)

lemma env_remove_absent: "\<forall>e\<in>set es. \<not> entry_for name e \<Longrightarrow> env_remove name es = es"
  by (induction es) simp_all

lemma env_remove_split:
  "\<forall>e\<in>set es. \<not> entry_for name e \<Longrightarrow> entry_for name e \<Longrightarrow> env_remove name (es @ e # fs) = es @ fs"
  by (induction es) simp_all

lemma env_remove_length: "length (entries (env_remove name es)) \<le> length (entries es)"
  by (induction es) auto

text \<open>Up to the point where the new value is stored.\<close>

lemma setenv_removes:
  assumes "env_good s es" and "ordinary name"
  shows "\<exists>s1. do_setenv_args io name vals s = setenv_store name vals s1 \<and>
    env_holds (env_ram s1) (env_remove name es) \<and> (\<forall>i\<ge>ENV_SIZE. env_ram s1 i = env_ram s i) \<and>
    ptr_crc s1 = ptr_crc s \<and> env_valid s1 = env_valid s \<and> env_addr s1 = env_addr s \<and> gd_reloc s1 = gd_reloc s"
proof -
  let ?d = "env_ram s"
  have name: "name_ok name" "0x3D \<notin> set name" using assms(2) by (simp_all add: ordinary_def name_ok_def)
  have h: "env_holds ?d es" "env_data_ram s = Some ?d" "length (entries es) < ENV_SIZE"
    using assms(1) by (simp_all add: env_good_def env_data_ram_def)
  then have ok: "\<forall>e\<in>set es. entry_ok e" "holds ?d 0 (entries es)" "?d (0 + length (entries es)) = 0"
    by (simp_all add: env_holds_def)
  show ?thesis
  proof (cases "\<exists>e\<in>set es. entry_for name e")
    case False
    obtain old nxt where "old < 0" "setenv_find ?d name (-1) 0 0 = Some (old, length (entries es), nxt)"
      using setenv_find_none [OF name(1), of es ?d 0 "-1" 0] ok False by auto
    then show ?thesis
      using h name False
      by (intro exI [of _ "s\<lparr>env_id := env_id s + 1\<rparr>"])
         (simp add: do_setenv_args_def setenv_delete_def env_remove_absent)
  next
    case True
    then obtain es1 e es2 where es: "es = es1 @ e # es2" "entry_for name e" "\<forall>x\<in>set es1. \<not> entry_for name x"
      by (metis split_list_first_prop)
    let ?p = "length (entries es1)"
    have f: "setenv_find ?d name (-1) 0 0 = Some (int (?p + length name + 1), ?p, ?p + length e)"
      using setenv_find_found [OF name(1) es(2), of es1 es2 ?d 0 "-1" 0] ok es by simp
    obtain d' where d': "env_delete ?d ?p (?p + length e) = Some d'" "env_holds d' (es1 @ es2)"
      "\<forall>i>length (entries es). d' i = ?d i"
      using env_delete_value [of ?d es1 e es2] h(1) es(1) by auto
    have quiet: "console_of name = -1" "name \<noteq> asc ''baudrate''"
      using assms(2) by (simp_all add: ordinary_def console_of_def)
    have "do_setenv_args io name vals s =
        setenv_store name vals (s\<lparr>env_id := env_id s + 1\<rparr>\<lparr>env_ram := d'\<rparr>)"
      using h(2) name f d'(1) quiet
      by (simp add: do_setenv_args_def setenv_console_def setenv_baudrate_def setenv_delete_def)
    then show ?thesis
      using d' h(3) es by (intro exI [of _ "s\<lparr>env_id := env_id s + 1\<rparr>\<lparr>env_ram := d'\<rparr>"])
        (simp add: env_remove_split)
  qed
qed

lemma setenv_stores:
  assumes "env_good s es" and "ordinary name" and "\<forall>v\<in>set vals. 0 \<notin> set v"
    and fits: "length (entries (env_remove name es)) + env_need name vals \<le> ENV_SIZE" and "vals \<noteq> []"
  shows "\<exists>s'. do_setenv_args io name vals s = Some (0, s') \<and> env_good s' (env_set name vals es) \<and>
    (\<forall>i\<ge>ENV_SIZE. env_ram s' i = env_ram s i) \<and> gd_reloc s' = gd_reloc s"
proof -
  let ?r = "env_remove name es" and ?p = "length (entries (env_remove name es))"
  obtain s1 where s1: "do_setenv_args io name vals s = setenv_store name vals s1" "env_holds (env_ram s1) ?r"
    "\<forall>i\<ge>ENV_SIZE. env_ram s1 i = env_ram s i" "env_valid s1" "env_addr s1 = Env_ram" "gd_reloc s1 = gd_reloc s"
    using setenv_removes [OF assms(1,2), of io vals] assms(1) by (auto simp: env_good_def)
  have name: "name_ok name" using assms(2) by (simp add: ordinary_def)
  note app = env_append_value [OF s1(2) name assms(5,3)]
  let ?s = "setenv_mirror name (hd vals) (env_crc_update (s1\<lparr>env_ram := env_append (env_ram s1) ?p name vals\<rparr>))"
  have "setenv_store name vals s1 = Some (0, ?s)"
    using env_append_at_value [OF s1(2)] fits assms(5) by (simp add: setenv_store_def)
  moreover have "length (entries (env_set name vals es)) < ENV_SIZE"
    using fits by (simp add: env_set_def join_args_length env_need_def)
  moreover have "\<forall>i\<ge>ENV_SIZE. env_append (env_ram s1) ?p name vals i = env_ram s i"
    using app s1(3) fits by auto
  ultimately show ?thesis
    using s1 app by (auto simp: env_good_def env_set_def)
qed

text \<open>
  C9: deleting a variable, and setting one whose new entry fits in the data array, implement the
  same operations on the list of entries: the old definition goes, the new one is appended, and
  afterwards the environment is well formed with the right checksum again. The variable is an ordinary one, not
  tied to the console devices or the baud rate. When the entry does not fit this is not so: the old definition is gone and the checksum
  stale (\<open>setenv_overflow\<close>).
\<close>
theorem setenv_refines:
  assumes "env_good s es" and "ordinary name" and "\<forall>v\<in>set vals. 0 \<notin> set v"
  shows "(vals = [] \<longrightarrow> (\<exists>s'. do_setenv_args io name vals s = Some (0, s') \<and> env_good s' (env_remove name es))) \<and>
    (vals \<noteq> [] \<and> length (entries (env_remove name es)) + env_need name vals \<le> ENV_SIZE \<longrightarrow>
      (\<exists>s'. do_setenv_args io name vals s = Some (0, s') \<and> env_good s' (env_set name vals es)))"
proof (intro conjI impI)
  assume "vals = []"
  obtain s1 where s1: "do_setenv_args io name vals s = setenv_store name vals s1"
    "env_holds (env_ram s1) (env_remove name es)" "env_valid s1" "env_addr s1 = Env_ram"
    using setenv_removes [OF assms(1,2), of io vals] assms(1) by (auto simp: env_good_def)
  have "length (entries (env_remove name es)) < ENV_SIZE"
    using env_remove_length [of name es] assms(1) by (simp add: env_good_def)
  then show "\<exists>s'. do_setenv_args io name vals s = Some (0, s') \<and> env_good s' (env_remove name es)"
    using s1 \<open>vals = []\<close> by (simp add: setenv_store_def env_good_def)
next
  assume "vals \<noteq> [] \<and> length (entries (env_remove name es)) + env_need name vals \<le> ENV_SIZE"
  then show "\<exists>s'. do_setenv_args io name vals s = Some (0, s') \<and> env_good s' (env_set name vals es)"
    using setenv_stores [OF assms] by blast
qed

text \<open>
  C31: no call of \<open>setenv\<close> on an ordinary variable writes behind the data array, whatever the
  length of the value.
\<close>
theorem setenv_in_bounds:
  assumes "env_good s es" and "ordinary name" and "\<forall>v\<in>set vals. 0 \<notin> set v"
  shows "\<exists>r s'. do_setenv_args io name vals s = Some (r, s') \<and> (\<forall>i\<ge>ENV_SIZE. env_ram s' i = env_ram s i)"
proof (cases "vals \<noteq> [] \<and> length (entries (env_remove name es)) + env_need name vals \<le> ENV_SIZE")
  case True
  then show ?thesis using setenv_stores [OF assms] by blast
next
  case False
  obtain s1 where s1: "do_setenv_args io name vals s = setenv_store name vals s1"
    "env_holds (env_ram s1) (env_remove name es)" "\<forall>i\<ge>ENV_SIZE. env_ram s1 i = env_ram s i"
    using setenv_removes [OF assms(1,2), of io vals] by blast
  then show ?thesis
    using False env_append_at_value [OF s1(2)] by (auto simp: setenv_store_def)
qed

text \<open>
  When the value does not fit, \<open>_do_setenv\<close> returns 1 with the old definition deleted, and the
  stored checksum is still the one of the data before the deletion.
\<close>
theorem setenv_overflow:
  assumes "env_good s es" and "ordinary name" and "vals \<noteq> []"
    and "ENV_SIZE < length (entries (env_remove name es)) + env_need name vals"
  shows "\<exists>s'. do_setenv_args io name vals s = Some (1, s') \<and> env_holds (env_ram s') (env_remove name es) \<and>
    ptr_crc s' = env_data_crc (env_ram s)"
proof -
  obtain s1 where s1: "do_setenv_args io name vals s = setenv_store name vals s1"
    "env_holds (env_ram s1) (env_remove name es)" "ptr_crc s1 = ptr_crc s"
    using setenv_removes [OF assms(1,2), of io vals] by blast
  then show ?thesis
    using assms env_append_at_value [OF s1(2)] by (auto simp: setenv_store_def env_good_def)
qed

section \<open>Reading back\<close>

lemma entry_for_iff: "entry_for name e \<longleftrightarrow> (\<exists>v. e = name @ 0x3D # v)"
proof
  assume "entry_for name e"
  then show "\<exists>v. e = name @ 0x3D # v"
    by (metis append_take_drop_id entry_for_def append_Cons append_Nil append_assoc)
qed (auto simp: entry_for_def)

lemma entry_for_unique:
  assumes "name_ok a" and "name_ok b" and "entry_for a e" and "entry_for b e"
  shows "a = b"
proof -
  have "takeWhile (\<lambda>c. c \<noteq> 0x3D) e = n" if "name_ok n" "entry_for n e" for n
  proof -
    obtain v where "e = n @ 0x3D # v" using \<open>entry_for n e\<close> by (auto simp: entry_for_iff)
    moreover have "x \<noteq> 0x3D" if "x \<in> set n" for x using \<open>name_ok n\<close> that by (auto simp: name_ok_def)
    ultimately show ?thesis by (simp add: takeWhile_append2)
  qed
  with assms show ?thesis by blast
qed

lemma env_lookup_append:
  "env_lookup name (es @ fs) = (case env_lookup name es of None \<Rightarrow> env_lookup name fs | Some v \<Rightarrow> Some v)"
  by (induction es) (simp_all add: env_lookup_def)

lemma env_lookup_remove_other:
  assumes "name_ok name" and "name_ok other" and "other \<noteq> name"
  shows "env_lookup other (env_remove name es) = env_lookup other es"
proof -
  have no: "\<not> entry_for other e" if "entry_for name e" for e
    using entry_for_unique [OF assms(1,2) that] assms(3) by blast
  show ?thesis by (induction es) (simp_all add: env_lookup_def no)
qed

lemma env_lookup_single:
  "length (filter (entry_for name) es) \<le> 1 \<Longrightarrow> env_lookup name (env_remove name es) = None"
proof (induction es)
  case (Cons e es)
  show ?case
  proof (cases "entry_for name e")
    case True
    then have "filter (entry_for name) es = []" using Cons.prems by simp
    then show ?thesis using True by (simp add: env_lookup_def find_None_iff filter_empty_conv)
  next
    case False
    then show ?thesis using Cons by (simp add: env_lookup_def)
  qed
qed (simp add: env_lookup_def)

lemma getenv_value:
  assumes "env_good s es" and "name_ok name"
  shows "case env_lookup name es of
      None \<Rightarrow> getenv C s name = Some None
    | Some v \<Rightarrow> \<exists>k. getenv C s name = Some (Some k) \<and> holds (env_ram s) k (v @ [0])"
proof -
  have "env_get_char C s = env_ram s"
    using assms(1)
    by (simp add: fun_eq_iff env_get_char_def env_get_char_memory_def env_get_char_init_def env_get_char_spec_def env_good_def)
  then show ?thesis
    using getenv_find_value [OF assms(2), of es "env_ram s" 0 "unat CONFIG_ENV_SIZE"] assms(1)
    by (auto simp: getenv_def env_good_def env_holds_def ENV_SIZE_value CONFIG_ENV_SIZE_def split: option.splits)
qed

text \<open>
  C16: after \<open>setenv name val\<close>, \<open>getenv name\<close> points to \<open>val\<close>, and every other variable reads as
  before, for an ordinary name (not tied to the console devices or the baud rate) that had at most one
  definition before, and a new definition that fits in the data array. (When it does not fit, \<open>getenv\<close>
  finds nothing afterwards, see \<open>setenv_overflow\<close>.)
\<close>
theorem setenv_getenv:
  assumes good: "env_good s es" and name: "ordinary name" and val: "0 \<notin> set val"
    and fits: "length (entries (env_remove name es)) + env_need name [val] \<le> ENV_SIZE"
    and single: "length (filter (entry_for name) es) \<le> 1"
  shows "\<exists>s'. setenv io name (Some val) s = Some (0, s') \<and>
    (\<exists>k. getenv C s' name = Some (Some k) \<and> holds (env_ram s') k (val @ [0])) \<and>
    (\<forall>other. name_ok other \<longrightarrow> other \<noteq> name \<longrightarrow>
      (case env_lookup other es of
         None \<Rightarrow> getenv C s' other = Some None
       | Some v \<Rightarrow> \<exists>k. getenv C s' other = Some (Some k) \<and> holds (env_ram s') k (v @ [0])))"
proof -
  have ok: "name_ok name" using name by (simp add: ordinary_def)
  obtain s' where s': "do_setenv_args io name [val] s = Some (0, s')" "env_good s' (env_set name [val] es)"
    using setenv_stores [OF good name, of "[val]" io] val fits by auto
  have new: "entry_for name (name @ 0x3D # val)" by (auto simp: entry_for_iff)
  have "env_lookup name (env_set name [val] es) = Some val"
    using env_lookup_single [OF single] new by (simp add: env_set_def env_lookup_append) (simp add: env_lookup_def)
  moreover have "env_lookup other (env_set name [val] es) = env_lookup other es" if "name_ok other" "other \<noteq> name" for other
  proof -
    have "\<not> entry_for other (name @ 0x3D # val)" using entry_for_unique [OF ok that(1) new] that(2) by blast
    then have "env_lookup other [name @ 0x3D # val] = None" by (simp add: env_lookup_def)
    then show ?thesis
      using env_lookup_remove_other [OF ok that] by (simp add: env_set_def env_lookup_append split: option.split)
  qed
  ultimately have "(\<exists>k. getenv C s' name = Some (Some k) \<and> holds (env_ram s') k (val @ [0])) \<and>
    (\<forall>other. name_ok other \<longrightarrow> other \<noteq> name \<longrightarrow>
      (case env_lookup other es of
         None \<Rightarrow> getenv C s' other = Some None
       | Some v \<Rightarrow> \<exists>k. getenv C s' other = Some (Some k) \<and> holds (env_ram s') k (v @ [0])))"
    using getenv_value [OF s'(2) ok, of C] getenv_value [OF s'(2), of _ C] by force
  moreover have "setenv io name (Some val) s = Some (0, s')" using s'(1) by (simp add: setenv_def)
  ultimately show ?thesis by blast
qed

text \<open>
  \<open>getenv_r\<close> with a buffer of \<open>len\<close> bytes: a value that fits with room to spare is copied with
  its terminator. When value and terminator fill the buffer exactly, one more byte is written
  behind it; when the value does not fit, \<open>len\<close> bytes are copied without a terminator and the
  result is \<open>len + 1\<close>.
\<close>
theorem getenv_r_terminator:
  assumes "env_good s es" and "name_ok name" and "env_lookup name es = Some v" and "0 \<notin> set v"
  shows "\<exists>n buf'. getenv_r C s name buf len = Some (int n, buf') \<and>
    (length v + 1 < len \<longrightarrow> n = length v + 1 \<and> holds buf' 0 (v @ [0]) \<and> (\<forall>i\<ge>len. buf' i = buf i)) \<and>
    (length v + 1 = len \<longrightarrow> n = len \<and> holds buf' 0 (v @ [0]) \<and> buf' len = 0) \<and>
    (len \<le> length v \<longrightarrow> n = len + 1 \<and> holds buf' 0 (take len v) \<and> (\<forall>i\<ge>len. buf' i = buf i))"
proof -
  obtain k where k: "getenv C s name = Some (Some k)" "holds (env_ram s) k (v @ [0])"
    using getenv_value [OF assms(1,2), of C] assms(3) by auto
  have "env_get_char C s = env_ram s"
    using assms(1)
    by (simp add: fun_eq_iff env_get_char_def env_get_char_memory_def env_get_char_init_def env_get_char_spec_def env_good_def)
  then have "getenv_r C s name buf len = (let (n, buf) = getenv_r_copy (env_ram s) k len 0 buf
      in Some (int n, if n = len then buf(len := 0) else buf))"
    using k(1) by (simp add: getenv_r_def getenv_def)
  also have "getenv_r_copy (env_ram s) k len 0 buf =
      (if len \<le> length v then (len + 1, \<lambda>i. if 0 \<le> i \<and> i < len then v ! i else buf i)
       else (length v + 1, \<lambda>i. if 0 \<le> i \<and> i < length v then v ! i else if i = length v then 0 else buf i))"
    by (rule getenv_r_copy_value [OF k(2) assms(4)]) simp_all
  finally have r: "getenv_r C s name buf len = (if len \<le> length v
      then Some (int (len + 1), \<lambda>i. if i < len then v ! i else buf i)
      else Some (int (length v + 1), let b = \<lambda>i. if i < length v then v ! i else if i = length v then 0 else buf i
        in if length v + 1 = len then b(len := 0) else b))"
    by (simp add: Let_def)
  show ?thesis
  proof (cases "len \<le> length v")
    case True
    then show ?thesis
      by (intro exI [of _ "len + 1"] exI [of _ "\<lambda>i. if i < len then v ! i else buf i"]) (simp add: r holds_nth)
  next
    case False
    let ?b = "\<lambda>i. if i < length v then v ! i else if i = length v then 0 else buf i"
    show ?thesis
      using False
      by (intro exI [of _ "length v + 1"] exI [of _ "if length v + 1 = len then ?b(len := 0) else ?b"])
         (auto simp: r holds_nth nth_append Let_def less_Suc_eq)
  qed
qed

section \<open>The default environment and the copy on the card\<close>

lemma default_env_good_aux:
  assumes "\<forall>e\<in>set (default_entries C). entry_ok e" and "length (default_environment C) \<le> ENV_SIZE"
  shows "env_good (set_default_env C s\<lparr>env_addr := Env_ram\<rparr>) (default_entries C)"
proof -
  let ?d = "\<lambda>i. if i < length (default_environment C) then default_environment C ! i
      else if i < ENV_SIZE then 0 else env_ram s i"
  let ?es = "default_entries C"
  have "holds ?d 0 (default_environment C)" by (simp add: holds_nth)
  then have h: "holds ?d 0 (entries ?es)" "?d (length (entries ?es)) = 0" "?d (Suc (length (entries ?es))) = 0"
    unfolding default_environment_def holds_append by simp_all
  have "env_holds ?d ?es"
    unfolding env_holds_def
  proof (intro conjI impI)
    show "?d 1 = 0" if "?es = []" using h(3) unfolding that entries.simps list.size One_nat_def .
  qed (use h assms(1) in blast)+
  moreover have "length (entries (default_entries C)) < ENV_SIZE"
    using assms(2) by (simp add: default_environment_def)
  ultimately show ?thesis
    using assms(2) by (simp add: env_good_def set_default_env_def env_crc_update_def)
qed

text \<open>
  C30: when the environment on the card was not accepted, \<open>env_relocate\<close> leaves a well formed
  environment with the right checksum, which holds the default entries.
\<close>
theorem default_env_good:
  assumes "\<forall>e\<in>set (default_entries C). entry_ok e" and "length (default_environment C) \<le> ENV_SIZE"
    and "\<not> env_valid s"
  shows "env_good (env_relocate C heap s) (default_entries C)"
  using default_env_good_aux [OF assms(1,2)] assms(3) by (simp add: env_relocate_def)

lemma word_from_bytes:
  fixes v :: u32
  assumes "n < 32"
  shows "bit (ucast (ucast v :: u8) OR push_bit 8 (ucast (ucast (drop_bit 8 v) :: u8)) OR
    push_bit 16 (ucast (ucast (drop_bit 16 v) :: u8)) OR push_bit 24 (ucast (ucast (drop_bit 24 v) :: u8)) :: u32) n = bit v n"
proof -
  consider "n < 8" | "8 \<le> n" "n < 16" | "16 \<le> n" "n < 24" | "24 \<le> n" by linarith
  then show ?thesis
    using assms by cases (simp_all add: bit_simps less_diff_conv2, (cases "bit v n"; simp; arith)?)
qed

lemma store_word_bytes:
  fixes v :: u32
  assumes "\<forall>i<4. m (a + of_nat i) = ucast (drop_bit (8 * i) v)"
  shows "load32 m a = v"
proof -
  have b: "m a = ucast v" "m (a + 1) = ucast (drop_bit 8 v)" "m (a + 2) = ucast (drop_bit 16 v)"
    "m (a + 3) = ucast (drop_bit 24 v)"
    using assms [rule_format, of 0] assms [rule_format, of 1] assms [rule_format, of 2] assms [rule_format, of 3]
    by simp_all
  show ?thesis
    unfolding load32_def b by (rule bit_word_eqI) (rule word_from_bytes, simp)
qed

text \<open>The copy in memory, once it is there.\<close>

definition tmp_holds :: "('d, 'z) emach_scheme \<Rightarrow> (u32 \<Rightarrow> u8) \<Rightarrow> bool" where
  "tmp_holds s m \<longleftrightarrow> (\<forall>i<unat CONFIG_ENV_SIZE. m (CONFIG_ENV_TMP_ADDR + of_nat i) = env_image s i)"

lemma env_to_tmp_holds: "env_addr s = Env_ram \<Longrightarrow> tmp_holds s (mem (env_to_tmp s))"
  by (simp add: tmp_holds_def env_to_tmp_def blit_at_0 CONFIG_ENV_SIZE_def)

lemma tmp_holds_parts:
  assumes "tmp_holds s m"
  shows "load32 m CONFIG_ENV_TMP_ADDR = ptr_crc s"
    and "i < ENV_SIZE \<Longrightarrow> m (CONFIG_ENV_TMP_ADDR + 4 + of_nat i) = env_ram s i"
proof -
  show "load32 m CONFIG_ENV_TMP_ADDR = ptr_crc s"
    using assms by (intro store_word_bytes) (simp add: tmp_holds_def CONFIG_ENV_SIZE_def env_image_def)
  show "m (CONFIG_ENV_TMP_ADDR + 4 + of_nat i) = env_ram s i" if "i < ENV_SIZE"
    using assms [unfolded tmp_holds_def, rule_format, of "4 + i"] that
    by (simp add: env_image_def ENV_SIZE_def CONFIG_ENV_SIZE_def add_ac)
qed



section \<open>The properties at a concrete environment\<close>

definition sample_cfg :: env_config where
  "sample_cfg = \<lparr>BOOTARGS = None, BOOTCOMMAND = None, RAMBOOTCOMMAND = None, NFSBOOTCOMMAND = None,
     BOOTDELAY = Some ''3'', BAUDRATE = None, LOADS_ECHO = None, ETHADDR = None, ETH1ADDR = None, ETH2ADDR = None,
     ETH3ADDR = None, ETH4ADDR = None, ETH5ADDR = None, IPADDR = None, SERVERIP = None, SYS_AUTOLOAD = None,
     PREBOOT = None, ROOTPATH = None, GATEWAYIP = None, NETMASK = None, HOSTNAME = None, BOOTFILE = None,
     LOADADDR = None, CLOCKS_IN_MHZ = None, PCI_BOOTDELAY = None, EXTRA_ENV_SETTINGS = [''a=1'']\<rparr>"

definition sample_start :: "unit emach" where
  "sample_start = \<lparr>mem = (\<lambda>_. 0), dev = (), outp = [], mmc_erase_blocks = 0, mmc_protect_blk = 0, dev_total_blk = 0,
     env_ram = (\<lambda>_. 0), ptr_crc = 0, env_addr = Env_tmp, env_valid = False, gd_reloc = True, env_offset = 0,
     env_id = 0, gd_baudrate = 0, load_addr = 0, bi_ip_addr = 0, bi_enetaddr = [], boot_file = []\<rparr>"

definition sample_io :: "unit emach env_io" where
  "sample_io = \<lparr>console_assign = (\<lambda>_ _ s. (0, s)), serial_setbrg = (\<lambda>s. s), io_udelay = (\<lambda>_ s. Some s),
     io_getc = (\<lambda>s. Some (0x0D, s)), ctrlc = (\<lambda>s. (False, s))\<rparr>"

definition sample_env :: "unit emach" where
  "sample_env = set_default_env sample_cfg sample_start\<lparr>env_addr := Env_ram\<rparr>"

lemma sample_entries: "default_entries sample_cfg = [asc ''bootdelay=3'', asc ''a=1'']"
  by (simp add: default_entries_def sample_cfg_def)

lemma sample_entries_ok:
  "\<forall>e\<in>set (default_entries sample_cfg). entry_ok e" "length (default_environment sample_cfg) \<le> ENV_SIZE"
  by (simp_all add: sample_entries default_environment_def entry_ok_def asc_def ENV_SIZE_value)

lemma sample_good: "env_good sample_env [asc ''bootdelay=3'', asc ''a=1'']"
  using default_env_good_aux [OF sample_entries_ok, of sample_start] by (simp only: sample_env_def sample_entries)

lemma sample_names: "ordinary (asc ''a'')" "name_ok (asc ''bootdelay'')"
  by (simp_all add: ordinary_def name_ok_def asc_def)

lemma sample_remove: "env_remove (asc ''a'') [asc ''bootdelay=3'', asc ''a=1''] = [asc ''bootdelay=3'']"
  by (simp add: asc_def entry_for_def)

theorem setenv_refines_witness:
  "\<exists>s'. do_setenv_args sample_io (asc ''a'') [asc ''27''] sample_env = Some (0, s') \<and>
    env_good s' [asc ''bootdelay=3'', asc ''a=27'']"
  using setenv_refines [OF sample_good sample_names(1), of "[asc ''27'']" sample_io]
  unfolding sample_remove env_set_def by (simp add: asc_def env_need_def ENV_SIZE_value)

theorem setenv_in_bounds_witness:
  "\<exists>r s'. do_setenv_args sample_io (asc ''a'') [replicate 1000000 1] sample_env = Some (r, s') \<and>
    (\<forall>i\<ge>ENV_SIZE. env_ram s' i = env_ram sample_env i)"
  by (rule setenv_in_bounds [OF sample_good sample_names(1)]) simp

theorem setenv_overflow_witness:
  "\<exists>s'. do_setenv_args sample_io (asc ''a'') [replicate 131068 1] sample_env = Some (1, s') \<and>
    env_holds (env_ram s') [asc ''bootdelay=3''] \<and> ptr_crc s' = env_data_crc (env_ram sample_env)"
  using setenv_overflow [OF sample_good sample_names(1), of "[replicate 131068 1]" sample_io]
  unfolding sample_remove by (simp add: env_need_def ENV_SIZE_value)

theorem setenv_getenv_witness:
  "\<exists>s'. setenv sample_io (asc ''a'') (Some (asc ''27'')) sample_env = Some (0, s') \<and>
    (\<exists>k. getenv sample_cfg s' (asc ''a'') = Some (Some k) \<and> holds (env_ram s') k (asc ''27'' @ [0]))"
proof -
  have "0 \<notin> set (asc ''27'')" "length (entries [asc ''bootdelay=3'']) + env_need (asc ''a'') [asc ''27''] \<le> ENV_SIZE"
    "length (filter (entry_for (asc ''a'')) [asc ''bootdelay=3'', asc ''a=1'']) \<le> 1"
    by (simp_all add: asc_def env_need_def ENV_SIZE_value entry_for_def)
  then show ?thesis
    using setenv_getenv [OF sample_good sample_names(1), of "asc ''27''" sample_io sample_cfg]
    unfolding sample_remove by blast
qed

theorem getenv_r_terminator_witness:
  "\<exists>buf'. getenv_r sample_cfg sample_env (asc ''bootdelay'') (\<lambda>_. 7) 2 = Some (2, buf') \<and> buf' 2 = 0"
proof -
  have "env_lookup (asc ''bootdelay'') [asc ''bootdelay=3'', asc ''a=1''] = Some [0x33]"
    by (simp add: env_lookup_def entry_for_def asc_def)
  then show ?thesis
    using getenv_r_terminator [OF sample_good sample_names(2), of "[0x33]" sample_cfg "\<lambda>_. 7" 2] by auto
qed

theorem default_env_good_witness:
  "env_good (env_relocate sample_cfg (\<lambda>_. 0xFF) sample_start) [asc ''bootdelay=3'', asc ''a=1'']"
  using default_env_good [OF sample_entries_ok, of sample_start "\<lambda>_. 0xFF"]
  by (simp add: sample_entries sample_start_def)


end
