(* ===== verification/CmdLine.thy ===== *)
theory CmdLine
  imports Env
begin

text \<open>
  The parsers of the command line: \<open>parse_line\<close> and \<open>process_macros\<close> of \<open>common/main.c\<close>, and
  the search for a command of \<open>common/command.c\<close>. The line of \<open>parse_line\<close> is an array with indices
  as pointers, since the arguments are cut out of it in place. The other two only read their
  input, which is the list of its bytes.
\<close>

section \<open>Cutting a line into arguments\<close>

definition CONFIG_SYS_MAXARGS :: nat where "CONFIG_SYS_MAXARGS = 24"
definition CONFIG_SYS_CBSIZE :: nat where "CONFIG_SYS_CBSIZE = 384"

definition blank :: "u8 \<Rightarrow> bool" where "blank c \<longleftrightarrow> c = 0x20 \<or> c = 0x09"

partial_function (option) skip_blanks :: "(nat \<Rightarrow> u8) \<Rightarrow> nat \<Rightarrow> nat option" where
  "skip_blanks d p = (if blank (d p) then skip_blanks d (p + 1) else Some p)"

partial_function (option) end_of_arg :: "(nat \<Rightarrow> u8) \<Rightarrow> nat \<Rightarrow> nat option" where
  "end_of_arg d p = (if d p \<noteq> 0 \<and> \<not> blank (d p) then end_of_arg d (p + 1) else Some p)"

text \<open>
  The loop with \<open>k\<close> arguments to go: the pointers stored in \<open>argv\<close>, whether \<open>NULL\<close> was stored
  behind them, and the line.
\<close>

primrec parse_args :: "nat \<Rightarrow> (nat \<Rightarrow> u8) \<Rightarrow> nat \<Rightarrow> (nat list \<times> bool \<times> (nat \<Rightarrow> u8)) option" where
  "parse_args 0 d p = Some ([], False, d)"
| "parse_args (Suc k) d p = do {
     p \<leftarrow> skip_blanks d p;
     if d p = 0 then Some ([], True, d)
     else do {
       e \<leftarrow> end_of_arg d p;
       if d e = 0 then Some ([p], True, d)
       else do {
         (argv, ended, d) \<leftarrow> parse_args k (d(e := 0)) (e + 1);
         Some (p # argv, ended, d)
       }
     }
   }"

definition parse_line :: "(nat \<Rightarrow> u8) \<Rightarrow> nat \<Rightarrow> (nat list \<times> bool \<times> (nat \<Rightarrow> u8)) option" where
  "parse_line d p = parse_args CONFIG_SYS_MAXARGS d p"

text \<open>The string a pointer points to.\<close>

partial_function (option) str_at :: "(nat \<Rightarrow> u8) \<Rightarrow> nat \<Rightarrow> u8 list option" where
  "str_at d p = (if d p = 0 then Some [] else Option.bind (str_at d (p + 1)) (\<lambda>r. Some (d p # r)))"

section \<open>Replacing macros\<close>

datatype pm_mode = Wait_dollar | Wait_open | Wait_close | Wait_quote

record pm =
  pm_state :: pm_mode
  prev :: u8
  varname_start :: nat
  inpos :: nat
  outbuf :: "u8 list"
  outputcnt :: nat

definition pm_put :: "u8 \<Rightarrow> pm \<Rightarrow> pm" where
  "pm_put c m = m\<lparr>outbuf := outbuf m @ [c], outputcnt := outputcnt m - 1\<rparr>"

text \<open>The bytes of a value, at most \<open>n\<close> of them.\<close>

primrec env_copy :: "(nat \<Rightarrow> u8) \<Rightarrow> nat \<Rightarrow> nat \<Rightarrow> u8 list" where
  "env_copy d p 0 = []"
| "env_copy d p (Suc n) = (if d p = 0 then [] else d p # env_copy d (p + 1) n)"

text \<open>
  One pass of the \<open>switch\<close>; \<open>inp\<close> is the whole input, \<open>inpos m\<close> the index behind \<open>c\<close>. The name of a
  variable goes with its terminator into \<open>envname\<close>, an array of \<open>CONFIG_SYS_CBSIZE\<close> bytes on the
  stack, without a check: \<open>None\<close> when it is written behind its end.
\<close>

definition pm_char :: "env_config \<Rightarrow> ('d, 'z) emach_scheme \<Rightarrow> u8 list \<Rightarrow> u8 \<Rightarrow> pm \<Rightarrow> pm option" where
  "pm_char C s inp c m =
     (case pm_state m of
        Wait_dollar \<Rightarrow>
          Some (if c = 0x27 \<and> prev m \<noteq> 0x5C then m\<lparr>pm_state := Wait_quote\<rparr>
                else if c = 0x24 \<and> prev m \<noteq> 0x5C then m\<lparr>pm_state := Wait_open\<rparr>
                else pm_put c m)
      | Wait_open \<Rightarrow>
          Some (if c = 0x28 \<or> c = 0x7B then m\<lparr>pm_state := Wait_close, varname_start := inpos m\<rparr>
                else let m = pm_put 0x24 (m\<lparr>pm_state := Wait_dollar\<rparr>)
                  in if outputcnt m \<noteq> 0 then pm_put c m else m)
      | Wait_close \<Rightarrow>
          if c = 0x29 \<or> c = 0x7D
          then do {
            let envname = take (inpos m - varname_start m - 1) (drop (varname_start m) inp);
            envval \<leftarrow> (if CONFIG_SYS_CBSIZE \<le> length envname then None else getenv C s envname);
            let m = (case envval of
                None \<Rightarrow> m
              | Some k \<Rightarrow> let v = env_copy (env_get_char C s) k (outputcnt m)
                  in m\<lparr>outbuf := outbuf m @ v, outputcnt := outputcnt m - length v\<rparr>);
            Some (m\<lparr>pm_state := Wait_dollar\<rparr>)
          }
          else Some m
      | Wait_quote \<Rightarrow>
          Some (if c = 0x27 \<and> prev m \<noteq> 0x5C then m\<lparr>pm_state := Wait_dollar\<rparr> else pm_put c m))"

lemma pm_char_inpos: "pm_char C s inp c m = Some m' \<Longrightarrow> inpos m' = inpos m"
  by (auto simp: pm_char_def pm_put_def Let_def bind_eq_Some_conv split: pm_mode.splits if_splits option.splits)

text \<open>The loop, where an escape character takes the next character with it.\<close>

function pm_loop :: "env_config \<Rightarrow> ('d, 'z) emach_scheme \<Rightarrow> u8 list \<Rightarrow> pm \<Rightarrow> pm option" where
  "pm_loop C s inp m =
     (if length inp \<le> inpos m \<or> outputcnt m = 0 then Some m
      else let c = inp ! inpos m; m = m\<lparr>inpos := inpos m + 1\<rparr>
        in if pm_state m \<noteq> Wait_quote \<and> c = 0x5C \<and> prev m \<noteq> 0x5C
           then if length inp \<le> inpos m then Some m
             else let c' = inp ! inpos m
               in Option.bind (pm_char C s inp c' (m\<lparr>prev := c, inpos := inpos m + 1\<rparr>))
                    (\<lambda>m. pm_loop C s inp (m\<lparr>prev := c'\<rparr>))
           else Option.bind (pm_char C s inp c m) (\<lambda>m. pm_loop C s inp (m\<lparr>prev := c\<rparr>)))"
  by pat_completeness auto
termination
  by (relation "measure (\<lambda>(_, _, inp, m). length inp - inpos m)") (auto dest!: pm_char_inpos)

declare pm_loop.simps [simp del]

definition process_macros :: "env_config \<Rightarrow> ('d, 'z) emach_scheme \<Rightarrow> u8 list \<Rightarrow> u8 list option" where
  "process_macros C s inp = do {
     m \<leftarrow> pm_loop C s inp \<lparr>pm_state = Wait_dollar, prev = 0, varname_start = 0, inpos = 0,
            outbuf = [], outputcnt = CONFIG_SYS_CBSIZE\<rparr>;
     Some (if outputcnt m \<noteq> 0 then outbuf m else butlast (outbuf m))
   }"

section \<open>Finding a command\<close>

record 's cmd_tbl =
  cmd_name :: "u8 list"
  maxargs :: nat
  repeatable :: u32
  cmd_fn :: "u32 \<Rightarrow> u8 list list \<Rightarrow> 's \<Rightarrow> (u32 \<times> 's) option"
  cmd_is_bootd :: bool
  cmd_usage_text :: "u8 list option"
  cmd_help_text :: "u8 list option"

text \<open>
  The name is compared up to the first dot. The loop keeps the last abbreviated command and the
  number of them.
\<close>

definition cmd_len :: "u8 list \<Rightarrow> nat" where
  "cmd_len cmd = length (takeWhile (\<lambda>c. c \<noteq> 0x2E) cmd)"

primrec find_cmd_loop :: "u8 list \<Rightarrow> nat \<Rightarrow> ('s, 'z) cmd_tbl_scheme list \<Rightarrow> ('s, 'z) cmd_tbl_scheme option \<Rightarrow> nat \<Rightarrow>
    ('s, 'z) cmd_tbl_scheme option" where
  "find_cmd_loop cmd len [] cmdtp_temp n_found = (if n_found = 1 then cmdtp_temp else None)"
| "find_cmd_loop cmd len (cmdtp # table) cmdtp_temp n_found =
     (if take len cmd = take len (cmd_name cmdtp)
      then if len = length (cmd_name cmdtp) then Some cmdtp
        else find_cmd_loop cmd len table (Some cmdtp) (n_found + 1)
      else find_cmd_loop cmd len table cmdtp_temp n_found)"

definition find_cmd_tbl :: "u8 list \<Rightarrow> ('s, 'z) cmd_tbl_scheme list \<Rightarrow> ('s, 'z) cmd_tbl_scheme option" where
  "find_cmd_tbl cmd table = find_cmd_loop cmd (cmd_len cmd) table None 0"

section \<open>The arguments are the words of the line\<close>

text \<open>The words of a line: its maximal parts without a blank.\<close>

function line_words :: "u8 list \<Rightarrow> u8 list list" where
  "line_words l =
     (let r = dropWhile blank l
      in if r = [] then [] else takeWhile (\<lambda>c. \<not> blank c) r # line_words (dropWhile (\<lambda>c. \<not> blank c) r))"
  by auto
termination
proof (relation "measure length")
  fix l r :: "u8 list"
  assume r: "r = dropWhile blank l" "r \<noteq> []"
  then have "\<not> blank (hd r)" using hd_dropWhile [of blank l] by simp
  then have "length (dropWhile (\<lambda>c. \<not> blank c) r) < length r"
    using r(2) by (cases r) (simp_all add: le_imp_less_Suc length_dropWhile_le)
  also have "\<dots> \<le> length l" unfolding r(1) by (rule length_dropWhile_le)
  finally show "(dropWhile (\<lambda>c. \<not> blank c) r, l) \<in> measure length" by simp
qed simp

declare line_words.simps [simp del]

lemma line_words_blank: "blank b \<Longrightarrow> line_words (b # l) = line_words l"
  by (subst (1 2) line_words.simps) simp

lemma line_words_blanks: "\<forall>b\<in>set bs. blank b \<Longrightarrow> line_words (bs @ l) = line_words l"
  by (induction bs) (simp_all add: line_words_blank)

lemma line_words_split:
  assumes "w \<noteq> []" and "\<forall>c\<in>set w. \<not> blank c" and "r = [] \<or> blank (hd r)"
  shows "line_words (w @ r) = w # line_words r"
proof -
  have "dropWhile blank (w @ r) = w @ r" using assms(1,2) by (cases w) simp_all
  moreover have "takeWhile (\<lambda>c. \<not> blank c) (w @ r) = w" "dropWhile (\<lambda>c. \<not> blank c) (w @ r) = r"
    using assms(2,3) by (cases r; simp add: takeWhile_append2 dropWhile_append2)+
  ultimately show ?thesis using assms(1) by (subst line_words.simps) simp
qed

lemma skip_blanks_value:
  "holds d p bs \<Longrightarrow> \<forall>b\<in>set bs. blank b \<Longrightarrow> \<not> blank (d (p + length bs)) \<Longrightarrow> skip_blanks d p = Some (p + length bs)"
  by (induction bs arbitrary: p) (auto simp: skip_blanks.simps [of d])

lemma end_of_arg_value:
  "holds d p w \<Longrightarrow> \<forall>c\<in>set w. c \<noteq> 0 \<and> \<not> blank c \<Longrightarrow> d (p + length w) = 0 \<or> blank (d (p + length w)) \<Longrightarrow>
    end_of_arg d p = Some (p + length w)"
  by (induction w arbitrary: p) (subst end_of_arg.simps, auto)+

lemma str_at_value: "holds d p (w @ [0]) \<Longrightarrow> 0 \<notin> set w \<Longrightarrow> str_at d p = Some w"
  by (induction w arbitrary: p) (auto simp: str_at.simps [of d])

lemma not_blank_0 [simp]: "\<not> blank 0"
  by (simp add: blank_def)

lemma line_cases:
  obtains (empty) bs where "l = bs" "\<forall>b\<in>set bs. blank b"
  | (arg) bs w r where "l = bs @ w @ r" "\<forall>b\<in>set bs. blank b" "w \<noteq> []" "\<forall>c\<in>set w. \<not> blank c" "r = [] \<or> blank (hd r)"
proof (cases "\<forall>b\<in>set l. blank b")
  case False
  let ?r = "dropWhile blank l"
  let ?w = "takeWhile (\<lambda>c. \<not> blank c) ?r" and ?q = "dropWhile (\<lambda>c. \<not> blank c) ?r"
  have ne: "?r \<noteq> []" using False by (simp add: dropWhile_eq_Nil_conv)
  show ?thesis
  proof (rule arg)
    show "l = takeWhile blank l @ ?w @ ?q" by simp
    show "\<forall>b\<in>set (takeWhile blank l). blank b" by (auto dest: set_takeWhileD)
    show "?w \<noteq> []" using ne hd_dropWhile [OF ne] by (cases ?r) (simp_all add: takeWhile_eq_Nil_iff)
    show "\<forall>c\<in>set ?w. \<not> blank c" by (auto dest: set_takeWhileD)
    show "?q = [] \<or> blank (hd ?q)" using hd_dropWhile [of "\<lambda>c. \<not> blank c" ?r] by auto
  qed
qed blast

lemma parse_args_empty:
  assumes "holds d p (bs @ [0])" and "\<forall>b\<in>set bs. blank b"
  shows "parse_args (Suc k) d p = Some ([], True, d)"
  using assms skip_blanks_value [of d p bs] by simp

lemma parse_args_arg:
  assumes "holds d p (bs @ w @ r @ [0])" and "\<forall>b\<in>set bs. blank b"
    and "w \<noteq> []" and "\<forall>c\<in>set w. c \<noteq> 0 \<and> \<not> blank c" and "r = [] \<or> blank (hd r)"
  shows "parse_args (Suc k) d p =
    (if r = [] then Some ([p + length bs], True, d)
     else do {
       (argv, ended, d) \<leftarrow> parse_args k (d(p + length bs + length w := 0)) (p + length bs + length w + 1);
       Some ((p + length bs) # argv, ended, d)
     })"
proof -
  let ?q = "p + length bs"
  have "d ?q \<noteq> 0" "\<not> blank (d ?q)" using assms(1,3,4) by (cases w; simp)+
  then have "skip_blanks d p = Some ?q" using assms(1,2) by (intro skip_blanks_value) simp_all
  moreover have e: "d (?q + length w) = (if r = [] then 0 else hd r)"
    using assms(1) by (cases r) simp_all
  then have "end_of_arg d ?q = Some (?q + length w)"
    using assms(1,4,5) by (intro end_of_arg_value) auto
  moreover have "d (?q + length w) = 0 \<longleftrightarrow> r = []" using e assms(5) not_blank_0 by (auto split: if_splits)
  ultimately show ?thesis using \<open>d ?q \<noteq> 0\<close> by simp
qed

lemma parse_args_value:
  "holds d p (l @ [0]) \<Longrightarrow> 0 \<notin> set l \<Longrightarrow>
    \<exists>argv ended d'. parse_args k d p = Some (argv, ended, d') \<and>
      map (str_at d') argv = map Some (take k (line_words l)) \<and>
      (length (line_words l) < k \<longrightarrow> ended) \<and> (k < length (line_words l) \<longrightarrow> \<not> ended) \<and>
      (\<forall>i. i < p \<or> p + length l \<le> i \<longrightarrow> d' i = d i)"
proof (induction k arbitrary: d p l)
  case (Suc k)
  show ?case
  proof (cases l rule: line_cases)
    case (empty bs)
    then have "line_words l = []" using line_words_blanks [of bs "[]"] by (simp add: line_words.simps [of "[]"])
    then show ?thesis using parse_args_empty [of d p l k] Suc.prems empty by (auto simp del: parse_args.simps)
  next
    case (arg bs w r)
    let ?q = "p + length bs" and ?e = "p + length bs + length w"
    have words: "line_words l = w # line_words r"
      using arg line_words_blanks [of bs "w @ r"] line_words_split by simp
    have w: "\<forall>c\<in>set w. c \<noteq> 0 \<and> \<not> blank c" using arg Suc.prems(2) by auto
    note step = parse_args_arg [of d p bs w r k, OF _ arg(2,3) w arg(5)]
    show ?thesis
    proof (cases r)
      case Nil
      then have "str_at d ?q = Some w" using arg Suc.prems w by (intro str_at_value) auto
      then show ?thesis using step words Nil arg Suc.prems by (auto simp: line_words.simps [of "[]"] simp del: parse_args.simps)
    next
      case (Cons b r')
      define d0 where "d0 = d(?e := 0)"
      have h: "holds d0 (?e + 1) (r' @ [0])" using Suc.prems(1) arg Cons by (simp add: d0_def)
      obtain argv ended d' where ih: "parse_args k d0 (?e + 1) = Some (argv, ended, d')"
        "map (str_at d') argv = map Some (take k (line_words r'))"
        "length (line_words r') < k \<longrightarrow> ended" "k < length (line_words r') \<longrightarrow> \<not> ended"
        "\<forall>i. i < ?e + 1 \<or> ?e + 1 + length r' \<le> i \<longrightarrow> d' i = d0 i"
        using Suc.IH [OF h] Suc.prems(2) arg Cons by auto
      have "holds d0 ?q (w @ [0])" using Suc.prems(1) arg by (simp add: d0_def)
      then have "holds d' ?q (w @ [0])" using ih(5) by (subst holds_cong [of _ _ _ d0]) auto
      then have "str_at d' ?q = Some w" using w by (intro str_at_value) auto
      moreover have "parse_args (Suc k) d p = Some (?q # argv, ended, d')"
        using step Suc.prems(1) arg Cons ih(1) by (simp add: d0_def)
      moreover have "line_words r = line_words r'" using arg(5) Cons by (simp add: line_words_blank)
      moreover have "\<forall>i. i < p \<or> p + length l \<le> i \<longrightarrow> d' i = d i"
        using ih(5) arg Cons by (auto simp: d0_def)
      ultimately show ?thesis using ih words by simp
    qed
  qed
qed auto

text \<open>
  C32: \<open>parse_line\<close> cuts a line into its words: the pointers it stores point to the first 24 words,
  \<open>NULL\<close> follows when there are fewer and does not when there are more, and only bytes of the
  line are changed.
\<close>
theorem parse_line_words:
  assumes "holds d p (l @ [0])" and "0 \<notin> set l"
  shows "\<exists>argv ended d'. parse_line d p = Some (argv, ended, d') \<and>
    map (str_at d') argv = map Some (take CONFIG_SYS_MAXARGS (line_words l)) \<and>
    (length (line_words l) < CONFIG_SYS_MAXARGS \<longrightarrow> ended) \<and> (CONFIG_SYS_MAXARGS < length (line_words l) \<longrightarrow> \<not> ended) \<and>
    (\<forall>i. i < p \<or> p + length l \<le> i \<longrightarrow> d' i = d i)"
  unfolding parse_line_def by (rule parse_args_value [OF assms])

section \<open>The command that is found\<close>

lemma find_cmd_loop_value:
  "find_cmd_loop cmd n table tmp k =
    (case List.find (\<lambda>e. cmd_name e = take n cmd \<and> length (cmd_name e) = n) table of
       Some e \<Rightarrow> Some e
     | None \<Rightarrow> let ms = filter (\<lambda>e. take n (cmd_name e) = take n cmd) table
         in if k + length ms = 1 then (if ms = [] then tmp else Some (last ms)) else None)"
proof (induction table arbitrary: tmp k)
  case (Cons e table)
  consider "take n cmd = take n (cmd_name e)" "n = length (cmd_name e)"
    | "take n cmd = take n (cmd_name e)" "n \<noteq> length (cmd_name e)" | "take n cmd \<noteq> take n (cmd_name e)" by blast
  then show ?case
    by cases (auto simp: Cons.IH Let_def split: option.splits)
qed (simp add: Let_def)

text \<open>
  A command whose name is what was typed up to the first dot is found, the first of them in
  the table, whatever other names it abbreviates. Without one, an abbreviation of exactly one
  name stands for this command, and anything else is not found.
\<close>
theorem find_cmd_tbl_resolves:
  "find_cmd_tbl cmd table =
    (let word = takeWhile (\<lambda>c. c \<noteq> 0x2E) cmd
     in case List.find (\<lambda>e. cmd_name e = word) table of
          Some e \<Rightarrow> Some e
        | None \<Rightarrow> (case filter (\<lambda>e. take (length word) (cmd_name e) = word) table of [e] \<Rightarrow> Some e | _ \<Rightarrow> None))"
proof -
  let ?w = "takeWhile (\<lambda>c. c \<noteq> 0x2E) cmd"
  have "take (cmd_len cmd) cmd = ?w" by (simp add: cmd_len_def takeWhile_eq_take [symmetric])
  moreover have "(cmd_name e = ?w \<and> length (cmd_name e) = length ?w) = (cmd_name e = ?w)" for e :: "('a, 'b) cmd_tbl_scheme"
    by auto
  ultimately show ?thesis
    unfolding find_cmd_tbl_def find_cmd_loop_value
    by (auto simp: cmd_len_def Let_def length_Suc_conv split: option.splits list.splits)
qed

section \<open>Macros: the output buffer\<close>

lemma env_copy_length: "length (env_copy d p n) \<le> n"
  by (induction n arbitrary: p) simp_all

text \<open>What is written and what is left make up the buffer.\<close>

definition pm_fits :: "pm \<Rightarrow> bool" where
  "pm_fits m \<longleftrightarrow> length (outbuf m) + outputcnt m = CONFIG_SYS_CBSIZE"

lemma pm_put_fits: "pm_fits m \<Longrightarrow> outputcnt m \<noteq> 0 \<Longrightarrow> pm_fits (pm_put c m)"
  by (simp add: pm_fits_def pm_put_def)

lemma pm_char_fits:
  assumes "pm_fits m" and "outputcnt m \<noteq> 0" and "pm_char C s inp c m = Some m'"
  shows "pm_fits m'"
proof (cases "pm_state m")
  case Wait_close
  then show ?thesis
    using assms env_copy_length [of "env_get_char C s" _ "outputcnt m"]
    by (auto simp: pm_char_def pm_fits_def Let_def bind_eq_Some_conv split: if_splits option.splits)
qed (use assms in \<open>auto simp: pm_char_def pm_fits_def pm_put_def Let_def split: if_splits\<close>)

lemma pm_loop_fits: "pm_loop C s inp m = Some m' \<Longrightarrow> pm_fits m \<Longrightarrow> pm_fits m'"
proof (induction C s inp m arbitrary: m' rule: pm_loop.induct)
  case (1 C s inp m)
  let ?c = "inp ! inpos m"
  show ?case
  proof (cases "length inp \<le> inpos m \<or> outputcnt m = 0")
    case True
    then show ?thesis using 1(3,4) by (simp add: pm_loop.simps [of C s inp m])
  next
    case run: False
    show ?thesis
    proof (cases "pm_state m \<noteq> Wait_quote \<and> ?c = 0x5C \<and> prev m \<noteq> 0x5C")
      case True
      show ?thesis
      proof (cases "length inp \<le> inpos m + 1")
        case True
        then show ?thesis
          using 1(3,4) run \<open>pm_state m \<noteq> Wait_quote \<and> _\<close>
          by (auto simp: pm_loop.simps [of C s inp m] pm_fits_def)
      next
        case False
        then obtain m1 where m1: "pm_char C s inp (inp ! (inpos m + 1)) (m\<lparr>prev := ?c, inpos := inpos m + 2\<rparr>) = Some m1"
          "pm_loop C s inp (m1\<lparr>prev := inp ! (inpos m + 1)\<rparr>) = Some m'"
          using 1(3) run True by (auto simp: pm_loop.simps [of C s inp m] bind_eq_Some_conv Let_def)
        have "pm_fits m1" using m1(1) 1(4) run by (intro pm_char_fits [OF _ _ m1(1)]) (simp_all add: pm_fits_def)
        then show ?thesis
          using 1(1) [OF _ refl refl _ _ refl, of m1 m'] run True False m1 by (auto simp: pm_fits_def)
      qed
    next
      case False
      then obtain m1 where m1: "pm_char C s inp ?c (m\<lparr>inpos := inpos m + 1\<rparr>) = Some m1"
        "pm_loop C s inp (m1\<lparr>prev := ?c\<rparr>) = Some m'"
        using 1(3) run by (auto simp: pm_loop.simps [of C s inp m] bind_eq_Some_conv Let_def)
      have "pm_fits m1" using m1(1) 1(4) run by (intro pm_char_fits [OF _ _ m1(1)]) (simp_all add: pm_fits_def)
      then show ?thesis
        using 1(2) [OF _ refl refl, of m1 m'] run False m1 by (auto simp: pm_fits_def)
    qed
  qed
qed

section \<open>Macros: every input is processed\<close>

lemma envmatch_total:
  "entry_ok e \<Longrightarrow> holds d p (e @ [0]) \<Longrightarrow> 0 \<notin> set name \<Longrightarrow> \<exists>r. envmatch d name p = Some r"
proof (induction name arbitrary: e p)
  case Nil
  then show ?case by (cases e) (auto simp: entry_ok_def)
next
  case (Cons n ns)
  obtain c e' where e: "e = c # e'" using Cons.prems(1) by (cases e) (auto simp: entry_ok_def)
  show ?case
  proof (cases "n = c \<and> c \<noteq> 0x3D")
    case True
    then have "entry_ok e'" using Cons.prems(1) e by (auto simp: entry_ok_def)
    then show ?thesis using Cons.IH [of e' "p + 1"] Cons.prems True e by auto
  qed (use Cons.prems e in auto)
qed

lemma getenv_find_total:
  assumes "0 \<notin> set name"
  shows "\<forall>e\<in>set es. entry_ok e \<Longrightarrow> holds d p (entries es) \<Longrightarrow> d (p + length (entries es)) = 0 \<Longrightarrow>
    p + length (entries es) \<le> lim \<Longrightarrow> \<exists>r. getenv_find d lim name p = Some r"
proof (induction es arbitrary: p)
  case (Cons e es)
  have e: "entry_ok e" "holds d p (e @ 0 # entries es)" using Cons.prems by simp_all
  have nxt: "getenv_end d lim p = Some (p + length e)"
    using e Cons.prems by (intro getenv_end_value [of d p e "entries es"]) (auto simp: entry_ok_def)
  obtain r where "envmatch d name p = Some r" using envmatch_total [OF e(1) _ assms, of d p] e(2) by auto
  then show ?case
    using entry_ok_first [OF e] nxt Cons.IH [of "p + length e + 1"] Cons.prems
    by (simp add: getenv_find.simps [of d lim name p] add_ac)
qed (simp add: getenv_find.simps [of d])

lemma env_good_chars: "env_good s es \<Longrightarrow> env_get_char C s = env_ram s"
  by (simp add: fun_eq_iff env_get_char_def env_get_char_memory_def env_get_char_init_def env_get_char_spec_def env_good_def)

lemma getenv_total:
  assumes "env_good s es" and "0 \<notin> set name"
  shows "\<exists>r. getenv C s name = Some r"
  using getenv_find_total [OF assms(2), of es "env_ram s" 0 "unat CONFIG_ENV_SIZE"] assms(1)
  by (simp add: getenv_def env_good_chars [OF assms(1)] env_good_def env_holds_def ENV_SIZE_value CONFIG_ENV_SIZE_def)

lemma pm_char_total:
  assumes "env_good s es" and "0 \<notin> set inp" and "inpos m \<le> CONFIG_SYS_CBSIZE"
  shows "\<exists>m'. pm_char C s inp c m = Some m'"
proof -
  let ?n = "take (inpos m - varname_start m - 1) (drop (varname_start m) inp)"
  have "0 \<notin> set ?n" using assms(2) by (meson in_set_dropD in_set_takeD)
  then obtain r where "getenv C s ?n = Some r" using getenv_total [OF assms(1)] by blast
  moreover have "\<not> CONFIG_SYS_CBSIZE \<le> length ?n" using assms(3) unfolding CONFIG_SYS_CBSIZE_def length_take by linarith
  ultimately show ?thesis by (cases "pm_state m") (simp_all add: pm_char_def Let_def del: length_take length_drop)
qed

lemma pm_loop_total:
  "env_good s es \<Longrightarrow> 0 \<notin> set inp \<Longrightarrow> length inp \<le> CONFIG_SYS_CBSIZE \<Longrightarrow> \<exists>m'. pm_loop C s inp m = Some m'"
proof (induction C s inp m rule: pm_loop.induct)
  case (1 C s inp m)
  let ?c = "inp ! inpos m"
  show ?case
  proof (cases "length inp \<le> inpos m \<or> outputcnt m = 0")
    case True
    then show ?thesis by (subst pm_loop.simps) simp
  next
    case False
    have m1: "\<exists>m1. pm_char C s inp (inp ! (inpos m + 1)) (m\<lparr>prev := ?c, inpos := inpos m + 2\<rparr>) = Some m1" if "\<not> length inp \<le> inpos m + 1"
      using that 1(5) by (intro pm_char_total [OF 1(3,4)]) simp
    obtain m2 where m2: "pm_char C s inp ?c (m\<lparr>inpos := inpos m + 1\<rparr>) = Some m2"
      using pm_char_total [OF 1(3,4), of "m\<lparr>inpos := inpos m + 1\<rparr>"] False 1(5) by auto
    show ?thesis
      using 1(1) [OF _ refl refl _ _ refl] 1(2) [OF _ refl refl, of m2] 1(3-5) m1 m2 False
      by (subst pm_loop.simps) (auto simp: Let_def)
  qed
qed

text \<open>
  C21: for every input of up to 384 bytes (the lines \<open>run_command\<close> passes are shorter) and every
  environment, \<open>process_macros\<close> returns without a write behind \<open>envname\<close>, and the text with its
  terminator fits the output buffer of 384 bytes, whatever the lengths of the values.
\<close>
theorem macros_in_bounds:
  assumes "env_good s es" and "0 \<notin> set inp" and "length inp \<le> CONFIG_SYS_CBSIZE"
  shows "\<exists>out. process_macros C s inp = Some out \<and> length out < CONFIG_SYS_CBSIZE"
proof -
  let ?m = "\<lparr>pm_state = Wait_dollar, prev = 0, varname_start = 0, inpos = 0, outbuf = [], outputcnt = CONFIG_SYS_CBSIZE\<rparr>"
  obtain m where m: "pm_loop C s inp ?m = Some m" using pm_loop_total [OF assms] by blast
  then have "pm_fits m" by (rule pm_loop_fits) (simp add: pm_fits_def)
  then show ?thesis
    using m by (auto simp: process_macros_def pm_fits_def CONFIG_SYS_CBSIZE_def)
qed

section \<open>Macros: what they stand for\<close>

text \<open>The parts of a line: text, an escaped character, a variable, quoted text.\<close>

datatype macro = Text "u8 list" | Escaped u8 | Variable "u8 list" | Quoted "u8 list"

primrec macro_ok :: "macro \<Rightarrow> bool" where
  "macro_ok (Text cs) \<longleftrightarrow> set cs \<inter> {0, 0x24, 0x27, 0x5C} = {}"
| "macro_ok (Escaped c) \<longleftrightarrow> c \<noteq> 0 \<and> c \<noteq> 0x5C"
| "macro_ok (Variable name) \<longleftrightarrow> name_ok name \<and> set name \<inter> {0x29, 0x7D, 0x5C} = {} \<and> length name < CONFIG_SYS_CBSIZE"
| "macro_ok (Quoted cs) \<longleftrightarrow> set cs \<inter> {0, 0x27, 0x5C} = {}"

primrec macro_source :: "macro \<Rightarrow> u8 list" where
  "macro_source (Text cs) = cs"
| "macro_source (Escaped c) = [0x5C, c]"
| "macro_source (Variable name) = 0x24 # 0x7B # name @ [0x7D]"
| "macro_source (Quoted cs) = 0x27 # cs @ [0x27]"

primrec macro_value :: "u8 list list \<Rightarrow> macro \<Rightarrow> u8 list" where
  "macro_value es (Text cs) = cs"
| "macro_value es (Escaped c) = [c]"
| "macro_value es (Variable name) = (case env_lookup name es of None \<Rightarrow> [] | Some v \<Rightarrow> v)"
| "macro_value es (Quoted cs) = cs"

abbreviation pm_at :: "pm_mode \<Rightarrow> u8 \<Rightarrow> nat \<Rightarrow> nat \<Rightarrow> u8 list \<Rightarrow> nat \<Rightarrow> pm" where
  "pm_at st pv vs k out n \<equiv>
     \<lparr>pm_state = st, prev = pv, varname_start = vs, inpos = k, outbuf = out, outputcnt = n\<rparr>"

lemma pm_loop_step:
  assumes "n \<noteq> 0" and "st = Wait_quote \<or> c \<noteq> 0x5C"
  shows "pm_loop C s (pre @ c # post) (pm_at st pv vs (length pre) out n) =
    Option.bind (pm_char C s (pre @ c # post) c (pm_at st pv vs (length pre + 1) out n))
      (\<lambda>m. pm_loop C s (pre @ c # post) (m\<lparr>prev := c\<rparr>))"
  using assms by (subst pm_loop.simps) (auto simp: Let_def)

lemma pm_loop_escape:
  assumes "n \<noteq> 0" and "st \<noteq> Wait_quote" and "pv \<noteq> 0x5C"
  shows "pm_loop C s (pre @ 0x5C # c # post) (pm_at st pv vs (length pre) out n) =
    Option.bind (pm_char C s (pre @ 0x5C # c # post) c (pm_at st 0x5C vs (length pre + 2) out n))
      (\<lambda>m. pm_loop C s (pre @ 0x5C # c # post) (m\<lparr>prev := c\<rparr>))"
  using assms by (subst pm_loop.simps) (simp add: Let_def nth_append)

lemma pm_loop_plain:
  "set cs \<inter> {0x27, 0x5C} = {} \<Longrightarrow> st = Wait_dollar \<and> 0x24 \<notin> set cs \<or> st = Wait_quote \<Longrightarrow> pv \<noteq> 0x5C \<Longrightarrow> length cs < n \<Longrightarrow>
    \<exists>pv'. pv' \<noteq> 0x5C \<and> pm_loop C s (pre @ cs @ post) (pm_at st pv vs (length pre) out n) =
      pm_loop C s (pre @ cs @ post) (pm_at st pv' vs (length (pre @ cs)) (out @ cs) (n - length cs))"
proof (induction cs arbitrary: pre pv out n)
  case (Cons c cs)
  have "\<exists>pv'. pv' \<noteq> 0x5C \<and> pm_loop C s ((pre @ [c]) @ cs @ post) (pm_at st c vs (length (pre @ [c])) (out @ [c]) (n - 1)) =
      pm_loop C s ((pre @ [c]) @ cs @ post) (pm_at st pv' vs (length ((pre @ [c]) @ cs)) ((out @ [c]) @ cs) (n - 1 - length cs))"
    using Cons.prems by (intro Cons.IH) auto
  moreover have "pm_loop C s (pre @ c # cs @ post) (pm_at st pv vs (length pre) out n) =
      pm_loop C s (pre @ c # cs @ post) (pm_at st c vs (length pre + 1) (out @ [c]) (n - 1))"
    using Cons.prems by (subst pm_loop_step) (auto simp: pm_char_def pm_put_def)
  ultimately show ?case by simp
qed auto

lemma pm_loop_name:
  "set name \<inter> {0x29, 0x7D, 0x5C} = {} \<Longrightarrow> n \<noteq> 0 \<Longrightarrow>
    \<exists>pv'. pm_loop C s (pre @ name @ post) (pm_at Wait_close pv vs (length pre) out n) =
      pm_loop C s (pre @ name @ post) (pm_at Wait_close pv' vs (length (pre @ name)) out n)"
proof (induction name arbitrary: pre pv)
  case (Cons c name)
  have "\<exists>pv'. pm_loop C s ((pre @ [c]) @ name @ post) (pm_at Wait_close c vs (length (pre @ [c])) out n) =
      pm_loop C s ((pre @ [c]) @ name @ post) (pm_at Wait_close pv' vs (length ((pre @ [c]) @ name)) out n)"
    using Cons.prems by (intro Cons.IH) auto
  moreover have "pm_loop C s (pre @ c # name @ post) (pm_at Wait_close pv vs (length pre) out n) =
      pm_loop C s (pre @ c # name @ post) (pm_at Wait_close c vs (length pre + 1) out n)"
    using Cons.prems by (subst pm_loop_step) (auto simp: pm_char_def)
  ultimately show ?case by simp
qed auto

lemma env_copy_value: "holds d p (v @ [0]) \<Longrightarrow> 0 \<notin> set v \<Longrightarrow> length v < n \<Longrightarrow> env_copy d p n = v"
proof (induction v arbitrary: p n)
  case Nil
  then show ?case by (cases n) simp_all
next
  case (Cons c v)
  then show ?case by (cases n) auto
qed

lemma env_lookup_no_end: "\<forall>e\<in>set es. entry_ok e \<Longrightarrow> env_lookup name es = Some v \<Longrightarrow> 0 \<notin> set v"
  by (auto simp: env_lookup_def find_Some_iff entry_ok_def dest!: in_set_dropD)

text \<open>The value of a variable goes into the output.\<close>

lemma pm_char_variable:
  assumes "env_good s es" and "name_ok name" and "length name < CONFIG_SYS_CBSIZE"
    and "length (macro_value es (Variable name)) < n" and "vs = length pre"
  shows "pm_char C s (pre @ name @ 0x7D # post) 0x7D (pm_at Wait_close pv vs (length pre + length name + 1) out n) =
    Some (pm_at Wait_dollar pv vs (length pre + length name + 1) (out @ macro_value es (Variable name))
      (n - length (macro_value es (Variable name))))"
proof (cases "env_lookup name es")
  case None
  then have "getenv C s name = Some None" using getenv_value [OF assms(1,2), of C] by simp
  then show ?thesis using None assms by (simp add: pm_char_def)
next
  case (Some v)
  then obtain k where k: "getenv C s name = Some (Some k)" "holds (env_ram s) k (v @ [0])"
    using getenv_value [OF assms(1,2), of C] by auto
  have "0 \<notin> set v" using env_lookup_no_end [OF _ Some] assms(1) by (simp add: env_good_def env_holds_def)
  then have "env_copy (env_ram s) k n = v" using k(2) assms(4) Some by (intro env_copy_value) simp_all
  then show ?thesis using k(1) Some assms by (simp add: pm_char_def env_good_chars [OF assms(1)])
qed

lemma pm_loop_variable:
  assumes "env_good s es" and "macro_ok (Variable name)" and "pv \<noteq> 0x5C"
    and "length (macro_value es (Variable name)) < n"
  shows "\<exists>vs'. pm_loop C s (pre @ macro_source (Variable name) @ post) (pm_at Wait_dollar pv vs (length pre) out n) =
    pm_loop C s (pre @ macro_source (Variable name) @ post)
      (pm_at Wait_dollar 0x7D vs' (length (pre @ macro_source (Variable name))) (out @ macro_value es (Variable name))
        (n - length (macro_value es (Variable name))))"
proof -
  let ?inp = "pre @ 0x24 # 0x7B # name @ 0x7D # post" and ?pre = "pre @ [0x24, 0x7B]"
  let ?v = "macro_value es (Variable name)"
  have n: "n \<noteq> 0" using assms(4) by simp
  have "pm_loop C s ?inp (pm_at Wait_dollar pv vs (length pre) out n) =
      pm_loop C s ?inp (pm_at Wait_open 0x24 vs (length pre + 1) out n)"
    using assms(3) n by (subst pm_loop_step) (simp_all add: pm_char_def)
  also have "\<dots> = pm_loop C s ?inp (pm_at Wait_close 0x7B (length ?pre) (length ?pre) out n)"
    using n pm_loop_step [of n Wait_open "0x7B" C s "pre @ [0x24]" "name @ 0x7D # post" "0x24" vs out]
    by (simp add: pm_char_def)
  also obtain pv' where "\<dots> = pm_loop C s ?inp (pm_at Wait_close pv' (length ?pre) (length (?pre @ name)) out n)"
    using pm_loop_name [of name n C s ?pre "0x7D # post" "0x7B" "length ?pre" out] assms(2) n by auto
  also have "\<dots> = pm_loop C s ?inp (pm_at Wait_dollar 0x7D (length ?pre) (length ?pre + length name + 1) (out @ ?v) (n - length ?v))"
    using n assms pm_loop_step [of n Wait_close "0x7D" C s "?pre @ name" post pv' "length ?pre" out]
      pm_char_variable [OF assms(1) _ _ assms(4), of "length ?pre" ?pre C post pv' out]
    by simp
  finally show ?thesis by auto
qed

lemma pm_loop_macro:
  assumes "env_good s es" and "macro_ok x" and "pv \<noteq> 0x5C" and "length (macro_value es x) < n"
  shows "\<exists>pv' vs'. pv' \<noteq> 0x5C \<and>
    pm_loop C s (pre @ macro_source x @ post) (pm_at Wait_dollar pv vs (length pre) out n) =
      pm_loop C s (pre @ macro_source x @ post)
        (pm_at Wait_dollar pv' vs' (length (pre @ macro_source x)) (out @ macro_value es x) (n - length (macro_value es x)))"
proof (cases x)
  case (Text cs)
  then show ?thesis
    using pm_loop_plain [of cs Wait_dollar pv n C s pre post vs out] assms by auto
next
  case (Escaped c)
  then have "pm_loop C s (pre @ macro_source x @ post) (pm_at Wait_dollar pv vs (length pre) out n) =
      pm_loop C s (pre @ macro_source x @ post) (pm_at Wait_dollar c vs (length pre + 2) (out @ [c]) (n - 1))"
    using assms pm_loop_escape [of n Wait_dollar pv C s pre c post vs out] by (simp add: pm_char_def pm_put_def)
  then show ?thesis using Escaped assms(2) by (intro exI [of _ c] exI [of _ vs]) simp
next
  case (Variable name)
  have "(0x7D :: u8) \<noteq> 0x5C" by simp
  then show ?thesis using pm_loop_variable [OF assms(1), of name pv n C pre post vs out] assms Variable by blast
next
  case (Quoted cs)
  let ?inp = "pre @ 0x27 # cs @ 0x27 # post"
  have n: "n \<noteq> 0" "n - length cs \<noteq> 0" using assms(4) Quoted by auto
  have "pm_loop C s ?inp (pm_at Wait_dollar pv vs (length pre) out n) =
      pm_loop C s ?inp (pm_at Wait_quote 0x27 vs (length pre + 1) out n)"
    using assms(3) n by (subst pm_loop_step) (simp_all add: pm_char_def)
  also obtain pv' where pv': "pv' \<noteq> 0x5C"
    "\<dots> = pm_loop C s ?inp (pm_at Wait_quote pv' vs (length pre + 1 + length cs) (out @ cs) (n - length cs))"
    using pm_loop_plain [of cs Wait_quote "0x27" n C s "pre @ [0x27]" "0x27 # post" vs out] assms Quoted by auto
  note pv'(2)
  also have "pm_loop C s ?inp (pm_at Wait_quote pv' vs (length pre + 1 + length cs) (out @ cs) (n - length cs)) =
      pm_loop C s ?inp (pm_at Wait_dollar 0x27 vs (length pre + 1 + length cs + 1) (out @ cs) (n - length cs))"
    using n(2) pv'(1)
      pm_loop_step [of "n - length cs" Wait_quote "0x27" C s "pre @ 0x27 # cs" post pv' vs "out @ cs"]
    by (simp add: pm_char_def)
  finally show ?thesis using Quoted by (intro exI [of _ "0x27"] exI [of _ vs]) simp
qed

lemma pm_loop_macros:
  assumes "env_good s es"
  shows "\<forall>x\<in>set xs. macro_ok x \<Longrightarrow> pv \<noteq> 0x5C \<Longrightarrow> length (concat (map (macro_value es) xs)) < n \<Longrightarrow>
    \<exists>m. pm_loop C s (pre @ concat (map macro_source xs)) (pm_at Wait_dollar pv vs (length pre) out n) = Some m \<and>
      outbuf m = out @ concat (map (macro_value es) xs) \<and> outputcnt m \<noteq> 0"
proof (induction xs arbitrary: pre pv vs out n)
  case Nil
  then show ?case by (simp add: pm_loop.simps)
next
  case (Cons x xs)
  let ?v = "macro_value es x" and ?post = "concat (map macro_source xs)"
  obtain pv' vs' where 1: "pv' \<noteq> 0x5C"
    "pm_loop C s (pre @ macro_source x @ ?post) (pm_at Wait_dollar pv vs (length pre) out n) =
      pm_loop C s (pre @ macro_source x @ ?post)
        (pm_at Wait_dollar pv' vs' (length (pre @ macro_source x)) (out @ ?v) (n - length ?v))"
    using pm_loop_macro [OF assms, of x pv n C pre ?post vs out] Cons.prems by auto
  show ?case
    using Cons.IH [of pv' "n - length ?v" "pre @ macro_source x" vs' "out @ ?v"] Cons.prems 1 by auto
qed

lemma process_macros_value:
  assumes "env_good s es" and "\<forall>x\<in>set xs. macro_ok x"
    and "length (concat (map (macro_value es) xs)) < CONFIG_SYS_CBSIZE"
  shows "process_macros C s (concat (map macro_source xs)) = Some (concat (map (macro_value es) xs))"
  using pm_loop_macros [OF assms(1,2) _ assms(3), of 0 C "[]" 0 "[]"] by (auto simp: process_macros_def)

text \<open>A name that does not fit \<open>envname\<close> with its terminator is written behind the array.\<close>

lemma macro_name_overflows:
  assumes "set name \<inter> {0x29, 0x7D, 0x5C} = {}" and "CONFIG_SYS_CBSIZE \<le> length name"
  shows "process_macros C s (macro_source (Variable name)) = None"
proof -
  let ?inp = "0x24 # 0x7B # name @ [0x7D]" and ?n = CONFIG_SYS_CBSIZE
  have n: "?n \<noteq> 0" by (simp add: CONFIG_SYS_CBSIZE_def)
  have "pm_loop C s ?inp (pm_at Wait_dollar 0 0 0 [] ?n) = pm_loop C s ?inp (pm_at Wait_open 0x24 0 1 [] ?n)"
    using n pm_loop_step [of ?n Wait_dollar "0x24" C s "[]" "0x7B # name @ [0x7D]" 0 0 "[]"] by (simp add: pm_char_def)
  also have "\<dots> = pm_loop C s ?inp (pm_at Wait_close 0x7B (Suc (Suc 0)) (Suc (Suc 0)) [] ?n)"
    using n pm_loop_step [of ?n Wait_open "0x7B" C s "[0x24]" "name @ [0x7D]" "0x24" 0 "[]"]
    by (simp add: pm_char_def)
  also obtain pv' where "\<dots> = pm_loop C s ?inp (pm_at Wait_close pv' (Suc (Suc 0)) (Suc (Suc (length name))) [] ?n)"
    using pm_loop_name [of name ?n C s "[0x24, 0x7B]" "[0x7D]" "0x7B" "Suc (Suc 0)" "[]"] assms(1) n by auto
  also have "\<dots> = None"
    using n assms(2) pm_loop_step [of ?n Wait_close "0x7D" C s "0x24 # 0x7B # name" "[]" pv' "Suc (Suc 0)" "[]"]
    by (simp add: pm_char_def Let_def)
  finally show ?thesis by (simp add: process_macros_def)
qed

text \<open>
  C14: macro expansion by its grammar: text and quoted text stand for themselves, an escaped
  character for the character, a variable in braces for its value, or for nothing when it is not
  defined. The parts of a line are replaced one after the other, as long as the result fits and
  the names are shorter than \<open>envname\<close> (384 bytes; see \<open>macro_name_overflows\<close>).
\<close>
theorem macros_expand:
  assumes "env_good s es" and "\<forall>x\<in>set xs. macro_ok x"
    and "length (concat (map (macro_value es) xs)) < CONFIG_SYS_CBSIZE"
  shows "process_macros C s (concat (map macro_source xs)) = Some (concat (map (macro_value es) xs))"
  by (rule process_macros_value [OF assms])

section \<open>The properties at a concrete command line\<close>

theorem macros_in_bounds_witness:
  "\<exists>out. process_macros sample_cfg sample_env (concat (replicate 32 (asc ''${bootdelay}''))) = Some out \<and>
    length out < CONFIG_SYS_CBSIZE"
  by (rule macros_in_bounds [OF sample_good]) (simp_all add: asc_def CONFIG_SYS_CBSIZE_def length_concat sum_list_replicate)

theorem macros_expand_witness:
  "process_macros sample_cfg sample_env
     (concat (map macro_source [Text (asc ''wait ''), Variable (asc ''bootdelay''), Escaped 0x24, Quoted (asc ''${a}'')])) =
   Some (asc ''wait 3$${a}'')"
proof -
  let ?xs = "[Text (asc ''wait ''), Variable (asc ''bootdelay''), Escaped 0x24, Quoted (asc ''${a}'')]"
  let ?es = "[asc ''bootdelay=3'', asc ''a=1'']"
  have "env_lookup (asc ''bootdelay'') ?es = Some [0x33]" by (simp add: env_lookup_def entry_for_def asc_def)
  then have v: "concat (map (macro_value ?es) ?xs) = asc ''wait 3$${a}''" by (simp add: asc_def)
  have "\<forall>x\<in>set ?xs. macro_ok x" by (simp add: name_ok_def asc_def CONFIG_SYS_CBSIZE_def)
  then have "process_macros sample_cfg sample_env (concat (map macro_source ?xs)) = Some (concat (map (macro_value ?es) ?xs))"
    by (rule macros_expand [OF sample_good]) (simp only: v, simp add: asc_def CONFIG_SYS_CBSIZE_def)
  then show ?thesis unfolding v .
qed

theorem parse_line_words_witness:
  "\<exists>argv ended d'. parse_line (\<lambda>i. if i < 8 then asc '' ls  -a '' ! i else 0) 0 = Some (argv, ended, d') \<and>
    map (str_at d') argv = map Some (take 24 (line_words (asc '' ls  -a ''))) \<and> d' 8 = 0"
proof -
  let ?l = "asc '' ls  -a ''"
  let ?d = "\<lambda>i. if i < 8 then ?l ! i else 0"
  have "length ?l = 8" by (simp add: asc_def)
  then have "holds ?d 0 (?l @ [0])" by (simp add: holds_nth nth_append)
  moreover have "0 \<notin> set ?l" by (simp add: asc_def)
  ultimately show ?thesis
    using parse_line_words [of ?d 0 ?l] \<open>length ?l = 8\<close> by (force simp: CONFIG_SYS_MAXARGS_def)
qed

end
