(* ===== verification/Command.thy ===== *)
theory Command
  imports CmdLine Cstring "HOL-Library.List_Lexorder" "HOL-Library.Multiset"
begin

text \<open>
  Running commands: \<open>run_command\<close> and \<open>do_run\<close> of \<open>common/main.c\<close>, and the commands \<open>help\<close>,
  \<open>echo\<close> and \<open>version\<close> of \<open>common/command.c\<close>. The command table, which the linker collects from
  the \<open>U_BOOT_CMD\<close> entries of all files, is the argument \<open>tbl\<close>: a list of entries with the
  functions of the commands. \<open>below\<close> is the byte in front of the buffer \<open>cmdbuf\<close> on the stack.
\<close>

section \<open>Running a command line\<close>

definition CMD_FLAG_REPEAT :: u32 where "CMD_FLAG_REPEAT = 0x0001"
definition CMD_FLAG_BOOTD :: u32 where "CMD_FLAG_BOOTD = 0x0002"

record 's shell_io = "'s env_io" +
  clear_ctrlc :: "'s \<Rightarrow> 's"
  had_ctrlc :: "'s \<Rightarrow> bool"
  tstc :: "'s \<Rightarrow> bool \<times> 's"

definition cmd_usage :: "('s, 'z) cmd_tbl_scheme \<Rightarrow> ('d, 'y) emach_scheme \<Rightarrow> ('d, 'y) emach_scheme" where
  "cmd_usage cmdtp s = printf (line (line (line ''Usage:'' @ ''%s - %s'')))
     [Str (cmd_name cmdtp), Str (case cmd_usage_text cmdtp of Some u \<Rightarrow> u | None \<Rightarrow> asc ''<NULL>'')] s"

text \<open>
  The next token of the buffer and what follows its separator, if there is one; \<open>first\<close> holds at
  the start of the token, \<open>pv\<close> is the byte in front of the current one.
\<close>

fun next_token :: "bool \<Rightarrow> bool \<Rightarrow> u8 \<Rightarrow> u8 list \<Rightarrow> u8 list \<times> u8 list option" where
  "next_token first inquotes pv [] = ([], None)"
| "next_token first inquotes pv (c # sep) =
     (let inquotes = (if c = 0x27 \<and> pv \<noteq> 0x5C then \<not> inquotes else inquotes)
      in if \<not> inquotes \<and> c = 0x3B \<and> \<not> first \<and> pv \<noteq> 0x5C then ([], Some sep)
         else case next_token False inquotes c sep of (token, str) \<Rightarrow> (c # token, str))"

lemma next_token_length:
  "next_token first q pv str = (token, next) \<Longrightarrow> str \<noteq> [] \<Longrightarrow> length (case next of None \<Rightarrow> [] | Some r \<Rightarrow> r) < length str"
proof (induction first q pv str arbitrary: token rule: next_token.induct)
  case (2 first q pv c sep)
  then show ?case
    by (cases "sep = []") (auto simp: Let_def split: if_splits prod.splits option.splits)
qed simp

text \<open>The command with its arguments; the first component is the value of an early return.\<close>

definition run_args :: "('d, 'z) emach_scheme shell_io \<Rightarrow> ('d, 'z) emach_scheme cmd_tbl list \<Rightarrow> u8 list list \<Rightarrow>
    u32 \<times> u32 \<times> u32 \<times> ('d, 'z) emach_scheme \<Rightarrow> (u32 option \<times> u32 \<times> u32 \<times> u32 \<times> ('d, 'z) emach_scheme) option" where
  "run_args io tbl args = (\<lambda>(flag, rc, repeatabl, s).
     if args = [] then Some (None, flag, -1, repeatabl, s)
     else case find_cmd_tbl (hd args) tbl of
       None \<Rightarrow> Some (None, flag, -1, repeatabl, printf (line (''Unknown command '%s' - try 'help'' @ [CHR 0x27])) [Str (hd args)] s)
     | Some cmdtp \<Rightarrow>
         if maxargs cmdtp < length args then Some (None, flag, -1, repeatabl, cmd_usage cmdtp s)
         else if cmd_is_bootd cmdtp \<and> flag AND CMD_FLAG_BOOTD \<noteq> 0
         then Some (None, flag, -1, repeatabl, printf (line (CHR 0x27 # ''bootd' recursion detected'')) [] s)
         else do {
           let flag = (if cmd_is_bootd cmdtp then flag OR CMD_FLAG_BOOTD else flag);
           (r, s) \<leftarrow> cmd_fn cmdtp flag args s;
           let rc = (if r \<noteq> 0 then -1 else rc);
           let repeatabl = repeatabl AND repeatable cmdtp;
           Some (if had_ctrlc io s then Some (-1) else None, flag, rc, repeatabl, s)
         })"

text \<open>One token: macros, arguments, command.\<close>

definition run_token :: "env_config \<Rightarrow> ('d, 'z) emach_scheme shell_io \<Rightarrow> ('d, 'z) emach_scheme cmd_tbl list \<Rightarrow> u8 list \<Rightarrow>
    u32 \<times> u32 \<times> u32 \<times> ('d, 'z) emach_scheme \<Rightarrow> (u32 option \<times> u32 \<times> u32 \<times> u32 \<times> ('d, 'z) emach_scheme) option" where
  "run_token C io tbl token = (\<lambda>(flag, rc, repeatabl, s). do {
     finaltoken \<leftarrow> process_macros C s token;
     (argv, ended, d) \<leftarrow> parse_line (\<lambda>i. if i < length finaltoken then finaltoken ! i else 0) 0;
     args \<leftarrow> those (map (str_at d) argv);
     let s = (if ended then s
       else printf (line ''** Too many args (max. %d) **'') [Num (of_nat CONFIG_SYS_MAXARGS)] s);
     run_args io tbl args (flag, rc, repeatabl, s)
   })"

function run_tokens :: "env_config \<Rightarrow> ('d, 'z) emach_scheme shell_io \<Rightarrow> ('d, 'z) emach_scheme cmd_tbl list \<Rightarrow> u8 \<Rightarrow> u8 list \<Rightarrow>
    u32 \<times> u32 \<times> u32 \<times> ('d, 'z) emach_scheme \<Rightarrow> (u32 \<times> ('d, 'z) emach_scheme) option" where
  "run_tokens C io tbl pv str (flag, rc, repeatabl, s) =
     (if str = [] then Some (if rc \<noteq> 0 then rc else repeatabl, s)
      else case next_token True False pv str of (token, next) \<Rightarrow>
        Option.bind (run_token C io tbl token (flag, rc, repeatabl, s)) (\<lambda>(r, st).
          case r of Some v \<Rightarrow> Some (v, snd (snd (snd st)))
          | None \<Rightarrow> run_tokens C io tbl 0 (case next of None \<Rightarrow> [] | Some str \<Rightarrow> str) st))"
  by pat_completeness auto
termination
proof (relation "measure (\<lambda>(_, _, _, _, str, _). length str)", goal_cases)
  case 2
  then show ?case by (auto dest!: next_token_length [OF sym])
qed simp

declare run_tokens.simps [simp del]

definition run_command :: "env_config \<Rightarrow> ('d, 'z) emach_scheme shell_io \<Rightarrow> ('d, 'z) emach_scheme cmd_tbl list \<Rightarrow> u8 \<Rightarrow>
    u8 list option \<Rightarrow> u32 \<Rightarrow> ('d, 'z) emach_scheme \<Rightarrow> (u32 \<times> ('d, 'z) emach_scheme) option" where
  "run_command C io tbl below cmd flag s =
     (let s = clear_ctrlc io s
      in case cmd of
        None \<Rightarrow> Some (-1, s)
      | Some cmd \<Rightarrow>
          if cmd = [] then Some (-1, s)
          else if CONFIG_SYS_CBSIZE \<le> length cmd then Some (-1, printf (line ''## Command too long!'') [] s)
          else run_tokens C io tbl below cmd (flag, 0, 1, s))"

text \<open>The command \<open>run\<close>; the value of a variable is read up to its terminator.\<close>

primrec run_vars :: "env_config \<Rightarrow> ('d, 'z) emach_scheme shell_io \<Rightarrow> ('d, 'z) emach_scheme cmd_tbl list \<Rightarrow> u8 \<Rightarrow> u32 \<Rightarrow>
    u8 list list \<Rightarrow> ('d, 'z) emach_scheme \<Rightarrow> (u32 \<times> ('d, 'z) emach_scheme) option" where
  "run_vars C io tbl below flag [] s = Some (0, s)"
| "run_vars C io tbl below flag (name # names) s = do {
     arg \<leftarrow> getenv C s name;
     case arg of
       None \<Rightarrow> Some (1, printf (line ''## Error: \"%s\" not defined'') [Str name] s)
     | Some k \<Rightarrow> do {
         cmd \<leftarrow> str_at (env_get_char C s) k;
         (r, s) \<leftarrow> run_command C io tbl below (Some cmd) flag s;
         if r = -1 then Some (1, s) else run_vars C io tbl below flag names s
       }
   }"

definition do_run :: "env_config \<Rightarrow> ('d, 'z) emach_scheme shell_io \<Rightarrow> ('d, 'z) emach_scheme cmd_tbl list \<Rightarrow> u8 \<Rightarrow>
    ('d, 'z) emach_scheme cmd_tbl \<Rightarrow> u32 \<Rightarrow> u8 list list \<Rightarrow> ('d, 'z) emach_scheme \<Rightarrow> (u32 \<times> ('d, 'z) emach_scheme) option" where
  "do_run C io tbl below cmdtp flag argv s =
     (if length argv < 2 then Some (1, cmd_usage cmdtp s) else run_vars C io tbl below flag (tl argv) s)"

section \<open>Commands of command.c\<close>

definition do_version :: "u8 list \<Rightarrow> ('d, 'z) emach_scheme \<Rightarrow> u32 \<times> ('d, 'z) emach_scheme" where
  "do_version version_string s = (0, printf (line (line [] @ ''%s'')) [Str version_string] s)"

text \<open>The inner loop of \<open>echo\<close>: a backslash followed by the letter c suppresses the newline.\<close>

fun echo_arg :: "u8 list \<Rightarrow> bool \<times> ('d, 'z) emach_scheme \<Rightarrow> bool \<times> ('d, 'z) emach_scheme" where
  "echo_arg [] (putnl, s) = (putnl, s)"
| "echo_arg [c] (putnl, s) = (putnl, putc c s)"
| "echo_arg (c # c' # p) (putnl, s) =
     (if c = 0x5C \<and> c' = 0x63 then echo_arg p (False, s) else echo_arg (c' # p) (putnl, putc c s))"

primrec echo_args :: "bool \<Rightarrow> u8 list list \<Rightarrow> bool \<times> ('d, 'z) emach_scheme \<Rightarrow> bool \<times> ('d, 'z) emach_scheme" where
  "echo_args first [] st = st"
| "echo_args first (p # ps) st =
     echo_args False ps (echo_arg p (if first then st else (fst st, putc 0x20 (snd st))))"

definition do_echo :: "u8 list list \<Rightarrow> ('d, 'z) emach_scheme \<Rightarrow> u32 \<times> ('d, 'z) emach_scheme" where
  "do_echo argv s = (case echo_args True (tl argv) (True, s) of (putnl, s) \<Rightarrow> (0, if putnl then putc 0x0A s else s))"

text \<open>\<open>strcmp\<close> on two names, by the value of its loop (\<open>strcmp_loop_value\<close>).\<close>

definition name_cmp :: "u8 list \<Rightarrow> u8 list \<Rightarrow> int" where
  "name_cmp a b = sint (str_diff a b)"

text \<open>The sort of the command list: one pass over \<open>n\<close> pairs from \<open>j\<close>, then the passes.\<close>

primrec bubble_pass :: "nat \<Rightarrow> nat \<Rightarrow> ('s, 'z) cmd_tbl_scheme list \<Rightarrow> nat \<Rightarrow> ('s, 'z) cmd_tbl_scheme list \<times> nat" where
  "bubble_pass 0 j cmds swaps = (cmds, swaps)"
| "bubble_pass (Suc n) j cmds swaps =
     (if 0 < name_cmp (cmd_name (cmds ! j)) (cmd_name (cmds ! (j + 1)))
      then bubble_pass n (j + 1) (cmds[j := cmds ! (j + 1), j + 1 := cmds ! j]) (swaps + 1)
      else bubble_pass n (j + 1) cmds swaps)"

primrec bubble_sort :: "nat \<Rightarrow> ('s, 'z) cmd_tbl_scheme list \<Rightarrow> ('s, 'z) cmd_tbl_scheme list" where
  "bubble_sort 0 cmds = cmds"
| "bubble_sort (Suc i) cmds =
     (case bubble_pass (Suc i) 0 cmds 0 of (cmds, swaps) \<Rightarrow> if swaps = 0 then cmds else bubble_sort i cmds)"

primrec help_list :: "('d, 'z) emach_scheme shell_io \<Rightarrow> ('s, 'y) cmd_tbl_scheme list \<Rightarrow> ('d, 'z) emach_scheme \<Rightarrow> u32 \<times> ('d, 'z) emach_scheme" where
  "help_list io [] s = (0, s)"
| "help_list io (cmd # cmds) s =
     (case ctrlc io s of (stop, s) \<Rightarrow>
        if stop then (1, s)
        else help_list io cmds (case cmd_usage_text cmd of None \<Rightarrow> s
          | Some usage \<Rightarrow> printf (line ''%-*s- %s'') [Num 8, Str (cmd_name cmd), Str usage] s))"

primrec help_names :: "('s, 'y) cmd_tbl_scheme list \<Rightarrow> u8 list list \<Rightarrow> u32 \<Rightarrow> ('d, 'z) emach_scheme \<Rightarrow> u32 \<times> ('d, 'z) emach_scheme" where
  "help_names tbl [] rcode s = (rcode, s)"
| "help_names tbl (name # names) rcode s =
     (case find_cmd_tbl name tbl of
        Some cmdtp \<Rightarrow>
          let s = putc 0x20 (printf ''%s'' [Str (cmd_name cmdtp)] s);
              (rcode, s) = (case cmd_help_text cmdtp of Some h \<Rightarrow> (rcode, printf ''%s'' [Str h] s)
                | None \<Rightarrow> (1, printf (line ''- No help available.'') [] s))
          in help_names tbl names rcode (putc 0x0A s)
      | None \<Rightarrow> help_names tbl names 1
          (printf (line (line ''Unknown command '%s' - try 'help' without arguments for list of all known commands'')) [Str name] s))"

definition do_help :: "('d, 'z) emach_scheme shell_io \<Rightarrow> ('s, 'y) cmd_tbl_scheme list \<Rightarrow> u8 list list \<Rightarrow> ('d, 'z) emach_scheme \<Rightarrow>
    u32 \<times> ('d, 'z) emach_scheme" where
  "do_help io tbl argv s =
     (if length argv = 1 then help_list io (bubble_sort (length tbl - 1) tbl) s
      else help_names tbl (tl argv) 0 s)"

text \<open>A size specification at the end of a command name.\<close>

definition cmd_get_data_size :: "u8 list \<Rightarrow> u32 \<Rightarrow> u32" where
  "cmd_get_data_size arg default_size =
     (let len = length arg
      in if 2 < len \<and> arg ! (len - 2) = 0x2E
         then let c = arg ! (len - 1)
           in if c = 0x62 then 1 else if c = 0x77 then 2 else if c = 0x6C then 4 else if c = 0x73 then -2 else -1
         else default_size)"

section \<open>The list of commands is sorted\<close>

definition ascii :: "u8 list \<Rightarrow> bool" where
  "ascii name \<longleftrightarrow> (\<forall>c\<in>set name. 0 < c \<and> c < 128)"

lemma sint_diff_pos:
  assumes "(x :: u8) < 128" and "y < 128"
  shows "0 < sint (x - y) \<longleftrightarrow> y < x"
proof -
  have u: "unat (x - y) = (if unat y \<le> unat x then unat x - unat y else 256 + unat x - unat y)"
    using unat_u8_less [of y] by (auto simp: unat_sub_if')
  have "sint (x - y) < 0 \<longleftrightarrow> x < y"
    using u assms unat_u8_less [of y] by (auto simp: sint_u8_neg word_less_nat_alt)
  moreover have "sint (x - y) = 0 \<longleftrightarrow> x = y" by (simp add: signed_eq_0_iff)
  ultimately show ?thesis by (metis linorder_neqE_linordered_idom not_less_iff_gr_or_eq)
qed

lemma name_cmp_less: "ascii a \<Longrightarrow> ascii b \<Longrightarrow> 0 < name_cmp a b \<longleftrightarrow> b < a"
proof (induction a b rule: str_diff.induct)
  case (2 y ys)
  then show ?case using sint_diff_pos [of 0 y] by (simp add: name_cmp_def ascii_def)
next
  case (3 x xs)
  then show ?case using sint_diff_pos [of x 0] by (simp add: name_cmp_def ascii_def)
next
  case (4 x xs y ys)
  then show ?case using sint_diff_pos [of x y] by (auto simp: name_cmp_def ascii_def)
qed (simp add: name_cmp_def)

lemma mset_swap_adjacent:
  "j + 1 < length xs \<Longrightarrow> mset (xs[j := xs ! (j + 1), j + 1 := xs ! j]) = mset xs"
  using mset_swap [of j xs "j + 1"] by (simp add: list_update_swap)

text \<open>A pass moves the largest name of the segment to its end, and changes nothing behind it.\<close>

lemma bubble_pass_value:
  assumes "\<forall>e\<in>set cmds. ascii (cmd_name e)" and "j + n < length cmds"
    and "bubble_pass n j cmds sw = (cmds', sw')"
  shows "mset cmds' = mset cmds \<and> (\<forall>i. i < j \<or> j + n < i \<longrightarrow> cmds' ! i = cmds ! i) \<and>
    (\<forall>i\<in>{j..j + n}. \<exists>i'\<in>{j..j + n}. cmds' ! i = cmds ! i') \<and>
    (\<forall>i\<in>{j..j + n}. cmd_name (cmds ! i) \<le> cmd_name (cmds' ! (j + n))) \<and> sw \<le> sw' \<and>
    (sw' = sw \<longrightarrow> cmds' = cmds \<and> (\<forall>i\<in>{j..<j + n}. cmd_name (cmds ! i) \<le> cmd_name (cmds ! (i + 1))))"
  using assms
proof (induction n arbitrary: j cmds sw)
  case 0
  then show ?case by auto
next
  case (Suc n)
  define swap where "swap \<longleftrightarrow> cmd_name (cmds ! (j + 1)) < cmd_name (cmds ! j)"
  define c where "c = (if swap then cmds[j := cmds ! (j + 1), j + 1 := cmds ! j] else cmds)"
  have gt: "0 < name_cmp (cmd_name (cmds ! j)) (cmd_name (cmds ! (j + 1))) \<longleftrightarrow> swap"
    unfolding swap_def using Suc.prems(1,2) by (intro name_cmp_less) simp_all
  have c: "mset c = mset cmds" "length c = length cmds" "\<And>i. i \<noteq> j \<Longrightarrow> i \<noteq> j + 1 \<Longrightarrow> c ! i = cmds ! i"
    "cmd_name (cmds ! j) \<le> cmd_name (c ! (j + 1))" "cmd_name (cmds ! (j + 1)) \<le> cmd_name (c ! (j + 1))"
    "c ! j \<in> {cmds ! j, cmds ! (j + 1)}" "c ! (j + 1) \<in> {cmds ! j, cmds ! (j + 1)}"
    using Suc.prems(2) by (auto simp: c_def swap_def mset_swap_adjacent [simplified] nth_list_update)
  have run: "bubble_pass n (j + 1) c (if swap then sw + 1 else sw) = (cmds', sw')"
    using Suc.prems(3) gt by (simp add: c_def split: if_splits)
  have "\<forall>e\<in>set c. ascii (cmd_name e)" using Suc.prems(1) mset_eq_setD [OF c(1)] by simp
  note ih = Suc.IH [OF this _ run]
  have perm: "mset cmds' = mset cmds" and same: "\<forall>i. i < j + 1 \<or> j + 1 + n < i \<longrightarrow> cmds' ! i = c ! i"
    and orig: "\<forall>i\<in>{j + 1..j + 1 + n}. \<exists>i'\<in>{j + 1..j + 1 + n}. cmds' ! i = c ! i'"
    and up: "\<forall>i\<in>{j + 1..j + 1 + n}. cmd_name (c ! i) \<le> cmd_name (cmds' ! (j + 1 + n))"
    and count: "(if swap then sw + 1 else sw) \<le> sw'"
      "sw' = (if swap then sw + 1 else sw) \<longrightarrow> cmds' = c \<and> (\<forall>i\<in>{j + 1..<j + 1 + n}. cmd_name (c ! i) \<le> cmd_name (c ! (i + 1)))"
    using ih Suc.prems(2) c(1,2) by simp_all
  have "cmds' ! i = cmds ! i" if "i < j \<or> j + Suc n < i" for i
    using same c(3) [of i] that by auto
  moreover have "\<exists>i'\<in>{j..j + Suc n}. cmds' ! i = cmds ! i'" if i: "i \<in> {j..j + Suc n}" for i
  proof -
    have "\<exists>k\<in>{j..j + Suc n}. cmds' ! i = c ! k"
    proof (cases "i = j")
      case True
      then show ?thesis using same by auto
    next
      case False
      then obtain k where "k \<in> {j + 1..j + 1 + n}" "cmds' ! i = c ! k" using orig i by force
      then show ?thesis by (intro bexI [of _ k]) auto
    qed
    then obtain k where k: "k \<in> {j..j + Suc n}" "cmds' ! i = c ! k" by blast
    consider "k = j" | "k = j + 1" | "k \<noteq> j" "k \<noteq> j + 1" by blast
    then show ?thesis using k c(3) [of k] c(6,7) by cases force+
  qed
  moreover have "cmd_name (cmds ! i) \<le> cmd_name (cmds' ! (j + Suc n))" if i: "i \<in> {j..j + Suc n}" for i
  proof -
    have top: "cmd_name (c ! (j + 1)) \<le> cmd_name (cmds' ! (j + Suc n))" using up by simp
    consider "i = j" | "i = j + 1" | "i \<noteq> j" "i \<noteq> j + 1" by blast
    then show ?thesis
    proof cases
      case 3
      then show ?thesis using up [rule_format, of i] i c(3) [of i] by simp
    qed (use top c(4,5) order_trans in blast)+
  qed
  moreover have "cmds' = cmds \<and> (\<forall>i\<in>{j..<j + Suc n}. cmd_name (cmds ! i) \<le> cmd_name (cmds ! (i + 1)))" if sw: "sw' = sw"
  proof -
    have ns: "\<not> swap" using count(1) sw by auto
    have le: "cmd_name (cmds ! j) \<le> cmd_name (cmds ! (j + 1))" using ns by (simp add: swap_def)
    have "cmd_name (cmds ! i) \<le> cmd_name (cmds ! (i + 1))" if "i \<in> {j..<j + Suc n}" for i
      using count(2) sw ns le that by (cases "i = j") (auto simp: c_def)
    then show ?thesis using count(2) sw ns by (simp add: c_def)
  qed
  moreover have "sw \<le> sw'" using count(1) by (cases swap) auto
  ultimately show ?case using perm by blast
qed

lemma sorted_segment:
  fixes f :: "nat \<Rightarrow> 'a :: linorder"
  assumes "\<forall>i\<in>{0..<n}. f i \<le> f (i + 1)"
  shows "a \<le> b \<Longrightarrow> b \<le> n \<Longrightarrow> f a \<le> f b"
proof (induction b)
  case (Suc b)
  then show ?case using assms by (cases "a = Suc b") (auto intro: order_trans [of _ "f b"])
qed simp

lemma bubble_sort_value:
  assumes "\<forall>e\<in>set cmds. ascii (cmd_name e)" and "i < length cmds"
    and "\<forall>b a. a < b \<and> i < b \<and> b < length cmds \<longrightarrow> cmd_name (cmds ! a) \<le> cmd_name (cmds ! b)"
  shows "mset (bubble_sort i cmds) = mset cmds \<and>
    (\<forall>b a. a < b \<and> b < length cmds \<longrightarrow> cmd_name (bubble_sort i cmds ! a) \<le> cmd_name (bubble_sort i cmds ! b))"
  using assms
proof (induction i arbitrary: cmds)
  case 0
  then show ?case by auto
next
  case (Suc i)
  obtain c sw where run: "bubble_pass (Suc i) 0 cmds 0 = (c, sw)" by fastforce
  note pass = bubble_pass_value [OF Suc.prems(1) _ run]
  have perm: "mset c = mset cmds" and same: "\<forall>k. Suc i < k \<longrightarrow> c ! k = cmds ! k"
    and orig: "\<forall>k\<in>{0..Suc i}. \<exists>k'\<in>{0..Suc i}. c ! k = cmds ! k'"
    and up: "\<forall>k\<in>{0..Suc i}. cmd_name (cmds ! k) \<le> cmd_name (c ! Suc i)"
    and none: "sw = 0 \<longrightarrow> c = cmds \<and> (\<forall>k\<in>{0..<Suc i}. cmd_name (cmds ! k) \<le> cmd_name (cmds ! (k + 1)))"
    using pass Suc.prems(2) by simp_all
  have len: "length c = length cmds" using mset_eq_length [OF perm] .
  show ?case
  proof (cases "sw = 0")
    case True
    have "cmd_name (cmds ! a) \<le> cmd_name (cmds ! b)" if "a < b" "b < length cmds" for a b
      using Suc.prems(3) sorted_segment [of "Suc i" "\<lambda>k. cmd_name (cmds ! k)" a b] none True that
      by (cases "b \<le> Suc i") auto
    then show ?thesis using run True none by simp
  next
    case False
    have "cmd_name (c ! a) \<le> cmd_name (c ! b)" if ab: "a < b" "i < b" "b < length c" for a b
    proof -
      obtain a' where a': "cmds ! a' = c ! a" "a' \<le> Suc i \<longleftrightarrow> a \<le> Suc i" "\<not> a \<le> Suc i \<longrightarrow> a' = a"
        using orig [rule_format, of a] same by (cases "a \<le> Suc i") auto
      show ?thesis
      proof (cases "b = Suc i")
        case True
        then show ?thesis using up a' ab by (metis atLeastAtMost_iff le0 less_imp_le)
      next
        case False
        then have "c ! b = cmds ! b" "Suc i < b" using same ab by auto
        moreover have "a' < b" using a' ab \<open>Suc i < b\<close> by (cases "a \<le> Suc i") auto
        ultimately show ?thesis using Suc.prems(3) a'(1) ab len by metis
      qed
    qed
    moreover have "\<forall>e\<in>set c. ascii (cmd_name e)" using Suc.prems(1) mset_eq_setD [OF perm] by simp
    ultimately have "mset (bubble_sort i c) = mset c \<and>
        (\<forall>b a. a < b \<and> b < length c \<longrightarrow> cmd_name (bubble_sort i c ! a) \<le> cmd_name (bubble_sort i c ! b))"
      using Suc.prems(2) len by (intro Suc.IH) auto
    then show ?thesis using run False perm len by simp
  qed
qed

text \<open>
  \<open>help\<close> lists every command once and in alphabetical order, for names in ASCII.
\<close>
theorem help_sorted:
  assumes "\<forall>e\<in>set tbl. ascii (cmd_name e)"
  shows "sorted (map cmd_name (bubble_sort (length tbl - 1) tbl)) \<and> mset (bubble_sort (length tbl - 1) tbl) = mset tbl"
proof (cases "tbl = []")
  case False
  then have r: "mset (bubble_sort (length tbl - 1) tbl) = mset tbl"
    "\<forall>b a. a < b \<and> b < length tbl \<longrightarrow>
      cmd_name (bubble_sort (length tbl - 1) tbl ! a) \<le> cmd_name (bubble_sort (length tbl - 1) tbl ! b)"
    using bubble_sort_value [OF assms, of "length tbl - 1"] by fastforce+
  then show ?thesis using mset_eq_length [OF r(1)] by (auto simp: sorted_iff_nth_mono_less)
qed simp

section \<open>A command line is the sequence of its commands\<close>

text \<open>No separator outside quotes: \<open>;\<close> may be quoted or escaped.\<close>

primrec sep_ok :: "macro \<Rightarrow> bool" where
  "sep_ok (Text cs) \<longleftrightarrow> 0x3B \<notin> set cs"
| "sep_ok (Escaped c) \<longleftrightarrow> True"
| "sep_ok (Variable name) \<longleftrightarrow> set name \<inter> {0x27, 0x3B} = {}"
| "sep_ok (Quoted cs) \<longleftrightarrow> True"

abbreviation scan_on :: "u8 list \<Rightarrow> u8 list \<times> u8 list option \<Rightarrow> u8 list \<times> u8 list option" where
  "scan_on cs r \<equiv> (cs @ fst r, snd r)"

lemma next_token_plain:
  "set cs \<inter> {0x27, 0x5C} = {} \<Longrightarrow> inq \<or> 0x3B \<notin> set cs \<Longrightarrow> pv \<noteq> 0x5C \<Longrightarrow>
    \<exists>pv'. pv' \<noteq> 0x5C \<and> next_token first inq pv (cs @ str) = scan_on cs (next_token (first \<and> cs = []) inq pv' str)"
proof (induction cs arbitrary: first pv)
  case (Cons c cs)
  obtain pv' where "pv' \<noteq> 0x5C" "next_token False inq c (cs @ str) = scan_on cs (next_token (False \<and> cs = []) inq pv' str)"
    using Cons.IH [of c False] Cons.prems by auto
  then show ?case using Cons.prems by (intro exI [of _ pv']) (auto simp: Let_def split: prod.splits)
qed auto

lemma next_token_macro:
  assumes "macro_ok x" and "sep_ok x" and "pv \<noteq> 0x5C"
  shows "\<exists>pv'. pv' \<noteq> 0x5C \<and> next_token first False pv (macro_source x @ str) =
    scan_on (macro_source x) (next_token (first \<and> macro_source x = []) False pv' str)"
proof (cases x)
  case (Text cs)
  then show ?thesis using next_token_plain [of cs False pv first str] assms by auto
next
  case (Escaped c)
  then show ?thesis using assms by (intro exI [of _ c]) (simp add: Let_def split: prod.split)
next
  case (Variable name)
  have "set (macro_source x) \<inter> {0x27, 0x5C} = {}" "0x3B \<notin> set (macro_source x)"
    using Variable assms by auto
  then show ?thesis using next_token_plain [of "macro_source x" False pv first str] assms(3) by auto
next
  case (Quoted cs)
  obtain pv' where "pv' \<noteq> 0x5C" "next_token False True 0x27 (cs @ 0x27 # str) =
      scan_on cs (next_token (False \<and> cs = []) True pv' (0x27 # str))"
    using next_token_plain [of cs True "0x27" False "0x27 # str"] Quoted assms by auto
  then show ?thesis using Quoted assms by (intro exI [of _ "0x27"]) (simp add: Let_def split: prod.split)
qed

lemma next_token_macros:
  "\<forall>x\<in>set xs. macro_ok x \<and> sep_ok x \<Longrightarrow> pv \<noteq> 0x5C \<Longrightarrow>
    \<exists>pv'. pv' \<noteq> 0x5C \<and> next_token first False pv (concat (map macro_source xs) @ str) =
      scan_on (concat (map macro_source xs)) (next_token (first \<and> concat (map macro_source xs) = []) False pv' str)"
proof (induction xs arbitrary: first pv)
  case (Cons x xs)
  obtain pv1 where 1: "pv1 \<noteq> 0x5C" "next_token first False pv (macro_source x @ concat (map macro_source xs) @ str) =
      scan_on (macro_source x) (next_token (first \<and> macro_source x = []) False pv1 (concat (map macro_source xs) @ str))"
    using next_token_macro [of x pv first "concat (map macro_source xs) @ str"] Cons.prems by auto
  obtain pv2 where "pv2 \<noteq> 0x5C" "next_token (first \<and> macro_source x = []) False pv1 (concat (map macro_source xs) @ str) =
      scan_on (concat (map macro_source xs))
        (next_token ((first \<and> macro_source x = []) \<and> concat (map macro_source xs) = []) False pv2 str)"
    using Cons.IH [of pv1 "first \<and> macro_source x = []"] Cons.prems 1(1) by auto
  then show ?case using 1 by (intro exI [of _ pv2]) (simp add: conj_assoc)
qed auto

text \<open>The tokens with their separators, and the tokens one after the other.\<close>

fun join_tokens :: "u8 list list \<Rightarrow> u8 list" where
  "join_tokens [] = []"
| "join_tokens [t] = t"
| "join_tokens (t # ts) = t @ 0x3B # join_tokens ts"

primrec run_seq :: "env_config \<Rightarrow> ('d, 'z) emach_scheme shell_io \<Rightarrow> ('d, 'z) emach_scheme cmd_tbl list \<Rightarrow> u8 list list \<Rightarrow>
    u32 \<times> u32 \<times> u32 \<times> ('d, 'z) emach_scheme \<Rightarrow> (u32 \<times> ('d, 'z) emach_scheme) option" where
  "run_seq C io tbl [] st = (case st of (flag, rc, repeatabl, s) \<Rightarrow> Some (if rc \<noteq> 0 then rc else repeatabl, s))"
| "run_seq C io tbl (t # ts) st =
     Option.bind (run_token C io tbl t st) (\<lambda>(r, st).
       case r of Some v \<Rightarrow> Some (v, snd (snd (snd st))) | None \<Rightarrow> run_seq C io tbl ts st)"

lemma run_tokens_end: "run_tokens C io tbl pv [] st = run_seq C io tbl [] st"
  by (cases st) (simp add: run_tokens.simps)

lemma run_tokens_seq:
  "\<forall>xs\<in>set xss. concat (map macro_source xs) \<noteq> [] \<and> (\<forall>x\<in>set xs. macro_ok x \<and> sep_ok x) \<Longrightarrow> pv \<noteq> 0x5C \<Longrightarrow>
    run_tokens C io tbl pv (join_tokens (map (\<lambda>xs. concat (map macro_source xs)) xss)) st =
    run_seq C io tbl (map (\<lambda>xs. concat (map macro_source xs)) xss) st"
proof (induction xss arbitrary: pv st)
  case Nil
  then show ?case by (simp add: run_tokens_end)
next
  case (Cons xs xss)
  let ?src = "\<lambda>xs. concat (map macro_source xs)"
  obtain flag rc repeatabl s where st: "st = (flag, rc, repeatabl, s)" by (cases st) auto
  have ne: "?src xs \<noteq> []" using Cons.prems by simp
  define rest where "rest = (if xss = [] then None else Some (join_tokens (map ?src xss)))"
  have tok: "next_token True False pv (join_tokens (map ?src (xs # xss))) = (?src xs, rest)"
  proof -
    let ?str = "if xss = [] then [] else 0x3B # join_tokens (map ?src xss)"
    have "\<forall>x\<in>set xs. macro_ok x \<and> sep_ok x" using Cons.prems by simp
    from next_token_macros [OF this Cons.prems(2), of True ?str]
    obtain pv' where "pv' \<noteq> 0x5C" "next_token True False pv (?src xs @ ?str) =
        scan_on (?src xs) (next_token (True \<and> ?src xs = []) False pv' ?str)" by blast
    moreover have "join_tokens (map ?src (xs # xss)) = ?src xs @ ?str" by (cases xss) simp_all
    moreover have "(True \<and> ?src xs = []) = False" using ne by blast
    ultimately show ?thesis by (simp only:) (simp add: rest_def)
  qed
  have "join_tokens (map ?src (xs # xss)) \<noteq> []" using ne by (cases xss) simp_all
  then have "run_tokens C io tbl pv (join_tokens (map ?src (xs # xss))) st =
      Option.bind (run_token C io tbl (?src xs) st) (\<lambda>(r, st).
        case r of Some v \<Rightarrow> Some (v, snd (snd (snd st)))
        | None \<Rightarrow> run_tokens C io tbl 0 (case rest of None \<Rightarrow> [] | Some str \<Rightarrow> str) st)"
    unfolding st by (subst run_tokens.simps) (simp only: tok if_False prod.case)
  also have "\<dots> = run_seq C io tbl (map ?src (xs # xss)) st"
    using Cons.IH [of 0] Cons.prems
    by (cases "run_token C io tbl (?src xs) st") (auto simp: rest_def run_tokens_end split: option.split)
  finally show ?case .
qed

section \<open>What a command line does\<close>

lemma those_map_Some: "those (map Some xs) = Some xs"
  by (induction xs) simp_all

lemma macro_value_no_end:
  "env_good s es \<Longrightarrow> macro_ok x \<Longrightarrow> 0 \<notin> set (macro_value es x)"
  by (cases x) (auto simp: env_good_def env_holds_def dest: env_lookup_no_end [OF _ sym] split: option.splits)

lemma macro_value_empty: "macro_source x = [] \<Longrightarrow> macro_value es x = []"
  by (cases x) simp_all

text \<open>The arguments of a token are the first 24 words of what its macros stand for.\<close>

lemma run_token_args:
  assumes "env_good s es" and "\<forall>x\<in>set xs. macro_ok x"
    and "length (concat (map (macro_value es) xs)) < CONFIG_SYS_CBSIZE"
  defines "ws \<equiv> line_words (concat (map (macro_value es) xs))"
  shows "\<exists>ended. (length ws < CONFIG_SYS_MAXARGS \<longrightarrow> ended) \<and> (CONFIG_SYS_MAXARGS < length ws \<longrightarrow> \<not> ended) \<and>
    run_token C io tbl (concat (map macro_source xs)) (flag, rc, repeatabl, s) =
      run_args io tbl (take CONFIG_SYS_MAXARGS ws) (flag, rc, repeatabl,
        if ended then s else printf (line ''** Too many args (max. %d) **'') [Num (of_nat CONFIG_SYS_MAXARGS)] s)"
proof -
  let ?v = "concat (map (macro_value es) xs)"
  let ?d = "\<lambda>i. if i < length ?v then ?v ! i else 0"
  have "holds ?d 0 (?v @ [0])" by (simp add: holds_nth nth_append)
  moreover have "0 \<notin> set ?v" using macro_value_no_end [OF assms(1)] assms(2) by auto
  ultimately obtain argv ended d' where p: "parse_line ?d 0 = Some (argv, ended, d')"
    "map (str_at d') argv = map Some (take CONFIG_SYS_MAXARGS ws)"
    "length ws < CONFIG_SYS_MAXARGS \<longrightarrow> ended" "CONFIG_SYS_MAXARGS < length ws \<longrightarrow> \<not> ended"
    using parse_args_value [of ?d 0 ?v CONFIG_SYS_MAXARGS] unfolding ws_def parse_line_def by auto
  have "process_macros C s (concat (map macro_source xs)) = Some ?v"
    using process_macros_value [OF assms(1-3)] .
  then have "run_token C io tbl (concat (map macro_source xs)) (flag, rc, repeatabl, s) =
      run_args io tbl (take CONFIG_SYS_MAXARGS ws) (flag, rc, repeatabl,
        if ended then s else printf (line ''** Too many args (max. %d) **'') [Num (of_nat CONFIG_SYS_MAXARGS)] s)"
    using p(1,2) by (simp add: run_token_def those_map_Some)
  with p(3,4) show ?thesis by blast
qed

lemma run_single:
  assumes "\<forall>x\<in>set xs. macro_ok x \<and> sep_ok x" and "concat (map macro_source xs) \<noteq> []" and "below \<noteq> 0x5C"
    and "length (concat (map macro_source xs)) < CONFIG_SYS_CBSIZE"
  shows "run_command C io tbl below (Some (concat (map macro_source xs))) flag s =
    run_seq C io tbl [concat (map macro_source xs)] (flag, 0, 1, clear_ctrlc io s)"
  using run_tokens_seq [of "[xs]" below C io tbl] assms by (auto simp: run_command_def Let_def)

lemma run_command_args:
  assumes "env_good (clear_ctrlc io s) es" and "\<forall>x\<in>set xs. macro_ok x \<and> sep_ok x" and "below \<noteq> 0x5C"
    and "length (concat (map macro_source xs)) < CONFIG_SYS_CBSIZE"
    and "length (concat (map (macro_value es) xs)) < CONFIG_SYS_CBSIZE"
    and ws: "line_words (concat (map (macro_value es) xs)) = name # args"
    and cmd: "find_cmd_tbl name tbl = Some cmd" "length (take CONFIG_SYS_MAXARGS (name # args)) \<le> maxargs cmd" "\<not> cmd_is_bootd cmd"
  shows "\<exists>ended. (length (name # args) < CONFIG_SYS_MAXARGS \<longrightarrow> ended) \<and> (CONFIG_SYS_MAXARGS < length (name # args) \<longrightarrow> \<not> ended) \<and>
    run_command C io tbl below (Some (concat (map macro_source xs))) flag s = do {
      (r, s') \<leftarrow> cmd_fn cmd flag (take CONFIG_SYS_MAXARGS (name # args)) (if ended then clear_ctrlc io s
        else printf (line ''** Too many args (max. %d) **'') [Num (of_nat CONFIG_SYS_MAXARGS)] (clear_ctrlc io s));
      Some (if had_ctrlc io s' \<or> r \<noteq> 0 then -1 else 1 AND repeatable cmd, s')
    }"
proof -
  have ne: "concat (map macro_source xs) \<noteq> []"
  proof
    assume "concat (map macro_source xs) = []"
    then have "concat (map (macro_value es) xs) = []" by (simp add: macro_value_empty)
    with ws show False by (simp add: line_words.simps [of "[]"])
  qed
  have "\<forall>x\<in>set xs. macro_ok x" using assms(2) by blast
  from run_token_args [OF assms(1) this assms(5), where C = C and tbl = tbl and io = io and flag = flag and rc = 0 and repeatabl = 1] ws
  obtain ended where e: "length (name # args) < CONFIG_SYS_MAXARGS \<longrightarrow> ended"
    "CONFIG_SYS_MAXARGS < length (name # args) \<longrightarrow> \<not> ended"
    "run_token C io tbl (concat (map macro_source xs)) (flag, 0, 1, clear_ctrlc io s) =
      run_args io tbl (take CONFIG_SYS_MAXARGS (name # args)) (flag, 0, 1, if ended then clear_ctrlc io s
        else printf (line ''** Too many args (max. %d) **'') [Num (of_nat CONFIG_SYS_MAXARGS)] (clear_ctrlc io s))"
    by auto
  have "take CONFIG_SYS_MAXARGS (name # args) \<noteq> []" "hd (take CONFIG_SYS_MAXARGS (name # args)) = name"
    by (simp_all add: CONFIG_SYS_MAXARGS_def)
  then have "run_command C io tbl below (Some (concat (map macro_source xs))) flag s = do {
      (r, s') \<leftarrow> cmd_fn cmd flag (take CONFIG_SYS_MAXARGS (name # args)) (if ended then clear_ctrlc io s
        else printf (line ''** Too many args (max. %d) **'') [Num (of_nat CONFIG_SYS_MAXARGS)] (clear_ctrlc io s));
      Some (if had_ctrlc io s' \<or> r \<noteq> 0 then -1 else 1 AND repeatable cmd, s')
    }"
    using cmd unfolding run_single [OF assms(2) ne assms(3,4)] run_seq.simps e(3)
    by (auto simp: run_args_def split: Option.bind_split option.split)
  with e(1,2) show ?thesis by blast
qed

text \<open>
  What a line of commands means, without separators and buffers: each command gets the words of its
  own part of the line, expanded in the environment that the commands in front of it have left. The
  rest of the line is not run once Control-C was typed. The relation covers lines whose commands are
  in the table, with up to 23 words and no \<open>bootd\<close>, and whose expanded parts fit the buffer.
\<close>

inductive runs_line :: "('d, 'z) emach_scheme shell_io \<Rightarrow> ('d, 'z) emach_scheme cmd_tbl list \<Rightarrow> u32 \<Rightarrow> macro list list \<Rightarrow>
    bool \<Rightarrow> u32 \<Rightarrow> ('d, 'z) emach_scheme \<Rightarrow> u32 \<Rightarrow> ('d, 'z) emach_scheme \<Rightarrow> bool" for io tbl flag where
  line_end: "runs_line io tbl flag [] failed rep s (if failed then -1 else rep) s"
| line_command:
    "env_good s es \<Longrightarrow> length (concat (map (macro_value es) xs)) < CONFIG_SYS_CBSIZE \<Longrightarrow>
     line_words (concat (map (macro_value es) xs)) = name # args \<Longrightarrow> length (name # args) < CONFIG_SYS_MAXARGS \<Longrightarrow>
     find_cmd_tbl name tbl = Some cmd \<Longrightarrow> length (name # args) \<le> maxargs cmd \<Longrightarrow> \<not> cmd_is_bootd cmd \<Longrightarrow>
     cmd_fn cmd flag (name # args) s = Some (r, s1) \<Longrightarrow> \<not> had_ctrlc io s1 \<Longrightarrow>
     runs_line io tbl flag xss (failed \<or> r \<noteq> 0) (rep AND repeatable cmd) s1 res s' \<Longrightarrow>
     runs_line io tbl flag (xs # xss) failed rep s res s'"
| line_stopped:
    "env_good s es \<Longrightarrow> length (concat (map (macro_value es) xs)) < CONFIG_SYS_CBSIZE \<Longrightarrow>
     line_words (concat (map (macro_value es) xs)) = name # args \<Longrightarrow> length (name # args) < CONFIG_SYS_MAXARGS \<Longrightarrow>
     find_cmd_tbl name tbl = Some cmd \<Longrightarrow> length (name # args) \<le> maxargs cmd \<Longrightarrow> \<not> cmd_is_bootd cmd \<Longrightarrow>
     cmd_fn cmd flag (name # args) s = Some (r, s') \<Longrightarrow> had_ctrlc io s' \<Longrightarrow>
     runs_line io tbl flag (xs # xss) failed rep s (-1) s'"

lemma run_token_command:
  assumes "env_good s es" and "\<forall>x\<in>set xs. macro_ok x" and "length (concat (map (macro_value es) xs)) < CONFIG_SYS_CBSIZE"
    and "line_words (concat (map (macro_value es) xs)) = name # args" and "length (name # args) < CONFIG_SYS_MAXARGS"
    and "find_cmd_tbl name tbl = Some cmd" and "length (name # args) \<le> maxargs cmd" and "\<not> cmd_is_bootd cmd"
    and "cmd_fn cmd flag (name # args) s = Some (r, s')"
  shows "run_token C io tbl (concat (map macro_source xs)) (flag, rc, rep, s) =
    Some (if had_ctrlc io s' then Some (-1) else None, flag, if r \<noteq> 0 then -1 else rc, rep AND repeatable cmd, s')"
  using run_token_args [OF assms(1-3), of C io tbl flag rc rep] assms(4-9) by (auto simp: run_args_def)

lemma runs_line_seq:
  assumes "runs_line io tbl flag xss failed rep s res s'" and "\<forall>xs\<in>set xss. \<forall>x\<in>set xs. macro_ok x"
  shows "run_seq C io tbl (map (\<lambda>xs. concat (map macro_source xs)) xss) (flag, if failed then -1 else 0, rep, s) = Some (res, s')"
  using assms
proof (induction rule: runs_line.induct)
  case (line_command s es xs name args cmd r s1 xss failed rep res s')
  then show ?case by (auto simp: run_token_command split: if_splits)
qed (simp_all add: run_token_command)

text \<open>
  C10: a line of commands with separators between them runs the commands one after the other, as
  \<open>runs_line\<close> describes: separators that are quoted or escaped do not count, a variable is expanded
  when its command is reached, Control-C ends the line. The property is about lines of less than 384
  bytes whose commands are known, with a byte in front of the buffer that is not a backslash. An
  unknown command does not end the line, although the comment at main.c:1377 says it gives up
  there (\<open>unknown_command_goes_on\<close>); and the result is -1 when a command has failed or was
  interrupted, where the comment above the function has 0 for an interrupt and -1 for a command
  that was not executed.
\<close>
theorem run_command_splits:
  assumes "runs_line io tbl flag xss False 1 (clear_ctrlc io s) r s'"
    and "\<forall>xs\<in>set xss. concat (map macro_source xs) \<noteq> [] \<and> (\<forall>x\<in>set xs. macro_ok x \<and> sep_ok x)"
    and "xss \<noteq> []" and "below \<noteq> 0x5C"
    and "length (join_tokens (map (\<lambda>xs. concat (map macro_source xs)) xss)) < CONFIG_SYS_CBSIZE"
  shows "run_command C io tbl below (Some (join_tokens (map (\<lambda>xs. concat (map macro_source xs)) xss))) flag s = Some (r, s')"
proof -
  have "join_tokens (map (\<lambda>xs. concat (map macro_source xs)) xss) \<noteq> []"
    using assms(2,3) by (cases xss rule: list.exhaust; cases "tl xss") auto
  moreover have "run_seq C io tbl (map (\<lambda>xs. concat (map macro_source xs)) xss) (flag, 0, 1, clear_ctrlc io s) = Some (r, s')"
    using runs_line_seq [OF assms(1)] assms(2) by simp
  ultimately show ?thesis
    using assms(4,5) run_tokens_seq [OF assms(2,4), of C io tbl] by (simp add: run_command_def)
qed

text \<open>An unknown command prints its message and the rest of the line is run.\<close>

lemma unknown_command_goes_on:
  assumes "env_good s es" and "\<forall>x\<in>set xs. macro_ok x" and "length (concat (map (macro_value es) xs)) < CONFIG_SYS_CBSIZE"
    and "line_words (concat (map (macro_value es) xs)) = name # args" and "length (name # args) < CONFIG_SYS_MAXARGS"
    and "find_cmd_tbl name tbl = None"
  shows "run_seq C io tbl (concat (map macro_source xs) # ts) (flag, rc, rep, s) =
    run_seq C io tbl ts (flag, -1, rep, printf (line (''Unknown command '%s' - try 'help'' @ [CHR 0x27])) [Str name] s)"
  using run_token_args [OF assms(1-3), of C io tbl flag rc rep] assms(4-6) by (auto simp: run_args_def)

text \<open>
  C11: a command line of up to 23 words runs the command its first word stands for, with the words
  of the expanded line as arguments, once, and keeps the state the command leaves. The result is 1
  or 0 for a repeatable or other command, and -1 when the command fails or was interrupted (the
  callers take -1 for a failure; the comment above the function says -1 means not executed and
  that an interrupt gives 0). The line and its expansion are shorter than 384 bytes, the byte in
  front of the buffer is no backslash, and the command is not \<open>bootd\<close>.
\<close>
theorem run_command_runs:
  assumes "env_good (clear_ctrlc io s) es" and "\<forall>x\<in>set xs. macro_ok x \<and> sep_ok x" and "below \<noteq> 0x5C"
    and "length (concat (map macro_source xs)) < CONFIG_SYS_CBSIZE"
    and "length (concat (map (macro_value es) xs)) < CONFIG_SYS_CBSIZE"
    and "line_words (concat (map (macro_value es) xs)) = name # args" and "length (name # args) < CONFIG_SYS_MAXARGS"
    and "find_cmd_tbl name tbl = Some cmd" and "length (name # args) \<le> maxargs cmd" and "\<not> cmd_is_bootd cmd"
  shows "run_command C io tbl below (Some (concat (map macro_source xs))) flag s = do {
      (r, s') \<leftarrow> cmd_fn cmd flag (name # args) (clear_ctrlc io s);
      Some (if had_ctrlc io s' \<or> r \<noteq> 0 then -1 else 1 AND repeatable cmd, s')
    }"
proof -
  have t: "take CONFIG_SYS_MAXARGS (name # args) = name # args" using assms(7) by simp
  show ?thesis
    using run_command_args [OF assms(1-6,8) _ assms(10), of C flag] assms(7,9) unfolding t by auto
qed

text \<open>
  A line of more than 24 words is not refused: the message is printed and the command runs
  with the first 24 words.
\<close>
theorem run_command_truncates:
  assumes "env_good (clear_ctrlc io s) es" and "\<forall>x\<in>set xs. macro_ok x \<and> sep_ok x" and "below \<noteq> 0x5C"
    and "length (concat (map macro_source xs)) < CONFIG_SYS_CBSIZE"
    and "length (concat (map (macro_value es) xs)) < CONFIG_SYS_CBSIZE"
    and "line_words (concat (map (macro_value es) xs)) = name # args" and "CONFIG_SYS_MAXARGS < length (name # args)"
    and "find_cmd_tbl name tbl = Some cmd" and "CONFIG_SYS_MAXARGS \<le> maxargs cmd" and "\<not> cmd_is_bootd cmd"
  shows "run_command C io tbl below (Some (concat (map macro_source xs))) flag s = do {
      (r, s') \<leftarrow> cmd_fn cmd flag (take CONFIG_SYS_MAXARGS (name # args))
        (printf (line ''** Too many args (max. %d) **'') [Num (of_nat CONFIG_SYS_MAXARGS)] (clear_ctrlc io s));
      Some (if had_ctrlc io s' \<or> r \<noteq> 0 then -1 else 1 AND repeatable cmd, s')
    }"
  using run_command_args [OF assms(1-6,8) _ assms(10), of C flag] assms(7,9) by auto

section \<open>The properties at a concrete command table\<close>

definition sample_shell :: "unit emach shell_io" where
  "sample_shell = \<lparr>console_assign = (\<lambda>_ _ s. (0, s)), serial_setbrg = (\<lambda>s. s), io_udelay = (\<lambda>_ s. Some s),
     io_getc = (\<lambda>s. Some (0x0D, s)), ctrlc = (\<lambda>s. (False, s)), clear_ctrlc = (\<lambda>s. s), had_ctrlc = (\<lambda>_. False),
     tstc = (\<lambda>s. (False, s))\<rparr>"

definition sample_cmd :: "string \<Rightarrow> unit emach cmd_tbl" where
  "sample_cmd name = \<lparr>cmd_name = asc name, maxargs = 24, repeatable = 1, cmd_fn = (\<lambda>flag argv s. Some (do_echo argv s)),
     cmd_is_bootd = False, cmd_usage_text = Some (asc ''echo args''), cmd_help_text = None\<rparr>"

definition sample_tbl :: "unit emach cmd_tbl list" where
  "sample_tbl = [sample_cmd ''say'', sample_cmd ''echo'']"

lemma sample_find: "find_cmd_tbl (asc ''ec'') sample_tbl = Some (sample_cmd ''echo'')"
  by (simp add: find_cmd_tbl_def cmd_len_def sample_tbl_def sample_cmd_def asc_def)

theorem help_sorted_witness:
  "sorted (map cmd_name (bubble_sort (length sample_tbl - 1) sample_tbl)) \<and>
    mset (bubble_sort (length sample_tbl - 1) sample_tbl) = mset sample_tbl"
  by (rule help_sorted) (simp add: sample_tbl_def sample_cmd_def ascii_def asc_def)

definition sample_macros :: "macro list" where
  "sample_macros = [Text (asc ''ec ''), Variable (asc ''bootdelay''), Text (asc '' sec'')]"

lemma sample_macros_value:
  "concat (map (macro_value [asc ''bootdelay=3'', asc ''a=1'']) sample_macros) = asc ''ec 3 sec''"
proof -
  have "env_lookup (asc ''bootdelay'') [asc ''bootdelay=3'', asc ''a=1''] = Some (asc ''3'')"
    by (simp add: env_lookup_def entry_for_def asc_def)
  then show ?thesis by (simp add: sample_macros_def) (simp add: asc_def)
qed

lemma sample_words: "line_words (asc ''ec 3 sec'') = [asc ''ec'', asc ''3'', asc ''sec'']"
  unfolding asc_def by (simp add: blank_def line_words.simps [of "_ # _"] line_words.simps [of "[]"])

theorem run_command_runs_witness:
  "run_command sample_cfg sample_shell sample_tbl 0 (Some (concat (map macro_source sample_macros))) 0 sample_env =
    Some (1, snd (do_echo [asc ''ec'', asc ''3'', asc ''sec''] sample_env))"
proof -
  have s: "clear_ctrlc sample_shell sample_env = sample_env" by (simp add: sample_shell_def)
  have c: "cmd_fn (sample_cmd ''echo'') = (\<lambda>flag argv s. Some (do_echo argv s))" "maxargs (sample_cmd ''echo'') = 24"
    "repeatable (sample_cmd ''echo'') = 1" "\<not> cmd_is_bootd (sample_cmd ''echo'')"
    by (simp_all add: sample_cmd_def)
  have "fst (do_echo argv t) = 0" for argv and t :: "unit emach" by (simp add: do_echo_def split: prod.split)
  moreover have "run_command sample_cfg sample_shell sample_tbl 0 (Some (concat (map macro_source sample_macros))) 0 sample_env = do {
      (r, s') \<leftarrow> cmd_fn (sample_cmd ''echo'') 0 (asc ''ec'' # [asc ''3'', asc ''sec'']) (clear_ctrlc sample_shell sample_env);
      Some (if had_ctrlc sample_shell s' \<or> r \<noteq> 0 then -1 else 1 AND repeatable (sample_cmd ''echo''), s')
    }"
    by (rule run_command_runs [OF _ _ _ _ _ _ _ sample_find, where es = "[asc ''bootdelay=3'', asc ''a=1'']"])
       (simp_all add: s sample_good sample_macros_value sample_words c CONFIG_SYS_CBSIZE_def CONFIG_SYS_MAXARGS_def,
        simp_all add: sample_macros_def name_ok_def asc_def CONFIG_SYS_CBSIZE_def)
  ultimately show ?thesis by (simp add: c s sample_shell_def case_prod_beta)
qed

lemma printf_env_good [simp]: "env_good (printf f xs s) es = env_good s es"
  by (simp add: env_good_def)

lemma putc_env_good [simp]: "env_good (putc c s) es = env_good s es"
  by (simp add: putc_def)

lemma echo_arg_env [simp]:
  "env_good (snd (echo_arg p st)) es = env_good (snd st) es"
  by (induction p st rule: echo_arg.induct) simp_all

lemma echo_args_env [simp]: "env_good (snd (echo_args first ps st)) es = env_good (snd st) es"
  by (induction ps arbitrary: first st) simp_all

lemma do_echo_env [simp]: "env_good (snd (do_echo argv s)) es = env_good s es"
  using echo_args_env [of True "tl argv" "(True, s)" es]
  by (cases "echo_args True (tl argv) (True, s)") (simp add: do_echo_def)

lemma sample_echo:
  assumes "line_words (concat (map (macro_value [asc ''bootdelay=3'', asc ''a=1'']) xs)) = asc ''ec'' # args"
    and "length (concat (map (macro_value [asc ''bootdelay=3'', asc ''a=1'']) xs)) < 384" and "length args < 23"
    and "env_good s [asc ''bootdelay=3'', asc ''a=1'']"
    and "runs_line sample_shell sample_tbl 0 xss False 1 (snd (do_echo (asc ''ec'' # args) s)) res s'"
  shows "runs_line sample_shell sample_tbl 0 (xs # xss) False 1 s res s'"
  using assms
  by (intro line_command [where r = 0, OF assms(4) _ assms(1) _ sample_find])
     (simp_all add: sample_cmd_def sample_shell_def CONFIG_SYS_CBSIZE_def CONFIG_SYS_MAXARGS_def do_echo_def split: prod.split)

definition sample_line :: "macro list list" where
  "sample_line = [sample_macros, [Text (asc ''ec ''), Quoted (asc '';'')]]"

theorem run_command_splits_witness:
  "run_command sample_cfg sample_shell sample_tbl 0
      (Some (join_tokens (map (\<lambda>xs. concat (map macro_source xs)) sample_line))) 0 sample_env =
    Some (1, snd (do_echo [asc ''ec'', asc '';''] (snd (do_echo [asc ''ec'', asc ''3'', asc ''sec''] sample_env))))"
proof -
  let ?s1 = "snd (do_echo [asc ''ec'', asc ''3'', asc ''sec''] sample_env)"
  have w: "line_words (asc ''ec ;'') = [asc ''ec'', asc '';'']"
    unfolding asc_def by (simp add: blank_def line_words.simps [of "_ # _"] line_words.simps [of "[]"])
  have v: "concat (map (macro_value [asc ''bootdelay=3'', asc ''a=1'']) [Text (asc ''ec ''), Quoted (asc '';'')]) = asc ''ec ;''"
    by (simp add: asc_def)
  have "runs_line sample_shell sample_tbl 0 sample_line False 1 sample_env 1 (snd (do_echo [asc ''ec'', asc '';''] ?s1))"
    unfolding sample_line_def
  proof (intro sample_echo)
    show "runs_line sample_shell sample_tbl 0 [] False 1 (snd (do_echo (asc ''ec'' # [asc '';'']) (snd (do_echo (asc ''ec'' # [asc ''3'', asc ''sec'']) sample_env)))) 1
      (snd (do_echo [asc ''ec'', asc '';''] ?s1))"
      using line_end [of sample_shell sample_tbl 0 False 1] by simp
  qed (simp_all only: sample_macros_value v sample_words w do_echo_env sample_good, simp_all add: asc_def)
  then have l: "runs_line sample_shell sample_tbl 0 sample_line False 1 (clear_ctrlc sample_shell sample_env) 1
      (snd (do_echo [asc ''ec'', asc '';''] ?s1))"
    by (simp add: sample_shell_def)
  show ?thesis
    by (rule run_command_splits [OF l])
       (simp_all add: sample_line_def sample_macros_def name_ok_def asc_def CONFIG_SYS_CBSIZE_def)
qed

definition long_line :: "macro list" where
  "long_line = Text (asc ''ec'') # replicate 30 (Text (asc '' x''))"

lemma long_words: "line_words (asc ''ec'' @ concat (replicate n (asc '' x''))) = asc ''ec'' # replicate n (asc ''x'')"
proof -
  have x: "line_words (concat (replicate n (asc '' x''))) = replicate n (asc ''x'')"
  proof (induction n)
    case (Suc n)
    have "asc '' x'' @ concat (replicate n (asc '' x'')) = 0x20 # asc ''x'' @ concat (replicate n (asc '' x''))"
      by (simp add: asc_def)
    moreover have "line_words (asc ''x'' @ concat (replicate n (asc '' x''))) = asc ''x'' # line_words (concat (replicate n (asc '' x'')))"
      by (rule line_words_split) (cases n; simp add: asc_def blank_def)+
    ultimately show ?case using Suc by (simp add: line_words_blank blank_def)
  qed (simp add: line_words.simps)
  have "line_words (asc ''ec'' @ concat (replicate n (asc '' x''))) = asc ''ec'' # line_words (concat (replicate n (asc '' x'')))"
    by (rule line_words_split) (cases n; simp add: asc_def blank_def)+
  then show ?thesis by (simp add: x)
qed

theorem run_command_truncates_witness:
  "run_command sample_cfg sample_shell sample_tbl 0 (Some (concat (map macro_source long_line))) 0 sample_env =
    Some (1, snd (do_echo (asc ''ec'' # replicate 23 (asc ''x''))
      (printf (line ''** Too many args (max. %d) **'') [Num 24] sample_env)))"
proof -
  let ?es = "[asc ''bootdelay=3'', asc ''a=1'']"
  have v: "concat (map (macro_value ?es) long_line) = asc ''ec'' @ concat (replicate 30 (asc '' x''))"
    "concat (map macro_source long_line) = asc ''ec'' @ concat (replicate 30 (asc '' x''))"
    by (simp_all add: long_line_def)
  have ok: "\<forall>x\<in>set long_line. macro_ok x \<and> sep_ok x" by (simp add: long_line_def asc_def)
  have s: "clear_ctrlc sample_shell sample_env = sample_env" by (simp add: sample_shell_def)
  have c: "cmd_fn (sample_cmd ''echo'') = (\<lambda>flag argv s. Some (do_echo argv s))" "maxargs (sample_cmd ''echo'') = 24"
    "repeatable (sample_cmd ''echo'') = 1" "\<not> cmd_is_bootd (sample_cmd ''echo'')"
    by (simp_all add: sample_cmd_def)
  have len: "length (asc ''ec'' @ concat (replicate 30 (asc '' x''))) = 62"
    by (simp add: length_concat sum_list_replicate asc_def)
  have take: "take 24 (asc ''ec'' # replicate 30 (asc ''x'')) = asc ''ec'' # replicate 23 (asc ''x'')" by simp
  have "fst (do_echo argv t) = 0" for argv and t :: "unit emach" by (simp add: do_echo_def split: prod.split)
  moreover have "run_command sample_cfg sample_shell sample_tbl 0 (Some (concat (map macro_source long_line))) 0 sample_env = do {
      (r, s') \<leftarrow> cmd_fn (sample_cmd ''echo'') 0 (take CONFIG_SYS_MAXARGS (asc ''ec'' # replicate 30 (asc ''x'')))
        (printf (line ''** Too many args (max. %d) **'') [Num (of_nat CONFIG_SYS_MAXARGS)] (clear_ctrlc sample_shell sample_env));
      Some (if had_ctrlc sample_shell s' \<or> r \<noteq> 0 then -1 else 1 AND repeatable (sample_cmd ''echo''), s')
    }"
    by (rule run_command_truncates [OF _ ok _ _ _ _ _ sample_find, of _ _ ?es])
       (simp_all only: v s c len long_words sample_good, simp_all add: CONFIG_SYS_CBSIZE_def CONFIG_SYS_MAXARGS_def)
  ultimately show ?thesis by (simp add: c s take CONFIG_SYS_MAXARGS_def sample_shell_def case_prod_beta)
qed

end
