(* ===== verification/Console.thy ===== *)
theory Console
  imports Command
begin

text \<open>
  The console of the command line: \<open>readline_into_buffer\<close>, \<open>abortboot\<close> and \<open>main_loop\<close> of
  \<open>common/main.c\<close>, the completion of \<open>common/command.c\<close> and \<open>env_complete\<close>. The buffer is an
  array. Strings that are only read are lists; \<open>None\<close> is an endless loop or a read outside an object.
\<close>

section \<open>Completion\<close>

definition CONFIG_SYS_PROMPT :: "u8 list" where "CONFIG_SYS_PROMPT = asc ''EM/EV # ''"

text \<open>The names of the variables that start with \<open>var\<close>, copied to a buffer of \<open>bufsz\<close> bytes.\<close>

partial_function (option) env_complete_loop ::
    "(nat \<Rightarrow> u8) \<Rightarrow> u8 list \<Rightarrow> nat \<Rightarrow> nat \<Rightarrow> nat \<Rightarrow> u8 list list \<Rightarrow> u8 list list option" where
  "env_complete_loop d var maxv bufsz i cmdv =
     (if d i = 0 then Some cmdv
      else Option.bind (env_end d i) (\<lambda>nxt.
        let lval = map d [i..<nxt]; vallen = length (takeWhile (\<lambda>c. c \<noteq> 0x3D) lval)
        in if 0 < length var \<and> (vallen < length var \<or> take (length var) lval \<noteq> var)
           then env_complete_loop d var maxv bufsz (nxt + 1) cmdv
           else if maxv - 2 \<le> length cmdv \<or> bufsz < vallen + 1 then Some (cmdv @ [asc ''...''])
           else env_complete_loop d var maxv (bufsz - vallen - 1) (nxt + 1) (cmdv @ [take vallen lval])))"

definition env_complete :: "env_config \<Rightarrow> ('d, 'z) emach_scheme \<Rightarrow> u8 list \<Rightarrow> nat \<Rightarrow> nat \<Rightarrow> u8 list list option" where
  "env_complete C s var maxv bufsz = env_complete_loop (env_get_char C s) var maxv bufsz 0 []"

definition var_complete :: "env_config \<Rightarrow> ('d, 'z) emach_scheme \<Rightarrow> u8 list list \<Rightarrow> u8 \<Rightarrow> nat \<Rightarrow> u8 list list option" where
  "var_complete C s argv last_char maxv =
     (let space = (last_char = 0 \<or> last_char = 0x20 \<or> last_char = 0x09)
      in if space \<and> length argv = 1 then env_complete C s [] maxv 512
         else if \<not> space \<and> length argv = 2 then env_complete C s (argv ! 1) maxv 512
         else Some [])"

text \<open>The handlers are installed in the entries of three commands.\<close>

definition install_auto_complete :: "('s, 'z) cmd_tbl_scheme list \<Rightarrow> u8 list list" where
  "install_auto_complete tbl =
     concat (map (\<lambda>cmd. case find_cmd_tbl cmd tbl of None \<Rightarrow> [] | Some cmdtp \<Rightarrow> [cmd_name cmdtp])
       [asc ''printenv'', asc ''setenv'', asc ''run''])"

text \<open>At most \<open>maxv - 2\<close> names, then an ellipsis.\<close>

primrec take_names :: "nat \<Rightarrow> u8 list list \<Rightarrow> u8 list list \<Rightarrow> u8 list list" where
  "take_names maxv [] cmdv = cmdv"
| "take_names maxv (name # names) cmdv =
     (if maxv - 2 \<le> length cmdv then cmdv @ [asc ''...''] else take_names maxv names (cmdv @ [name]))"

definition complete_cmdv :: "env_config \<Rightarrow> ('s, 'y) cmd_tbl_scheme list \<Rightarrow> ('d, 'z) emach_scheme \<Rightarrow> u8 list list \<Rightarrow> u8 \<Rightarrow> nat \<Rightarrow>
    u8 list list option" where
  "complete_cmdv C tbl s argv last_char maxv =
     (if argv = [] then Some (take_names maxv (map cmd_name tbl) [])
      else if 1 < length argv \<or> last_char = 0 \<or> last_char = 0x20 \<or> last_char = 0x09
      then case find_cmd_tbl (hd argv) tbl of
             None \<Rightarrow> Some []
           | Some cmdtp \<Rightarrow>
               if cmd_name cmdtp \<in> set (install_auto_complete tbl) then var_complete C s argv last_char maxv else Some []
      else let len = cmd_len (hd argv)
        in Some (take_names maxv
             (filter (\<lambda>name. len \<le> length name \<and> take len (hd argv) = take len name) (map cmd_name tbl)) []))"

text \<open>\<open>make_argv\<close> is the loop of \<open>parse_line\<close> for one argument less, without the message.\<close>

definition make_argv :: "(nat \<Rightarrow> u8) \<Rightarrow> nat \<Rightarrow> u8 list list option" where
  "make_argv d argvsz = do {
     (argv, _, d) \<leftarrow> parse_args (argvsz - 1) d 0;
     those (map (str_at d) argv)
   }"

primrec print_argv_loop :: "u8 list \<Rightarrow> u8 list \<Rightarrow> nat \<Rightarrow> int \<Rightarrow> u8 list list \<Rightarrow> ('d, 'z) mach_scheme \<Rightarrow> ('d, 'z) mach_scheme" where
  "print_argv_loop leader sep linemax i [] s = s"
| "print_argv_loop leader sep linemax i (arg # argv) s =
     (let len = int (length arg + length sep);
          (i, s) = (if int linemax \<le> i + len
            then (int (length leader) - int (length sep), printf ''%s'' [Str leader] (putc 0x0A s))
            else (i, printf ''%s'' [Str sep] s))
      in print_argv_loop leader sep linemax (i + len) argv (printf ''%s'' [Str arg] s))"

definition print_argv :: "u8 list \<Rightarrow> u8 list \<Rightarrow> nat \<Rightarrow> u8 list list \<Rightarrow> ('d, 'z) mach_scheme \<Rightarrow> ('d, 'z) mach_scheme" where
  "print_argv leader sep linemax argv s = putc 0x0A (print_argv_loop leader sep linemax (int linemax) argv s)"

fun common_prefix :: "u8 list \<Rightarrow> u8 list \<Rightarrow> u8 list" where
  "common_prefix (a # as) (b # bs) = (if a = b then a # common_prefix as bs else [])"
| "common_prefix as bs = []"

definition find_common_prefix :: "u8 list list \<Rightarrow> nat" where
  "find_common_prefix argv =
     (case argv of [] \<Rightarrow> 0 | anchor # rest \<Rightarrow> length (fold (\<lambda>t a. common_prefix a t) rest anchor))"

text \<open>What is inserted behind the word to complete: a suffix of the first match and a separator.\<close>

definition completion :: "u8 list list \<Rightarrow> u8 list list \<Rightarrow> (u8 list \<times> u8 list) option option" where
  "completion argv cmdv =
     (if length cmdv = 1
      then if argv = [] \<or> length (hd cmdv) < length (last argv) then None
        else Some (Some (drop (length (last argv)) (hd cmdv), [0x20]))
      else let j = find_common_prefix cmdv
        in if j = 0 then Some None
           else if argv = [] then None
           else if length (last argv) < j
             then Some (Some (take (j - length (last argv)) (drop (length (last argv)) (hd cmdv)), []))
             else Some None)"

text \<open>\<open>put_bytes\<close> writes the inserted text and its terminator.\<close>

definition put_bytes :: "(nat \<Rightarrow> u8) \<Rightarrow> nat \<Rightarrow> u8 list \<Rightarrow> (nat \<Rightarrow> u8)" where
  "put_bytes d p bs = snd (put_str d p bs)"

definition cmd_auto_complete :: "env_config \<Rightarrow> ('s, 'y) cmd_tbl_scheme list \<Rightarrow> u8 list \<Rightarrow>
    (nat \<Rightarrow> u8) \<times> nat \<times> int \<times> ('d, 'z) emach_scheme \<Rightarrow> (bool \<times> (nat \<Rightarrow> u8) \<times> nat \<times> int \<times> ('d, 'z) emach_scheme) option" where
  "cmd_auto_complete C tbl prompt = (\<lambda>(buf, n, col, s).
     if prompt \<noteq> CONFIG_SYS_PROMPT then Some (False, buf, n, col, s)
     else do {
       str \<leftarrow> str_at buf 0;
       let last_char = (if str = [] then 0 else last str);
       argv \<leftarrow> make_argv buf (CONFIG_SYS_MAXARGS + 1);
       cmdv \<leftarrow> complete_cmdv C tbl s argv last_char 20;
       if cmdv = [] then
         Some (if 1 < length argv then (False, buf, n, col, s) else (True, buf, n, col, putc 0x07 s))
       else do {
         compl \<leftarrow> completion argv cmdv;
         case compl of
           Some (t, sep) \<Rightarrow>
             let k = length t + length sep
             in Some (if CONFIG_SYS_CBSIZE - 2 \<le> n + k then (True, buf, n, col, putc 0x07 s)
               else (True, put_bytes buf (length str) (t @ sep), n + k, col + int k,
                 (if sep = [] then putc 0x07 else id) (printf ''%s'' [Str (t @ sep)] s)))
         | None \<Rightarrow>
             Some (True, buf, n, col, printf ''%s'' [Str str] (printf ''%s'' [Str prompt]
               (print_argv (asc ''  '') (asc '' '') 78 cmdv s)))
       }
     })"

section \<open>Reading a line\<close>

definition erase_seq :: string where "erase_seq = [CHR 0x08, CHR '' '', CHR 0x08]"

text \<open>\<open>tab_seq + (col & 7)\<close>: blanks up to the next multiple of eight.\<close>

definition put_tab :: "int \<times> ('d, 'z) mach_scheme \<Rightarrow> int \<times> ('d, 'z) mach_scheme" where
  "put_tab = (\<lambda>(col, s). (col + (8 - col mod 8), printf ''%s'' [Str (replicate (nat (8 - col mod 8)) 0x20)] s))"

primrec puts_times :: "nat \<Rightarrow> string \<Rightarrow> ('d, 'z) mach_scheme \<Rightarrow> ('d, 'z) mach_scheme" where
  "puts_times 0 str s = s"
| "puts_times (Suc n) str s = puts_times n str (printf str [] s)"

text \<open>\<open>while (col > plen) puts(erase_seq), --col\<close>\<close>

definition erase_line :: "int \<Rightarrow> int \<times> ('d, 'z) mach_scheme \<Rightarrow> int \<times> ('d, 'z) mach_scheme" where
  "erase_line plen = (\<lambda>(col, s). (min col plen, puts_times (nat (col - plen)) erase_seq s))"

primrec retype :: "u8 list \<Rightarrow> int \<times> ('d, 'z) mach_scheme \<Rightarrow> int \<times> ('d, 'z) mach_scheme" where
  "retype [] st = st"
| "retype (c # cs) st = retype cs (if c = 0x09 then put_tab st else case st of (col, s) \<Rightarrow> (col + 1, putc c s))"

definition delete_char :: "(nat \<Rightarrow> u8) \<Rightarrow> int \<Rightarrow> nat \<times> nat \<times> int \<times> ('d, 'z) mach_scheme \<Rightarrow> nat \<times> nat \<times> int \<times> ('d, 'z) mach_scheme" where
  "delete_char buffer plen = (\<lambda>(p, n, col, s).
     if n = 0 then (p, n, col, s)
     else let p = p - 1;
              (col, s) = (if buffer p = 0x09 then retype (map buffer [0..<p]) (erase_line plen (col, s))
                          else (col - 1, printf erase_seq [] s))
       in (p, n - 1, col, s))"

function delete_word :: "(nat \<Rightarrow> u8) \<Rightarrow> int \<Rightarrow> nat \<times> nat \<times> int \<times> ('d, 'z) mach_scheme \<Rightarrow> nat \<times> nat \<times> int \<times> ('d, 'z) mach_scheme" where
  "delete_word buffer plen (p, n, col, s) =
     (if 0 < n \<and> buffer p \<noteq> 0x20 then delete_word buffer plen (delete_char buffer plen (p, n, col, s))
      else (p, n, col, s))"
  by pat_completeness auto
termination
  by (relation "measure (\<lambda>(_, _, _, n, _). n)") (auto simp: delete_char_def Let_def split: prod.splits)

declare delete_word.simps [simp del]

text \<open>One key: the result of a \<open>return\<close>, and the buffer, \<open>p\<close>, \<open>n\<close> and \<open>col\<close>.\<close>

definition read_key :: "env_config \<Rightarrow> ('d, 'z) emach_scheme shell_io \<Rightarrow> ('s, 'y) cmd_tbl_scheme list \<Rightarrow> u8 list \<Rightarrow>
    (nat \<Rightarrow> u8) \<times> nat \<times> nat \<times> int \<times> ('d, 'z) emach_scheme \<Rightarrow>
    (int option \<times> (nat \<Rightarrow> u8) \<times> nat \<times> nat \<times> int \<times> ('d, 'z) emach_scheme) option" where
  "read_key C io tbl prompt = (\<lambda>(buf, p, n, col, s). do {
     let plen = int (length prompt);
     (c, s) \<leftarrow> io_getc io s;
     if c = 0x0D \<or> c = 0x0A then Some (Some (int p), buf(p := 0), p, n, col, printf [CHR 0x0D, CHR 0x0A] [] s)
     else if c = 0 then Some (None, buf, p, n, col, s)
     else if c = 0x03 then Some (Some (-1), buf(0 := 0), p, n, col, s)
     else if c = 0x15 then case erase_line plen (col, s) of (col, s) \<Rightarrow> Some (None, buf, 0, 0, col, s)
     else if c = 0x17 then Some (None, buf, delete_word buf plen (delete_char buf plen (p, n, col, s)))
     else if c = 0x08 \<or> c = 0x7F then Some (None, buf, delete_char buf plen (p, n, col, s))
     else if n < CONFIG_SYS_CBSIZE - 2 then do {
       (completed, buf, n, col, s) \<leftarrow> (if c = 0x09 then cmd_auto_complete C tbl prompt (buf(p := 0), n, col, s)
         else Some (False, buf, n, col, s));
       if completed then Some (None, buf, n, n, col, s)
       else case (if c = 0x09 then put_tab (col, s) else (col + 1, putc c s)) of
         (col, s) \<Rightarrow> Some (None, buf(p := c), p + 1, n + 1, col, s)
     }
     else Some (None, buf, p, n, col, putc 0x07 s)
   })"

definition readline_into_buffer :: "env_config \<Rightarrow> ('d, 'z) emach_scheme shell_io \<Rightarrow> ('s, 'y) cmd_tbl_scheme list \<Rightarrow> u8 list \<Rightarrow>
    (nat \<Rightarrow> u8) \<Rightarrow> ('d, 'z) emach_scheme \<Rightarrow> (int \<times> (nat \<Rightarrow> u8) \<times> ('d, 'z) emach_scheme) option" where
  "readline_into_buffer C io tbl prompt buf s = do {
     (r, buf, _, _, _, s) \<leftarrow> loopM (read_key C io tbl prompt)
       (buf, 0, 0, int (length prompt), printf ''%s'' [Str prompt] s);
     Some (r, buf, s)
   }"

section \<open>Autoboot and the main loop\<close>

definition CONFIG_BOOTDELAY :: u32 where "CONFIG_BOOTDELAY = 3"

text \<open>Up to \<open>n\<close> times ten milliseconds, unless a key is pressed.\<close>

primrec abort_wait :: "('d, 'z) emach_scheme shell_io \<Rightarrow> nat \<Rightarrow> ('d, 'z) emach_scheme \<Rightarrow> (bool \<times> ('d, 'z) emach_scheme) option" where
  "abort_wait io 0 s = Some (False, s)"
| "abort_wait io (Suc n) s =
     (case tstc io s of (key, s) \<Rightarrow>
        if key then do { (_, s) \<leftarrow> io_getc io s; Some (True, s) }
        else do { s \<leftarrow> io_udelay io 10000 s; abort_wait io n s })"

primrec abort_seconds :: "('d, 'z) emach_scheme shell_io \<Rightarrow> nat \<Rightarrow> ('d, 'z) emach_scheme \<Rightarrow> (bool \<times> ('d, 'z) emach_scheme) option" where
  "abort_seconds io 0 s = Some (False, s)"
| "abort_seconds io (Suc bootdelay) s = do {
     (abort, s) \<leftarrow> abort_wait io 100 s;
     let bootdelay' = (if abort then 0 else bootdelay);
     let s = printf [CHR 0x08, CHR 0x08, CHR 0x08, CHR ''%'', CHR ''2'', CHR ''d'', CHR '' ''] [Num (of_nat bootdelay')] s;
     if abort then Some (True, s) else abort_seconds io bootdelay s
   }"

definition abortboot :: "('d, 'z) emach_scheme shell_io \<Rightarrow> u32 \<Rightarrow> ('d, 'z) emach_scheme \<Rightarrow> (bool \<times> ('d, 'z) emach_scheme) option" where
  "abortboot io bootdelay s = do {
     let s = printf ''Hit any key to stop autoboot: %2d '' [Num bootdelay] s;
     (abort, s) \<leftarrow> abort_seconds io (nat (sint bootdelay)) s;
     Some (abort, putc 0x0A s)
   }"

text \<open>The string a variable points to, if it is defined.\<close>

definition getenv_str :: "env_config \<Rightarrow> ('d, 'z) emach_scheme \<Rightarrow> u8 list \<Rightarrow> u8 list option option" where
  "getenv_str C s name = do {
     r \<leftarrow> getenv C s name;
     case r of None \<Rightarrow> Some None | Some k \<Rightarrow> do { v \<leftarrow> str_at (env_get_char C s) k; Some (Some v) }
   }"

text \<open>The start of \<open>main_loop\<close>: the command in \<open>bootcmd\<close>, unless a key is pressed in time.\<close>

definition autoboot :: "env_config \<Rightarrow> ('d, 'z) emach_scheme shell_io \<Rightarrow> ('d, 'z) emach_scheme cmd_tbl list \<Rightarrow> u8 \<Rightarrow>
    ('d, 'z) emach_scheme \<Rightarrow> ('d, 'z) emach_scheme option" where
  "autoboot C io tbl below s = do {
     delay \<leftarrow> getenv_str C s (asc ''bootdelay'');
     let bootdelay = (case delay of Some v \<Rightarrow> fst (simple_strtol v 10) | None \<Rightarrow> CONFIG_BOOTDELAY);
     cmd \<leftarrow> getenv_str C s (asc ''bootcmd'');
     case cmd of
       None \<Rightarrow> Some s
     | Some cmd \<Rightarrow>
         if sint bootdelay < 0 then Some s
         else do {
           (abort, s) \<leftarrow> abortboot io bootdelay s;
           if abort then Some s else map_option snd (run_command C io tbl below (Some cmd) 0 s)
         }
   }"

text \<open>
  One pass of the endless loop. The state is \<open>lastcommand\<close>, \<open>rc\<close>, the console buffer and the
  machine.
\<close>

definition main_loop_step :: "env_config \<Rightarrow> ('d, 'z) emach_scheme shell_io \<Rightarrow> ('d, 'z) emach_scheme cmd_tbl list \<Rightarrow> u8 \<Rightarrow>
    u8 list \<times> u32 \<times> (nat \<Rightarrow> u8) \<times> ('d, 'z) emach_scheme \<Rightarrow>
    (u8 list \<times> u32 \<times> (nat \<Rightarrow> u8) \<times> ('d, 'z) emach_scheme) option" where
  "main_loop_step C io tbl below = (\<lambda>(lastcommand, rc, buf, s). do {
     (len, buf, s) \<leftarrow> readline_into_buffer C io tbl CONFIG_SYS_PROMPT buf s;
     lastcommand \<leftarrow> (if 0 < len then str_at buf 0 else Some lastcommand);
     let flag = (if len = 0 then CMD_FLAG_REPEAT else 0);
     (rc, s) \<leftarrow> (if len = -1 then Some (rc, printf (line ''<INTERRUPT>'') [] s)
       else run_command C io tbl below (Some lastcommand) flag s);
     Some (if sint rc \<le> 0 then [] else lastcommand, rc, buf, s)
   })"

section \<open>The console buffer\<close>

lemma str_at_bound: "str_at d p = Some v \<Longrightarrow> p \<le> q \<Longrightarrow> d q = 0 \<Longrightarrow> p + length v \<le> q"
proof (induction "q - p" arbitrary: p v)
  case 0
  then show ?case by (simp add: str_at.simps [of d])
next
  case (Suc n)
  show ?case
  proof (cases "d p = 0")
    case False
    then obtain r where r: "str_at d (p + 1) = Some r" "v = d p # r"
      using Suc.prems(1) by (auto simp: str_at.simps [of d p] bind_eq_Some_conv)
    then show ?thesis using Suc.hyps(1) [of "p + 1" r] Suc.hyps(2) Suc.prems by simp
  qed (use Suc.prems in \<open>simp add: str_at.simps [of d]\<close>)
qed

lemma str_at_defined: "p \<le> q \<Longrightarrow> d q = 0 \<Longrightarrow> \<exists>v. str_at d p = Some v"
proof (induction "q - p" arbitrary: p)
  case 0
  then show ?case by (simp add: str_at.simps [of d])
next
  case (Suc n)
  then have "\<exists>v. str_at d (p + 1) = Some v" by auto
  then show ?case by (subst str_at.simps) auto
qed

text \<open>\<open>n\<close> bytes are in the buffer, which leaves room for two more, and nothing behind it changed.\<close>

definition line_ok :: "(nat \<Rightarrow> u8) \<Rightarrow> (nat \<Rightarrow> u8) \<times> nat \<times> nat \<times> int \<times> ('d, 'z) mach_scheme \<Rightarrow> bool" where
  "line_ok buf0 = (\<lambda>(buf, p, n, col, s). p = n \<and> n \<le> CONFIG_SYS_CBSIZE - 2 \<and> (\<forall>i\<ge>CONFIG_SYS_CBSIZE. buf i = buf0 i))"

lemma delete_char_ok:
  "line_ok buf0 (buf, p, n, col, s) \<Longrightarrow> delete_char buf plen (p, n, col, s) = st \<Longrightarrow> line_ok buf0 (buf, st)"
  by (auto simp: line_ok_def delete_char_def Let_def split: prod.splits if_splits)

lemma delete_word_ok: "line_ok buf0 (buf, p, n, col, s) \<Longrightarrow> line_ok buf0 (buf, delete_word buf plen (p, n, col, s))"
proof (induction buf plen "(p, n, col, s)" arbitrary: p n col s rule: delete_word.induct)
  case (1 buf plen p n col s)
  obtain p' n' col' s' where d: "delete_char buf plen (p, n, col, s) = (p', n', col', s')" by (cases "delete_char buf plen (p, n, col, s)") auto
  then show ?case
    using 1(1) [OF _ d] delete_char_ok [OF 1(2) d] 1(2) by (subst delete_word.simps) auto
qed

lemma cmd_auto_complete_ok:
  assumes ok: "line_ok buf0 (buf, n, n, col, s)" and "buf n = 0"
    and r: "cmd_auto_complete C tbl prompt (buf, n, col, s) = Some (done, buf', n', col', s')"
  shows "line_ok buf0 (buf', n', n', col', s') \<and> (\<not> done \<longrightarrow> buf' = buf \<and> n' = n)"
proof (cases "prompt \<noteq> CONFIG_SYS_PROMPT")
  case True
  then show ?thesis using ok r by (simp add: cmd_auto_complete_def line_ok_def)
next
  case False
  then obtain str argv cmdv where 1: "str_at buf 0 = Some str" "make_argv buf (CONFIG_SYS_MAXARGS + 1) = Some argv"
    "complete_cmdv C tbl s argv (if str = [] then 0 else last str) 20 = Some cmdv"
    using r by (auto simp: cmd_auto_complete_def bind_eq_Some_conv Let_def)
  show ?thesis
  proof (cases "cmdv = []")
    case True
    then show ?thesis using ok r False 1 by (auto simp: cmd_auto_complete_def line_ok_def split: if_splits)
  next
    case nonempty: False
    then obtain compl where 2: "completion argv cmdv = Some compl"
      using r False 1 by (auto simp: cmd_auto_complete_def bind_eq_Some_conv)
    show ?thesis
    proof (cases compl)
      case None
      then show ?thesis using ok r False 1 2 nonempty by (auto simp: cmd_auto_complete_def line_ok_def split: if_splits)
    next
      case (Some a)
      obtain t sep where a: "a = (t, sep)" by (cases a)
      have len: "length str \<le> n" using str_at_bound [OF 1(1) _ assms(2)] by simp
      show ?thesis
      proof (cases "CONFIG_SYS_CBSIZE - 2 \<le> n + (length t + length sep)")
        case True
        then show ?thesis using ok r False 1 2 nonempty Some a by (auto simp: cmd_auto_complete_def line_ok_def split: if_splits)
      next
        case fits: False
        have "put_bytes buf (length str) (t @ sep) i = buf i" if "CONFIG_SYS_CBSIZE \<le> i" for i
          using put_str_value [of buf "length str" "t @ sep"] len fits that by (auto simp: put_bytes_def)
        then show ?thesis using ok r False 1 2 nonempty Some a fits by (auto simp: cmd_auto_complete_def line_ok_def split: if_splits)
      qed
    qed
  qed
qed

lemma read_key_ok:
  assumes "line_ok buf0 (buf, p, n, col, s)" and "read_key C io tbl prompt (buf, p, n, col, s) = Some (r, st)"
  shows "(r = None \<longrightarrow> line_ok buf0 st) \<and>
    (\<forall>v. r = Some v \<longrightarrow> (v = -1 \<or> 0 \<le> v \<and> v \<le> int (CONFIG_SYS_CBSIZE - 2) \<and> fst st (nat v) = 0) \<and>
      (\<exists>q\<le>CONFIG_SYS_CBSIZE - 2. fst st q = 0) \<and> (\<forall>i\<ge>CONFIG_SYS_CBSIZE. fst st i = buf0 i))"
proof -
  obtain c s1 where c: "io_getc io s = Some (c, s1)"
    using assms(2) by (auto simp: read_key_def bind_eq_Some_conv Let_def)
  have ok: "line_ok buf0 (buf, p, n, col, s1)" "p = n" using assms(1) by (simp_all add: line_ok_def)
  note key = assms(2) [unfolded read_key_def prod.case Let_def, simplified c, simplified]
  consider (enter) "c = 0x0D \<or> c = 0x0A" | (nul) "c = 0" | (break) "c = 0x03" | (line) "c = 0x15" | (word) "c = 0x17"
    | (del) "c = 0x08 \<or> c = 0x7F" | (char) "c \<notin> {0x0D, 0x0A, 0, 0x03, 0x15, 0x17, 0x08, 0x7F}" by blast
  then show ?thesis
  proof cases
    case enter
    then show ?thesis using key ok by (auto simp: line_ok_def CONFIG_SYS_CBSIZE_def)
  next
    case break
    then show ?thesis using key ok by (auto simp: line_ok_def CONFIG_SYS_CBSIZE_def)
  next
    case word
    obtain p' n' col' s' where d: "delete_char buf (int (length prompt)) (p, n, col, s1) = (p', n', col', s')"
      by (cases "delete_char buf (int (length prompt)) (p, n, col, s1)") auto
    then show ?thesis
      using key word delete_word_ok [OF delete_char_ok [OF ok(1) d]] by auto
  next
    case del
    then show ?thesis using key delete_char_ok [OF ok(1) refl] by auto
  next
    case char
    show ?thesis
    proof (cases "n < CONFIG_SYS_CBSIZE - 2")
      case False
      then show ?thesis using key char ok by (auto simp: line_ok_def)
    next
      case room: True
      show ?thesis
      proof (cases "c = 0x09")
        case True
        have b: "line_ok buf0 (buf(p := 0), n, n, col, s1)" using ok by (auto simp: line_ok_def CONFIG_SYS_CBSIZE_def)
        obtain dn buf' n' col' s' where r: "cmd_auto_complete C tbl prompt (buf(p := 0), n, col, s1) = Some (dn, buf', n', col', s')"
          using key True room by (auto simp: bind_eq_Some_conv)
        have "line_ok buf0 (buf', n', n', col', s') \<and> (\<not> dn \<longrightarrow> buf' = buf(p := 0) \<and> n' = n)"
          using cmd_auto_complete_ok [OF b _ r] ok(2) by simp
        then show ?thesis
          using key True room r ok(2) by (cases dn) (auto simp: line_ok_def CONFIG_SYS_CBSIZE_def split: prod.splits)
      next
        case False
        then show ?thesis using key char room ok by (auto simp: line_ok_def CONFIG_SYS_CBSIZE_def)
      qed
    qed
  qed (use key ok in \<open>auto simp: line_ok_def erase_line_def\<close>)
qed

text \<open>
  C20: whatever is typed, deleted and completed, a line that is read leaves every byte behind the
  console buffer as it was, its length is at most 382, and the buffer holds a string that
  \<open>run_command\<close> accepts.
\<close>
theorem readline_in_bounds:
  assumes "readline_into_buffer C io tbl prompt buf s = Some (len, buf', s')"
  shows "(len = -1 \<or> 0 \<le> len \<and> len \<le> 382 \<and> buf' (nat len) = 0) \<and> (\<forall>i\<ge>384. buf' i = buf i) \<and>
    (\<exists>v. str_at buf' 0 = Some v \<and> length v < CONFIG_SYS_CBSIZE)"
proof -
  obtain st where r: "loopM (read_key C io tbl prompt) (buf, 0, 0, int (length prompt), printf ''%s'' [Str prompt] s) = Some (len, st)"
    "fst st = buf'"
    using assms by (auto simp: readline_into_buffer_def bind_eq_Some_conv)
  have "(len = -1 \<or> 0 \<le> len \<and> len \<le> int (CONFIG_SYS_CBSIZE - 2) \<and> fst st (nat len) = 0) \<and>
      (\<exists>q\<le>CONFIG_SYS_CBSIZE - 2. fst st q = 0) \<and> (\<forall>i\<ge>CONFIG_SYS_CBSIZE. fst st i = buf i)"
  proof (rule loopM_rule [OF r(1), of "line_ok buf"])
    show "line_ok buf (buf, 0, 0, int (length prompt), printf ''%s'' [Str prompt] s)" by (simp add: line_ok_def)
    show "line_ok buf st1" if "line_ok buf st0" "read_key C io tbl prompt st0 = Some (None, st1)" for st0 st1
      using that by (cases st0) (auto dest: read_key_ok)
    show "(v = -1 \<or> 0 \<le> v \<and> v \<le> int (CONFIG_SYS_CBSIZE - 2) \<and> fst st1 (nat v) = 0) \<and>
        (\<exists>q\<le>CONFIG_SYS_CBSIZE - 2. fst st1 q = 0) \<and> (\<forall>i\<ge>CONFIG_SYS_CBSIZE. fst st1 i = buf i)"
      if "line_ok buf st0" "read_key C io tbl prompt st0 = Some (Some v, st1)" for st0 v st1
      using that by (cases st0) (blast dest: read_key_ok)
  qed
  moreover from this obtain q where "q \<le> CONFIG_SYS_CBSIZE - 2" "buf' q = 0" using r(2) by blast
  moreover from this obtain v where "str_at buf' 0 = Some v" "length v \<le> q"
    using str_at_defined [of 0 q buf'] str_at_bound [of buf' 0 _ q] by auto
  ultimately show ?thesis using r(2) by (auto simp: CONFIG_SYS_CBSIZE_def)
qed

section \<open>A typed line\<close>

text \<open>A keyboard: \<open>keys s\<close> are the keys to come, and output leaves them alone.\<close>

definition keyboard :: "('d, 'z) emach_scheme shell_io \<Rightarrow> (('d, 'z) emach_scheme \<Rightarrow> u8 list) \<Rightarrow> bool" where
  "keyboard io keys \<longleftrightarrow>
     (\<forall>s c cs. keys s = c # cs \<longrightarrow> (\<exists>s'. io_getc io s = Some (c, s') \<and> keys s' = cs)) \<and>
     (\<forall>s f xs. keys (printf f xs s) = keys s)"

definition printable :: "u8 \<Rightarrow> bool" where "printable c \<longleftrightarrow> 0x20 \<le> c \<and> c < 0x7F"

lemma keyboard_printf: "keyboard io keys \<Longrightarrow> keys (printf f xs s) = keys s"
  by (simp add: keyboard_def)

lemma keyboard_key:
  assumes "keyboard io keys" and "keys s = c # cs"
  obtains s' where "io_getc io s = Some (c, s')" "keys s' = cs"
  using assms unfolding keyboard_def by blast

lemma printable_key: "printable c \<Longrightarrow> c \<notin> {0x0D, 0x0A, 0, 0x03, 0x15, 0x17, 0x08, 0x7F, 0x09}"
  by (auto simp: printable_def)

lemma read_key_typed:
  assumes "keyboard io keys" and "keys s = c # cs" and "printable c" and "n < CONFIG_SYS_CBSIZE - 2"
  shows "\<exists>s'. keys s' = cs \<and> read_key C io tbl prompt (buf, n, n, col, s) = Some (None, buf(n := c), n + 1, n + 1, col + 1, s')"
proof -
  obtain s1 where "io_getc io s = Some (c, s1)" "keys s1 = cs" using keyboard_key [OF assms(1,2)] .
  then show ?thesis
    using printable_key [OF assms(3)] assms(4)
    by (intro exI [of _ "putc c s1"]) (simp add: read_key_def putc_def keyboard_printf [OF assms(1)])
qed

lemma read_keys_typed:
  assumes "keyboard io keys"
  shows "keys s = cs @ 0x0D # ks \<Longrightarrow> \<forall>c\<in>set cs. printable c \<Longrightarrow> n + length cs \<le> CONFIG_SYS_CBSIZE - 2 \<Longrightarrow>
    \<exists>buf' p' n' col' s'. loopM (read_key C io tbl prompt) (buf, n, n, col, s) =
        Some (int (n + length cs), buf', p', n', col', s') \<and>
      (\<forall>i<n. buf' i = buf i) \<and> holds buf' n (cs @ [0]) \<and> keys s' = ks"
proof (induction cs arbitrary: n buf col s)
  case Nil
  have "keys s = 0x0D # ks" using Nil.prems(1) by simp
  then obtain s1 where "io_getc io s = Some (0x0D, s1)" "keys s1 = ks" using keyboard_key [OF assms] by blast
  then show ?case
    by (subst loopM_step(2)) (auto simp: read_key_def keyboard_printf [OF assms])
next
  case (Cons c cs)
  define b where "b = buf(n := c)"
  have "keys s = c # (cs @ 0x0D # ks)" "printable c" "n < CONFIG_SYS_CBSIZE - 2" using Cons.prems by simp_all
  from read_key_typed [OF assms this, of C tbl prompt buf col] obtain s1 where s1: "keys s1 = cs @ 0x0D # ks"
    "read_key C io tbl prompt (buf, n, n, col, s) = Some (None, b, n + 1, n + 1, col + 1, s1)" by (auto simp: b_def)
  obtain buf' p' n' col' s' where r: "loopM (read_key C io tbl prompt) (b, n + 1, n + 1, col + 1, s1) =
      Some (int (n + 1 + length cs), buf', p', n', col', s')"
    "\<forall>i<n + 1. buf' i = b i" "holds buf' (n + 1) (cs @ [0])" "keys s' = ks"
    using Cons.IH [OF s1(1), of "n + 1" b "col + 1"] Cons.prems(2,3) by auto
  have "buf' n = c" "\<forall>i<n. buf' i = buf i" using r(2) by (auto simp: b_def)
  then show ?case using r loopM_step(1) [of "read_key C io tbl prompt", OF s1(2)] by auto
qed

lemma readline_typed:
  assumes "keyboard io keys" and "keys s = cs @ 0x0D # ks" and "\<forall>c\<in>set cs. printable c" and "length cs \<le> CONFIG_SYS_CBSIZE - 2"
  shows "\<exists>buf' s'. readline_into_buffer C io tbl prompt buf s = Some (int (length cs), buf', s') \<and>
    holds buf' 0 (cs @ [0]) \<and> keys s' = ks"
  using read_keys_typed [OF assms(1), of "printf ''%s'' [Str prompt] s" cs ks 0 C tbl prompt buf "int (length prompt)"]
    assms(2-4) keyboard_printf [OF assms(1)]
  by (auto simp: readline_into_buffer_def)


section \<open>The properties at a concrete console\<close>

theorem readline_in_bounds_witness:
  "\<exists>len buf' s'. readline_into_buffer sample_cfg sample_shell sample_tbl CONFIG_SYS_PROMPT (\<lambda>_. 7) sample_env = Some (len, buf', s') \<and>
    len = 0 \<and> (\<forall>i\<ge>384. buf' i = 7)"
proof -
  let ?s = "printf ''%s'' [Str CONFIG_SYS_PROMPT] sample_env"
  have k: "read_key sample_cfg sample_shell sample_tbl CONFIG_SYS_PROMPT (\<lambda>_. 7, 0, 0, int (length CONFIG_SYS_PROMPT), ?s) =
      Some (Some 0, (\<lambda>_. 7)(0 := 0), 0, 0, int (length CONFIG_SYS_PROMPT), printf [CHR 0x0D, CHR 0x0A] [] ?s)"
    by (simp add: read_key_def sample_shell_def)
  have r: "readline_into_buffer sample_cfg sample_shell sample_tbl CONFIG_SYS_PROMPT (\<lambda>_. 7) sample_env =
      Some (0, (\<lambda>_. 7)(0 := 0), printf [CHR 0x0D, CHR 0x0A] [] ?s)"
    unfolding readline_into_buffer_def
    by (simp add: loopM_step(2) [of "read_key sample_cfg sample_shell sample_tbl CONFIG_SYS_PROMPT", OF k])
  with readline_in_bounds [OF r] show ?thesis by auto
qed

text \<open>A machine whose device is the list of keys to come.\<close>

definition typed_state :: "u8 list \<Rightarrow> u8 list emach" where
  "typed_state ks = \<lparr>mem = (\<lambda>_. 0), dev = ks, outp = [], mmc_erase_blocks = 0, mmc_protect_blk = 0, dev_total_blk = 0,
     env_ram = (\<lambda>_. 0), ptr_crc = 0, env_addr = Env_ram, env_valid = True, gd_reloc = True, env_offset = 0,
     env_id = 0, gd_baudrate = 0, load_addr = 0, bi_ip_addr = 0, bi_enetaddr = [], boot_file = []\<rparr>"

definition typed_shell :: "u8 list emach shell_io" where
  "typed_shell = \<lparr>console_assign = (\<lambda>_ _ s. (0, s)), serial_setbrg = (\<lambda>s. s), io_udelay = (\<lambda>_ s. Some s),
     io_getc = (\<lambda>s. case dev s of [] \<Rightarrow> None | c # cs \<Rightarrow> Some (c, s\<lparr>dev := cs\<rparr>)), ctrlc = (\<lambda>s. (False, s)),
     clear_ctrlc = (\<lambda>s. s), had_ctrlc = (\<lambda>_. False), tstc = (\<lambda>s. (False, s))\<rparr>"


end
