(* ===== verification/Flash.thy ===== *)
theory Flash
  imports Console
begin

text \<open>
  NOR flash banks: \<open>common/flash.c\<close> and the commands \<open>flinfo\<close>, \<open>erase\<close> and \<open>protect\<close> of
  \<open>common/cmd_flash.c\<close>. The bank table is part of the state; the chip driver (\<open>write_buff\<close>,
  \<open>flash_real_protect\<close>, \<open>flash_erase\<close>, \<open>flash_print_info\<close>) is an argument and takes the number of the bank.
\<close>

section \<open>The bank table\<close>

record flash_info =
  bank_size :: u32
  sector_count :: u16
  flash_id :: u32
  sect_start :: "u32 list"
  sect_protect :: "u8 list"

record 'd flmach = "'d emach" +
  flash_banks :: "flash_info list"

record 's flash_drv =
  write_buff :: "nat \<Rightarrow> u8 list \<Rightarrow> u32 \<Rightarrow> 's \<Rightarrow> u32 \<times> 's"
  flash_real_protect :: "nat \<Rightarrow> int \<Rightarrow> bool \<Rightarrow> 's \<Rightarrow> u32 \<times> 's"
  flash_erase :: "nat \<Rightarrow> int \<Rightarrow> int \<Rightarrow> 's \<Rightarrow> u32 \<times> 's"
  flash_print_info :: "nat \<Rightarrow> 's \<Rightarrow> 's"

definition FLASH_UNKNOWN :: u32 where "FLASH_UNKNOWN = 0xFFFF"
definition FLAG_PROTECT_SET :: u32 where "FLAG_PROTECT_SET = 0x01"
definition FLAG_PROTECT_CLEAR :: u32 where "FLAG_PROTECT_CLEAR = 0x02"
definition ERR_OK :: u32 where "ERR_OK = 0"
definition ERR_TIMOUT :: u32 where "ERR_TIMOUT = 1"
definition ERR_NOT_ERASED :: u32 where "ERR_NOT_ERASED = 2"
definition ERR_PROTECTED :: u32 where "ERR_PROTECTED = 4"
definition ERR_INVAL :: u32 where "ERR_INVAL = 8"
definition ERR_ALIGN :: u32 where "ERR_ALIGN = 16"
definition ERR_UNKNOWN_FLASH_VENDOR :: u32 where "ERR_UNKNOWN_FLASH_VENDOR = 32"
definition ERR_UNKNOWN_FLASH_TYPE :: u32 where "ERR_UNKNOWN_FLASH_TYPE = 64"
definition ERR_PROG_ERROR :: u32 where "ERR_PROG_ERROR = 128"

text \<open>The index of the last sector is kept in a \<open>short\<close>.\<close>

definition s_end :: "flash_info \<Rightarrow> int" where "s_end info = sint (sector_count info - 1)"

definition b_end :: "flash_info \<Rightarrow> u32" where "b_end info = sect_start info ! 0 + bank_size info - 1"

text \<open>The last address of a sector.\<close>

definition sect_end :: "flash_info \<Rightarrow> nat \<Rightarrow> u32" where
  "sect_end info i = (if int i = s_end info then b_end info else sect_start info ! (i + 1) - 1)"

section \<open>common/flash.c\<close>

definition flash_protect :: "('d, 'z) flmach_scheme flash_drv \<Rightarrow> u32 \<Rightarrow> u32 \<Rightarrow> u32 \<Rightarrow> nat \<Rightarrow> ('d, 'z) flmach_scheme \<Rightarrow>
    ('d, 'z) flmach_scheme" where
  "flash_protect F flag addr_first addr_last bank s =
     (let info = flash_banks s ! bank
      in if sector_count info = 0 \<or> bank_size info = 0 \<or> addr_last < addr_first then s
         else if flash_id info = FLASH_UNKNOWN \<or> addr_last < sect_start info ! 0 \<or> b_end info < addr_first then s
         else foldl (\<lambda>s i. if addr_first \<le> sect_end info i \<and> sect_start info ! i \<le> addr_last
             then if flag AND FLAG_PROTECT_CLEAR \<noteq> 0 then snd (flash_real_protect F bank (int i) False s)
                  else if flag AND FLAG_PROTECT_SET \<noteq> 0 then snd (flash_real_protect F bank (int i) True s)
                  else s
             else s) s [0..<unat (sector_count info)])"

definition in_bank :: "u32 \<Rightarrow> flash_info \<Rightarrow> bool" where
  "in_bank addr info \<longleftrightarrow> flash_id info \<noteq> FLASH_UNKNOWN \<and> sect_start info ! 0 \<le> addr \<and> addr \<le> b_end info"

text \<open>The number of the bank an address is in.\<close>

definition addr2info :: "u32 \<Rightarrow> ('d, 'z) flmach_scheme \<Rightarrow> nat option" where
  "addr2info addr s = find (\<lambda>b. in_bank addr (flash_banks s ! b)) [0..<length (flash_banks s)]"

text \<open>A protected sector of the bank meets the range from \<open>addr\<close> to \<open>addr_last\<close>.\<close>

definition sect_limit :: "flash_info \<Rightarrow> nat \<Rightarrow> u32" where
  "sect_limit info i = (if int i = s_end info then sect_start info ! 0 + bank_size info else sect_start info ! (i + 1))"

definition range_protected :: "u32 \<Rightarrow> u32 \<Rightarrow> flash_info \<Rightarrow> bool" where
  "range_protected addr addr_last info =
     list_ex (\<lambda>i. sect_start info ! i \<le> addr_last \<and> addr < sect_limit info i \<and> sect_protect info ! i \<noteq> 0)
       [0..<unat (sector_count info)]"

text \<open>The loop over the banks. \<open>None\<close> is a read behind the end of the source.\<close>

primrec flash_write_banks :: "('d, 'z) flmach_scheme flash_drv \<Rightarrow> nat list \<Rightarrow> u8 list \<Rightarrow> u32 \<Rightarrow> u32 \<Rightarrow>
    ('d, 'z) flmach_scheme \<Rightarrow> (u32 \<times> ('d, 'z) flmach_scheme) option" where
  "flash_write_banks F [] src addr cnt s = Some (ERR_OK, s)"
| "flash_write_banks F (b # bs) src addr cnt s =
     (if cnt = 0 then Some (ERR_OK, s)
      else let info = flash_banks s ! b;
               len = sect_start info ! 0 + bank_size info - addr;
               len = (if cnt < len then cnt else len)
        in if length src < unat len then None
           else case write_buff F b (take (unat len) src) addr s of
             (i, s) \<Rightarrow> if i \<noteq> 0 then Some (i, s)
               else flash_write_banks F bs (drop (unat len) src) (addr + len) (cnt - len) s)"

definition flash_write :: "('d, 'z) flmach_scheme flash_drv \<Rightarrow> u8 list \<Rightarrow> u32 \<Rightarrow> u32 \<Rightarrow> ('d, 'z) flmach_scheme \<Rightarrow>
    (u32 \<times> ('d, 'z) flmach_scheme) option" where
  "flash_write F src addr cnt s =
     (let last = addr + cnt - 1
      in if cnt = 0 then Some (ERR_OK, s)
         else case (addr2info addr s, addr2info last s) of
           (Some info_first, Some info_last) \<Rightarrow>
             let bs = [info_first..<info_last + 1]
             in if list_ex (\<lambda>b. range_protected addr last (flash_banks s ! b)) bs then Some (ERR_PROTECTED, s)
                else flash_write_banks F bs src addr cnt s
         | _ \<Rightarrow> Some (ERR_INVAL, s))"

definition flash_perror :: "u32 \<Rightarrow> ('d, 'z) mach_scheme \<Rightarrow> ('d, 'z) mach_scheme" where
  "flash_perror err s =
     (if err = ERR_OK then s
      else if err = ERR_TIMOUT then printf (line ''Timeout writing to Flash'') [] s
      else if err = ERR_NOT_ERASED then printf (line ''Flash not Erased'') [] s
      else if err = ERR_PROTECTED then printf (line (''Can'' @ [CHR 0x27] @ ''t write to protected Flash sectors'')) [] s
      else if err = ERR_INVAL then printf (line ''Outside available Flash'') [] s
      else if err = ERR_ALIGN then printf (line ''Start and/or end address not on sector boundary'') [] s
      else if err = ERR_UNKNOWN_FLASH_VENDOR then printf (line ''Unknown Vendor of Flash'') [] s
      else if err = ERR_UNKNOWN_FLASH_TYPE then printf (line ''Unknown Type of Flash'') [] s
      else if err = ERR_PROG_ERROR then printf (line ''General Flash Programming Error'') [] s
      else printf (line ''%s[%d] FIXME: rc=%d'') [Str (asc ''flash.c''), Num 221, Num err] s)"

section \<open>common/cmd_flash.c: ranges of sectors\<close>

text \<open>
  A specification \<open>B:SF-SL\<close>. The result is 0 when the word has no colon and -1 for a bad one; the
  bank and the first and the last sector follow.
\<close>

definition abbrev_spec :: "u8 list \<Rightarrow> ('d, 'z) flmach_scheme \<Rightarrow> int \<times> nat \<times> int \<times> int" where
  "abbrev_spec str s =
     (case dropWhile (\<lambda>c. c \<noteq> 0x3A) str of
        [] \<Rightarrow> (0, 0, 0, 0)
      | _ # p \<Rightarrow>
          let str = takeWhile (\<lambda>c. c \<noteq> 0x3A) str;
              (v, ep) = simple_strtoul str 10;
              bank = sint v
          in if ep = str \<or> ep \<noteq> [] \<or> bank < 1 \<or> int (length (flash_banks s)) < bank
                \<or> flash_id (flash_banks s ! nat (bank - 1)) = FLASH_UNKNOWN then (-1, 0, 0, 0)
             else let fp = flash_banks s ! nat (bank - 1);
                      str = takeWhile (\<lambda>c. c \<noteq> 0x2D) p;
                      (v, ep) = simple_strtoul str 10;
                      first = sint v
               in if ep = str \<or> ep \<noteq> [] \<or> uint (sector_count fp) \<le> first then (-1, 0, 0, 0)
                  else case dropWhile (\<lambda>c. c \<noteq> 0x2D) p of
                    [] \<Rightarrow> (1, nat (bank - 1), first, first)
                  | _ # p \<Rightarrow>
                      let (v, ep) = simple_strtoul p 10;
                          last = sint v
                      in if ep = p \<or> ep \<noteq> [] \<or> last < first \<or> uint (sector_count fp) \<le> last then (-1, 0, 0, 0)
                         else (1, nat (bank - 1), first, last))"

text \<open>The end of the sector with the address; 1 when it is in no sector.\<close>

definition sect_bound :: "flash_info \<Rightarrow> nat \<Rightarrow> u32" where
  "sect_bound info i =
     (if int i = uint (sector_count info) - 1 then b_end info else sect_start info ! (i + 1) - 1)"

definition flash_sect_roundb :: "u32 \<Rightarrow> ('d, 'z) flmach_scheme \<Rightarrow> u32 \<times> u32 \<times> ('d, 'z) flmach_scheme" where
  "flash_sect_roundb addr s =
     (case find (\<lambda>(info, i). addr \<le> sect_bound info i \<and> sect_start info ! i \<le> addr)
         (concat (map (\<lambda>info. map (Pair info) [0..<unat (sector_count info)]) (flash_banks s))) of
        Some (info, i) \<Rightarrow> (0, sect_bound info i, s)
      | None \<Rightarrow> (1, addr, printf (line ''Error: end address (0x%08lx) not in flash!'') [Num addr] s))"

text \<open>Two words \<open>start last\<close> or \<open>start +length\<close>: the range; \<open>None\<close> is the result -1.\<close>

definition addr_spec :: "u8 list \<Rightarrow> u8 list \<Rightarrow> ('d, 'z) flmach_scheme \<Rightarrow>
    (u32 \<times> u32) option \<times> ('d, 'z) flmach_scheme" where
  "addr_spec arg1 arg2 s =
     (case simple_strtoul arg1 16 of (addr_first, ep) \<Rightarrow>
        if ep = arg1 \<or> ep \<noteq> [] then (None, s)
        else let len_used = (peek arg2 0 = 0x2B);
                 arg2 = (if len_used then tl arg2 else arg2);
                 (addr_last, ep) = simple_strtoul arg2 16
             in if ep = arg2 \<or> ep \<noteq> [] then (None, s)
                else if len_used
                then (case flash_sect_roundb (addr_first + addr_last - 1) s of (r, addr_last, s) \<Rightarrow>
                  (if r \<noteq> 0 then None else Some (addr_first, addr_last), s))
                else (Some (addr_first, addr_last), s))"

text \<open>The loop over the sectors of a bank: the sectors the range starts and ends with, or -1.\<close>

definition sector_range :: "flash_info \<Rightarrow> u32 \<Rightarrow> u32 \<Rightarrow> int \<times> int" where
  "sector_range info addr_first addr_last =
     foldl (\<lambda>(sf, sl) i.
        if sect_end info i < addr_first \<or> addr_last < sect_start info ! i then (sf, sl)
        else (if addr_first = sect_start info ! i then int i else sf,
              if addr_last = sect_end info i then int i else sl))
       (-1, -1) [0..<unat (sector_count info)]"

text \<open>The return code, the first and last sector of every bank and the number of sectors.\<close>

primrec flash_fill_banks :: "flash_info list \<Rightarrow> u32 \<Rightarrow> u32 \<Rightarrow> ('d, 'z) mach_scheme \<Rightarrow>
    u32 \<times> (int \<times> int) list \<times> int \<times> ('d, 'z) mach_scheme" where
  "flash_fill_banks [] addr_first addr_last s = (0, [], 0, s)"
| "flash_fill_banks (info # infos) addr_first addr_last s =
     (let none = map (\<lambda>_. (-1, -1)) infos
      in if addr_last < addr_first then (0, (-1, -1) # none, 0, s)
         else if flash_id info = FLASH_UNKNOWN
         then (case flash_fill_banks infos addr_first addr_last s of (rcode, rs, n, s) \<Rightarrow> (rcode, (-1, -1) # rs, n, s))
         else case sector_range info addr_first addr_last of (sf, sl) \<Rightarrow>
           if 0 \<le> sf then
             if sl < 0 \<and> \<not> b_end info < addr_last
             then (1, (sf, sl) # none, 0, printf (line ''Error: end address not on sector boundary'') [] s)
             else let sl = (if sl < 0 then s_end info else sl)
               in if sl < sf
                  then (1, (sf, sl) # none, 0, printf (line ''Error: end sector precedes start sector'') [] s)
                  else let addr_first = (if sl = s_end info then b_end info + 1 else sect_start info ! nat (sl + 1))
                    in case flash_fill_banks infos addr_first addr_last s of (rcode, rs, n, s) \<Rightarrow>
                      (rcode, (sf, sl) # rs, sl - sf + 1 + n, s)
           else if sect_start info ! 0 \<le> addr_first \<and> addr_first < b_end info
           then (1, (sf, sl) # none, 0, printf (line ''Error: start address not on sector boundary'') [] s)
           else if 0 \<le> sl
           then (1, (sf, sl) # none, 0,
             printf (line ''Error: cannot span across banks when they are mapped in reverse order'') [] s)
           else (case flash_fill_banks infos addr_first addr_last s of (rcode, rs, n, s) \<Rightarrow>
             (rcode, (sf, sl) # rs, n, s)))"

definition flash_fill_sect_ranges :: "u32 \<Rightarrow> u32 \<Rightarrow> ('d, 'z) flmach_scheme \<Rightarrow>
    u32 \<times> (int \<times> int) list \<times> int \<times> ('d, 'z) flmach_scheme" where
  "flash_fill_sect_ranges addr_first addr_last s = flash_fill_banks (flash_banks s) addr_first addr_last s"

section \<open>The commands erase, protect and flinfo\<close>

primrec erase_banks :: "('d, 'z) flmach_scheme flash_drv \<Rightarrow> nat \<Rightarrow> (int \<times> int) list \<Rightarrow> ('d, 'z) flmach_scheme \<Rightarrow>
    u32 \<times> int \<times> ('d, 'z) flmach_scheme" where
  "erase_banks F bank [] s = (0, 0, s)"
| "erase_banks F bank (r # rs) s =
     (if fst r < 0 then erase_banks F (bank + 1) rs s
      else case flash_erase F bank (fst r) (snd r) s of (rcode, s) \<Rightarrow>
        let n = snd r - fst r + 1
        in if rcode \<noteq> 0 then (rcode, n, s)
           else case erase_banks F (bank + 1) rs s of (rcode, m, s) \<Rightarrow> (rcode, n + m, s))"

definition flash_sect_erase :: "('d, 'z) flmach_scheme flash_drv \<Rightarrow> u32 \<Rightarrow> u32 \<Rightarrow> ('d, 'z) flmach_scheme \<Rightarrow>
    u32 \<times> ('d, 'z) flmach_scheme" where
  "flash_sect_erase F addr_first addr_last s =
     (case flash_fill_sect_ranges addr_first addr_last s of (rcode, rs, planned, s) \<Rightarrow>
        if planned \<noteq> 0 \<and> rcode = 0
        then (case erase_banks F 0 rs s of (rcode, erased, s) \<Rightarrow>
          (rcode, printf (line ''Erased %d sectors'') [Num (word_of_int erased)] s))
        else if rcode = 0
        then (1, printf (line ''Error: start and/or end address not on sector boundary'') [] s)
        else (rcode, s))"

text \<open>Protect or unprotect sectors of a bank, with a dot each; 1 when the driver fails.\<close>

primrec protect_sects :: "('d, 'z) flmach_scheme flash_drv \<Rightarrow> bool \<Rightarrow> nat \<Rightarrow> int list \<Rightarrow> u32 \<times> ('d, 'z) flmach_scheme \<Rightarrow>
    u32 \<times> ('d, 'z) flmach_scheme" where
  "protect_sects F p bank [] st = st"
| "protect_sects F p bank (i # is) st =
     (case flash_real_protect F bank i p (snd st) of (r, s) \<Rightarrow>
        protect_sects F p bank is (if r \<noteq> 0 then 1 else fst st, putc 0x2E s))"

primrec protect_banks :: "('d, 'z) flmach_scheme flash_drv \<Rightarrow> bool \<Rightarrow> nat \<Rightarrow> (int \<times> int) list \<Rightarrow> u32 \<times> int \<times> ('d, 'z) flmach_scheme \<Rightarrow>
    u32 \<times> int \<times> ('d, 'z) flmach_scheme" where
  "protect_banks F p bank [] st = st"
| "protect_banks F p bank (r # rs) st =
     (case st of (rcode, n, s) \<Rightarrow>
        protect_banks F p (bank + 1) rs
          (if flash_id (flash_banks s ! bank) \<noteq> FLASH_UNKNOWN \<and> 0 \<le> fst r \<and> fst r \<le> snd r
           then (case protect_sects F p bank [fst r..snd r] (rcode, s) of (rcode, s) \<Rightarrow> (rcode, n + (snd r - fst r + 1), s))
           else (rcode, n, s)))"

definition un_text :: "bool \<Rightarrow> parg" where "un_text p = Str (if p then [] else asc ''Un-'')"

definition flash_sect_protect :: "('d, 'z) flmach_scheme flash_drv \<Rightarrow> bool \<Rightarrow> u32 \<Rightarrow> u32 \<Rightarrow> ('d, 'z) flmach_scheme \<Rightarrow>
    u32 \<times> ('d, 'z) flmach_scheme" where
  "flash_sect_protect F p addr_first addr_last s =
     (case flash_fill_sect_ranges addr_first addr_last s of (rcode, rs, planned, s) \<Rightarrow>
        if planned \<noteq> 0 \<and> rcode = 0
        then (case protect_banks F p 0 rs (0, 0, s) of (rcode, n, s) \<Rightarrow>
          (rcode, printf (line ''%sProtected %d sectors'') [un_text p, Num (word_of_int n)]
            (printf (line '' done'') [] s)))
        else if rcode = 0
        then (1, printf (line ''Error: start and/or end address not on sector boundary'') [] s)
        else (rcode, s))"

definition only_banks :: "('d, 'z) flmach_scheme \<Rightarrow> ('d, 'z) flmach_scheme" where
  "only_banks s = printf (line ''Only FLASH Banks # 1 ... # %d supported'') [Num (of_nat (length (flash_banks s)))] s"

definition do_flinfo :: "('d, 'z) flmach_scheme flash_drv \<Rightarrow> u8 list list \<Rightarrow> ('d, 'z) flmach_scheme \<Rightarrow>
    u32 \<times> ('d, 'z) flmach_scheme" where
  "do_flinfo F argv s =
     (let info = (\<lambda>bank s. flash_print_info F bank (printf (CHR 0x0A # ''Bank # %ld: '') [Num (of_nat (bank + 1))] s))
      in if length argv = 1 then (0, foldl (\<lambda>s bank. info bank s) s [0..<length (flash_banks s)])
         else let bank = fst (simple_strtoul (argv ! 1) 16)
           in if bank < 1 \<or> length (flash_banks s) < unat bank then (1, only_banks s)
              else (0, info (unat bank - 1) s))"

definition erase_bank :: "('d, 'z) flmach_scheme flash_drv \<Rightarrow> nat \<Rightarrow> ('d, 'z) flmach_scheme \<Rightarrow> u32 \<times> ('d, 'z) flmach_scheme" where
  "erase_bank F bank s =
     flash_erase F bank 0 (uint (sector_count (flash_banks s ! bank)) - 1)
       (printf ''Erase Flash Bank # %ld '' [Num (of_nat (bank + 1))] s)"

definition do_flerase :: "('d, 'z) flmach_scheme flash_drv \<Rightarrow> (('d, 'z) flmach_scheme \<Rightarrow> ('d, 'z) flmach_scheme) \<Rightarrow> u8 list list \<Rightarrow>
    ('d, 'z) flmach_scheme \<Rightarrow> u32 \<times> ('d, 'z) flmach_scheme" where
  "do_flerase F usage argv s =
     (if length argv < 2 then (1, usage s)
      else if argv ! 1 = asc ''all''
      then foldl (\<lambda>(rcode, s) bank. erase_bank F bank s) (0, s) [0..<length (flash_banks s)]
      else case abbrev_spec (argv ! 1) s of (n, bank, sect_first, sect_last) \<Rightarrow>
        if n < 0 then (1, printf (line ''Bad sector specification'') [] s)
        else if n \<noteq> 0
        then flash_erase F bank sect_first sect_last (printf ''Erase Flash Sectors %d-%d in Bank # %zu ''
          [Num (word_of_int sect_first), Num (word_of_int sect_last), Num (of_nat (bank + 1))] s)
        else if length argv \<noteq> 3 then (1, usage s)
        else if argv ! 1 = asc ''bank''
        then let bank = fst (simple_strtoul (argv ! 2) 16)
          in if bank < 1 \<or> length (flash_banks s) < unat bank then (1, only_banks s)
             else erase_bank F (unat bank - 1) s
        else case addr_spec (argv ! 1) (argv ! 2) s of
          (None, s) \<Rightarrow> (1, printf (line ''Bad address format'') [] s)
        | (Some (addr_first, addr_last), s) \<Rightarrow>
            if addr_last \<le> addr_first then (1, usage s) else flash_sect_erase F addr_first addr_last s)"

text \<open>All sectors of a bank, with the message when nothing failed so far.\<close>

definition protect_list :: "('d, 'z) flmach_scheme flash_drv \<Rightarrow> bool \<Rightarrow> nat \<Rightarrow> int list \<Rightarrow> u32 \<times> ('d, 'z) flmach_scheme \<Rightarrow>
    u32 \<times> ('d, 'z) flmach_scheme" where
  "protect_list F p bank is st =
     (case protect_sects F p bank is st of (rcode, s) \<Rightarrow> (rcode, if rcode = 0 then printf (line '' done'') [] s else s))"

definition protect_bank :: "('d, 'z) flmach_scheme flash_drv \<Rightarrow> bool \<Rightarrow> nat \<Rightarrow> u32 \<times> ('d, 'z) flmach_scheme \<Rightarrow>
    u32 \<times> ('d, 'z) flmach_scheme" where
  "protect_bank F p bank st =
     protect_list F p bank [0..uint (sector_count (flash_banks (snd st) ! bank)) - 1] st"

definition bank_message :: "bool \<Rightarrow> nat \<Rightarrow> ('d, 'z) flmach_scheme \<Rightarrow> ('d, 'z) flmach_scheme" where
  "bank_message p bank s = printf (line ''%sProtect Flash Bank # %ld'') [un_text p, Num (of_nat (bank + 1))] s"

definition protect_all :: "('d, 'z) flmach_scheme flash_drv \<Rightarrow> bool \<Rightarrow> ('d, 'z) flmach_scheme \<Rightarrow> u32 \<times> ('d, 'z) flmach_scheme" where
  "protect_all F p s =
     foldl (\<lambda>(rcode, s) bank.
        if flash_id (flash_banks s ! bank) = FLASH_UNKNOWN then (rcode, s)
        else protect_bank F p bank (rcode, bank_message p bank s))
       (0, s) [0..<length (flash_banks s)]"

definition do_protect :: "('d, 'z) flmach_scheme flash_drv \<Rightarrow> (('d, 'z) flmach_scheme \<Rightarrow> ('d, 'z) flmach_scheme) \<Rightarrow> u8 list list \<Rightarrow>
    ('d, 'z) flmach_scheme \<Rightarrow> u32 \<times> ('d, 'z) flmach_scheme" where
  "do_protect F usage argv s =
     (if length argv < 3 \<or> argv ! 1 \<notin> {asc ''off'', asc ''on''} then (1, usage s)
      else let p = (argv ! 1 = asc ''on'')
        in if argv ! 2 = asc ''all'' then protect_all F p s
           else case abbrev_spec (argv ! 2) s of (n, bank, sect_first, sect_last) \<Rightarrow>
             if n < 0 then (1, printf (line ''Bad sector specification'') [] s)
             else if n \<noteq> 0
             then protect_list F p bank [sect_first..sect_last]
               (0, printf (line ''%sProtect Flash Sectors %d-%d in Bank # %zu'')
                 [un_text p, Num (word_of_int sect_first), Num (word_of_int sect_last), Num (of_nat (bank + 1))] s)
             else if length argv \<noteq> 4 then (1, usage s)
             else if argv ! 2 = asc ''bank''
             then let bank = fst (simple_strtoul (argv ! 3) 16)
               in if bank < 1 \<or> length (flash_banks s) < unat bank then (1, only_banks s)
                  else let s = bank_message p (unat bank - 1) s
                    in if flash_id (flash_banks s ! (unat bank - 1)) = FLASH_UNKNOWN
                       then (1, printf (line ''missing or unknown FLASH type'') [] s)
                       else protect_bank F p (unat bank - 1) (0, s)
             else case addr_spec (argv ! 2) (argv ! 3) s of
               (None, s) \<Rightarrow> (1, printf (line ''Bad address format'') [] s)
             | (Some (addr_first, addr_last), s) \<Rightarrow>
                 if addr_last \<le> addr_first then (1, usage s) else flash_sect_protect F p addr_first addr_last s)"

section \<open>Sectors of a bank\<close>

definition sectors :: "flash_info \<Rightarrow> nat" where "sectors info = unat (sector_count info)"

text \<open>The table of a bank that was found: its sectors are in ascending order and fill it.\<close>

definition bank_ok :: "flash_info \<Rightarrow> bool" where
  "bank_ok info \<longleftrightarrow>
     flash_id info \<noteq> FLASH_UNKNOWN \<and> sector_count info \<noteq> 0 \<and> sector_count info \<le> 512 \<and>
     sectors info \<le> length (sect_start info) \<and>
     sorted_wrt (<) (take (sectors info) (sect_start info)) \<and>
     sect_start info ! (sectors info - 1) \<le> b_end info"



lemma bank_sectors:
  assumes "bank_ok info"
  shows "0 < sectors info" and "sectors info \<le> 512" and "int i = s_end info \<longleftrightarrow> i + 1 = sectors info"
    and "0 \<le> s_end info" and "nat (s_end info) = sectors info - 1"
proof -
  show 1: "0 < sectors info" using assms by (simp add: bank_ok_def sectors_def unat_gt_0)
  show 2: "sectors info \<le> 512" using assms by (auto simp: bank_ok_def sectors_def word_le_nat_alt)
  have "unat (sector_count info - 1) = sectors info - 1"
    using assms unat_minus_one [of "sector_count info"] by (simp add: bank_ok_def sectors_def)
  then have u: "uint (sector_count info - 1) = int (sectors info - 1)" by (metis of_nat_unat)
  have "s_end info = signed_take_bit 15 (int (sectors info - 1))"
    unfolding s_end_def sint_uint u by simp
  then have s: "s_end info = int (sectors info - 1)"
    using 2 by (simp add: signed_take_bit_int_eq_self)
  show "int i = s_end info \<longleftrightarrow> i + 1 = sectors info" "0 \<le> s_end info" "nat (s_end info) = sectors info - 1"
    unfolding s using 1 by auto
qed

lemma start_less: "bank_ok info \<Longrightarrow> i < j \<Longrightarrow> j < sectors info \<Longrightarrow> sect_start info ! i < sect_start info ! j"
  by (auto simp: bank_ok_def sorted_wrt_iff_nth_less)

lemma start_le: "bank_ok info \<Longrightarrow> i \<le> j \<Longrightarrow> j < sectors info \<Longrightarrow> sect_start info ! i \<le> sect_start info ! j"
  using start_less [of info i j] by (cases "i = j") auto

lemma start_inj:
  "bank_ok info \<Longrightarrow> i < sectors info \<Longrightarrow> j < sectors info \<Longrightarrow> sect_start info ! i = sect_start info ! j \<longleftrightarrow> i = j"
  using start_less [of info i j] start_less [of info j i] by (cases i j rule: linorder_cases) auto

lemma sect_end_last: "bank_ok info \<Longrightarrow> sect_end info (sectors info - 1) = b_end info"
  using bank_sectors(1) [of info] bank_sectors(3) [of info "sectors info - 1"] by (simp add: sect_end_def)

lemma sect_end_inner: "bank_ok info \<Longrightarrow> i + 1 < sectors info \<Longrightarrow> sect_end info i = sect_start info ! (i + 1) - 1"
  using bank_sectors [of info] by (simp add: sect_end_def)

lemma word_le_pred: "(y :: u32) \<noteq> 0 \<Longrightarrow> x \<le> y - 1 \<longleftrightarrow> x < y"
  using unat_gt_0 [of y] by (auto simp: word_le_nat_alt word_less_nat_alt unat_minus_one)

lemma word_pred_less:
  assumes "(x :: u32) < y"
  shows "y - 1 < y" and "x \<le> y - 1"
proof -
  have "y \<noteq> 0" using assms by auto
  then show "x \<le> y - 1" "y - 1 < y" using assms word_le_pred [of y x] word_le_pred [of y "y - 1"] by simp_all
qed

lemma sect_end_bounds:
  assumes "bank_ok info" and "i < sectors info"
  shows "sect_start info ! i \<le> sect_end info i" and "j < sectors info \<Longrightarrow> i < j \<Longrightarrow> sect_end info i < sect_start info ! j"
    and "sect_end info i \<le> b_end info"
proof -
  have *: "sect_start info ! i \<le> sect_end info i \<and> (\<forall>j. j < sectors info \<longrightarrow> i < j \<longrightarrow> sect_end info i < sect_start info ! j) \<and>
      sect_end info i \<le> b_end info"
  proof (cases "i + 1 = sectors info")
    case True
    then have "i = sectors info - 1" by simp
    then show ?thesis using assms sect_end_last [OF assms(1)] by (auto simp: bank_ok_def)
  next
    case False
    then have lt: "i + 1 < sectors info" using assms(2) by simp
    note p = word_pred_less [OF start_less [OF assms(1) _ lt, of i, simplified]]
    have "sect_start info ! (i + 1) \<le> sect_start info ! (sectors info - 1)"
      using lt by (intro start_le [OF assms(1)]) auto
    then have "sect_start info ! (i + 1) - 1 \<le> b_end info" using p(1) assms(1) by (fastforce simp: bank_ok_def)
    moreover have "sect_start info ! (i + 1) - 1 < sect_start info ! j" if "j < sectors info" "i < j" for j
      using order.strict_trans2 [OF p(1) start_le [OF assms(1), of "Suc i" j]] that by simp
    ultimately show ?thesis using p(2) by (simp add: sect_end_inner [OF assms(1) lt])
  qed
  then show "sect_start info ! i \<le> sect_end info i" "sect_end info i \<le> b_end info" by auto
  show "j < sectors info \<Longrightarrow> i < j \<Longrightarrow> sect_end info i < sect_start info ! j" using * by auto
qed

lemma sect_end_inj:
  assumes "bank_ok info" and "i < sectors info" and "j < sectors info"
  shows "sect_end info i = sect_end info j \<longleftrightarrow> i = j"
  using sect_end_bounds [OF assms(1,2)] sect_end_bounds [OF assms(1,3)] assms
  by (cases i j rule: linorder_cases) (fastforce dest: order.strict_trans1 [rotated] leD)+

section \<open>Ranges of sectors\<close>

text \<open>The last index below \<open>n\<close> with the property, or -1.\<close>

primrec last_index :: "(nat \<Rightarrow> bool) \<Rightarrow> nat \<Rightarrow> int" where
  "last_index P 0 = -1"
| "last_index P (Suc n) = (if P n then int n else last_index P n)"

lemma last_index_cases:
  "last_index P n = -1 \<and> (\<forall>i<n. \<not> P i) \<or> (\<exists>i<n. P i \<and> last_index P n = int i)"
  by (induction n) (auto simp: less_Suc_eq)

lemma sector_range_index:
  "sector_range info a b =
     (last_index (\<lambda>i. a \<le> sect_end info i \<and> sect_start info ! i \<le> b \<and> a = sect_start info ! i) (sectors info),
      last_index (\<lambda>i. a \<le> sect_end info i \<and> sect_start info ! i \<le> b \<and> b = sect_end info i) (sectors info))"
proof -
  have "foldl (\<lambda>(sf, sl) i.
        if sect_end info i < a \<or> b < sect_start info ! i then (sf, sl)
        else (if a = sect_start info ! i then int i else sf, if b = sect_end info i then int i else sl))
       (-1, -1) [0..<n] =
     (last_index (\<lambda>i. a \<le> sect_end info i \<and> sect_start info ! i \<le> b \<and> a = sect_start info ! i) n,
      last_index (\<lambda>i. a \<le> sect_end info i \<and> sect_start info ! i \<le> b \<and> b = sect_end info i) n)" for n
    by (induction n) (auto simp: not_less not_le)
  then show ?thesis by (simp only: sector_range_def sectors_def)
qed

lemma sector_range_first:
  assumes ok: "bank_ok info" and "a \<le> b"
  shows "fst (sector_range info a b) = -1 \<and> a \<notin> (!) (sect_start info) ` {..<sectors info} \<or>
    (\<exists>i < sectors info. a = sect_start info ! i \<and> fst (sector_range info a b) = int i)"
  using last_index_cases [of "\<lambda>i. a \<le> sect_end info i \<and> sect_start info ! i \<le> b \<and> a = sect_start info ! i" "sectors info"]
    sect_end_bounds(1) [OF ok] assms(2)
  by (auto simp: sector_range_index)

lemma sector_range_last:
  assumes ok: "bank_ok info" and "a \<le> b"
  shows "snd (sector_range info a b) = -1 \<and> b \<notin> sect_end info ` {..<sectors info} \<or>
    (\<exists>j < sectors info. b = sect_end info j \<and> snd (sector_range info a b) = int j)"
  using last_index_cases [of "\<lambda>i. a \<le> sect_end info i \<and> sect_start info ! i \<le> b \<and> b = sect_end info i" "sectors info"]
    sect_end_bounds(1) [OF ok] assms(2)
  by (auto simp: sector_range_index)

text \<open>
  On a board with one bank, a range of addresses is turned into sectors exactly when it
  starts at the start of a sector and ends at the end of one, or behind the bank; the sectors are
  then those of the range, and their number is right.
\<close>
theorem sect_ranges_exact:
  assumes ok: "bank_ok info" and "flash_banks s = [info]"
  shows "(\<exists>s'. flash_fill_sect_ranges a b s = (0, rs, k, s') \<and> k \<noteq> 0) \<longleftrightarrow>
    a \<le> b \<and> (\<exists>i j. i \<le> j \<and> j < sectors info \<and> a = sect_start info ! i \<and>
      (b = sect_end info j \<or> j = sectors info - 1 \<and> b_end info < b) \<and> rs = [(int i, int j)] \<and> k = int j - int i + 1)"
proof (cases "a \<le> b")
  case False
  then show ?thesis using assms(2) by (auto simp: flash_fill_sect_ranges_def not_le)
next
  case ab: True
  obtain sf sl where r: "sector_range info a b = (sf, sl)" by (cases "sector_range info a b")
  have id: "flash_id info \<noteq> FLASH_UNKNOWN" using ok by (simp add: bank_ok_def)
  show ?thesis
  proof (cases "a \<in> (!) (sect_start info) ` {..<sectors info}")
    case False
    then have "sf = -1" using sector_range_first [OF ok ab] r by auto
    then show ?thesis
      using False ab assms(2) id r by (auto simp: flash_fill_sect_ranges_def)
  next
    case True
    then obtain i where i: "i < sectors info" "a = sect_start info ! i" "sf = int i"
      using sector_range_first [OF ok ab] r by auto
    show ?thesis
    proof (cases "b \<in> sect_end info ` {..<sectors info}")
      case True
      then obtain j where j: "j < sectors info" "b = sect_end info j" "sl = int j"
        using sector_range_last [OF ok ab] r by auto
      have "i \<le> j" using sect_end_bounds(2) [OF ok j(1) i(1)] ab i(2) j(2) by (meson leD leI)
      moreover have "b \<le> b_end info" using sect_end_bounds(3) [OF ok j(1)] j(2) by simp
      moreover have v: "flash_fill_sect_ranges a b s = (0, [(int i, int j)], int j - int i + 1, s)"
        using assms(2) id r i j ab \<open>i \<le> j\<close> by (simp add: flash_fill_sect_ranges_def Let_def)
      moreover have u: "i' = i \<and> j' = j" if "i' \<le> j'" "j' < sectors info" "a = sect_start info ! i'"
          "b = sect_end info j' \<or> j' = sectors info - 1 \<and> b_end info < b" for i' j'
        using that \<open>b \<le> b_end info\<close> start_inj [OF ok i(1), of i'] sect_end_inj [OF ok j(1), of j'] i(2) j(2)
        by (auto simp: leD)
      show ?thesis
      proof
        assume "\<exists>s'. flash_fill_sect_ranges a b s = (0, rs, k, s') \<and> k \<noteq> 0"
        then have "rs = [(int i, int j)]" "k = int j - int i + 1" using v by auto
        then show "a \<le> b \<and> (\<exists>i j. i \<le> j \<and> j < sectors info \<and> a = sect_start info ! i \<and>
            (b = sect_end info j \<or> j = sectors info - 1 \<and> b_end info < b) \<and> rs = [(int i, int j)] \<and> k = int j - int i + 1)"
          using ab \<open>i \<le> j\<close> i(2) j(1,2) by blast
      next
        assume "a \<le> b \<and> (\<exists>i j. i \<le> j \<and> j < sectors info \<and> a = sect_start info ! i \<and>
            (b = sect_end info j \<or> j = sectors info - 1 \<and> b_end info < b) \<and> rs = [(int i, int j)] \<and> k = int j - int i + 1)"
        then obtain i' j' where *: "i' \<le> j'" "j' < sectors info" "a = sect_start info ! i'"
          "b = sect_end info j' \<or> j' = sectors info - 1 \<and> b_end info < b" "rs = [(int i', int j')]" "k = int j' - int i' + 1"
          by blast
        have "i' = i" "j' = j" using u [OF *(1-4)] by simp_all
        then show "\<exists>s'. flash_fill_sect_ranges a b s = (0, rs, k, s') \<and> k \<noteq> 0"
          using v *(5,6) \<open>i \<le> j\<close> by simp
      qed
    next
      case False
      then have l: "sl = -1" "\<forall>j < sectors info. b \<noteq> sect_end info j"
        using sector_range_last [OF ok ab] r by auto
      have last: "int (sectors info - 1) = s_end info" "0 < sectors info" using bank_sectors [OF ok] by auto
      have v: "flash_fill_sect_ranges a b s =
          (if b_end info < b then (0, [(int i, s_end info)], s_end info - int i + 1, s)
           else (1, [(int i, -1)], 0, printf (line ''Error: end address not on sector boundary'') [] s))"
        using assms(2) id r i l ab last by (auto simp: flash_fill_sect_ranges_def Let_def)
      have "i' = i" if "a = sect_start info ! i'" "i' \<le> j'" "j' < sectors info" for i' j'
        using that start_inj [OF ok i(1), of i'] i(2) by simp
      then show ?thesis
        using v last l(2) i ab by (auto simp flip: last(1)) (rule exI [of _ "sectors info - 1"], auto)
    qed
  qed
qed

section \<open>Writing\<close>

lemma range_protected_iff:
  assumes ok: "bank_ok info" and top: "b_end info \<noteq> -1"
  shows "range_protected addr addr_last info \<longleftrightarrow>
    (\<exists>i < sectors info. sect_start info ! i \<le> addr_last \<and> addr \<le> sect_end info i \<and> sect_protect info ! i \<noteq> 0)"
proof -
  have "addr < sect_limit info i \<longleftrightarrow> addr \<le> sect_end info i" if "i < sectors info" for i
  proof -
    have "sect_end info i = sect_limit info i - 1" by (simp add: sect_limit_def sect_end_def b_end_def)
    moreover have "sect_limit info i \<noteq> 0"
    proof (cases "i + 1 = sectors info")
      case True
      then show ?thesis using top bank_sectors(3) [OF ok, of i] by (auto simp: sect_limit_def b_end_def)
    next
      case False
      then have "sect_start info ! i < sect_start info ! (i + 1)" using start_less [OF ok, of i "i + 1"] that by simp
      then show ?thesis using False bank_sectors(3) [OF ok, of i] by (auto simp: sect_limit_def)
    qed
    ultimately show ?thesis by (simp add: word_le_pred)
  qed
  then show ?thesis by (auto simp: range_protected_def list_ex_iff sectors_def)
qed

lemma range_length:
  assumes "(addr :: u32) \<le> addr + cnt - 1" and "addr + cnt - 1 \<le> e" and "e \<noteq> -1" and "cnt \<noteq> 0"
  shows "cnt \<le> e + 1 - addr"
proof -
  have "e + 1 \<noteq> 0" using assms(3) by (metis add_eq_0_iff2)
  then have "unat (e + 1) = unat e + 1" by (simp add: unatSuc add.commute)
  moreover have "unat (cnt - 1) = unat (addr + cnt - 1) - unat addr"
    using unat_sub [OF assms(1)] by (simp add: algebra_simps)
  moreover have "unat (cnt - 1) = unat cnt - 1" using assms(4) by (rule unat_minus_one)
  moreover have "unat addr \<le> unat (addr + cnt - 1)" "unat (addr + cnt - 1) \<le> unat e"
    using assms(1,2) by (simp_all add: word_le_nat_alt)
  moreover from calculation have "unat (e + 1 - addr) = unat (e + 1) - unat addr"
    by (intro unat_sub) (simp add: word_le_nat_alt)
  ultimately show ?thesis unfolding word_le_nat_alt by linarith
qed

text \<open>Writing a range that does not wrap around, with one bank.\<close>

lemma flash_write_one_bank:
  assumes ok: "bank_ok info" "b_end info \<noteq> -1" and bank: "flash_banks s = [info]" and nowrap: "addr \<le> addr + cnt - 1"
    and src: "unat cnt \<le> length src"
  shows "flash_write F src addr cnt s = Some
    (if cnt = 0 then (ERR_OK, s)
     else if addr < sect_start info ! 0 \<or> b_end info < addr + cnt - 1 then (ERR_INVAL, s)
     else if \<exists>i < sectors info. sect_start info ! i \<le> addr + cnt - 1 \<and> addr \<le> sect_end info i \<and> sect_protect info ! i \<noteq> 0
     then (ERR_PROTECTED, s)
     else write_buff F 0 (take (unat cnt) src) addr s)"
proof (cases "cnt = 0 \<or> addr < sect_start info ! 0 \<or> b_end info < addr + cnt - 1")
  case True
  then show ?thesis using nowrap ok(1) bank
    by (auto simp: flash_write_def addr2info_def in_bank_def bank_ok_def Let_def split: option.splits)
next
  case False
  then have "in_bank addr info" "in_bank (addr + cnt - 1) info"
    using ok(1) nowrap by (auto simp: in_bank_def bank_ok_def)
  then have i: "addr2info addr s = Some 0" "addr2info (addr + cnt - 1) s = Some 0" by (simp_all add: addr2info_def bank)
  have len: "cnt \<le> sect_start info ! 0 + bank_size info - addr"
    using range_length [of addr cnt "b_end info"] nowrap ok(2) False by (simp add: b_end_def not_less)
  show ?thesis
    using False src len
    by (auto simp: flash_write_def i bank Let_def range_protected_iff [OF ok] ERR_OK_def split: prod.split)
qed

text \<open>
  C38: writing to a board with one bank that does not end at the end of the address space (where
  \<open>flash_write_top\<close> shows the protection fail) and a range that does not wrap around: an address
  outside the bank and a range with a protected sector are refused and the chip is left alone,
  otherwise the driver is asked for exactly the bytes of the range.
\<close>
theorem flash_write_checked:
  assumes ok: "bank_ok info" "b_end info \<noteq> -1" and bank: "flash_banks s = [info]" and nowrap: "addr \<le> addr + cnt - 1"
    and src: "unat cnt \<le> length src"
  shows "flash_write F src addr cnt s = Some
    (if cnt = 0 then (ERR_OK, s)
     else if addr < sect_start info ! 0 \<or> b_end info < addr + cnt - 1 then (ERR_INVAL, s)
     else if \<exists>i < sectors info. sect_start info ! i \<le> addr + cnt - 1 \<and> addr \<le> sect_end info i \<and> sect_protect info ! i \<noteq> 0
     then (ERR_PROTECTED, s)
     else write_buff F 0 (take (unat cnt) src) addr s)"
  by (rule flash_write_one_bank [OF assms])

text \<open>
  When the bank ends at the end of the address space, the end of the last sector is computed
  as 0: a write into this sector is passed on to the driver whatever its protection.
\<close>
theorem flash_write_top:
  assumes ok: "bank_ok info" "b_end info = -1" and bank: "flash_banks s = [info]" and nowrap: "addr \<le> addr + cnt - 1"
    and src: "unat cnt \<le> length src" and "cnt \<noteq> 0" and a: "sect_start info ! (sectors info - 1) \<le> addr" "addr \<noteq> 0"
  shows "flash_write F src addr cnt s = Some (write_buff F 0 (take (unat cnt) src) addr s)"
proof -
  have "sect_start info ! 0 \<le> addr" using a(1) start_le [OF ok(1), of 0 "sectors info - 1"] bank_sectors(1) [OF ok(1)] by simp
  then have "in_bank addr info" "in_bank (addr + cnt - 1) info"
    using ok nowrap by (auto simp: in_bank_def bank_ok_def)
  then have i: "addr2info addr s = Some 0" "addr2info (addr + cnt - 1) s = Some 0" by (simp_all add: addr2info_def bank)
  have "\<not> addr < sect_limit info i" if "i < sectors info" for i
  proof (cases "i + 1 = sectors info")
    case True
    then show ?thesis using bank_sectors(3) [OF ok(1), of i] ok(2) by (simp add: sect_limit_def b_end_def)
  next
    case False
    then have "sect_start info ! (i + 1) \<le> addr"
      using order.trans [OF start_le [OF ok(1), of "i + 1" "sectors info - 1"] a(1)] that by simp
    then show ?thesis using False bank_sectors(3) [OF ok(1), of i] by (simp add: sect_limit_def)
  qed
  then have "\<not> range_protected addr (addr + cnt - 1) info" by (auto simp: range_protected_def list_ex_iff sectors_def)
  moreover have "sect_start info ! 0 + bank_size info = 0" using ok(2) by (simp add: b_end_def)
  moreover have "cnt = - addr" if "\<not> cnt < - addr"
  proof -
    have "cnt - 1 \<le> - addr - 1"
    proof -
      have "unat (addr + cnt - 1 - addr) \<le> unat (-1 - addr)"
        using unat_sub [OF nowrap] unat_sub [of addr "-1"] word_n1_ge [of "addr + cnt - 1"] word_n1_ge [of addr]
        by (simp only: word_le_nat_alt diff_le_mono)
      moreover have "addr + cnt - 1 - addr = cnt - 1" "-1 - addr = - addr - 1" by simp_all
      ultimately show ?thesis by (metis word_le_nat_alt)
    qed
    then show "cnt = - addr"
      using that word_le_pred [of "- addr" "cnt - 1"] word_le_pred [OF \<open>cnt \<noteq> 0\<close>, of "- addr"] a(2) by fastforce
  qed
  ultimately have e: "\<not> range_protected addr (addr + cnt - 1) info" "sect_start info ! 0 + bank_size info = 0"
    "cnt < - addr \<or> cnt = - addr" by blast+
  show ?thesis
    using src \<open>cnt \<noteq> 0\<close> e(3)
    by (cases "write_buff F 0 (take (unat cnt) src) addr s") (auto simp: flash_write_def i bank Let_def ERR_OK_def e(1,2))
qed

lemma abbrev_negative:
  assumes "bank_ok info" and "flash_banks s = [info]"
  shows "abbrev_spec (asc ''1:4294967295'') s = (1, 0, -1, -1)"
proof -
  have "simple_strtoul [0x31] 10 = (1, [])" by code_simp
  moreover have "simple_strtoul [0x34,0x32,0x39,0x34,0x39,0x36,0x37,0x32,0x39,0x35] 10 = (-1, [])" by code_simp
  moreover have "asc ''1:4294967295'' = [0x31, 0x3A, 0x34,0x32,0x39,0x34,0x39,0x36,0x37,0x32,0x39,0x35]" by (simp add: asc_def)
  moreover have "\<not> uint (sector_count info) \<le> -1" using uint_ge_0 [of "sector_count info"] by linarith
  ultimately show ?thesis using assms by (simp add: abbrev_spec_def bank_ok_def Let_def)
qed

section \<open>The properties at a concrete bank\<close>

text \<open>Two sectors of 128 KB of which the first or the last is protected; the chip is the list of its writes.\<close>

definition sample_bank :: "u32 \<Rightarrow> u8 list \<Rightarrow> flash_info" where
  "sample_bank a prot = \<lparr>bank_size = 0x40000, sector_count = 2, flash_id = 0x89, sect_start = [a, a + 0x20000], sect_protect = prot\<rparr>"

definition bank_state :: "flash_info \<Rightarrow> (u32 \<times> u8 list) list flmach" where
  "bank_state info = \<lparr>mem = (\<lambda>_. 0), dev = [], outp = [], mmc_erase_blocks = 0, mmc_protect_blk = 0, dev_total_blk = 0,
     env_ram = (\<lambda>_. 0), ptr_crc = 0, env_addr = Env_ram, env_valid = True, gd_reloc = True, env_offset = 0,
     env_id = 0, gd_baudrate = 0, load_addr = 0, bi_ip_addr = 0, bi_enetaddr = [], boot_file = [], flash_banks = [info]\<rparr>"

definition sample_drv :: "((u32 \<times> u8 list) list, 'z) flmach_scheme flash_drv" where
  "sample_drv = \<lparr>write_buff = (\<lambda>_ src a s. (0, s\<lparr>dev := (a, src) # dev s\<rparr>)), flash_real_protect = (\<lambda>_ _ _ s. (0, s)),
     flash_erase = (\<lambda>_ _ _ s. (0, s)), flash_print_info = (\<lambda>_ s. s)\<rparr>"

lemma sample_bank_ok: "bank_ok (sample_bank 0 prot)" "bank_ok (sample_bank 0xFFFC0000 prot)"
  by (simp_all add: bank_ok_def sample_bank_def sectors_def b_end_def FLASH_UNKNOWN_def)

lemmas sample_bank_simps = sample_bank_def bank_state_def sample_drv_def sectors_def b_end_def sect_end_def s_end_def

theorem sect_ranges_exact_witness:
  "\<exists>s'. flash_fill_sect_ranges 0x20000 0x3FFFF (bank_state (sample_bank 0 [0, 0])) = (0, [(1, 1)], 1, s')"
proof -
  have b: "flash_banks (bank_state (sample_bank 0 [0, 0])) = [sample_bank 0 [0, 0]]" by (simp add: bank_state_def)
  have "sect_start (sample_bank 0 [0, 0]) ! 1 = 0x20000" "sect_end (sample_bank 0 [0, 0]) 1 = 0x3FFFF" "1 < sectors (sample_bank 0 [0, 0])"
    by (simp_all add: sample_bank_simps)
  then show ?thesis
    using sect_ranges_exact [OF sample_bank_ok(1) b, of "0x20000" "0x3FFFF" "[(1, 1)]" 1]
    by (auto intro!: exI [of _ 1])
qed

theorem flash_write_checked_witness:
  "flash_write sample_drv [1, 2] 0x1FFFE 2 (bank_state (sample_bank 0 [1, 0])) =
     Some (ERR_PROTECTED, bank_state (sample_bank 0 [1, 0])) \<and>
   flash_write sample_drv [1, 2] 0x20000 2 (bank_state (sample_bank 0 [1, 0])) =
     Some (0, (bank_state (sample_bank 0 [1, 0]))\<lparr>dev := [(0x20000, [1, 2])]\<rparr>)"
proof -
  let ?i = "sample_bank 0 [1, 0]"
  have b: "b_end ?i \<noteq> -1" "flash_banks (bank_state ?i) = [?i]" by (simp_all add: sample_bank_simps)
  have e: "\<exists>i < sectors ?i. sect_start ?i ! i \<le> 0x1FFFF \<and> 0x1FFFE \<le> sect_end ?i i \<and> sect_protect ?i ! i \<noteq> 0"
    by (rule exI [of _ 0]) (simp add: sample_bank_simps)
  have n: "\<not> (\<exists>i < sectors ?i. sect_start ?i ! i \<le> 0x20001 \<and> 0x20000 \<le> sect_end ?i i \<and> sect_protect ?i ! i \<noteq> 0)"
  proof clarify
    fix i assume i: "i < sectors ?i" "0x20000 \<le> sect_end ?i i" "sect_protect ?i ! i \<noteq> 0"
    then have "i = 0 \<or> i = 1" by (simp add: sample_bank_simps less_2_cases_iff)
    then show False using i(2,3) by (auto simp: sample_bank_simps)
  qed
  show ?thesis
    using flash_write_checked [OF sample_bank_ok(1) b, of "0x1FFFE" 2 "[1, 2]" sample_drv] e
      flash_write_checked [OF sample_bank_ok(1) b, of "0x20000" 2 "[1, 2]" sample_drv] n
    by (simp add: sample_bank_simps)
qed

theorem flash_write_top_witness:
  "flash_write sample_drv [1] 0xFFFE0000 1 (bank_state (sample_bank 0xFFFC0000 [1, 1])) =
     Some (0, (bank_state (sample_bank 0xFFFC0000 [1, 1]))\<lparr>dev := [(0xFFFE0000, [1])]\<rparr>)"
proof -
  let ?i = "sample_bank 0xFFFC0000 [1, 1]"
  have b: "b_end ?i = -1" "flash_banks (bank_state ?i) = [?i]" by (simp_all add: sample_bank_simps)
  show ?thesis
    using flash_write_top [OF sample_bank_ok(2) b, of "0xFFFE0000" 1 "[1]" sample_drv] by (simp add: sample_bank_simps)
qed

end
