(* ===== verification/MmcCmd.thy ===== *)
theory MmcCmd
  imports Flash
begin

text \<open>
  The commands of \<open>common/cmd_flash.c\<close> for the memory card the board boots from:
  \<open>sd_flinfo\<close>, \<open>sd_erase\<close>, \<open>sd_write\<close> and \<open>sd_protect\<close> (\<open>emmc_\<close> and \<open>esd_\<close> with the other boot
  devices), on top of the requests of \<open>MmcFlash\<close>. An argument behind the last one is a null
  pointer; a command that reads it, or a variable that was never assigned, has the result \<open>None\<close>.
\<close>

section \<open>Arguments and messages\<close>

definition DEV_NAME :: "boot_cfg \<Rightarrow> string" where
  "DEV_NAME cfg = (case cfg of EMMC \<Rightarrow> ''eMMC NAND'' | ESD \<Rightarrow> ''eSD NAND'' | SD \<Rightarrow> ''SD Card'')"

definition argv_at :: "u8 list list \<Rightarrow> nat \<Rightarrow> u8 list option" where
  "argv_at argv i = (if i < length argv then Some (argv ! i) else None)"

text \<open>\<open>simple_strtoul(argv[i], NULL, 16)\<close>\<close>

definition hex_arg :: "u8 list \<Rightarrow> u32" where "hex_arg arg = fst (simple_strtoul arg 16)"

definition argv_ul :: "u8 list list \<Rightarrow> nat \<Rightarrow> u32 option" where
  "argv_ul argv i = map_option hex_arg (argv_at argv i)"

definition or_null :: "u8 list option \<Rightarrow> parg" where
  "or_null x = Str (case x of Some str \<Rightarrow> str | None \<Rightarrow> asc ''<NULL>'')"

definition mmc_usage :: "('s, 'y) cmd_tbl_scheme \<Rightarrow> u8 list list \<Rightarrow> ('d, 'z) fmach_scheme \<Rightarrow> ('d, 'z) fmach_scheme" where
  "mmc_usage cmdtp argv s = printf (line ''%s Usage:'' @ line ''%s %s'')
     [or_null (cmd_usage_text cmdtp), or_null (argv_at argv 0), or_null (cmd_help_text cmdtp)] s"

text \<open>The case that every command prints the partition in; the variable is \<open>None\<close> before its assignment.\<close>

definition part_undefined :: "u32 option \<Rightarrow> ('d, 'z) fmach_scheme \<Rightarrow> (u32 \<times> ('d, 'z) fmach_scheme) option" where
  "part_undefined part s = do {
     p \<leftarrow> part;
     Some (1, printf (line ''Error: partition %lx is not defined.'') [Num p] s)
   }"

definition not_on_boundary :: "string \<Rightarrow> u32 \<Rightarrow> ('d, 'z) fmach_scheme \<Rightarrow> ('d, 'z) fmach_scheme" where
  "not_on_boundary which blks s =
     printf (line ''%x blocks in a sector.'') [Num blks]
       (printf (''Error: '' @ which @ '' block not on sector boundary. '') [] s)"

section \<open>Information\<close>

definition do_mmc_info :: "('s, 'y) cmd_tbl_scheme \<Rightarrow> u8 list list \<Rightarrow> ('d, 'z) fmach_scheme \<Rightarrow>
    (u32 \<times> ('d, 'z) fmach_scheme) option" where
  "do_mmc_info cmdtp argv s =
     (if length argv < 2 then do {
        (ret, s) \<leftarrow> mmc_print_part 0 s;
        if ret = EMXX_MMC_OK then Some (0, s)
        else if ret = EMXX_MMC_ERR_PARTITION then part_undefined None s
        else Some (1, s)
      }
      else if argv ! 1 = asc ''part'' then do {
        part \<leftarrow> argv_ul argv 2;
        if length argv \<noteq> 3 \<or> part = 0 \<or> 4 < part then Some (1, mmc_usage cmdtp argv s)
        else do {
          (ret, s) \<leftarrow> mmc_print_part part s;
          if ret = EMXX_MMC_OK then Some (0, s)
          else if ret = EMXX_MMC_ERR_PARTITION then part_undefined (Some part) s
          else Some (1, s)
        }
      }
      else None)"

section \<open>Erasing\<close>

definition erase_error :: "u32 \<Rightarrow> u32 option \<Rightarrow> ('d, 'z) fmach_scheme \<Rightarrow> (u32 \<times> ('d, 'z) fmach_scheme) option" where
  "erase_error ret part s =
     (if ret = EMXX_MMC_ERR_START then Some (1, not_on_boundary ''start'' (mmc_erase_blocks s) s)
      else if ret = EMXX_MMC_ERR_END then Some (1, not_on_boundary ''end'' (mmc_erase_blocks s) s)
      else if ret = EMXX_MMC_ERR_PARTITION then part_undefined part s
      else if ret = EMXX_MMC_ERR_PROTECT then Some (1, printf (line ''Error: protected sectors will not be erased.'') [] s)
      else Some (1, printf (line ''Error: erase failed'') [] s))"

definition do_mmc_erase :: "boot_cfg \<Rightarrow> ('d, 'z) fmach_scheme hw_if \<Rightarrow> ('s, 'y) cmd_tbl_scheme \<Rightarrow> u8 list list \<Rightarrow>
    ('d, 'z) fmach_scheme \<Rightarrow> (u32 \<times> ('d, 'z) fmach_scheme) option" where
  "do_mmc_erase cfg hw cmdtp argv s =
     (if length argv < 2 then Some (1, mmc_usage cmdtp argv s)
      else if argv ! 1 = asc ''all'' then do {
        (ret, s) \<leftarrow> mmc_erase_part cfg hw 0 s;
        if ret = EMXX_MMC_OK then Some (0, printf (line ''Erase Flash All'') [] s)
        else erase_error ret None s
      }
      else if argv ! 1 = asc ''part'' then do {
        part \<leftarrow> argv_ul argv 2;
        if length argv \<noteq> 3 \<or> part = 0 \<or> 4 < part then Some (1, mmc_usage cmdtp argv s)
        else do {
          (ret, s) \<leftarrow> mmc_erase_part cfg hw part s;
          if ret = EMXX_MMC_OK then Some (0, printf (line ''Erase Flash partition # %ld'') [Num part] s)
          else erase_error ret (Some part) s
        }
      }
      else do {
        blk_first \<leftarrow> argv_ul argv 1;
        blk_last \<leftarrow> argv_ul argv 2;
        (ret, s) \<leftarrow> mmc_erase_sect cfg hw blk_first (blk_last + 1) s;
        if ret = EMXX_MMC_OK
        then Some (0, printf (line ''Erase Flash Block %lX - %lX'') [Num blk_first, Num blk_last] s)
        else erase_error ret None s
      })"

section \<open>Writing\<close>

definition write_error :: "boot_cfg \<Rightarrow> u32 \<Rightarrow> u32 option \<Rightarrow> ('d, 'z) fmach_scheme \<Rightarrow>
    (u32 \<times> ('d, 'z) fmach_scheme) option" where
  "write_error cfg ret part s =
     (if ret = EMXX_MMC_ERR_START
      then Some (1, printf (line (''Error: start block is out of '' @ DEV_NAME cfg @ '' area.'')) [] s)
      else if ret = EMXX_MMC_ERR_END
      then Some (1, printf (line (''Error: size is out of '' @ DEV_NAME cfg @ '' or its partition area.'')) [] s)
      else if ret = EMXX_MMC_ERR_PARTITION then part_undefined part s
      else if ret = EMXX_MMC_ERR_PROTECT then Some (1, printf (line ''Error: protected sectors will not be erased.'') [] s)
      else if ret = EMXX_MMC_ERR_OTHER
      then Some (1, printf (line ''Error: source address or size is out of DDR area.'') [] s)
      else Some (1, printf (line ''Error: write failed'') [] s))"

text \<open>The number of blocks of a size in bytes.\<close>

definition wb_blocks :: "u32 \<Rightarrow> u32" where "wb_blocks nbytes = (nbytes + 511) div 512"

definition do_mmc_write :: "boot_cfg \<Rightarrow> ('d, 'z) fmach_scheme hw_if \<Rightarrow> ('s, 'y) cmd_tbl_scheme \<Rightarrow> u8 list list \<Rightarrow>
    ('d, 'z) fmach_scheme \<Rightarrow> (u32 \<times> ('d, 'z) fmach_scheme) option" where
  "do_mmc_write cfg hw cmdtp argv s =
     (if length argv < 3 then Some (1, mmc_usage cmdtp argv s)
      else if argv ! 1 = asc ''part'' then do {
        part \<leftarrow> argv_ul argv 2;
        if length argv \<noteq> 5 \<or> part = 0 \<or> 4 < part then Some (1, mmc_usage cmdtp argv s)
        else do {
          addr \<leftarrow> argv_ul argv 3;
          nbytes \<leftarrow> argv_ul argv 4;
          let wb_size = wb_blocks nbytes;
          (ret, s) \<leftarrow> mmc_write_part hw addr part wb_size s;
          if ret = wb_size
          then Some (0, printf (line ''Write Flash Partition #%lX %lX blocks'') [Num part, Num wb_size] s)
          else write_error cfg ret (Some part) s
        }
      }
      else if length argv \<noteq> 4 then Some (1, mmc_usage cmdtp argv s)
      else do {
        block \<leftarrow> argv_ul argv 1;
        if block = 0 then Some (1, printf (line ''Error: can not write to MBR block.'') [] s)
        else do {
          addr \<leftarrow> argv_ul argv 2;
          nbytes \<leftarrow> argv_ul argv 3;
          let wb_size = wb_blocks nbytes;
          (ret, s) \<leftarrow> mmc_write_sect hw addr block (block + wb_size) s;
          if ret = wb_size
          then Some (0, printf (line ''Write Flash Block %lX - %lX'') [Num block, Num (block + wb_size)] s)
          else write_error cfg ret None s
        }
      })"

section \<open>Protecting\<close>

definition protect_error :: "u32 \<Rightarrow> u32 option \<Rightarrow> ('d, 'z) fmach_scheme \<Rightarrow> (u32 \<times> ('d, 'z) fmach_scheme) option" where
  "protect_error ret part s =
     (if ret = EMXX_MMC_ERR_START then Some (1, not_on_boundary ''start'' (mmc_protect_blk s) s)
      else if ret = EMXX_MMC_ERR_END
      then Some (1, printf ''Error: size is out of DDR area. '' [] (not_on_boundary ''end'' (mmc_protect_blk s) s))
      else if ret = EMXX_MMC_ERR_PARTITION then part_undefined part s
      else Some (1, printf (line ''Error: protect failed'') [] s))"

definition do_mmc_protect :: "('s, 'y) cmd_tbl_scheme \<Rightarrow> u8 list list \<Rightarrow> ('d, 'z) fmach_scheme \<Rightarrow>
    (u32 \<times> ('d, 'z) fmach_scheme) option" where
  "do_mmc_protect cmdtp argv s =
     (if length argv < 3 \<or> argv ! 1 \<notin> {asc ''off'', asc ''on''} then Some (1, mmc_usage cmdtp argv s)
      else let p = (argv ! 1 = asc ''on''); mode = (if p then 1 else 0)
        in if argv ! 2 = asc ''all'' then do {
             (ret, s) \<leftarrow> mmc_protect_part 0 mode s;
             if 0 < sint ret then Some (0, printf (line ''%sProtect %d Flash Sectors'') [un_text p, Num ret] s)
             else protect_error ret None s
           }
           else if argv ! 2 = asc ''part'' then do {
             part \<leftarrow> argv_ul argv 3;
             if length argv \<noteq> 4 \<or> part = 0 \<or> 4 < part then Some (1, mmc_usage cmdtp argv s)
             else do {
               (ret, s) \<leftarrow> mmc_protect_part part mode s;
               if 0 < sint ret
               then Some (0, printf (line ''%sProtect Flash partition #%ld %d Flash Sectors'')
                      [un_text p, Num part, Num ret] s)
               else protect_error ret (Some part) s
             }
           }
           else do {
             blk_first \<leftarrow> argv_ul argv 2;
             blk_last \<leftarrow> argv_ul argv 3;
             (ret, s) \<leftarrow> mmc_protect_sect blk_first (blk_last + 1) mode s;
             if 0 < sint ret then Some (0, printf (line ''%sProtect %d Flash Sectors'') [un_text p, Num ret] s)
             else protect_error ret None s
           })"

section \<open>Protected sectors\<close>

text \<open>The words that are not taken for an address.\<close>

definition block_word :: "u8 list \<Rightarrow> bool" where
  "block_word w \<longleftrightarrow> w \<notin> {asc ''all'', asc ''part''}"

lemma argv_simps [simp]:
  "argv_ul [] i = None" "argv_ul (a # argv) 0 = Some (hex_arg a)" "argv_ul (a # argv) (Suc i) = argv_ul argv i"
  by (simp_all add: argv_ul_def argv_at_def)

lemma argv_numeral [simp]: "argv_ul (a # argv) (numeral k) = argv_ul argv (pred_numeral k)"
  by (simp add: numeral_eq_Suc)

lemma range_error_code: "protect_range_error a b s \<in> {0, EMXX_MMC_ERR_START, EMXX_MMC_ERR_END}"
  by (simp add: protect_range_error_def)

lemma range_sectors:
  assumes ok: "flash_ok s" and err: "protect_range_error a (y + 1) s = 0"
    and b: "unat a \<le> b" "b \<le> unat y" and whole: "b div psize s < ntotal s div psize s"
  shows "b div psize s \<in> marked_sectors s (unat a) (unat (y + 1))" and "b div psize s < 2048"
proof -
  let ?p = "psize s"
  note p = flash_ok_psize [OF ok]
  have "y + 1 \<noteq> 0" using err by (auto simp: protect_range_error_def flash_errs split: if_splits)
  then have y: "unat (y + 1) = unat y + 1" using unatSuc [of y] by (simp add: add.commute)
  have "unat (y + 1) mod ?p = 0 \<or> unat (y + 1) = ntotal s"
    using err by (auto simp: protect_range_error_def flash_errs aligned_iff [OF ok] split: if_splits)
  then have "b div ?p < unat (y + 1) div ?p"
  proof
    assume "unat (y + 1) mod ?p = 0"
    then have "unat (y + 1) div ?p * ?p = unat (y + 1)" by (simp add: mult.commute) (use mult_div_mod_eq [of ?p "unat (y + 1)"] in simp)
    then show ?thesis using b y by (intro less_mult_imp_div_less) simp
  qed (use whole in simp)
  then show "b div ?p \<in> marked_sectors s (unat a) (unat (y + 1))"
    using div_le_mono [OF b(1), of ?p] by (auto simp: marked_sectors_def)
  have "ntotal s div ?p \<le> 2048 * ?p div ?p" using p(4) by (rule div_le_mono)
  then show "b div ?p < 2048" using whole p(1) by simp
qed

text \<open>
  A protect command that succeeds keeps the geometry, changes nothing but the protect table, and
  leaves every whole sector it names protected.
\<close>

lemma protect_on:
  assumes ok: "flash_ok s" and on: "do_mmc_protect cmdtp [c, asc ''on'', x, y] s = Some (0, s1)"
    and x: "block_word x"
  shows "\<exists>m. mem s1 = m \<and> dev s1 = dev s \<and> flash_ok s1 \<and> mmc_protect_blk s1 = mmc_protect_blk s \<and>
    dev_total_blk s1 = dev_total_blk s \<and> only_changed CONFIG_MMC_PROTECT_TBL 2048 (mem s) m"
    and "unat (hex_arg x) \<le> b \<Longrightarrow> b \<le> unat (hex_arg y) \<Longrightarrow> b div psize s < ntotal s div psize s \<Longrightarrow>
      sector_protected s1 (b div psize s)"
proof -
  let ?a = "hex_arg x" and ?e = "hex_arg y + 1"
  have p: "(asc ''on'' = asc ''off'') = False" by (simp add: asc_def)
  have cmd: "do_mmc_protect cmdtp [c, asc ''on'', x, y] s = do {
      (ret, s) \<leftarrow> mmc_protect_sect ?a ?e 1 s;
      if 0 < sint ret then Some (0, printf (line ''%sProtect %d Flash Sectors'') [un_text True, Num ret] s)
      else protect_error ret None s
    }"
    using x by (simp add: do_mmc_protect_def block_word_def Let_def)
  have err: "protect_range_error ?a ?e s = 0"
  proof (rule ccontr)
    assume "protect_range_error ?a ?e s \<noteq> 0"
    then show False using on range_error_code [of ?a ?e s]
      by (auto simp: cmd mmc_protect_sect_def Let_def protect_error_def flash_errs not_on_boundary_def)
  qed
  obtain s' where s': "mmc_protect_sect ?a ?e 1 s = Some (of_nat (card (marked_sectors s (unat ?a) (unat ?e))), s')"
      "dev s' = dev s" "only_changed CONFIG_MMC_PROTECT_TBL 2048 (mem s) (mem s')"
      "\<forall>n < 2048. sector_protected s' n = (if n \<in> marked_sectors s (unat ?a) (unat ?e) then True else sector_protected s n)"
    using protect_sect_marks [OF ok err, of 1] by auto
  obtain m where m: "s' = s\<lparr>mem := m\<rparr>"
    using s'(1) protect_sect_value(1) [OF ok err, of 1] by (auto simp: Let_def)
  have s1: "mem s1 = mem s' \<and> dev s1 = dev s' \<and> flash_ok s1 = flash_ok s' \<and> mmc_protect_blk s1 = mmc_protect_blk s' \<and>
      dev_total_blk s1 = dev_total_blk s' \<and> (\<forall>n. sector_protected s1 n = sector_protected s' n)"
    using on by (auto simp: cmd s'(1) protect_error_def part_undefined_def flash_errs not_on_boundary_def
        split: if_splits)
  show "\<exists>m. mem s1 = m \<and> dev s1 = dev s \<and> flash_ok s1 \<and> mmc_protect_blk s1 = mmc_protect_blk s \<and>
    dev_total_blk s1 = dev_total_blk s \<and> only_changed CONFIG_MMC_PROTECT_TBL 2048 (mem s) m"
    using s1 s'(2,3) ok by (auto simp: m flash_ok_def)
  show "sector_protected s1 (b div psize s)" if "unat ?a \<le> b" "b \<le> unat (hex_arg y)" "b div psize s < ntotal s div psize s"
    using range_sectors [OF ok err that] s'(4) s1 by auto
qed

text \<open>A command that fails and leaves memory and the card alone.\<close>

definition refuses :: "(('d, 'z) fmach_scheme \<Rightarrow> (u32 \<times> ('d, 'z) fmach_scheme) option) \<Rightarrow> ('d, 'z) fmach_scheme \<Rightarrow> bool" where
  "refuses cmd s \<longleftrightarrow> (\<exists>s2. cmd s = Some (1, s2) \<and> mem s2 = mem s \<and> dev s2 = dev s)"

lemma refused_code:
  assumes "r \<in> refusals"
  shows "r \<noteq> EMXX_MMC_OK" and "r \<noteq> EMXX_MMC_ERR_PARTITION" and "2 ^ 23 < unat r"
  using assms by (auto simp: refusals_def flash_errs)

lemma erase_command_refused:
  assumes "flash_ok s" and "sector_protected s (b div psize s)" and "b div psize s < ntotal s div psize s"
    and "block_word u" and b: "unat (hex_arg u) \<le> b" "b \<le> unat (hex_arg v)"
  shows "refuses (do_mmc_erase cfg hw cmdtp [c, u, v]) s"
proof -
  have cmd: "do_mmc_erase cfg hw cmdtp [c, u, v] s = do {
      (ret, s) \<leftarrow> mmc_erase_sect cfg hw (hex_arg u) (hex_arg v + 1) s;
      if ret = EMXX_MMC_OK
      then Some (0, printf (line ''Erase Flash Block %lX - %lX'') [Num (hex_arg u), Num (hex_arg v)] s)
      else erase_error ret None s
    }"
    using assms(4) by (simp add: do_mmc_erase_def block_word_def)
  have "\<exists>r s'. mmc_erase_sect cfg hw (hex_arg u) (hex_arg v + 1) s = Some (r, s') \<and> r \<in> refusals \<and>
    mem s' = mem s \<and> dev s' = dev s"
  proof (cases "hex_arg v + 1 = 0")
    case True
    then show ?thesis by (simp add: mmc_erase_sect_def Let_def refusals_def)
  next
    case False
    then have "unat (hex_arg v + 1) = unat (hex_arg v) + 1" using unatSuc [of "hex_arg v"] by (simp add: add.commute)
    then show ?thesis using b assms(1-3) by (intro erase_refused [of _ _ b]) simp_all
  qed
  then obtain r s' where r: "mmc_erase_sect cfg hw (hex_arg u) (hex_arg v + 1) s = Some (r, s')"
    "r \<in> refusals" "mem s' = mem s" "dev s' = dev s" by blast
  then show ?thesis
    using refused_code [OF r(2)] by (simp add: refuses_def cmd erase_error_def not_on_boundary_def)
qed

lemma wb_blocks_value: "unat n + 511 < 2 ^ 32 \<Longrightarrow> unat (wb_blocks n) = (unat n + 511) div 512"
  using unat_add_value(1) [of n 511 511] by (simp add: wb_blocks_def unat_div)

lemma wb_blocks_bound: "unat (wb_blocks n) < 2 ^ 23"
  using unat_u32_less [of "n + 511"] by (simp add: wb_blocks_def unat_div less_mult_imp_div_less)

lemma write_blocks:
  assumes "block_word w" and "hex_arg w \<noteq> 0"
  shows "do_mmc_write cfg hw cmdtp [c, w, a, z] s =
    (let n = wb_blocks (hex_arg z)
     in do {
       (ret, s) \<leftarrow> mmc_write_sect hw (hex_arg a) (hex_arg w) (hex_arg w + n) s;
       if ret = n
       then Some (0, printf (line ''Write Flash Block %lX - %lX'') [Num (hex_arg w), Num (hex_arg w + n)] s)
       else write_error cfg ret None s
     })"
  using assms by (simp add: do_mmc_write_def block_word_def Let_def)

lemma write_command_refused:
  assumes "flash_ok s" and "sector_protected s (b div psize s)" and "b div psize s < ntotal s div psize s"
    and w: "block_word w" and b: "unat (hex_arg w) \<le> b" "b < unat (hex_arg w) + (unat (hex_arg z) + 511) div 512"
    and z: "unat (hex_arg z) + 511 < 2 ^ 32"
  shows "refuses (do_mmc_write cfg hw cmdtp [c, w, a, z]) s"
proof (cases "hex_arg w = 0")
  case True
  then show ?thesis using w by (simp add: refuses_def do_mmc_write_def block_word_def)
next
  case False
  let ?n = "wb_blocks (hex_arg z)"
  have n: "unat ?n = (unat (hex_arg z) + 511) div 512" using z by (rule wb_blocks_value)
  have "b < ntotal s" using assms(3) div_le_mono [of "ntotal s" b "psize s"] by (meson not_le)
  then have "b < 2 ^ 31" using flash_ok_psize(3) [OF assms(1)] by simp
  then have e: "unat (hex_arg w + ?n) = unat (hex_arg w) + unat ?n"
    using unat_add_value(1) [OF _ refl, of "hex_arg w" ?n] b wb_blocks_bound [of "hex_arg z"] by simp
  have "\<exists>r s'. mmc_write_sect hw (hex_arg a) (hex_arg w) (hex_arg w + ?n) s = Some (r, s') \<and> r \<in> refusals \<and>
    mem s' = mem s \<and> dev s' = dev s"
    using b n e assms(1-3) by (intro write_refused [of _ _ b]) simp_all
  then obtain r s' where r: "mmc_write_sect hw (hex_arg a) (hex_arg w) (hex_arg w + ?n) s = Some (r, s')"
    "r \<in> refusals" "mem s' = mem s" "dev s' = dev s" by blast
  have "r \<noteq> ?n" using refused_code(3) [OF r(2)] wb_blocks_bound [of "hex_arg z"] by auto
  then show ?thesis
    using r refused_code [OF r(2)] by (simp add: refuses_def write_blocks [OF w False] Let_def write_error_def)
qed

text \<open>
  C3: a protect command that succeeded guards every whole sector it named: an erase command and
  a write command whose range meets the sector fail and leave memory and the card alone, on every
  boot device and whatever the controller driver would do. A sector that the device ends in the
  middle of is not checked (\<open>tail_sector_unchecked\<close>).
\<close>

theorem protect_command_guards:
  assumes "flash_ok s" and "do_mmc_protect cmdtp [c, asc ''on'', x, y] s = Some (0, s1)" and "block_word x"
    and "unat (hex_arg x) \<le> b" and "b \<le> unat (hex_arg y)" and "b div psize s < ntotal s div psize s"
  shows "(block_word u \<and> unat (hex_arg u) \<le> b \<and> b \<le> unat (hex_arg v) \<longrightarrow>
      refuses (do_mmc_erase cfg hw t [d, u, v]) s1) \<and>
    (block_word w \<and> unat (hex_arg w) \<le> b \<and> b < unat (hex_arg w) + (unat (hex_arg z) + 511) div 512 \<and>
      unat (hex_arg z) + 511 < 2 ^ 32 \<longrightarrow> refuses (do_mmc_write cfg hw t [d, w, a, z]) s1)"
proof -
  from protect_on [OF assms(1-3)] assms(4-6)
  have "flash_ok s1" "sector_protected s1 (b div psize s1)" "b div psize s1 < ntotal s1 div psize s1" by auto
  then show ?thesis using erase_command_refused write_command_refused by blast
qed

section \<open>What a write command asks for\<close>

definition no_protected :: "('d, 'z) fmach_scheme \<Rightarrow> nat \<Rightarrow> nat \<Rightarrow> bool" where
  "no_protected s first n \<longleftrightarrow> (\<forall>k \<ge> first div psize s. k * psize s < first + n \<longrightarrow> \<not> sector_protected s k)"

text \<open>The command once its guards let it through: one request of the driver and the message.\<close>

definition write_and_report :: "('d, 'z) fmach_scheme hw_if \<Rightarrow> u32 \<Rightarrow> u32 \<Rightarrow> nat \<Rightarrow> ('d, 'z) fmach_scheme \<Rightarrow>
    (u32 \<times> ('d, 'z) fmach_scheme) option" where
  "write_and_report hw block addr n s = do {
     (ret, s) \<leftarrow> multi_write hw block addr (of_nat n) s;
     Some (if ret = 0 then (0, printf (line ''Write Flash Block %lX - %lX'') [Num block, Num (block + of_nat n)] s)
       else (1, printf (line ''Error: write failed'') [] s))
   }"

lemma write_command_passes:
  assumes ok: "flash_ok s" and w: "block_word w" "hex_arg w \<noteq> 0"
    and n: "n = (unat (hex_arg z) + 511) div 512" "0 < n" "n < 2 ^ 23" and z: "unat (hex_arg z) + 511 < 2 ^ 32"
    and fits: "unat (hex_arg w) + n \<le> ntotal s" and free: "no_protected s (unat (hex_arg w)) n"
    and addr: "PHYS_SDRAM_1 \<le> hex_arg a" "hex_arg a + of_nat (512 * n) \<le> PHYS_SDRAM_2 + PHYS_SDRAM_2_SIZE"
  shows "\<exists>x. do_mmc_write cfg hw cmdtp [c, w, a, z] s =
    write_and_report hw (hex_arg w) (hex_arg a) n (s\<lparr>outp := x # outp s\<rparr>)"
proof -
  let ?n = "wb_blocks (hex_arg z)"
  have un: "unat ?n = n" using wb_blocks_value [OF z] n(1) by simp
  then have wn: "?n = of_nat n" by (metis of_nat_unat ucast_id)
  have e: "unat (hex_arg w + ?n) = unat (hex_arg w) + n"
    using unat_add_value(1) [OF _ un, of "hex_arg w"] fits flash_ok_psize(3) [OF ok] by simp
  have size: "(hex_arg w + ?n - hex_arg w) * 512 = of_nat (512 * n)" by (simp add: wn)
  have big: "512 * n < 2 ^ 32" using n(3) by simp
  have nz: "(of_nat (512 * n) :: u32) \<noteq> 0"
    using unat_of_nat_u32 [OF big] n(2) by (metis mult_eq_0_iff not_gr_zero unat_0 zero_neq_numeral)
  have r: "round_down (psize s) (unat (hex_arg w)) < round_up (psize s) (unat (hex_arg w + ?n))"
    using n(2) e round_down_le [of "psize s" "unat (hex_arg w)"] round_up_ge [of "psize s" "unat (hex_arg w + ?n)"]
      flash_ok_psize(1) [OF ok] by linarith
  have lt: "unat (hex_arg w) < ntotal s" using fits n(2) by linarith
  have "\<exists>x. mmc_write_sect hw (hex_arg a) (hex_arg w) (hex_arg w + ?n) s = do {
      (ret, s') \<leftarrow> multi_write hw (hex_arg w) (hex_arg a) (of_nat n) (s\<lparr>outp := x # outp s\<rparr>);
      Some (if ret \<noteq> 0 then EMXX_MMC_ERR_WRITE else ?n, s')
    }"
    using write_passes [OF ok lt _ r, of "hex_arg a" hw] free fits addr nz
    unfolding size block_count_mult [OF big] no_protected_def e by (simp cong: if_cong)
  then obtain x where x: "mmc_write_sect hw (hex_arg a) (hex_arg w) (hex_arg w + ?n) s = do {
      (ret, s') \<leftarrow> multi_write hw (hex_arg w) (hex_arg a) (of_nat n) (s\<lparr>outp := x # outp s\<rparr>);
      Some (if ret \<noteq> 0 then EMXX_MMC_ERR_WRITE else ?n, s')
    }" by blast
  have ne: "EMXX_MMC_ERR_WRITE \<noteq> ?n" using un n(3) by (auto simp: flash_errs)
  show ?thesis
  proof (intro exI [of _ x])
    show "do_mmc_write cfg hw cmdtp [c, w, a, z] s =
        write_and_report hw (hex_arg w) (hex_arg a) n (s\<lparr>outp := x # outp s\<rparr>)"
      using ne unfolding write_blocks [OF w] Let_def x [unfolded wn] write_and_report_def wn
      by (cases "multi_write hw (hex_arg w) (hex_arg a) (of_nat n) (s\<lparr>outp := x # outp s\<rparr>)")
        (auto simp: write_error_def flash_errs)
  qed
qed


text \<open>
  The check of the source address adds the size in 32 bits: a size that carries the sum over
  the end of the address space is accepted, and the driver is asked to write from addresses that
  no memory answers.
\<close>

theorem write_command_source_wraps:
  assumes "flash_ok s" and "block_word w" and "hex_arg w \<noteq> 0"
    and n: "n = (unat (hex_arg z) + 511) div 512" and "unat (hex_arg z) + 511 < 2 ^ 32"
    and "unat (hex_arg w) + n \<le> ntotal s" and "no_protected s (unat (hex_arg w)) n"
    and addr: "PHYS_SDRAM_1 \<le> hex_arg a" "2 ^ 32 \<le> unat (hex_arg a) + 512 * n"
      "unat (hex_arg a) + 512 * n \<le> 2 ^ 32 + 0x50000000"
  shows "\<exists>x. do_mmc_write cfg hw cmdtp [c, w, a, z] s =
    write_and_report hw (hex_arg w) (hex_arg a) n (s\<lparr>outp := x # outp s\<rparr>)"
proof -
  have n23: "n < 2 ^ 23" using wb_blocks_bound [of "hex_arg z"] wb_blocks_value [of "hex_arg z"] assms(5) n by simp
  have n0: "0 < n" using addr(2) unat_u32_less [of "hex_arg a"] by (cases n) simp_all
  have u: "unat (of_nat (512 * n) :: u32) = 512 * n" using n23 by (intro unat_of_nat_u32) simp
  have "unat (hex_arg a + of_nat (512 * n)) = unat (hex_arg a) + 512 * n - 2 ^ 32"
    using addr(2) by (intro unat_add_value(2) [OF _ u]) simp_all
  then have "hex_arg a + of_nat (512 * n) \<le> PHYS_SDRAM_2 + PHYS_SDRAM_2_SIZE"
    using addr(3) by (simp add: word_le_nat_alt flash_consts)
  then show ?thesis using assms n0 n23 by (intro write_command_passes) simp_all
qed

section \<open>What an erase command asks for\<close>

text \<open>
  C15: an erase command for blocks on the device that lie on erase boundaries and are not protected
  sends the card one erase request per chunk until the first error; the chunks are non-empty, of
  at most 2 GB, and cover exactly the blocks from the first to the last one named, both included.
\<close>

theorem erase_command_covers:
  assumes ok: "flash_ok s" and u: "block_word u" and le: "unat (hex_arg u) \<le> unat (hex_arg v)"
    and fits: "unat (hex_arg v) < ntotal s"
    and free: "no_protected s (unat (hex_arg u)) (unat (hex_arg v) + 1 - unat (hex_arg u))"
    and al: "hex_arg u AND (mmc_erase_blocks s - 1) = 0" "(hex_arg v + 1) AND (mmc_erase_blocks s - 1) = 0"
  shows "\<exists>cs x y. do_mmc_erase cfg hw cmdtp [c, u, v] s = do {
        (ret, s) \<leftarrow> run_erases cfg hw 0 cs (s\<lparr>outp := x # y # outp s\<rparr>);
        if ret = 0 then Some (0, printf (line ''Erase Flash Block %lX - %lX'') [Num (hex_arg u), Num (hex_arg v)] s)
        else erase_error ret None s
      } \<and>
    concat (map (\<lambda>(b, n). [b..<b + n]) cs) = [unat (hex_arg u)..<unat (hex_arg v) + 1] \<and>
    list_all (\<lambda>(b, n). 0 < n \<and> n \<le> 2 ^ 22) cs"
proof -
  let ?u = "hex_arg u" and ?v = "hex_arg v"
  have e: "unat (?v + 1) = unat ?v + 1"
    using unat_add_value(1) [of ?v 1 1] fits flash_ok_psize(3) [OF ok] by simp
  define s0 where "s0 = printf (line ''erase check:   start = %lx, end = %lx'') [Num ?u, Num (?v + 1)] s"
  define s1 where "s1 = printf (line ''protect check: start = %lx, end = %lx'')
    [Num (of_nat (round_down (psize s) (unat ?u))), Num (of_nat (min (ntotal s) (round_up (psize s) (unat (?v + 1)))))] s0"
  have s0: "flash_ok s0" "psize s0 = psize s" "ntotal s0 = ntotal s" "mmc_erase_blocks s0 = mmc_erase_blocks s"
    "dev_total_blk s0 = dev_total_blk s" using ok by (simp_all add: s0_def)
  have s1: "flash_ok s1" "psize s1 = psize s" "ntotal s1 = ntotal s" "\<And>n. sector_protected s1 n = sector_protected s n"
    using ok by (simp_all add: s1_def s0_def)
  have "mmc_check_protect (of_nat (round_down (psize s) (unat ?u)))
      (of_nat (min (ntotal s) (round_up (psize s) (unat (?v + 1))))) False s1 = Some (0, s1)"
  proof -
    have "round_down (psize s) (unat ?u) < round_up (psize s) (unat (?v + 1))"
      using le e round_down_le [of "psize s" "unat ?u"] round_up_ge [of "psize s" "unat (?v + 1)"]
        flash_ok_psize(1) [OF ok] by linarith
    then show ?thesis
      using check_range_ok [of s1 ?u "?v + 1"] s1 free le fits e by (simp add: no_protected_def)
  qed
  moreover have "\<not> dev_total_blk s \<le> ?u" "\<not> ?v + 1 \<le> ?u" "\<not> dev_total_blk s < ?v + 1"
    using le fits e by (simp_all add: word_less_nat_alt word_le_nat_alt)
  moreover have "protect_round ?u (?v + 1) s0 = Some (of_nat (round_down (psize s) (unat ?u)),
      of_nat (min (ntotal s) (round_up (psize s) (unat (?v + 1)))))"
    using protect_round_value [OF s0(1), of "?v + 1" ?u] e fits by (simp only: s0)
  ultimately have r: "mmc_erase_sect cfg hw ?u (?v + 1) s = erase_chunks cfg hw 0 ?u (?v + 1 - ?u) s1"
    using al by (simp add: mmc_erase_sect_def Let_def s0_def [symmetric] s0 s1_def [symmetric])
  have n: "unat (?v + 1 - ?u) = unat ?v + 1 - unat ?u" using le e by (simp add: unat_sub word_le_nat_alt)
  let ?cs = "erase_plan (unat ?u) (unat ?v + 1 - unat ?u)"
  have plan: "erase_chunks cfg hw 0 ?u (?v + 1 - ?u) s1 = run_erases cfg hw 0 ?cs s1"
    using erase_chunks_plan [of ?u "?v + 1 - ?u"] n le fits flash_ok_psize(3) [OF ok] by simp
  have "\<exists>x y. s1 = s\<lparr>outp := x # y # outp s\<rparr>" unfolding s1_def s0_def printf_def by auto
  then obtain x y where s1: "s1 = s\<lparr>outp := x # y # outp s\<rparr>" by blast
  have "do_mmc_erase cfg hw cmdtp [c, u, v] s = do {
      (ret, s) \<leftarrow> run_erases cfg hw 0 ?cs s1;
      if ret = 0 then Some (0, printf (line ''Erase Flash Block %lX - %lX'') [Num ?u, Num ?v] s)
      else erase_error ret None s
    }"
    using u by (simp add: do_mmc_erase_def block_word_def r plan EMXX_MMC_OK_def)
  moreover have "concat (map (\<lambda>(b, n). [b..<b + n]) ?cs) = [unat ?u..<unat ?v + 1]"
    using erase_plan_blocks [of "unat ?u" "unat ?v + 1 - unat ?u"] le by simp
  moreover have "list_all (\<lambda>(b, n). 0 < n \<and> n \<le> 2 ^ 22) ?cs"
    using erase_plan_chunk [of _ _ "unat ?u" "unat ?v + 1 - unat ?u"] by (auto simp: list_all_iff)
  ultimately show ?thesis unfolding s1 by blast
qed

section \<open>The properties at a concrete device\<close>

lemma sample_numbers [simp]:
  "hex_arg (asc ''100'') = 0x100" "hex_arg (asc ''1ff'') = 0x1FF" "hex_arg (asc ''1000'') = 0x1000"
  "hex_arg (asc ''2000'') = 0x2000" "hex_arg (asc ''5fff'') = 0x5FFF" "hex_arg (asc ''41000000'') = 0x41000000"
  "hex_arg (asc ''ff000000'') = 0xFF000000" "hex_arg (asc ''1000000'') = 0x1000000"
  by code_simp+

lemma sample_block_words [simp]:
  "block_word (asc ''100'')" "block_word (asc ''1ff'')" "block_word (asc ''1000'')" "block_word (asc ''2000'')"
  by code_simp+

lemma sample_unprotected [simp]: "no_protected (sample_flash False) first n"
  by (simp add: no_protected_def)

definition card_cmd :: "u32 list fmach cmd_tbl" where
  "card_cmd = \<lparr>cmd_name = asc ''sd_flash'', maxargs = 5, repeatable = 0, cmd_fn = (\<lambda>_ _ s. Some (0, s)),
     cmd_is_bootd = False, cmd_usage_text = None, cmd_help_text = None\<rparr>"

theorem protect_command_guards_witness:
  "\<exists>s1. do_mmc_protect card_cmd [asc ''sd_protect'', asc ''on'', asc ''2000'', asc ''5fff''] (sample_flash False) = Some (0, s1) \<and>
     refuses (do_mmc_erase SD (boot_if SD recording_card False) card_cmd [asc ''sd_erase'', asc ''100'', asc ''5fff'']) s1 \<and>
     refuses (do_mmc_write SD (boot_if SD recording_card False) card_cmd
       [asc ''sd_write'', asc ''1000'', asc ''41000000'', asc ''1000000'']) s1"
proof -
  have on: "\<exists>s1. do_mmc_protect card_cmd [asc ''sd_protect'', asc ''on'', asc ''2000'', asc ''5fff''] (sample_flash False) = Some (0, s1)"
  proof -
    obtain s' where "mmc_protect_sect 0x2000 0x6000 1 (sample_flash False) = Some (2, s')"
      using protect_sect_marks [of "sample_flash False" "0x2000" "0x6000" 1]
      by (auto simp: protect_range_error_def marked_sectors_def)
    then show ?thesis by (simp add: do_mmc_protect_def Let_def) (simp add: asc_def)
  qed
  then obtain s1 where s1: "do_mmc_protect card_cmd [asc ''sd_protect'', asc ''on'', asc ''2000'', asc ''5fff''] (sample_flash False) = Some (0, s1)"
    by blast
  from protect_command_guards [OF sample_flash_ok s1, of "0x3000" "asc ''100''" "asc ''5fff''" SD "boot_if SD recording_card False"
      card_cmd "asc ''sd_erase''"] protect_command_guards [OF sample_flash_ok s1, of "0x3000" _ _ SD
      "boot_if SD recording_card False" card_cmd "asc ''sd_write''" "asc ''1000''" "asc ''1000000''" "asc ''41000000''"]
  show ?thesis using s1 by auto
qed


theorem write_command_source_wraps_witness:
  "\<exists>x. do_mmc_write SD (boot_if SD recording_card False) card_cmd [asc ''sd_write'', asc ''100'', asc ''ff000000'', asc ''1000000'']
       (sample_flash False) =
     write_and_report (boot_if SD recording_card False) 0x100 0xFF000000 0x8000
       (sample_flash False\<lparr>outp := x # outp (sample_flash False)\<rparr>)"
proof -
  have "(0x8000 :: nat) = (unat (0x1000000 :: u32) + 511) div 512" "unat (0x1000000 :: u32) + 511 < 2 ^ 32"
    "unat (0x100 :: u32) + 0x8000 \<le> ntotal (sample_flash False)" "PHYS_SDRAM_1 \<le> 0xFF000000"
    "2 ^ 32 \<le> unat (0xFF000000 :: u32) + 512 * 0x8000" "unat (0xFF000000 :: u32) + 512 * 0x8000 \<le> 2 ^ 32 + 0x50000000"
    by (simp_all add: PHYS_SDRAM_1_def)
  then show ?thesis
    by (intro write_command_source_wraps [where w = "asc ''100''" and z = "asc ''1000000''" and a = "asc ''ff000000''", unfolded sample_numbers]) simp_all
qed

theorem erase_command_covers_witness:
  "\<exists>cs. concat (map (\<lambda>(b, n). [b..<b + n]) cs) = [0x100..<0x200] \<and>
     (\<exists>x y. do_mmc_erase SD (boot_if SD recording_card False) card_cmd [asc ''sd_erase'', asc ''100'', asc ''1ff''] (sample_flash False) = do {
        (ret, s) \<leftarrow> run_erases SD (boot_if SD recording_card False) 0 cs (sample_flash False\<lparr>outp := x # y # outp (sample_flash False)\<rparr>);
        if ret = 0 then Some (0, printf (line ''Erase Flash Block %lX - %lX'') [Num 0x100, Num 0x1FF] s)
        else erase_error ret None s
      })"
proof -
  have "mmc_erase_blocks (sample_flash False) = 1" by (simp add: sample_flash_def)
  moreover have "[unat (0x100 :: u32)..<unat (0x1FF :: u32) + 1] = [0x100..<0x200]" by simp
  ultimately show ?thesis
    using erase_command_covers [of "sample_flash False" "asc ''100''" "asc ''1ff''" SD "boot_if SD recording_card False" card_cmd "asc ''sd_erase''",
        unfolded sample_numbers]
    by (simp only: sample_flash_ok sample_block_words sample_unprotected sample_flash_simps) auto
qed

end
