(* ===== verification/MemCmd.thy ===== *)
theory MemCmd
  imports Flash Crc32
begin

text \<open>
  The memory commands of \<open>common/cmd_mem.c\<close>: \<open>md\<close>, \<open>mm\<close>, \<open>nm\<close>, \<open>mw\<close>, \<open>cp\<close>, \<open>cmp\<close>, \<open>base\<close>, \<open>loop\<close>,
  \<open>mtest\<close> (the alternative test, which this board selects) and \<open>crc32\<close>, with \<open>print_buffer\<close> of
  \<open>lib_generic/display_options.c\<close>. An object of 2 or 4 bytes is accessed at any address. The buffer of \<open>readline\<close> is passed from call to call.
\<close>

section \<open>The state and the objects of a size\<close>

record 'd mmach = "'d flmach" +
  dp_last_addr :: u32
  dp_last_size :: u32
  dp_last_length :: u32
  mm_last_addr :: u32
  mm_last_size :: u32
  base_address :: u32

text \<open>Four, two or one byte; every other size is taken for one byte.\<close>

definition load_unit :: "u32 \<Rightarrow> (u32 \<Rightarrow> u8) \<Rightarrow> u32 \<Rightarrow> u32" where
  "load_unit n m a = (if n = 4 then load32 m a else if n = 2 then ucast (load16 m a) else ucast (m a))"

definition store_unit :: "u32 \<Rightarrow> (u32 \<Rightarrow> u8) \<Rightarrow> u32 \<Rightarrow> u32 \<Rightarrow> (u32 \<Rightarrow> u8)" where
  "store_unit n m a v = (if n = 4 then store32 m a v else if n = 2 then store16 m a (ucast v) else m(a := ucast v))"

definition hex_at :: "u8 list list \<Rightarrow> nat \<Rightarrow> u32" where
  "hex_at argv i = fst (simple_strtoul (argv ! i) 16)"

section \<open>md: memory display\<close>

definition isprint :: "u8 \<Rightarrow> bool" where
  "isprint c \<longleftrightarrow> ismask c AND (CT_P OR CT_U OR CT_L OR CT_D OR CT_SP) \<noteq> 0"

definition print_unit :: "u32 \<Rightarrow> u32 \<Rightarrow> ('d, 'z) mach_scheme \<Rightarrow> ('d, 'z) mach_scheme" where
  "print_unit width a s =
     printf (if width = 4 then '' %08x'' else if width = 2 then '' %04x'' else '' %02x'') [Num (load_unit width (mem s) a)] s"

definition print_ascii :: "u8 \<Rightarrow> ('d, 'z) mach_scheme \<Rightarrow> ('d, 'z) mach_scheme" where
  "print_ascii c s = putc (if isprint c \<and> c < 0x80 then c else 0x2E) s"

text \<open>
  One line: the address, the objects, and their bytes as text. The bytes of the line buffer are the
  bytes of the memory it was filled from.
\<close>

definition print_line :: "u32 \<Rightarrow> u32 \<Rightarrow> u32 \<Rightarrow> u32 \<Rightarrow> ('d, 'z) mach_scheme \<Rightarrow> ('d, 'z) mach_scheme" where
  "print_line addr data width linelen s =
     (let s = printf ''%08lx:'' [Num addr] s;
          s = foldl (\<lambda>s i. print_unit width (data + of_nat i * width) s) s [0..<unat linelen];
          s = printf ''    '' [] s
      in putc 0x0A (foldl (\<lambda>s c. print_ascii c s) s (bytes_at (mem s) data (unat (linelen * width)))))"

text \<open>The loop over the lines; a line without objects would be printed for ever.\<close>

function print_lines :: "('d, 'z) emach_scheme shell_io \<Rightarrow> u32 \<Rightarrow> u32 \<Rightarrow> u32 \<Rightarrow> u32 \<Rightarrow> u32 \<Rightarrow>
    ('d, 'z) emach_scheme \<Rightarrow> (u32 \<times> ('d, 'z) emach_scheme) option" where
  "print_lines io addr data width cnt linelen s =
     (if cnt = 0 then Some (0, s)
      else let linelen = (if cnt < linelen then cnt else linelen)
        in if linelen = 0 then None
           else case ctrlc io (print_line addr data width linelen s) of (stop, s) \<Rightarrow>
             if stop then Some (-1, s)
             else print_lines io (addr + linelen * width) (data + linelen * width) width (cnt - linelen) linelen s)"
  by pat_completeness auto
termination
  by (relation "measure (\<lambda>(_, _, _, _, cnt, _, _). unat cnt)")
    (auto simp: word_less_nat_alt unat_sub_if' unat_gt_0 split: if_splits)

declare print_lines.simps [simp del]

definition MAX_LINE_LENGTH_BYTES :: u32 where "MAX_LINE_LENGTH_BYTES = 64"
definition DEFAULT_LINE_LENGTH_BYTES :: u32 where "DEFAULT_LINE_LENGTH_BYTES = 16"
definition DISP_LINE_LEN :: u32 where "DISP_LINE_LEN = 16"

definition print_buffer :: "('d, 'z) emach_scheme shell_io \<Rightarrow> u32 \<Rightarrow> u32 \<Rightarrow> u32 \<Rightarrow> u32 \<Rightarrow> u32 \<Rightarrow>
    ('d, 'z) emach_scheme \<Rightarrow> (u32 \<times> ('d, 'z) emach_scheme) option" where
  "print_buffer io addr data width cnt linelen s = do {
     linelen \<leftarrow> (if MAX_LINE_LENGTH_BYTES < linelen * width then udiv MAX_LINE_LENGTH_BYTES width else Some linelen);
     linelen \<leftarrow> (if linelen < 1 then udiv DEFAULT_LINE_LENGTH_BYTES width else Some linelen);
     print_lines io addr data width cnt linelen s
   }"

definition do_mem_md :: "('d, 'z) mmach_scheme shell_io \<Rightarrow> ('s, 'y) cmd_tbl_scheme \<Rightarrow> u32 \<Rightarrow> u8 list list \<Rightarrow>
    ('d, 'z) mmach_scheme \<Rightarrow> (u32 \<times> ('d, 'z) mmach_scheme) option" where
  "do_mem_md io cmdtp flag argv s =
     (let fresh = (flag AND CMD_FLAG_REPEAT = 0); n = cmd_get_data_size (argv ! 0) 4
      in if length argv < 2 then Some (1, cmd_usage cmdtp s)
         else if fresh \<and> sint n < 0 then Some (1, s)
         else let width = (if fresh then n else dp_last_size s);
                  addr = (if fresh then hex_at argv 1 + base_address s else dp_last_addr s);
                  len = (if fresh \<and> 2 < length argv then hex_at argv 2 else dp_last_length s)
           in do {
             linelen \<leftarrow> udiv DISP_LINE_LEN width;
             (_, s) \<leftarrow> print_buffer io addr addr width len linelen s;
             Some (0, s\<lparr>dp_last_addr := addr + width * len, dp_last_length := len, dp_last_size := width\<rparr>)
           })"

section \<open>mm and nm: memory modify\<close>

text \<open>One prompt of the loop. The state is the address, the console buffer and the machine.\<close>

definition modify_step :: "env_config \<Rightarrow> ('d, 'z) emach_scheme shell_io \<Rightarrow> ('s, 'y) cmd_tbl_scheme list \<Rightarrow> bool \<Rightarrow> u32 \<Rightarrow>
    u32 \<times> (nat \<Rightarrow> u8) \<times> ('d, 'z) emach_scheme \<Rightarrow>
    (unit option \<times> u32 \<times> (nat \<Rightarrow> u8) \<times> ('d, 'z) emach_scheme) option" where
  "modify_step C io tbl incrflag width = (\<lambda>(addr, buf, s). do {
     (nbytes, buf, s) \<leftarrow> readline_into_buffer C io tbl (asc '' ? '') buf
       (print_unit width addr (printf ''%08lx:'' [Num addr] s));
     if nbytes = 0 \<or> nbytes = 1 \<and> buf 0 = 0x2D
     then Some (None, if \<not> incrflag then addr else if nbytes = 0 then addr + width else addr - width, buf, s)
     else do {
       str \<leftarrow> str_at buf 0;
       Some (case simple_strtoul str 16 of (i, endp) \<Rightarrow>
         if length endp = length str then (Some (), addr, buf, s)
         else (None, if incrflag then addr + width else addr, buf, s\<lparr>mem := store_unit width (mem s) addr i\<rparr>))
     }
   })"

definition mod_mem :: "env_config \<Rightarrow> ('d, 'z) mmach_scheme shell_io \<Rightarrow> ('s, 'y) cmd_tbl_scheme list \<Rightarrow> ('s, 'y) cmd_tbl_scheme \<Rightarrow>
    bool \<Rightarrow> u32 \<Rightarrow> u8 list list \<Rightarrow> (nat \<Rightarrow> u8) \<Rightarrow> ('d, 'z) mmach_scheme \<Rightarrow> (u32 \<times> (nat \<Rightarrow> u8) \<times> ('d, 'z) mmach_scheme) option" where
  "mod_mem C io tbl cmdtp incrflag flag argv buf s =
     (let fresh = (flag AND CMD_FLAG_REPEAT = 0); n = cmd_get_data_size (argv ! 0) 4
      in if length argv \<noteq> 2 then Some (1, buf, cmd_usage cmdtp s)
         else if fresh \<and> sint n < 0 then Some (1, buf, s)
         else let width = (if fresh then n else mm_last_size s);
                  addr = (if fresh then hex_at argv 1 + base_address s else mm_last_addr s)
           in do {
             (_, addr, buf, s) \<leftarrow> loopM (modify_step C io tbl incrflag width) (addr, buf, s);
             Some (0, buf, s\<lparr>mm_last_addr := addr, mm_last_size := width\<rparr>)
           })"

definition do_mem_mm :: "env_config \<Rightarrow> ('d, 'z) mmach_scheme shell_io \<Rightarrow> ('s, 'y) cmd_tbl_scheme list \<Rightarrow> ('s, 'y) cmd_tbl_scheme \<Rightarrow>
    u32 \<Rightarrow> u8 list list \<Rightarrow> (nat \<Rightarrow> u8) \<Rightarrow> ('d, 'z) mmach_scheme \<Rightarrow> (u32 \<times> (nat \<Rightarrow> u8) \<times> ('d, 'z) mmach_scheme) option" where
  "do_mem_mm C io tbl cmdtp = mod_mem C io tbl cmdtp True"

definition do_mem_nm :: "env_config \<Rightarrow> ('d, 'z) mmach_scheme shell_io \<Rightarrow> ('s, 'y) cmd_tbl_scheme list \<Rightarrow> ('s, 'y) cmd_tbl_scheme \<Rightarrow>
    u32 \<Rightarrow> u8 list list \<Rightarrow> (nat \<Rightarrow> u8) \<Rightarrow> ('d, 'z) mmach_scheme \<Rightarrow> (u32 \<times> (nat \<Rightarrow> u8) \<times> ('d, 'z) mmach_scheme) option" where
  "do_mem_nm C io tbl cmdtp = mod_mem C io tbl cmdtp False"

section \<open>mw, cp, cmp: fill, copy and compare\<close>

primrec fill_units :: "nat \<Rightarrow> u32 \<Rightarrow> u32 \<Rightarrow> u32 \<Rightarrow> (u32 \<Rightarrow> u8) \<Rightarrow> (u32 \<Rightarrow> u8)" where
  "fill_units 0 width addr v m = m"
| "fill_units (Suc n) width addr v m = fill_units n width (addr + width) v (store_unit width m addr v)"

definition do_mem_mw :: "('s, 'y) cmd_tbl_scheme \<Rightarrow> u8 list list \<Rightarrow> ('d, 'z) mmach_scheme \<Rightarrow> u32 \<times> ('d, 'z) mmach_scheme" where
  "do_mem_mw cmdtp argv s =
     (let n = cmd_get_data_size (argv ! 0) 4
      in if length argv < 3 \<or> 4 < length argv then (1, cmd_usage cmdtp s)
         else if sint n < 1 then (1, s)
         else let cnt = (if length argv = 4 then hex_at argv 3 else 1)
           in (0, s\<lparr>mem := fill_units (unat cnt) n (hex_at argv 1 + base_address s) (hex_at argv 2) (mem s)\<rparr>))"

primrec copy_units :: "nat \<Rightarrow> u32 \<Rightarrow> u32 \<Rightarrow> u32 \<Rightarrow> (u32 \<Rightarrow> u8) \<Rightarrow> (u32 \<Rightarrow> u8)" where
  "copy_units 0 width addr dest m = m"
| "copy_units (Suc n) width addr dest m =
     copy_units n width (addr + width) (dest + width) (store_unit width m dest (load_unit width m addr))"

definition do_mem_cp :: "('d, 'z) mmach_scheme flash_drv \<Rightarrow> ('s, 'y) cmd_tbl_scheme \<Rightarrow> u8 list list \<Rightarrow>
    ('d, 'z) mmach_scheme \<Rightarrow> (u32 \<times> ('d, 'z) mmach_scheme) option" where
  "do_mem_cp F cmdtp argv s =
     (let n = cmd_get_data_size (argv ! 0) 4
      in if length argv \<noteq> 4 then Some (1, cmd_usage cmdtp s)
         else if sint n < 0 then Some (1, s)
         else let width = n; addr = hex_at argv 1 + base_address s;
                  dest = hex_at argv 2 + base_address s; cnt = hex_at argv 3
           in if cnt = 0 then Some (1, printf (line ''Zero length ???'') [] s)
              else if addr2info dest s \<noteq> None
              then do {
                let s = printf ''Copy to Flash... '' [] s;
                (rc, s) \<leftarrow> flash_write F (bytes_at (mem s) addr (unat (cnt * width))) dest (cnt * width) s;
                Some (if rc \<noteq> 0 then (1, flash_perror rc s) else (0, printf (line ''done'') [] s))
              }
              else Some (0, s\<lparr>mem := copy_units (unat cnt) width addr dest (mem s)\<rparr>))"

definition differ_message :: "u32 \<Rightarrow> u32 \<Rightarrow> u32 \<Rightarrow> ('d, 'z) mach_scheme \<Rightarrow> ('d, 'z) mach_scheme" where
  "differ_message width addr1 addr2 s =
     printf (line (if width = 4 then ''word at 0x%08lx (0x%08lx) != word at 0x%08lx (0x%08lx)''
         else if width = 2 then ''halfword at 0x%08lx (0x%04x) != halfword at 0x%08lx (0x%04x)''
         else ''byte at 0x%08lx (0x%02x) != byte at 0x%08lx (0x%02x)''))
       [Num addr1, Num (load_unit width (mem s) addr1), Num addr2, Num (load_unit width (mem s) addr2)] s"

primrec compare_units :: "nat \<Rightarrow> u32 \<Rightarrow> u32 \<Rightarrow> u32 \<Rightarrow> u32 \<Rightarrow> ('d, 'z) mach_scheme \<Rightarrow> u32 \<times> u32 \<times> ('d, 'z) mach_scheme" where
  "compare_units 0 width addr1 addr2 ngood s = (0, ngood, s)"
| "compare_units (Suc n) width addr1 addr2 ngood s =
     (if load_unit width (mem s) addr1 \<noteq> load_unit width (mem s) addr2
      then (1, ngood, differ_message width addr1 addr2 s)
      else compare_units n width (addr1 + width) (addr2 + width) (ngood + 1) s)"

definition same_message :: "u32 \<Rightarrow> u32 \<Rightarrow> ('d, 'z) mach_scheme \<Rightarrow> ('d, 'z) mach_scheme" where
  "same_message width ngood s = printf (line ''Total of %ld %s%s were the same'')
     [Num ngood, Str (asc (if width = 4 then ''word'' else if width = 2 then ''halfword'' else ''byte'')),
      Str (if ngood = 1 then [] else asc ''s'')] s"

definition do_mem_cmp :: "('s, 'y) cmd_tbl_scheme \<Rightarrow> u8 list list \<Rightarrow> ('d, 'z) mmach_scheme \<Rightarrow> u32 \<times> ('d, 'z) mmach_scheme" where
  "do_mem_cmp cmdtp argv s =
     (let n = cmd_get_data_size (argv ! 0) 4
      in if length argv \<noteq> 4 then (1, cmd_usage cmdtp s)
         else if sint n < 0 then (1, s)
         else let width = n
           in case compare_units (unat (hex_at argv 3)) width (hex_at argv 1 + base_address s)
                  (hex_at argv 2 + base_address s) 0 s of
             (rcode, ngood, s) \<Rightarrow> (rcode, same_message width ngood s))"

section \<open>base, loop and crc32\<close>

definition do_mem_base :: "u8 list list \<Rightarrow> ('d, 'z) mmach_scheme \<Rightarrow> u32 \<times> ('d, 'z) mmach_scheme" where
  "do_mem_base argv s =
     (let s = (if 1 < length argv then s\<lparr>base_address := hex_at argv 1\<rparr> else s)
      in (0, printf (line ''Base Address: 0x%08lx'') [Num (base_address s)] s))"

text \<open>The loops read memory and never end; what is read is not used.\<close>

definition do_mem_loop :: "('s, 'y) cmd_tbl_scheme \<Rightarrow> u8 list list \<Rightarrow> ('d, 'z) mmach_scheme \<Rightarrow> (u32 \<times> ('d, 'z) mmach_scheme) option" where
  "do_mem_loop cmdtp argv s =
     (if length argv < 3 then Some (1, cmd_usage cmdtp s)
      else if sint (cmd_get_data_size (argv ! 0) 4) < 0 then Some (1, s)
      else loopM (\<lambda>s. Some (None, s)) s)"

definition do_mem_crc :: "('s, 'y) cmd_tbl_scheme \<Rightarrow> u8 list list \<Rightarrow> ('d, 'z) mmach_scheme \<Rightarrow> u32 \<times> ('d, 'z) mmach_scheme" where
  "do_mem_crc cmdtp argv s =
     (if length argv < 3 then (1, cmd_usage cmdtp s)
      else let addr = hex_at argv 1 + base_address s; len = hex_at argv 2;
               crc = crc32 0 (bytes_at (mem s) addr (unat len));
               s = printf (line ''CRC32 for %08lx ... %08lx ==> %08lx'') [Num addr, Num (addr + len - 1), Num crc] s
        in (0, if 3 < length argv then s\<lparr>mem := store32 (mem s) (hex_at argv 3) crc\<rparr> else s))"

section \<open>mtest: memory test\<close>

definition CONFIG_SYS_MEMTEST_START :: u32 where "CONFIG_SYS_MEMTEST_START = 0x41100000"
definition CONFIG_SYS_MEMTEST_END :: u32 where "CONFIG_SYS_MEMTEST_END = 0x4fffffff"

definition bitpattern :: "u32 list" where
  "bitpattern = [0x00000001, 0x00000003, 0x00000007, 0x0000000F, 0x00000005, 0x00000015, 0x00000055, 0xaaaaaaaa]"

text \<open>\<open>for (; val != 0; val <<= 1)\<close>\<close>

definition shifts :: "u32 \<Rightarrow> u32 list" where
  "shifts val = takeWhile (\<lambda>v. v \<noteq> 0) (map (\<lambda>k. push_bit k val) [0..<33])"

definition poke :: "u32 \<Rightarrow> u32 \<Rightarrow> ('d, 'z) mach_scheme \<Rightarrow> ('d, 'z) mach_scheme" where
  "poke a v s = s\<lparr>mem := store32 (mem s) a v\<rparr>"

text \<open>The parking address is 0.\<close>

definition data_line :: "u32 \<Rightarrow> u32 \<Rightarrow> ('d, 'z) mach_scheme \<Rightarrow> ('d, 'z) mach_scheme" where
  "data_line addr val s =
     (let s = poke 0 (NOT val) (poke addr val s); readback = load32 (mem s) addr;
          s = (if readback \<noteq> val then printf (line ''FAILURE (data line): expected %08lx, actual %08lx'')
                 [Num val, Num readback] s else s);
          s = poke 0 val (poke addr (NOT val) s); readback = load32 (mem s) addr
      in if readback \<noteq> NOT val then printf (line ''FAILURE (data line): Is %08lx, should be %08lx'')
           [Num readback, Num (NOT val)] s else s)"

definition data_lines :: "u32 \<Rightarrow> ('d, 'z) mach_scheme \<Rightarrow> ('d, 'z) mach_scheme" where
  "data_lines addr s = foldl (\<lambda>s val. data_line addr val s) s (concat (map shifts bitpattern))"

text \<open>\<open>for (offset = 1; offset < len; offset <<= 1)\<close>, and the word with an offset.\<close>

definition offsets :: "u32 \<Rightarrow> u32 list" where
  "offsets len = takeWhile (\<lambda>offset. offset < len) (map (\<lambda>k. push_bit k 1) [0..<32])"

definition word_addr :: "u32 \<Rightarrow> u32 \<Rightarrow> u32" where "word_addr start offset = start + 4 * offset"

definition PATTERN :: u32 where "PATTERN = 0xaaaaaaaa"
definition ANTI_PATTERN :: u32 where "ANTI_PATTERN = 0x55555555"

definition failure :: "string \<Rightarrow> u32 \<Rightarrow> u32 \<Rightarrow> ('d, 'z) mach_scheme \<Rightarrow> ('d, 'z) mach_scheme" where
  "failure text a expected s =
     printf (CHR 0x0A # line (text @ '' 0x%.8lx: expected 0x%.8lx, actual 0x%.8lx''))
       [Num a, Num expected, Num (load32 (mem s) a)] s"

text \<open>The parts of the test give \<open>True\<close> for a failure.\<close>

primrec stuck_low :: "u32 \<Rightarrow> u32 list \<Rightarrow> u32 list \<Rightarrow> ('d, 'z) mach_scheme \<Rightarrow> bool \<times> ('d, 'z) mach_scheme" where
  "stuck_low start offs [] s = (False, s)"
| "stuck_low start offs (test_offset # ts) s =
     (let s = poke (word_addr start test_offset) ANTI_PATTERN s
      in case find (\<lambda>offset. load32 (mem s) (word_addr start offset) \<noteq> PATTERN \<and> offset \<noteq> test_offset) offs of
        Some offset \<Rightarrow> (True, failure ''FAILURE: Address bit stuck low or shorted @'' (word_addr start offset) PATTERN s)
      | None \<Rightarrow> stuck_low start offs ts (poke (word_addr start test_offset) PATTERN s))"

definition address_lines :: "u32 \<Rightarrow> u32 \<Rightarrow> ('d, 'z) mach_scheme \<Rightarrow> bool \<times> ('d, 'z) mach_scheme" where
  "address_lines start len s =
     (let offs = offsets len;
          s = foldl (\<lambda>s offset. poke (word_addr start offset) PATTERN s) s offs;
          s = poke start ANTI_PATTERN s
      in case find (\<lambda>offset. load32 (mem s) (word_addr start offset) \<noteq> PATTERN) offs of
        Some offset \<Rightarrow> (True, failure ''FAILURE: Address bit stuck high @'' (word_addr start offset) PATTERN s)
      | None \<Rightarrow> stuck_low start offs offs (poke start PATTERN s))"

primrec fill_pattern :: "nat \<Rightarrow> u32 \<Rightarrow> u32 \<Rightarrow> ('d, 'z) mach_scheme \<Rightarrow> ('d, 'z) mach_scheme" where
  "fill_pattern 0 pattern a s = s"
| "fill_pattern (Suc n) pattern a s = fill_pattern n (pattern + 1) (a + 4) (poke a pattern s)"

text \<open>
  The last two passes: every word is compared with a pattern and replaced. The closing parenthesis
  is in the message of the program.
\<close>

primrec check_words :: "string \<Rightarrow> (u32 \<Rightarrow> u32) \<Rightarrow> (u32 \<Rightarrow> u32) \<Rightarrow> nat \<Rightarrow> u32 \<Rightarrow> u32 \<Rightarrow> ('d, 'z) mach_scheme \<Rightarrow> bool \<times> ('d, 'z) mach_scheme" where
  "check_words msg expect stored 0 pattern a s = (False, s)"
| "check_words msg expect stored (Suc n) pattern a s =
     (if load32 (mem s) a \<noteq> expect pattern
      then (True, printf (CHR 0x0A # line (msg @ '' 0x%.8lx: expected 0x%.8lx, actual 0x%.8lx)''))
        [Num a, Num (expect pattern), Num (load32 (mem s) a)] s)
      else check_words msg expect stored n (pattern + 1) (a + 4) (poke a (stored pattern) s))"

definition device_test :: "u32 \<Rightarrow> nat \<Rightarrow> ('d, 'z) mach_scheme \<Rightarrow> bool \<times> ('d, 'z) mach_scheme" where
  "device_test start n s =
     (case check_words ''FAILURE (read/write) @'' (\<lambda>p. p) (\<lambda>p. NOT p) n 1 start (fill_pattern n 1 start s) of
        (failed, s) \<Rightarrow> if failed then (True, s)
          else check_words ''FAILURE (read/write): @'' (\<lambda>p. NOT p) (\<lambda>_. 0) n 1 start s)"

text \<open>One iteration of the endless loop. The state is the number of the iteration and the machine.\<close>

definition mtest_step :: "('d, 'z) emach_scheme shell_io \<Rightarrow> u32 \<Rightarrow> u32 \<Rightarrow> u32 \<Rightarrow> u32 \<times> ('d, 'z) emach_scheme \<Rightarrow>
    (u32 option \<times> u32 \<times> ('d, 'z) emach_scheme) option" where
  "mtest_step io start stop_at iteration_limit = (\<lambda>(iterations, s). Some
     (case ctrlc io s of (stop, s) \<Rightarrow>
        if stop then (Some 1, iterations, putc 0x0A s)
        else if iteration_limit \<noteq> 0 \<and> sint iteration_limit < sint iterations
        then (Some 0, iterations, printf (line ''Tested %d iteration(s) without errors.'') [Num (iterations - 1)] s)
        else let s = printf (''Iteration: %6d'' @ [CHR 0x0D]) [Num iterations] s
          in case address_lines start ((stop_at - start) div 4) (data_lines start s) of
            (failed, s) \<Rightarrow> if failed then (Some 1, iterations + 1, s)
              else case device_test start (unat ((stop_at - start) div 4 + 1)) s of
                (failed, s) \<Rightarrow> (if failed then Some 1 else None, iterations + 1, s)))"

definition do_mem_mtest :: "('d, 'z) emach_scheme shell_io \<Rightarrow> u8 list list \<Rightarrow> ('d, 'z) emach_scheme \<Rightarrow>
    (u32 \<times> ('d, 'z) emach_scheme) option" where
  "do_mem_mtest io argv s =
     (let start = (if 1 < length argv then hex_at argv 1 else CONFIG_SYS_MEMTEST_START);
          stop_at = (if 2 < length argv then hex_at argv 2 else CONFIG_SYS_MEMTEST_END);
          iteration_limit = (if 4 < length argv then hex_at argv 4 else 0)
      in do {
        (rcode, _, s) \<leftarrow> loopM (mtest_step io start stop_at iteration_limit)
          (1, printf (line ''Testing %08x ... %08x:'') [Num start, Num stop_at] s);
        Some (rcode, s)
      })"

section \<open>Objects and bytes\<close>

lemma load32_bytes:
  "ucast (load32 m b) = m b" "ucast (drop_bit 8 (load32 m b)) = m (b + 1)"
  "ucast (drop_bit 16 (load32 m b)) = m (b + 2)" "ucast (drop_bit 24 (load32 m b)) = m (b + 3)"
  by (rule bit_word_eqI; auto simp: load32_def bit_simps dest: bit_imp_le_length)+

lemma load16_bytes: "ucast (load16 m b) = m b" "ucast (drop_bit 8 (load16 m b)) = m (b + 1)"
  by (rule bit_word_eqI; auto simp: load16_def bit_simps dest: bit_imp_le_length)+

lemma offset_index:
  fixes x a :: u32
  obtains j where "unat (x - a) = j" "\<And>k. k < 2 ^ 32 \<Longrightarrow> x = a + of_nat k \<longleftrightarrow> j = k"
proof (rule that [of "unat (x - a)"])
  show "x = a + of_nat k \<longleftrightarrow> unat (x - a) = k" if "k < 2 ^ 32" for k
    using unat_of_nat_u32 [OF that] by auto
qed simp

lemma store32_blit: "store32 m a v = blit m a 4 (\<lambda>i. ucast (drop_bit (8 * i) v))"
proof
  fix x
  obtain j where j: "unat (x - a) = j" "\<And>k. k < 2 ^ 32 \<Longrightarrow> x = a + of_nat k \<longleftrightarrow> j = k"
    by (rule offset_index [of x a]) blast
  have "j < 4 \<longleftrightarrow> j = 0 \<or> j = 1 \<or> j = 2 \<or> j = 3" by auto
  then show "store32 m a v x = blit m a 4 (\<lambda>i. ucast (drop_bit (8 * i) v)) x"
    using j(2) [of 0] j(2) [of 1] j(2) [of 2] j(2) [of 3] by (auto simp: store32_def blit_def j(1))
qed

lemma widened: "ucast (ucast (x :: u8) :: u32) = x" "ucast (ucast (y :: u16) :: u32) = y"
  by (rule bit_word_eqI; auto simp: bit_simps dest: bit_imp_le_length)+

lemma width_cases: "unat width \<in> {1, 2, 4} \<Longrightarrow> width = 1 \<or> width = 2 \<or> width = (4 :: u32)"
  by (auto simp: word_unat_eq_iff)

lemma unit_copy:
  assumes "unat width \<in> {1, 2, 4}"
  shows "store_unit width m dest (load_unit width m src) = blit m dest (unat width) (\<lambda>i. m (src + of_nat i))"
proof -
  have four: "m (src + of_nat i) = ucast (drop_bit (8 * i) (load32 m src))" if "i < 4" for i
  proof -
    from that have "i = 0 \<or> i = 1 \<or> i = 2 \<or> i = 3" by auto
    then show ?thesis using load32_bytes [of m src] by auto
  qed
  have two: "(if i = 0 then ucast (load16 m src) else ucast (drop_bit 8 (load16 m src))) = m (src + of_nat i)" if "i < 2" for i
  proof -
    from that have "i = 0 \<or> i = 1" by auto
    then show ?thesis using load16_bytes [of m src] by auto
  qed
  have one: "m(dest := m src) = blit m dest 1 (\<lambda>i. m (src + of_nat i))"
    by (auto simp: blit_def unat_eq_0)
  from width_cases [OF assms] show ?thesis
  proof (elim disjE)
    assume "width = 1"
    then show ?thesis using one by (simp add: store_unit_def load_unit_def widened)
  next
    assume "width = 2"
    then show ?thesis using two by (auto simp: store_unit_def load_unit_def store16_blit widened intro!: blit_cong)
  next
    assume "width = 4"
    then show ?thesis using four by (auto simp: store_unit_def load_unit_def store32_blit intro!: blit_cong)
  qed
qed

lemma copy_units_blit:
  assumes w: "unat width \<in> {1, 2, 4}" and "n * unat width \<le> 2 ^ 32"
    and "\<And>i j. j < i \<Longrightarrow> i < n * unat width \<Longrightarrow> src + of_nat i \<noteq> dest + of_nat j"
  shows "copy_units n width src dest m = blit m dest (n * unat width) (\<lambda>i. m (src + of_nat i))"
  using assms(2,3)
proof (induction n arbitrary: src dest m)
  case (Suc n)
  let ?w = "unat width" and ?f = "\<lambda>i. m (src + of_nat i)"
  have ww: "width = of_nat ?w" by simp
  let ?m = "blit m dest ?w ?f"
  have keep: "?m (src + of_nat (?w + i)) = m (src + of_nat (?w + i))" if "i < n * ?w" for i
  proof -
    let ?x = "src + of_nat (?w + i)"
    have "\<not> unat (?x - dest) < ?w"
    proof
      assume "unat (?x - dest) < ?w"
      moreover have "?x = dest + of_nat (unat (?x - dest))" by simp
      moreover have "unat (?x - dest) < ?w + i \<Longrightarrow> ?x \<noteq> dest + of_nat (unat (?x - dest))"
        using that by (intro Suc.prems(2)) simp_all
      ultimately show False by linarith
    qed
    then show ?thesis by (simp add: blit_def)
  qed
  have "copy_units n width (src + of_nat ?w) (dest + of_nat ?w) ?m =
      blit ?m (dest + of_nat ?w) (n * ?w) (\<lambda>i. ?m (src + of_nat ?w + of_nat i))"
  proof (rule Suc.IH)
    show "n * ?w \<le> 2 ^ 32" using Suc.prems(1) by simp
    show "src + of_nat ?w + of_nat i \<noteq> dest + of_nat ?w + of_nat j" if "j < i" "i < n * ?w" for i j
      using Suc.prems(2) [of "?w + j" "?w + i"] that by (simp add: add_ac)
  qed
  also have "\<dots> = blit ?m (dest + of_nat ?w) (n * ?w) (\<lambda>i. ?f (?w + i))"
    using keep by (intro blit_cong) (simp add: add_ac)
  also have "\<dots> = blit m dest (?w + n * ?w) ?f" using Suc.prems(1) by (intro blit_append) simp
  finally show ?case using unit_copy [OF w] ww by simp
qed simp

lemma size_word: "w \<in> {1, 2, 4} \<Longrightarrow> unat (of_nat w :: u32) = w"
  by auto

text \<open>
  C27: a copy between areas that do not overlap, or to a lower address, makes the target what the
  source was, whatever the size of the objects, and changes nothing else; a copy to an address in a
  flash bank writes the bytes of the source through the flash layer and reports its result.
\<close>

theorem cp_copies:
  assumes argv: "length argv = 4" "cmd_get_data_size (argv ! 0) 4 = of_nat w" "w \<in> {1, 2, 4}"
    and src: "src = hex_at argv 1 + base_address s" and dest: "dest = hex_at argv 2 + base_address s"
    and n: "n = unat (hex_at argv 3) * w" "0 < n" and fits: "unat src + n \<le> 2 ^ 32" "unat dest + n \<le> 2 ^ 32"
    and apart: "dest \<le> src \<or> unat src + n \<le> unat dest" and small: "n < 2 ^ 32"
  shows "do_mem_cp F cmdtp argv s = (case addr2info dest s of
      None \<Rightarrow> Some (0, s\<lparr>mem := blit (mem s) dest n (\<lambda>i. mem s (src + of_nat i))\<rparr>)
    | Some b \<Rightarrow> do {
        (rc, s') \<leftarrow> flash_write F (bytes_at (mem s) src n) dest (of_nat n) (printf ''Copy to Flash... '' [] s);
        Some (if rc \<noteq> 0 then (1, flash_perror rc s') else (0, printf (line ''done'') [] s'))
      })"
proof -
  let ?width = "of_nat w :: u32" and ?cnt = "hex_at argv 3"
  have w: "unat ?width = w" using argv(3) by (rule size_word)
  have cnt: "?cnt \<noteq> 0" using n by auto
  have "?cnt * ?width = of_nat (unat ?cnt * unat ?width)" by simp
  then have bytes: "?cnt * ?width = of_nat n" "unat (?cnt * ?width) = n"
    using unat_of_nat_u32 [OF small] by (simp_all only: w n(1))
  have "copy_units (unat ?cnt) ?width src dest (mem s) = blit (mem s) dest (unat ?cnt * unat ?width) (\<lambda>i. mem s (src + of_nat i))"
  proof (rule copy_units_blit)
    show "unat ?width \<in> {1, 2, 4}" using argv(3) w by simp
    show "unat ?cnt * unat ?width \<le> 2 ^ 32" using small by (simp only: w n(1))
    show "src + of_nat i \<noteq> dest + of_nat j" if "j < i" "i < unat ?cnt * unat ?width" for i j
    proof
      assume "src + of_nat i = dest + of_nat j"
      moreover have i: "i < n" using that(2) by (simp only: w n(1))
      moreover from i that(1) have "j < n" by linarith
      ultimately have "unat src + i = unat dest + j" by (intro offsets_apart [OF fits(2,1)])
      with apart that(1) i show False by (auto simp: word_le_nat_alt)
    qed
  qed
  then have copy: "copy_units (unat ?cnt) ?width src dest (mem s) = blit (mem s) dest n (\<lambda>i. mem s (src + of_nat i))"
    by (simp only: w n(1))
  have "\<not> sint ?width < 0" using argv(3) by auto
  then show ?thesis
    unfolding do_mem_cp_def Let_def argv(1,2) src [symmetric] dest [symmetric] bytes copy
    using cnt by (cases "addr2info dest s") (simp_all add: unat_of_nat_u32 [OF small])
qed

lemma unit_eq:
  assumes "unat width \<in> {1, 2, 4}"
  shows "load_unit width m a = load_unit width m b \<longleftrightarrow> bytes_at m a (unat width) = bytes_at m b (unat width)"
proof
  assume "load_unit width m a = load_unit width m b"
  then have "store_unit width m 0 (load_unit width m a) = store_unit width m 0 (load_unit width m b)" by simp
  then have "bytes_at (blit m 0 (unat width) (\<lambda>i. m (a + of_nat i))) 0 (unat width) =
      bytes_at (blit m 0 (unat width) (\<lambda>i. m (b + of_nat i))) 0 (unat width)"
    by (simp only: unit_copy [OF assms])
  moreover have "unat width \<le> 2 ^ 32" using assms by auto
  ultimately show "bytes_at m a (unat width) = bytes_at m b (unat width)"
    by (simp only: bytes_at_blit order_refl) (simp only: bytes_at_def)
next
  assume "bytes_at m a (unat width) = bytes_at m b (unat width)"
  then have e: "m (a + of_nat i) = m (b + of_nat i)" if "i < unat width" for i
    using that by (metis bytes_at_nth)
  show "load_unit width m a = load_unit width m b"
    using width_cases [OF assms] e [of 0] e [of 1] e [of 2] e [of 3]
    by (auto simp: load_unit_def load16_def load32_def)
qed

lemma bytes_at_append: "bytes_at m a (i + j) = bytes_at m a i @ bytes_at m (a + of_nat i) j"
  by (rule nth_equalityI) (auto simp: nth_append bytes_at_def add.assoc simp flip: of_nat_add)

lemma compare_units_value:
  assumes w: "unat width \<in> {1, 2, 4}"
  shows "\<exists>j s'. compare_units n width a b g s = (if j = n then 0 else 1, g + of_nat j, s') \<and> j \<le> n \<and> mem s' = mem s \<and>
    bytes_at (mem s) a (j * unat width) = bytes_at (mem s) b (j * unat width) \<and>
    (j < n \<longrightarrow> bytes_at (mem s) (a + of_nat (j * unat width)) (unat width) \<noteq>
      bytes_at (mem s) (b + of_nat (j * unat width)) (unat width))"
proof (induction n arbitrary: a b g)
  case 0
  then show ?case by (simp add: bytes_at_def)
next
  case (Suc n)
  let ?w = "unat width"
  have ww: "width = of_nat ?w" by simp
  show ?case
  proof (cases "load_unit width (mem s) a = load_unit width (mem s) b")
    case True
    obtain j s' where j: "compare_units n width (a + width) (b + width) (g + 1) s = (if j = n then 0 else 1, g + 1 + of_nat j, s')"
      "j \<le> n" "mem s' = mem s"
      "bytes_at (mem s) (a + width) (j * ?w) = bytes_at (mem s) (b + width) (j * ?w)"
      "j < n \<longrightarrow> bytes_at (mem s) (a + width + of_nat (j * ?w)) ?w \<noteq> bytes_at (mem s) (b + width + of_nat (j * ?w)) ?w"
      using Suc [of "a + width" "b + width" "g + 1"] by blast
    have "bytes_at (mem s) a (?w + j * ?w) = bytes_at (mem s) b (?w + j * ?w)"
      using True j(4) ww by (simp add: bytes_at_append unit_eq [OF w])
    moreover have "x + of_nat (Suc j * ?w) = x + width + of_nat (j * ?w)" for x :: u32
      by (simp add: add.assoc)
    ultimately show ?thesis
      using True j by (intro exI [of _ "Suc j"] exI [of _ s']) (simp add: add.assoc)
  next
    case False
    then show ?thesis
      using unit_eq [OF w, of "mem s" a b]
      by (intro exI [of _ 0]) (simp add: differ_message_def bytes_at_def)
  qed
qed

text \<open>
  Compare reports the number of leading objects that are the same in both areas, gives 0
  exactly when all of them are, and leaves memory as it was.
\<close>

theorem cmp_compares:
  assumes "length argv = 4" and "cmd_get_data_size (argv ! 0) 4 = of_nat w" and "w \<in> {1, 2, 4}"
    and "a = hex_at argv 1 + base_address s" and "b = hex_at argv 2 + base_address s" and "n = unat (hex_at argv 3)"
  shows "\<exists>j s'. do_mem_cmp cmdtp argv s = (if j = n then 0 else 1, same_message (of_nat w) (of_nat j) s') \<and>
    j \<le> n \<and> mem s' = mem s \<and> bytes_at (mem s) a (j * w) = bytes_at (mem s) b (j * w) \<and>
    (j < n \<longrightarrow> bytes_at (mem s) (a + of_nat (j * w)) w \<noteq> bytes_at (mem s) (b + of_nat (j * w)) w)"
proof -
  have w: "unat (of_nat w :: u32) = w" and sint_w: "\<not> sint (of_nat w :: u32) < 0" using assms(3) by auto
  have "unat (of_nat w :: u32) \<in> {1, 2, 4}" using assms(3) by (simp only: w)
  from compare_units_value [OF this, of n a b 0 s, unfolded w]
  obtain j s' where j: "compare_units n (of_nat w) a b 0 s = (if j = n then 0 else 1, 0 + of_nat j, s')" "j \<le> n" "mem s' = mem s"
    "bytes_at (mem s) a (j * w) = bytes_at (mem s) b (j * w)"
    "j < n \<longrightarrow> bytes_at (mem s) (a + of_nat (j * w)) w \<noteq> bytes_at (mem s) (b + of_nat (j * w)) w" by blast
  moreover have "do_mem_cmp cmdtp argv s = (if j = n then 0 else 1, same_message (of_nat w) (of_nat j) s')"
    unfolding do_mem_cmp_def Let_def assms(1,2) assms(4-6) [symmetric] using j(1) sint_w by simp
  ultimately show ?thesis by blast
qed

section \<open>The memory test on memory that works\<close>

text \<open>The words of the region from \<open>start\<close> on; the region does not wrap around.\<close>

definition word_at :: "(u32 \<Rightarrow> u8) \<Rightarrow> u32 \<Rightarrow> nat \<Rightarrow> u32" where
  "word_at m start k = load32 m (start + of_nat (4 * k))"

definition region :: "u32 \<Rightarrow> nat \<Rightarrow> bool" where
  "region start n \<longleftrightarrow> unat start + 4 * n \<le> 2 ^ 32"

lemma load_store: "load32 (store32 m a v) a = v"
proof (rule bit_word_eqI)
  fix n :: nat
  consider "n < 8" | "8 \<le> n" "n < 16" | "16 \<le> n" "n < 24" | "24 \<le> n" by linarith
  then show "bit (load32 (store32 m a v) a) n = bit v n"
    by cases (auto simp: load32_def store32_def bit_simps dest: bit_imp_le_length)
qed

lemma words_apart: "region start n \<Longrightarrow> i < n \<Longrightarrow> j < n \<Longrightarrow> i \<noteq> j \<Longrightarrow>
    clear_of (start + of_nat (4 * i)) 4 (start + of_nat (4 * j)) 4"
  unfolding clear_of_def
proof (intro allI impI notI)
  fix k l :: nat
  assume r: "region start n" "i < n" "j < n" "i \<noteq> j" and kl: "k < 4" "l < 4"
    and "start + of_nat (4 * i) + of_nat k = start + of_nat (4 * j) + of_nat l"
  then have "start + of_nat (4 * i + k) = start + of_nat (4 * j + l)" by (simp add: add.assoc)
  moreover have "4 * i + k < 4 * n" "4 * j + l < 4 * n" using r kl by linarith+
  ultimately have "unat start + (4 * i + k) = unat start + (4 * j + l)"
    using r(1) by (intro offsets_apart [of _ "4 * n"]) (simp_all add: region_def)
  then show False using r(4) kl by presburger
qed

lemma word_at_store:
  assumes "region start n" and "i < n" and "j < n"
  shows "word_at (store32 m (start + of_nat (4 * i)) v) start j = (if i = j then v else word_at m start j)"
proof (cases "i = j")
  case False
  have "clear_of (start + of_nat (4 * j)) 4 (start + of_nat (4 * i)) 4" using assms False by (intro words_apart) auto
  from only_changed_load32 [OF only_changed_store32 this, of 0 m v] False show ?thesis by (simp add: word_at_def)
qed (simp add: word_at_def load_store)

text \<open>Outside the region and the parking address nothing changes.\<close>

definition spared :: "u32 \<Rightarrow> nat \<Rightarrow> (u32 \<Rightarrow> u8) \<Rightarrow> (u32 \<Rightarrow> u8) \<Rightarrow> bool" where
  "spared start n m m' \<longleftrightarrow> (\<forall>x. 4 \<le> unat x \<longrightarrow> 4 * n \<le> unat (x - start) \<longrightarrow> m' x = m x)"

lemma spared_trans [trans]: "spared start n m m1 \<Longrightarrow> spared start n m1 m2 \<Longrightarrow> spared start n m m2"
  by (simp add: spared_def)

lemma spared_refl [simp]: "spared start n m m" by (simp add: spared_def)

lemma spared_store:
  assumes "i < n"
  shows "spared start n m (store32 m (start + of_nat (4 * i)) v)"
proof -
  have "only_changed start (4 * n) m (store32 m (start + of_nat (4 * i)) v)"
    using assms by (intro only_changed_sub [OF only_changed_store32]) simp
  then show ?thesis by (simp add: spared_def only_changed_def)
qed

lemma spared_park: "spared start n m (store32 m 0 v)"
  using only_changed_store32 [of 0 m v] by (simp add: spared_def only_changed_def)

text \<open>A part of the test that found nothing: only memory changed, inside the region.\<close>

definition tested :: "u32 \<Rightarrow> nat \<Rightarrow> ('d, 'z) mach_scheme \<Rightarrow> ('d, 'z) mach_scheme \<Rightarrow> bool" where
  "tested start n s s' \<longleftrightarrow> (\<exists>m. s' = s\<lparr>mem := m\<rparr> \<and> spared start n (mem s) m)"

lemma tested_refl: "tested start n s s"
  unfolding tested_def by (intro exI [of _ "mem s"]) simp

lemma tested_trans [trans]: "tested start n s s1 \<Longrightarrow> tested start n s1 s2 \<Longrightarrow> tested start n s s2"
  unfolding tested_def by (elim exE conjE) (auto intro: spared_trans)

lemma tested_poke: "i < n \<Longrightarrow> tested start n s (poke (start + of_nat (4 * i)) v s)"
  unfolding tested_def poke_def by (intro exI conjI) (rule refl, rule spared_store)

lemma tested_park: "tested start n s (poke 0 v s)"
  unfolding tested_def poke_def by (intro exI conjI) (rule refl, rule spared_park)

lemma word_at_poke:
  "region start n \<Longrightarrow> i < n \<Longrightarrow> j < n \<Longrightarrow>
     word_at (mem (poke (start + of_nat (4 * i)) v s)) start j = (if i = j then v else word_at (mem s) start j)"
  by (simp add: poke_def word_at_store del: of_nat_mult)

lemma first_word: "load32 m start = word_at m start 0" by (simp add: word_at_def)

lemma park_clear:
  assumes "4 \<le> unat start" and "region start n" and "0 < n"
  shows "load32 (store32 m 0 v) start = load32 m start"
proof -
  have "clear_of start 4 0 4"
    unfolding clear_of_def
  proof (intro allI impI notI)
    fix i j :: nat
    assume ij: "i < 4" "j < 4" and "start + of_nat i = 0 + of_nat j"
    moreover have "unat start + 4 \<le> 2 ^ 32" using assms(2,3) by (simp add: region_def)
    ultimately have "unat start + i = unat (0 :: u32) + j" by (intro offsets_apart [of _ 4]) simp_all
    then show False using assms(1) ij by simp
  qed
  from only_changed_load32 [OF only_changed_store32 this, of 0] show ?thesis by simp
qed

lemma data_line_ok:
  assumes "4 \<le> unat start" and "region start n" and "0 < n"
  shows "tested start n s (data_line start val s)"
proof -
  note keep = park_clear [OF assms]
  have "data_line start val s = poke 0 val (poke start (NOT val) (poke 0 (NOT val) (poke start val s)))"
    by (simp add: data_line_def Let_def poke_def keep load_store)
  moreover have "tested start n t (poke start v t)" for v and t :: "('a, 'b) mach_scheme"
    using tested_poke [OF assms(3), of start t v] by simp
  ultimately show ?thesis using tested_park tested_trans by metis
qed

lemma data_lines_ok:
  assumes "4 \<le> unat start" and "region start n" and "0 < n"
  shows "tested start n s (data_lines start s)"
proof -
  have "tested start n s (foldl (\<lambda>s val. data_line start val s) s vs)" for vs
    by (induction vs arbitrary: s) (auto intro: tested_refl tested_trans [OF data_line_ok [OF assms]])
  then show ?thesis by (simp add: data_lines_def)
qed

lemma word_addr_at: "word_addr start offset = start + of_nat (4 * unat offset)"
  by (simp add: word_addr_def)

lemma load_word_addr: "load32 m (word_addr start offset) = word_at m start (unat offset)"
  by (simp only: word_at_def word_addr_at)

lemma offsets_range:
  assumes "offset \<in> set (offsets len)"
  shows "unat offset < unat len" and "0 < unat offset"
proof -
  have "offset < len" using assms set_takeWhileD unfolding offsets_def by fastforce
  then show "unat offset < unat len" by (simp add: word_less_nat_alt)
  obtain k where k: "offset = push_bit k 1" "k < 32" using assms set_takeWhileD unfolding offsets_def by fastforce
  have "push_bit k (1 :: u32) = 2 ^ k" by (simp add: push_bit_eq_mult)
  then show "0 < unat offset" using k unat_pow2 [of k] by simp
qed

lemma fill_offsets:
  assumes "region start n" and "\<forall>x\<in>set os. unat x < n"
  shows "tested start n s (foldl (\<lambda>s x. poke (word_addr start x) v s) s os) \<and>
    (\<forall>j<n. word_at (mem (foldl (\<lambda>s x. poke (word_addr start x) v s) s os)) start j =
       (if j \<in> unat ` set os then v else word_at (mem s) start j))"
  using assms(2)
proof (induction os arbitrary: s)
  case (Cons x os)
  let ?s = "poke (word_addr start x) v s"
  have x: "unat x < n" using Cons.prems by simp
  have "tested start n s ?s" unfolding word_addr_at by (rule tested_poke [OF x])
  moreover have "\<forall>j<n. word_at (mem ?s) start j = (if unat x = j then v else word_at (mem s) start j)"
    unfolding word_addr_at using word_at_poke [OF assms(1) x] by blast
  ultimately show ?case using Cons.IH [of ?s] Cons.prems by (auto intro: tested_trans)
qed (simp add: tested_refl)

lemma stuck_low_ok:
  assumes "region start n" and "\<forall>x\<in>set offs. unat x < n \<and> word_at (mem s) start (unat x) = PATTERN" and "set ts \<subseteq> set offs"
  shows "\<exists>s'. stuck_low start offs ts s = (False, s') \<and> tested start n s s'"
  using assms(2,3)
proof (induction ts arbitrary: s)
  case (Cons t ts)
  let ?s1 = "poke (word_addr start t) ANTI_PATTERN s"
  let ?s2 = "poke (word_addr start t) PATTERN ?s1"
  have t: "unat t < n" using Cons.prems by auto
  have w1: "word_at (mem ?s1) start j = (if unat t = j then ANTI_PATTERN else word_at (mem s) start j)" if "j < n" for j
    unfolding word_addr_at using word_at_poke [OF assms(1) t that] .
  have w2: "word_at (mem ?s2) start j = (if unat t = j then PATTERN else word_at (mem ?s1) start j)" if "j < n" for j
    unfolding word_addr_at using word_at_poke [OF assms(1) t that] .
  have none: "find (\<lambda>x. load32 (mem ?s1) (word_addr start x) \<noteq> PATTERN \<and> x \<noteq> t) offs = None"
    unfolding find_None_iff load_word_addr using w1 Cons.prems(1) by (auto simp: word_unat_eq_iff)
  have "\<exists>s'. stuck_low start offs ts ?s2 = (False, s') \<and> tested start n ?s2 s'"
    using Cons.prems w1 w2 by (intro Cons.IH) auto
  moreover have "tested start n s ?s2"
    unfolding word_addr_at using tested_trans [OF tested_poke [OF t] tested_poke [OF t]] .
  ultimately show ?case using none by (auto simp: Let_def intro: tested_trans)
qed (simp add: tested_refl)

lemma address_lines_ok:
  assumes r: "region start n" and "unat len < n"
  shows "\<exists>s'. address_lines start len s = (False, s') \<and> tested start n s s'"
proof -
  let ?offs = "offsets len"
  let ?s1 = "foldl (\<lambda>s x. poke (word_addr start x) PATTERN s) s ?offs"
  let ?s2 = "poke (start + of_nat (4 * 0)) ANTI_PATTERN ?s1"
  let ?s3 = "poke (start + of_nat (4 * 0)) PATTERN ?s2"
  have offs: "unat x < n" "0 < unat x" if "x \<in> set ?offs" for x
    using offsets_range [OF that] assms(2) by simp_all
  have f: "tested start n s ?s1" "\<forall>j<n. word_at (mem ?s1) start j = (if j \<in> unat ` set ?offs then PATTERN else word_at (mem s) start j)"
    using fill_offsets [OF r, where os = ?offs and v = PATTERN and s = s] offs by blast+
  have n: "0 < n" using assms(2) by simp
  have w1: "word_at (mem ?s1) start (unat x) = PATTERN" if "x \<in> set ?offs" for x using f(2) offs [OF that] that by simp
  have w2: "word_at (mem ?s2) start (unat x) = PATTERN" if "x \<in> set ?offs" for x
    using word_at_poke [OF r n offs(1) [OF that], of ANTI_PATTERN ?s1] w1 [OF that] offs(2) [OF that] by simp
  have w3: "word_at (mem ?s3) start (unat x) = PATTERN" if "x \<in> set ?offs" for x
    using word_at_poke [OF r n offs(1) [OF that], of PATTERN ?s2] w2 [OF that] by simp
  have "find (\<lambda>x. load32 (mem ?s2) (word_addr start x) \<noteq> PATTERN) ?offs = None"
    unfolding find_None_iff load_word_addr using w2 by blast
  moreover have "\<exists>s'. stuck_low start ?offs ?offs ?s3 = (False, s') \<and> tested start n ?s3 s'"
    using offs w3 by (intro stuck_low_ok [OF r]) auto
  moreover have "tested start n s ?s3"
    using tested_trans [OF f(1) tested_trans [OF tested_poke [OF n] tested_poke [OF n]]] .
  ultimately show ?thesis by (auto simp: address_lines_def Let_def intro: tested_trans)
qed

lemma fill_pattern_ok:
  assumes r: "region start n" and "i + k \<le> n"
  shows "tested start n s (fill_pattern k p (start + of_nat (4 * i)) s) \<and>
    (\<forall>j<n. word_at (mem (fill_pattern k p (start + of_nat (4 * i)) s)) start j =
       (if i \<le> j \<and> j < i + k then p + of_nat (j - i) else word_at (mem s) start j))"
  using assms(2)
proof (induction k arbitrary: i p s)
  case (Suc k)
  let ?s = "poke (start + of_nat (4 * i)) p s"
  have i: "i < n" using Suc.prems by simp
  have next_word: "start + of_nat (4 * i) + 4 = start + of_nat (4 * Suc i)" by simp
  note IH = Suc.IH [of "Suc i" ?s "p + 1"]
  have "word_at (mem ?s) start j = (if i = j then p else word_at (mem s) start j)" if "j < n" for j
    using word_at_poke [OF r i that] .
  then have "\<forall>j<n. word_at (mem (fill_pattern k (p + 1) (start + of_nat (4 * Suc i)) ?s)) start j =
      (if i \<le> j \<and> j < i + Suc k then p + of_nat (j - i) else word_at (mem s) start j)"
    using IH Suc.prems by (auto simp: not_less_eq_eq le_Suc_eq Suc_diff_le [symmetric] Suc_le_eq of_nat_diff algebra_simps)
  moreover have "tested start n s (fill_pattern k (p + 1) (start + of_nat (4 * Suc i)) ?s)"
    using IH Suc.prems tested_trans [OF tested_poke [OF i]] by auto
  ultimately show ?case by (simp only: fill_pattern.simps next_word)
qed (auto simp: tested_refl)

lemma check_words_ok:
  assumes r: "region start n" and "i + k \<le> n" and "\<forall>j<k. word_at (mem s) start (i + j) = expect (p + of_nat j)"
  shows "\<exists>s'. check_words msg expect stored k p (start + of_nat (4 * i)) s = (False, s') \<and> tested start n s s' \<and>
    (\<forall>j<n. word_at (mem s') start j = (if i \<le> j \<and> j < i + k then stored (p + of_nat (j - i)) else word_at (mem s) start j))"
  using assms(2,3)
proof (induction k arbitrary: i p s)
  case (Suc k)
  let ?s = "poke (start + of_nat (4 * i)) (stored p) s"
  have i: "i < n" using Suc.prems by simp
  have next_word: "start + of_nat (4 * i) + 4 = start + of_nat (4 * Suc i)" by simp
  have w: "word_at (mem ?s) start j = (if i = j then stored p else word_at (mem s) start j)" if "j < n" for j
    using word_at_poke [OF r i that] .
  have "\<forall>j<k. word_at (mem ?s) start (Suc i + j) = expect (p + 1 + of_nat j)"
    using Suc.prems w by (auto simp: algebra_simps dest: spec [of _ "Suc _"])
  then obtain s' where s': "check_words msg expect stored k (p + 1) (start + of_nat (4 * Suc i)) ?s = (False, s')" "tested start n ?s s'"
    "\<forall>j<n. word_at (mem s') start j = (if Suc i \<le> j \<and> j < Suc i + k then stored (p + 1 + of_nat (j - Suc i)) else word_at (mem ?s) start j)"
    using Suc.IH [of "Suc i" ?s "p + 1"] Suc.prems(1) by auto
  have "load32 (mem s) (start + of_nat (4 * i)) = expect p" using Suc.prems(2) by (auto simp: word_at_def dest: spec [of _ 0])
  moreover have "\<forall>j<n. word_at (mem s') start j = (if i \<le> j \<and> j < i + Suc k then stored (p + of_nat (j - i)) else word_at (mem s) start j)"
    using s'(3) w by (auto simp: not_less_eq_eq le_Suc_eq Suc_le_eq of_nat_diff algebra_simps)
  moreover have "tested start n s s'" using s'(2) by (rule tested_trans [OF tested_poke [OF i]])
  ultimately show ?case
    using s'(1) by (intro exI [of _ s']) (simp only: check_words.simps next_word simp_thms if_False)
qed (auto intro: tested_refl)

lemma device_test_ok:
  assumes "region start n"
  shows "\<exists>s'. device_test start n s = (False, s') \<and> tested start n s s' \<and> (\<forall>j<n. word_at (mem s') start j = 0)"
proof -
  let ?s1 = "fill_pattern n 1 start s"
  have s1: "tested start n s ?s1" "\<forall>j<n. word_at (mem ?s1) start j = 1 + of_nat j"
    using fill_pattern_ok [OF assms, where i = 0 and k = n and s = s and p = 1] by simp_all
  obtain s2 where s2: "check_words ''FAILURE (read/write) @'' (\<lambda>p. p) (\<lambda>p. NOT p) n 1 start ?s1 = (False, s2)"
    "tested start n ?s1 s2" "\<forall>j<n. word_at (mem s2) start j = NOT (1 + of_nat j)"
    using check_words_ok [OF assms, where msg = "''FAILURE (read/write) @''" and i = 0 and k = n and s = ?s1 and expect = "\<lambda>p. p" and p = 1 and stored = "\<lambda>p. NOT p"] s1(2) by auto
  obtain s3 where s3: "check_words ''FAILURE (read/write): @'' (\<lambda>p. NOT p) (\<lambda>_. 0) n 1 start s2 = (False, s3)"
    "tested start n s2 s3" "\<forall>j<n. word_at (mem s3) start j = 0"
    using check_words_ok [OF assms, where msg = "''FAILURE (read/write): @''" and i = 0 and k = n and s = s2 and expect = "\<lambda>p. NOT p" and p = 1 and stored = "\<lambda>_. 0"] s2(3) by auto
  have "tested start n s s3" using s1(1) s2(2) s3(2) tested_trans by blast
  then show ?thesis using s2(1) s3 by (simp add: device_test_def)
qed

definition iteration_line :: "nat \<Rightarrow> print" where
  "iteration_line i = Printf (''Iteration: %6d'' @ [CHR 0x0D]) [Num (of_nat i)]"

definition tested_line :: "nat \<Rightarrow> print" where
  "tested_line i = Printf (line ''Tested %d iteration(s) without errors.'') [Num (of_nat i)]"

lemma region_words:
  "unat ((b :: u32) div 4) < unat (b div 4 + 1)"
proof -
  have "unat (b div 4) + 1 < 2 ^ 32" using unat_u32_less [of b] by (simp add: unat_div)
  then have "unat (b div 4 + 1) = unat (b div 4) + 1" by (intro unat_add_value(1)) simp_all
  then show ?thesis by simp
qed

lemma mtest_step_ok:
  assumes key: "\<forall>s. ctrlc io s = (False, s)" and n: "n = unat ((e - start) div 4 + 1)"
    and r: "region start n" "4 \<le> unat start" and i: "i \<le> l" "l < 2 ^ 31 - 1"
  shows "\<exists>m. mtest_step io start e (of_nat l) (of_nat i, s) =
      Some (None, of_nat (i + 1), s\<lparr>mem := m, outp := iteration_line i # outp s\<rparr>) \<and>
    (\<forall>j<n. word_at m start j = 0) \<and> spared start n (mem s) m"
proof -
  let ?s = "printf (''Iteration: %6d'' @ [CHR 0x0D]) [Num (of_nat i)] s"
  have len: "unat ((e - start) div 4) < n" and n0: "0 < n" using region_words [of "e - start"] n by simp_all
  obtain s1 where s1: "data_lines start ?s = s1" "tested start n ?s s1" using data_lines_ok [OF r(2,1) n0] by blast
  obtain s2 where s2: "address_lines start ((e - start) div 4) s1 = (False, s2)" "tested start n s1 s2"
    using address_lines_ok [OF r(1) len] by blast
  obtain s3 where s3: "device_test start n s2 = (False, s3)" "tested start n s2 s3" "\<forall>j<n. word_at (mem s3) start j = 0"
    using device_test_ok [OF r(1)] by blast
  have "tested start n ?s s3" using s1(2) s2(2) s3(2) tested_trans by blast
  then obtain m where m: "s3 = ?s\<lparr>mem := m\<rparr>" "spared start n (mem s) m" by (auto simp: tested_def)
  have "unat (of_nat i :: u32) = i" "unat (of_nat l :: u32) = l" using i by (simp_all add: unat_of_nat_u32)
  then have "\<not> sint (of_nat l :: u32) < sint (of_nat i :: u32)"
    using i by (simp add: sint_small [of "of_nat l"] sint_small [of "of_nat i"])
  moreover have suc: "of_nat (i + 1) = (of_nat i + 1 :: u32)" by simp
  ultimately have "mtest_step io start e (of_nat l) (of_nat i, s) = Some (None, of_nat (i + 1), s3)"
    unfolding suc using key s1(1) s2(1) s3(1) by (simp add: mtest_step_def n [symmetric])
  moreover have "s3 = s\<lparr>mem := m, outp := iteration_line i # outp s\<rparr>"
    by (simp add: m(1) printf_def iteration_line_def)
  ultimately show ?thesis using m s3(3) by (intro exI [of _ m]) simp
qed

lemma mtest_loop:
  assumes key: "\<forall>s. ctrlc io s = (False, s)" and n: "n = unat ((e - start) div 4 + 1)"
    and r: "region start n" "4 \<le> unat start" and l: "0 < l" "l < 2 ^ 31 - 1" and "i \<le> l"
  shows "\<exists>m. loopM (mtest_step io start e (of_nat l)) (of_nat i, s) =
      Some (0, of_nat (l + 1), s\<lparr>mem := m, outp := tested_line l # map iteration_line (rev [i..<l + 1]) @ outp s\<rparr>) \<and>
    (\<forall>j<n. word_at m start j = 0) \<and> spared start n (mem s) m"
  using \<open>i \<le> l\<close>
proof (induction "l - i" arbitrary: i s)
  case 0
  then have i: "i = l" by simp
  obtain m where m: "mtest_step io start e (of_nat l) (of_nat i, s) =
      Some (None, of_nat (i + 1), s\<lparr>mem := m, outp := iteration_line i # outp s\<rparr>)"
    "\<forall>j<n. word_at m start j = 0" "spared start n (mem s) m"
    using mtest_step_ok [OF key n r 0(2) l(2)] by blast
  let ?s = "s\<lparr>mem := m, outp := iteration_line i # outp s\<rparr>"
  have u: "unat (of_nat (l + 1) :: u32) = l + 1" "unat (of_nat l :: u32) = l" using l by (intro unat_of_nat_u32; simp)+
  have "sint (of_nat l :: u32) < sint (of_nat (l + 1) :: u32)"
    using l u sint_small [of "of_nat l"] sint_small [of "of_nat (l + 1)"] by simp
  moreover have "(of_nat l :: u32) \<noteq> 0" using u(2) l(1) by (metis less_irrefl unat_0)
  ultimately have "mtest_step io start e (of_nat l) (of_nat (l + 1), ?s) =
      Some (Some 0, of_nat (l + 1), ?s\<lparr>outp := tested_line l # outp ?s\<rparr>)"
    using key by (simp add: mtest_step_def printf_def tested_line_def)
  then have "loopM (mtest_step io start e (of_nat l)) (of_nat i, s) = Some (0, of_nat (l + 1), ?s\<lparr>outp := tested_line l # outp ?s\<rparr>)"
    using m(1) i by (simp add: loopM_step del: of_nat_Suc of_nat_add)
  then show ?case using m(2,3) i by (intro exI [of _ m]) simp
next
  case (Suc k)
  obtain m where m: "mtest_step io start e (of_nat l) (of_nat i, s) =
      Some (None, of_nat (i + 1), s\<lparr>mem := m, outp := iteration_line i # outp s\<rparr>)" "spared start n (mem s) m"
    using mtest_step_ok [OF key n r Suc.prems l(2)] by blast
  let ?s = "s\<lparr>mem := m, outp := iteration_line i # outp s\<rparr>"
  have k: "k = l - (i + 1)" "i + 1 \<le> l" using Suc.hyps(2) by simp_all
  obtain m' where m': "loopM (mtest_step io start e (of_nat l)) (of_nat (i + 1), ?s) =
      Some (0, of_nat (l + 1), ?s\<lparr>mem := m', outp := tested_line l # map iteration_line (rev [i + 1..<l + 1]) @ outp ?s\<rparr>)"
    "\<forall>j<n. word_at m' start j = 0" "spared start n (mem ?s) m'"
    using Suc.hyps(1) [OF k, of ?s] by blast
  have "loopM (mtest_step io start e (of_nat l)) (of_nat i, s) = loopM (mtest_step io start e (of_nat l)) (of_nat (i + 1), ?s)"
    by (rule loopM_step(1)) (rule m(1))
  moreover have "[i..<l + 1] = i # [i + 1..<l + 1]" using Suc.prems by (rule upt_conv_Cons [OF le_imp_less_Suc, unfolded Suc_eq_plus1])
  moreover have "spared start n (mem s) m'" using m(2) m'(3) by (auto intro: spared_trans)
  ultimately show ?case using m'(1,2) by (intro exI [of _ m']) (simp del: upt_Suc)
qed

text \<open>
  C28: on memory that works, and while no key is pressed, the memory test returns after the number of
  iterations it was given and reports no failure; the region is zero afterwards, and nothing but the
  region and the word at address 0 was written.
\<close>

theorem mtest_passes:
  assumes "\<forall>s. ctrlc io s = (False, s)" and "length argv = 5" and "start = hex_at argv 1" and "e = hex_at argv 2"
    and "l = unat (hex_at argv 4)" and "0 < l" and "l < 2 ^ 31 - 1"
    and "n = unat ((e - start) div 4 + 1)" and "region start n" and "4 \<le> unat start"
  shows "\<exists>m. do_mem_mtest io argv s = Some (0, s\<lparr>mem := m,
      outp := tested_line l # map iteration_line (rev [1..<l + 1]) @ Printf (line ''Testing %08x ... %08x:'') [Num start, Num e] # outp s\<rparr>) \<and>
    (\<forall>j<n. word_at m start j = 0) \<and> spared start n (mem s) m"
proof -
  have l: "hex_at argv 4 = of_nat l" "1 \<le> l" using assms(5,6) by simp_all
  let ?s = "printf (line ''Testing %08x ... %08x:'') [Num start, Num e] s"
  let ?out = "tested_line l # map iteration_line (rev [1..<l + 1])"
  obtain m where m: "loopM (mtest_step io start e (of_nat l)) (1, ?s) =
      Some (0, of_nat (l + 1), ?s\<lparr>mem := m, outp := ?out @ outp ?s\<rparr>)"
    "\<forall>j<n. word_at m start j = 0" "spared start n (mem s) m"
    using mtest_loop [OF assms(1,8-10,6,7) l(2), of ?s] by (simp only: append_Cons of_nat_1 printf_fields) blast
  have "do_mem_mtest io argv s = Some (0, ?s\<lparr>mem := m, outp := ?out @ outp ?s\<rparr>)"
    unfolding do_mem_mtest_def Let_def assms(2) assms(3,4) [symmetric] l(1)
    using m(1) by (simp del: One_nat_def upt_Suc add: assms(3) [symmetric])
  then show ?thesis using m(2,3) by (intro exI [of _ m]) (simp add: printf_def)
qed

section \<open>The properties at a concrete machine\<close>

text \<open>A flash bank at the top of the address space; every byte of memory holds the low byte of its address.\<close>

definition sample_mem :: "(u32 \<times> u8 list) list mmach" where
  "sample_mem = \<lparr>mem = (\<lambda>a. ucast a), dev = [], outp = [], mmc_erase_blocks = 0, mmc_protect_blk = 0, dev_total_blk = 0,
     env_ram = (\<lambda>_. 0), ptr_crc = 0, env_addr = Env_ram, env_valid = True, gd_reloc = True, env_offset = 0,
     env_id = 0, gd_baudrate = 0, load_addr = 0, bi_ip_addr = 0, bi_enetaddr = [], boot_file = [],
     flash_banks = [sample_bank 0xFFFC0000 [0, 0]], dp_last_addr = 0, dp_last_size = 0, dp_last_length = 0x40,
     mm_last_addr = 0, mm_last_size = 0, base_address = 0x1000\<rparr>"

definition copy_words :: "u8 list list" where
  "copy_words = [asc ''cp.w'', asc ''10'', asc ''f000'', asc ''3'']"

lemma copy_words_simps [simp]:
  "length copy_words = 4" "cmd_get_data_size (copy_words ! 0) 4 = of_nat 2"
  "hex_at copy_words (Suc 0) = 0x10" "hex_at copy_words 2 = 0xF000" "hex_at copy_words 3 = 3"
  by code_simp+

theorem cp_copies_witness:
  "do_mem_cp sample_drv (sample_cmd ''cp'') copy_words sample_mem =
     Some (0, sample_mem\<lparr>mem := blit (mem sample_mem) 0x10000 6 (\<lambda>i. mem sample_mem (0x1010 + of_nat i))\<rparr>)"
proof -
  have "addr2info 0x10000 sample_mem = None"
    by (simp add: addr2info_def sample_mem_def in_bank_def sample_bank_def b_end_def)
  moreover have "base_address sample_mem = 0x1000" by (simp add: sample_mem_def)
  ultimately show ?thesis
    using cp_copies [of copy_words 2 "0x1010" sample_mem "0x10000" 6 sample_drv "sample_cmd ''cp''"] by simp
qed

theorem cmp_compares_witness:
  "\<exists>j s'. do_mem_cmp (sample_cmd ''cmp'') copy_words sample_mem = (if j = 3 then 0 else 1, same_message 2 (of_nat j) s') \<and>
     mem s' = mem sample_mem"
proof -
  have "2 \<in> {1, 2, 4 :: nat}" "3 = unat (hex_at copy_words 3)" by simp_all
  from cmp_compares [OF copy_words_simps(1,2) this(1) refl refl this(2), where s = sample_mem and cmdtp = "sample_cmd ''cmp''"]
  show ?thesis by (simp only: of_nat_numeral) blast
qed

definition test_words :: "u8 list list" where
  "test_words = [asc ''mtest'', asc ''100'', asc ''10f'', asc ''0'', asc ''2'']"

lemma test_words_simps [simp]:
  "length test_words = 5" "hex_at test_words 1 = 0x100" "hex_at test_words 2 = 0x10F" "hex_at test_words 4 = 2"
  by code_simp+

theorem mtest_passes_witness:
  "\<exists>m. do_mem_mtest typed_shell test_words (typed_state []) = Some (0, (typed_state [])\<lparr>mem := m,
      outp := tested_line 2 # map iteration_line (rev [1..<2 + 1]) @ Printf (line ''Testing %08x ... %08x:'') [Num 0x100, Num 0x10F] #
        outp (typed_state [])\<rparr>) \<and>
    (\<forall>j<4. word_at m 0x100 j = 0)"
proof -
  have key: "\<forall>s. ctrlc typed_shell s = (False, s)" by (simp add: typed_shell_def)
  have r: "(4 :: nat) = unat ((0x10F - 0x100 :: u32) div 4 + 1)" "region 0x100 4" "4 \<le> unat (0x100 :: u32)"
    and l: "2 = unat (hex_at test_words 4)" "0 < (2 :: nat)" "(2 :: nat) < 2 ^ 31 - 1"
    by (simp_all add: region_def)
  note w = test_words_simps(1) test_words_simps(2,3) [symmetric]
  from mtest_passes [OF key w l r, of "typed_state []"] show ?thesis by blast
qed

end
