(* ===== verification/Srec.thy ===== *)
theory Srec
  imports Flash
begin

text \<open>
  Loading S-records over the serial line: \<open>common/s_record.c\<close> and the command \<open>loads\<close> of
  \<open>common/cmd_load.c\<close>. A line is the list of its bytes up to the terminator.
\<close>

section \<open>Decoding a record (s_record.c)\<close>

definition SREC_START :: int where "SREC_START = 0"
definition SREC_DATA2 :: int where "SREC_DATA2 = 1"
definition SREC_DATA3 :: int where "SREC_DATA3 = 2"
definition SREC_DATA4 :: int where "SREC_DATA4 = 3"
definition SREC_COUNT :: int where "SREC_COUNT = 5"
definition SREC_END4 :: int where "SREC_END4 = 7"
definition SREC_END3 :: int where "SREC_END3 = 8"
definition SREC_END2 :: int where "SREC_END2 = 9"
definition SREC_EMPTY :: int where "SREC_EMPTY = 10"
definition SREC_E_BADTYPE :: int where "SREC_E_BADTYPE = -1"
definition SREC_E_NOSREC :: int where "SREC_E_NOSREC = -2"
definition SREC_E_BADCHKS :: int where "SREC_E_BADCHKS = -3"
definition SREC_MAXRECLEN :: nat where "SREC_MAXRECLEN = 516"

definition hex1_bin :: "u8 \<Rightarrow> int" where
  "hex1_bin c =
     (if 0x30 \<le> c \<and> c \<le> 0x39 then uint c - 0x30
      else if 0x61 \<le> c \<and> c \<le> 0x66 then uint c + 10 - 0x61
      else if 0x41 \<le> c \<and> c \<le> 0x46 then uint c + 10 - 0x41 else -1)"

definition hex2_bin :: "u8 list \<Rightarrow> int" where
  "hex2_bin s =
     (let i = hex1_bin (peek s 0)
      in if i < 0 then -1
         else let j = hex1_bin (peek s 1) in if j < 0 then -1 else 16 * i + j)"

text \<open>
  Reading \<open>n\<close> bytes: the bytes, the rest of the input and the checksum; \<open>False\<close> when a pair of
  characters is no number, the result \<open>SREC_E_NOSREC\<close>.
\<close>

primrec srec_bytes :: "nat \<Rightarrow> u8 list \<Rightarrow> u8 \<Rightarrow> bool \<times> u8 list \<times> u8 list \<times> u8" where
  "srec_bytes 0 s chksum = (True, [], s, chksum)"
| "srec_bytes (Suc n) s chksum =
     (let v = hex2_bin s
      in if v < 0 then (False, [], s, chksum)
         else case srec_bytes n (drop 2 s) (chksum + word_of_int v) of
           (ok, vs, s, chksum) \<Rightarrow> (ok, word_of_int v # vs, s, chksum))"

text \<open>The record type: code, bytes of the address, and what is left of the count.\<close>

definition srec_kind :: "u8 \<Rightarrow> int \<Rightarrow> (int \<times> nat \<times> int) option" where
  "srec_kind v n =
     (if v = 0x30 then Some (SREC_START, 2, n - 3)
      else if v = 0x31 then Some (SREC_DATA2, 2, n - 3)
      else if v = 0x32 then Some (SREC_DATA3, 3, n - 4)
      else if v = 0x33 then Some (SREC_DATA4, 4, n - 5)
      else if v = 0x35 then Some (SREC_COUNT, 2, 0)
      else if v = 0x37 then Some (SREC_END4, 4, n - 5)
      else if v = 0x38 then Some (SREC_END3, 3, n - 4)
      else if v = 0x39 then Some (SREC_END2, 2, n - 3)
      else None)"

definition srec_address :: "u8 list \<Rightarrow> u32" where
  "srec_address vs = foldl (\<lambda>addr v. push_bit 8 addr + ucast v) 0 vs"

text \<open>The result, and the count, address and data it leaves in its arguments.\<close>

definition srec_decode :: "u8 list \<Rightarrow> int \<times> u32 \<Rightarrow> int \<times> int \<times> u32 \<times> u8 list" where
  "srec_decode inp = (\<lambda>(cnt, addr).
     case drop 1 (dropWhile (\<lambda>c. c \<noteq> 0x53) inp) of
       [] \<Rightarrow> (SREC_EMPTY, cnt, addr, [])
     | v # s \<Rightarrow>
         let n = hex2_bin s
         in if n < 0 then (SREC_E_NOSREC, n, addr, [])
            else case srec_kind v n of
              None \<Rightarrow> (SREC_E_BADTYPE, n, addr, [])
            | Some (srec_type, alen, n') \<Rightarrow>
                (case srec_bytes alen (drop 2 s) (word_of_int n) of
                   (ok, as, s, chksum) \<Rightarrow>
                     if \<not> ok then (SREC_E_NOSREC, n', srec_address as, [])
                     else case srec_bytes (nat n') s chksum of
                       (ok, bs, s, chksum) \<Rightarrow>
                         let v = hex2_bin s
                         in (if \<not> ok \<or> v < 0 then SREC_E_NOSREC
                             else if word_of_int v \<noteq> NOT chksum then SREC_E_BADCHKS
                             else srec_type, n', srec_address as, bs)))"

section \<open>The command loads (cmd_load.c)\<close>

text \<open>
  Read a line of at most \<open>k\<close> characters; \<open>None\<close> in the first component is the result -1. The
  console is checked for an interrupt when it is not the serial line (\<open>redirected\<close>).
\<close>

primrec read_record :: "bool \<Rightarrow> bool \<Rightarrow> ('d, 'z) emach_scheme shell_io \<Rightarrow> nat \<Rightarrow> ('d, 'z) emach_scheme \<Rightarrow>
    (u8 list option \<times> ('d, 'z) emach_scheme) option" where
  "read_record echo redirected io 0 s = Some (Some [], s)"
| "read_record echo redirected io (Suc k) s = do {
     (c, s) \<leftarrow> io_getc io s;
     let s = (if echo then putc c s else s);
     if c = 0x0D \<or> c = 0x0A then Some (Some [], s)
     else if c = 0 \<or> c = 0x03 then Some (None, s)
     else do {
       let (stop, s) = (if redirected then ctrlc io s else (False, s));
       if stop then Some (None, s)
       else do {
         (r, s) \<leftarrow> read_record echo redirected io k s;
         Some (case r of None \<Rightarrow> (None, s) | Some cs \<Rightarrow> (Some (c # cs), s))
       }
     }
   }"

text \<open>
  The data of a record goes to flash or to memory. A negative length asks \<open>memcpy\<close> for nearly
  the whole address space, from a buffer of 255 bytes: \<open>None\<close>.
\<close>

definition store_record :: "('d, 'z) flmach_scheme flash_drv \<Rightarrow> u32 \<Rightarrow> int \<Rightarrow> u8 list \<Rightarrow> ('d, 'z) flmach_scheme \<Rightarrow>
    (u32 \<times> ('d, 'z) flmach_scheme) option" where
  "store_record F store_addr binlen binbuf s =
     (case addr2info store_addr s of
        Some _ \<Rightarrow> do {
          (rc, s) \<leftarrow> flash_write F binbuf store_addr (word_of_int binlen) s;
          Some (rc, if rc \<noteq> 0 then flash_perror rc s else s)
        }
      | None \<Rightarrow>
          if binlen < 0 then None
          else Some (0, s\<lparr>mem := blit (mem s) store_addr (nat binlen) (\<lambda>i. binbuf ! i)\<rparr>))"

text \<open>
  The local variables of \<open>load_serial\<close> that live from record to record. The out parameters of
  \<open>srec_decode\<close>, the first two, have no value before the first record and are not used before.
\<close>

record srec_vars =
  binlen :: int
  rec_addr :: u32
  start_addr :: u32
  end_addr :: u32
  line_count :: nat

definition note_range :: "u32 \<Rightarrow> int \<Rightarrow> srec_vars \<Rightarrow> srec_vars" where
  "note_range store_addr n l =
     (let l = (if store_addr < start_addr l then l\<lparr>start_addr := store_addr\<rparr> else l);
          e = store_addr + word_of_int n - 1
      in if end_addr l < e then l\<lparr>end_addr := e\<rparr> else l)"

text \<open>The end record: the summary, and the variable \<open>filesize\<close>.\<close>

definition load_end :: "('d, 'z) flmach_scheme shell_io \<Rightarrow> srec_vars \<Rightarrow> ('d, 'z) flmach_scheme \<Rightarrow> ('d, 'z) flmach_scheme option" where
  "load_end io l s = do {
     s \<leftarrow> io_udelay io 10000 s;
     let total = end_addr l - start_addr l + 1;
     let s = printf (line (line [] @ line ''## First Load Addr = 0x%08lX'' @ line ''## Last  Load Addr = 0x%08lX'' @
           ''## Total Size      = 0x%08lX = %ld Bytes''))
         [Num (start_addr l), Num (end_addr l), Num total, Num total] s;
     (_, buf, _) \<leftarrow> vsprintf (asc ''%lX'') [VInt total];
     (_, s) \<leftarrow> setenv (env_io.truncate io) (asc ''filesize'') (Some buf) s;
     Some s
   }"

text \<open>One record: the result of a \<open>return\<close>, if there is one.\<close>

definition load_record :: "('d, 'z) flmach_scheme flash_drv \<Rightarrow> bool \<Rightarrow> bool \<Rightarrow> ('d, 'z) flmach_scheme shell_io \<Rightarrow> u32 \<Rightarrow>
    srec_vars \<times> ('d, 'z) flmach_scheme \<Rightarrow> (u32 option \<times> srec_vars \<times> ('d, 'z) flmach_scheme) option" where
  "load_record F echo redirected io offset = (\<lambda>(l, s). do {
     (r, s) \<leftarrow> read_record echo redirected io SREC_MAXRECLEN s;
     case r of
       None \<Rightarrow> Some (Some (-1), l, s)
     | Some rec \<Rightarrow>
         (case srec_decode rec (binlen l, rec_addr l) of (srec_type, n, addr, binbuf) \<Rightarrow>
            let l = l\<lparr>binlen := n, rec_addr := addr\<rparr>;
                go = (\<lambda>l s. let l = (if echo then l else l\<lparr>line_count := line_count l + 1\<rparr>)
                  in Some (None, l, if \<not> echo \<and> line_count l mod 100 = 0 then putc 0x2E s else s))
            in if srec_type < 0 then Some (Some (-1), l, s)
               else if srec_type \<in> {SREC_DATA2, SREC_DATA3, SREC_DATA4} then do {
                 (rc, s) \<leftarrow> store_record F (addr + offset) n binbuf s;
                 if rc \<noteq> 0 then Some (Some (-1), l, s) else go (note_range (addr + offset) n l) s
               }
               else if srec_type \<in> {SREC_END2, SREC_END3, SREC_END4} then do {
                 s \<leftarrow> load_end io l s;
                 Some (Some addr, l, s)
               }
               else go l s)
   })"

definition load_serial :: "('d, 'z) flmach_scheme flash_drv \<Rightarrow> bool \<Rightarrow> bool \<Rightarrow> ('d, 'z) flmach_scheme shell_io \<Rightarrow> u32 \<Rightarrow>
    ('d, 'z) flmach_scheme \<Rightarrow> (u32 \<times> ('d, 'z) flmach_scheme) option" where
  "load_serial F echo redirected io offset s =
     map_option (\<lambda>(addr, l, s). (addr, s)) (loopM (load_record F echo redirected io offset)
       (\<lparr>binlen = 0, rec_addr = 0, start_addr = -1, end_addr = 0, line_count = 0\<rparr>, s))"

text \<open>Drop the characters that come within \<open>n\<close> milliseconds.\<close>

primrec drop_trailing :: "('d, 'z) emach_scheme shell_io \<Rightarrow> nat \<Rightarrow> ('d, 'z) emach_scheme \<Rightarrow> ('d, 'z) emach_scheme option" where
  "drop_trailing io 0 s = Some s"
| "drop_trailing io (Suc n) s = do {
     let (key, s) = tstc io s;
     s \<leftarrow> (if key then map_option snd (io_getc io s) else Some s);
     s \<leftarrow> io_udelay io 1000 s;
     drop_trailing io n s
   }"

definition do_load_serial :: "env_config \<Rightarrow> ('d, 'z) flmach_scheme flash_drv \<Rightarrow> bool \<Rightarrow> ('d, 'z) flmach_scheme shell_io \<Rightarrow>
    u8 list list \<Rightarrow> ('d, 'z) flmach_scheme \<Rightarrow> (u32 \<times> ('d, 'z) flmach_scheme) option" where
  "do_load_serial C F redirected io argv s = do {
     env_echo \<leftarrow> getenv_str C s (asc ''loads_echo'');
     let echo = (case env_echo of Some v \<Rightarrow> peek v 0 = 0x31 | None \<Rightarrow> False);
     let offset = (if length argv = 2 then fst (simple_strtol (argv ! 1) 16) else 0);
     let s = printf (line ''## Ready for S-Record download ...'') [] s;
     (addr, s) \<leftarrow> load_serial F echo redirected io offset s;
     s \<leftarrow> drop_trailing io 100 s;
     if addr = -1 then Some (1, printf (line ''## S-Record download aborted'') [] s)
     else let s = printf (line ''## Start Addr      = 0x%08lX'') [Num addr] s
       in Some (0, s\<lparr>load_addr := addr\<rparr>)
   }"

section \<open>Records as they are written\<close>

definition hex_digit :: "nat \<Rightarrow> u8" where "hex_digit n = of_nat (if n < 10 then 48 + n else 55 + n)"

definition hex2 :: "u8 \<Rightarrow> u8 list" where "hex2 b = [hex_digit (unat b div 16), hex_digit (unat b mod 16)]"

definition hexes :: "u8 list \<Rightarrow> u8 list" where "hexes bs = concat (map hex2 bs)"

text \<open>A record of type \<open>t\<close> with the address bytes \<open>as\<close>, data \<open>bs\<close> and the count byte \<open>n\<close>.\<close>

definition srec_line :: "u8 \<Rightarrow> u8 \<Rightarrow> u8 list \<Rightarrow> u8 list \<Rightarrow> u8 list" where
  "srec_line t n as bs = [0x53, t] @ hexes (n # as @ bs @ [NOT (n + sum_list as + sum_list bs)])"

lemma hexes_simps [simp]: "hexes [] = []" "hexes (b # bs) = hex2 b @ hexes bs" "hexes (as @ bs) = hexes as @ hexes bs"
  by (simp_all add: hexes_def)

lemma hex1_bin_digit:
  assumes "n < 16"
  shows "hex1_bin (hex_digit n) = int n"
proof -
  have "\<forall>n\<in>set [0..<16]. hex1_bin (hex_digit n) = int n" by code_simp
  then show ?thesis using assms by simp
qed

lemma hex_digit_plain:
  assumes "n < 16"
  shows "hex_digit n \<notin> {0, 0x03, 0x0A, 0x0D}"
proof -
  have "\<forall>n\<in>set [0..<16]. hex_digit n \<notin> set [0, 0x03, 0x0A, 0x0D]" by code_simp
  then show ?thesis using assms by simp
qed

lemma hex2_length [simp]: "length (hex2 b) = 2" "length (hexes bs) = 2 * length bs"
  by (induction bs) (simp_all add: hex2_def)

lemma hex2_bin_hex2 [simp]: "hex2_bin (hex2 b @ s) = uint b"
proof -
  have "unat b div 16 < 16" using unat_u8_less [of b] by simp
  moreover have "16 * int (unat b div 16) + int (unat b mod 16) = int (unat b)" by presburger
  ultimately show ?thesis by (simp add: hex2_bin_def hex2_def peek_def hex1_bin_digit)
qed

lemma hex2_bin_hex2_end [simp]: "hex2_bin (hex2 b) = uint b"
  using hex2_bin_hex2 [of b "[]"] by simp

lemma drop_hex2 [simp]: "drop 2 (hex2 b @ s) = s"
  by (simp add: hex2_def)

lemma srec_bytes_hexes [simp]:
  "srec_bytes (length bs) (hexes bs @ s) chksum = (True, bs, s, chksum + sum_list bs)"
  by (induction bs arbitrary: chksum) (simp_all add: Let_def add.assoc)

lemma hexes_plain: "c \<in> set (hexes bs) \<Longrightarrow> c \<notin> {0, 0x03, 0x0A, 0x0D}"
proof (induction bs)
  case (Cons b bs)
  have "unat b div 16 < 16" "unat b mod 16 < 16" using unat_u8_less [of b] by simp_all
  then show ?case using Cons hex_digit_plain by (auto simp: hex2_def)
qed simp

text \<open>
  A record whose count byte is right decodes to its type, its address and its data, whatever
  stands in front of the S and behind the checksum, for every type of record and every length.
\<close>
theorem srec_decode_line:
  assumes "srec_kind t (uint n) = Some (ty, length as, int (length bs))" and "0x53 \<notin> set pre"
  shows "srec_decode (pre @ srec_line t n as bs @ post) v = (ty, int (length bs), srec_address as, bs)"
proof -
  have d: "dropWhile (\<lambda>c. c \<noteq> 0x53) (pre @ 0x53 # xs) = 0x53 # xs" for xs using assms(2) by (induction pre) auto
  have a: "srec_bytes (length as) (hexes as @ hexes bs @ hex2 c @ post) n = (True, as, hexes bs @ hex2 c @ post, n + sum_list as)"
    "srec_bytes (length bs) (hexes bs @ hex2 c @ post) (n + sum_list as) = (True, bs, hex2 c @ post, n + sum_list as + sum_list bs)" for c
    by simp_all
  show ?thesis
    using assms(1) by (cases v) (simp add: srec_decode_def srec_line_def d a Let_def)
qed

section \<open>Loading a session\<close>

text \<open>
  The serial line: \<open>keys s\<close> are the characters to come, which output and writes to memory leave
  alone, as reading leaves the memory and the flash banks. When the console is not the serial
  line (\<open>red\<close>), no Control-C is typed there.
\<close>

definition serial_line :: "bool \<Rightarrow> ('d, 'z) flmach_scheme shell_io \<Rightarrow> (('d, 'z) flmach_scheme \<Rightarrow> u8 list) \<Rightarrow> bool" where
  "serial_line red io keys \<longleftrightarrow>
     (red \<longrightarrow> (\<forall>s. \<exists>s'. ctrlc io s = (False, s') \<and> keys s' = keys s \<and> mem s' = mem s \<and> flash_banks s' = flash_banks s)) \<and>
     (\<forall>s c cs. keys s = c # cs \<longrightarrow>
        (\<exists>s'. io_getc io s = Some (c, s') \<and> keys s' = cs \<and> mem s' = mem s \<and> flash_banks s' = flash_banks s)) \<and>
     (\<forall>s f xs. keys (printf f xs s) = keys s) \<and> (\<forall>s m. keys (s\<lparr>mem := m\<rparr>) = keys s)"

lemma serial_char:
  assumes "serial_line red io keys" and "keys s = c # cs"
  obtains s' where "io_getc io s = Some (c, s')" "keys s' = cs" "mem s' = mem s" "flash_banks s' = flash_banks s"
  using assms unfolding serial_line_def by blast

lemma serial_ctrlc:
  assumes "serial_line red io keys" and "red"
  obtains s' where "ctrlc io s = (False, s')" "keys s' = keys s" "mem s' = mem s" "flash_banks s' = flash_banks s"
  using assms unfolding serial_line_def by blast

lemma serial_keeps [simp]:
  assumes "serial_line red io keys"
  shows "keys (printf f xs s) = keys s" "keys (putc c s) = keys s" "keys (s\<lparr>mem := m\<rparr>) = keys s"
  using assms by (simp_all add: serial_line_def putc_def)

lemma putc_keeps [simp]: "mem (putc c s) = mem s" "flash_banks (putc c t) = flash_banks t" "flash_banks (printf f xs t) = flash_banks t"
  by (simp_all add: putc_def printf_def)

lemma read_record_line:
  assumes io: "serial_line red io keys"
  shows "keys s = cs @ 0x0D # ks \<Longrightarrow> \<forall>c\<in>set cs. c \<notin> {0, 0x03, 0x0A, 0x0D} \<Longrightarrow> length cs < k \<Longrightarrow>
    \<exists>s'. read_record echo red io k s = Some (Some cs, s') \<and> keys s' = ks \<and> mem s' = mem s \<and> flash_banks s' = flash_banks s"
proof (induction cs arbitrary: k s)
  case Nil
  then obtain s' where "io_getc io s = Some (0x0D, s')" "keys s' = ks" "mem s' = mem s" "flash_banks s' = flash_banks s"
    using serial_char [OF io, of s] by (metis append_Nil)
  then show ?case using Nil.prems(3) serial_keeps [OF io] by (cases k) (auto simp: Let_def)
next
  case (Cons c cs)
  then obtain j where k: "k = Suc j" "length cs < j" by (cases k) auto
  obtain s1 where s1: "io_getc io s = Some (c, s1)" "keys s1 = cs @ 0x0D # ks" "mem s1 = mem s" "flash_banks s1 = flash_banks s"
    using serial_char [OF io, of s] Cons.prems(1) by (metis append_Cons)
  define s2 where "s2 = (if echo then putc c s1 else s1)"
  have s2: "keys s2 = cs @ 0x0D # ks" "mem s2 = mem s" "flash_banks s2 = flash_banks s"
    using s1 serial_keeps [OF io] by (simp_all add: s2_def)
  obtain s3 where s3: "(if red then ctrlc io s2 else (False, s2)) = (False, s3)"
    "keys s3 = cs @ 0x0D # ks" "mem s3 = mem s" "flash_banks s3 = flash_banks s"
    using s2 serial_ctrlc [OF io, of s2] by (cases red) auto
  from Cons.IH [OF s3(2) _ k(2)] Cons.prems(2) s1(1) s3 show ?case
    by (auto simp: k(1) Let_def s2_def)
qed

type_synonym srec = "u8 \<times> u8 list \<times> u8 list"

fun record_text :: "srec \<Rightarrow> u8 list" where
  "record_text (t, as, bs) = srec_line t (of_nat (length as + length bs + 1)) as bs"

fun data_record :: "srec \<Rightarrow> bool" where
  "data_record (t, as, bs) \<longleftrightarrow> (t, length as) \<in> {(0x31, 2), (0x32, 3), (0x33, 4)} \<and> length as + length bs < 255"

fun load_data :: "u32 \<Rightarrow> srec \<Rightarrow> (u32 \<Rightarrow> u8) \<Rightarrow> (u32 \<Rightarrow> u8)" where
  "load_data offset (t, as, bs) m = blit m (srec_address as + offset) (length bs) ((!) bs)"

text \<open>The first and the last address of a record.\<close>

fun first_of :: "u32 \<Rightarrow> srec \<Rightarrow> u32" where "first_of offset (t, as, bs) = srec_address as + offset"

fun last_of :: "u32 \<Rightarrow> srec \<Rightarrow> u32" where "last_of offset (t, as, bs) = srec_address as + offset + of_nat (length bs) - 1"

text \<open>A header or count record, which is read and has no effect.\<close>

fun note_record :: "srec \<Rightarrow> bool" where
  "note_record (t, as, bs) \<longleftrightarrow> (t = 0x30 \<or> t = 0x35 \<and> bs = []) \<and> length as = 2 \<and> length bs < 253"

text \<open>
  A data record for the flash that \<open>flash_write\<close> refuses, because it leaves the bank or meets a
  protected sector; and what is asked of the flash driver: when it reports no error the bytes
  stand where they were to be written, and it leaves the serial line and the table of the banks alone.
\<close>

fun flash_refuses :: "flash_info \<Rightarrow> u32 \<Rightarrow> srec \<Rightarrow> bool" where
  "flash_refuses info offset (t, as, bs) \<longleftrightarrow> in_bank (first_of offset (t, as, bs)) info \<and> bs \<noteq> [] \<and>
     (b_end info < last_of offset (t, as, bs) \<or>
      (\<exists>i < sectors info. sect_start info ! i \<le> last_of offset (t, as, bs) \<and> first_of offset (t, as, bs) \<le> sect_end info i \<and>
         sect_protect info ! i \<noteq> 0))"

definition flash_programs :: "('d, 'z) flmach_scheme flash_drv \<Rightarrow> (('d, 'z) flmach_scheme \<Rightarrow> u8 list) \<Rightarrow> bool" where
  "flash_programs F keys \<longleftrightarrow> (\<forall>bytes a s. case write_buff F 0 bytes a s of (rc, s') \<Rightarrow>
     keys s' = keys s \<and> flash_banks s' = flash_banks s \<and> (rc = 0 \<longrightarrow> mem s' = blit (mem s) a (length bytes) ((!) bytes)))"

text \<open>The data of a record does not wrap around the end of the address space.\<close>

definition in_line :: "u32 \<Rightarrow> srec \<Rightarrow> bool" where
  "in_line offset r \<longleftrightarrow> snd (snd r) = [] \<or> first_of offset r \<le> last_of offset r"

text \<open>
  A data record for the flash that is not stored: it is refused and the memory stays as it was, or
  the driver reports an error and the memory is what the driver has left.
\<close>

definition flash_fails :: "('d, 'z) flmach_scheme flash_drv \<Rightarrow> flash_info \<Rightarrow> u32 \<Rightarrow> srec \<Rightarrow> ('d, 'z) flmach_scheme \<Rightarrow>
    (u32 \<Rightarrow> u8) \<Rightarrow> bool" where
  "flash_fails F info offset r s m \<longleftrightarrow> in_bank (first_of offset r) info \<and>
     (if flash_refuses info offset r then m = mem s
      else fst (write_buff F 0 (snd (snd r)) (first_of offset r) s) \<noteq> 0 \<and>
        m = mem (snd (write_buff F 0 (snd (snd r)) (first_of offset r) s)))"

lemma addr2info_one_bank: "flash_banks s = [info] \<Longrightarrow> addr2info a s = (if in_bank a info then Some 0 else None)"
  by (simp add: addr2info_def)

lemma store_record_one_bank:
  assumes ok: "bank_ok info" "b_end info \<noteq> -1" and bank: "flash_banks s = [info]"
    and F: "flash_programs F keys" and io: "serial_line red io keys"
    and len: "length bs < 256" and nowrap: "in_line offset (t, as, bs)"
  shows "\<exists>rc s'. store_record F (srec_address as + offset) (int (length bs)) bs s = Some (rc, s') \<and>
    keys s' = keys s \<and> flash_banks s' = [info] \<and>
    (rc = 0 \<longrightarrow> mem s' = load_data offset (t, as, bs) (mem s) \<and> \<not> flash_refuses info offset (t, as, bs)) \<and>
    (rc \<noteq> 0 \<longrightarrow> flash_fails F info offset (t, as, bs) s (mem s'))"
proof (cases "in_bank (srec_address as + offset) info")
  case False
  then show ?thesis using bank serial_keeps [OF io] by (simp add: store_record_def addr2info_one_bank [OF bank])
next
  case True
  let ?a = "srec_address as + offset" and ?n = "of_nat (length bs) :: u32"
  have n: "unat ?n = length bs" using len by (simp add: unat_of_nat)
  show ?thesis
  proof (cases "bs = []")
    case True
    then show ?thesis using bank \<open>in_bank ?a info\<close>
      by (simp add: store_record_def addr2info_one_bank [OF bank] flash_write_def ERR_OK_def)
  next
    case False
    obtain rc s' where w: "write_buff F 0 bs ?a s = (rc, s')" by fastforce
    have F': "keys s' = keys s" "flash_banks s' = flash_banks s" "rc = 0 \<longrightarrow> mem s' = blit (mem s) ?a (length bs) ((!) bs)"
      using F w by (auto simp: flash_programs_def split: prod.splits)
    have "?a \<le> ?a + ?n - 1" using nowrap False by (simp add: in_line_def)
    from flash_write_one_bank [OF ok bank this eq_refl [OF n], of F]
    have fw: "flash_write F bs ?a ?n s = Some
      (if ?n = 0 then (ERR_OK, s) else if ?a < sect_start info ! 0 \<or> b_end info < ?a + ?n - 1 then (ERR_INVAL, s)
       else if \<exists>i < sectors info. sect_start info ! i \<le> ?a + ?n - 1 \<and> ?a \<le> sect_end info i \<and> sect_protect info ! i \<noteq> 0
       then (ERR_PROTECTED, s) else write_buff F 0 bs ?a s)"
      unfolding n take_all_iff [THEN iffD2, OF order_refl] .
    have nz: "?n \<noteq> 0" using n False by (metis length_0_conv unat_0)
    have lo: "\<not> ?a < sect_start info ! 0" using \<open>in_bank ?a info\<close> by (simp add: in_bank_def not_less)
    let ?prot = "\<exists>i < sectors info. sect_start info ! i \<le> ?a + ?n - 1 \<and> ?a \<le> sect_end info i \<and> sect_protect info ! i \<noteq> 0"
    have refuses: "flash_refuses info offset (t, as, bs) \<longleftrightarrow> b_end info < ?a + ?n - 1 \<or> ?prot"
      using \<open>in_bank ?a info\<close> False by simp
    have err: "keys (flash_perror e s0) = keys s0" "flash_banks (flash_perror e s0) = flash_banks s0"
      "mem (flash_perror e s0) = mem s0" for e s0
      using serial_keeps [OF io] by (simp_all add: flash_perror_def)
    show ?thesis
    proof (cases "b_end info < ?a + ?n - 1 \<or> ?prot")
      case True
      define e where "e = (if b_end info < ?a + ?n - 1 then ERR_INVAL else ERR_PROTECTED)"
      have "flash_write F bs ?a ?n s = Some (e, s)" "e \<noteq> 0"
        using True nz lo unfolding fw e_def by (auto simp: ERR_INVAL_def ERR_PROTECTED_def)
      then have "store_record F ?a (int (length bs)) bs s = Some (e, flash_perror e s)"
        using \<open>in_bank ?a info\<close> by (simp add: store_record_def addr2info_one_bank [OF bank])
      moreover have "flash_refuses info offset (t, as, bs)" unfolding refuses by (rule True)
      ultimately show ?thesis using \<open>e \<noteq> 0\<close> \<open>in_bank ?a info\<close> err [of e s] bank
        by (intro exI [of _ e] exI [of _ "flash_perror e s"]) (simp add: flash_fails_def del: flash_refuses.simps)
    next
      case ok: False
      then have "flash_write F bs ?a ?n s = Some (rc, s')" using nz lo w unfolding fw by auto
      then have "store_record F ?a (int (length bs)) bs s = Some (rc, if rc \<noteq> 0 then flash_perror rc s' else s')"
        using \<open>in_bank ?a info\<close> by (simp add: store_record_def addr2info_one_bank [OF bank])
      moreover have "\<not> flash_refuses info offset (t, as, bs)" unfolding refuses by (rule ok)
      ultimately show ?thesis using \<open>in_bank ?a info\<close> err [of rc s'] bank F' w
        by (intro exI [of _ rc] exI [of _ "if rc \<noteq> 0 then flash_perror rc s' else s'"]) (simp add: flash_fails_def del: flash_refuses.simps)
    qed
  qed
qed

lemma uint_of_nat_u8: "n < 256 \<Longrightarrow> uint (of_nat n :: u8) = int n"
  by (simp add: unsigned_of_nat take_bit_nat_eq_self)

lemma srec_kind_data:
  assumes "data_record (t, as, bs)"
  shows "\<exists>ty\<in>{SREC_DATA2, SREC_DATA3, SREC_DATA4}.
    srec_kind t (uint (of_nat (length as + length bs + 1) :: u8)) = Some (ty, length as, int (length bs))"
proof -
  have u: "uint (of_nat (length as + length bs + 1) :: u8) = int (length as + length bs + 1)"
    using assms by (intro uint_of_nat_u8) simp
  consider "t = 0x31" "length as = 2" | "t = 0x32" "length as = 3" | "t = 0x33" "length as = 4" using assms by auto
  then show ?thesis unfolding u by cases (simp_all add: srec_kind_def)
qed

lemma record_text_plain:
  assumes "fst r \<notin> {0, 0x03, 0x0A, 0x0D}" and "c \<in> set (record_text r)"
  shows "c \<notin> {0, 0x03, 0x0A, 0x0D}"
proof -
  obtain t as bs where r: "r = (t, as, bs)" by (cases r)
  have "c = 0x53 \<or> c = t \<or> (\<exists>bs. c \<in> set (hexes bs))"
    using assms(2) unfolding r record_text.simps srec_line_def by (metis set_ConsD append_Cons append_Nil)
  then show ?thesis using assms(1) hexes_plain by (auto simp: r)
qed

lemma record_text_length: "length as + length bs < 255 \<Longrightarrow> length (record_text (t, as, bs)) < SREC_MAXRECLEN"
  by (simp add: srec_line_def SREC_MAXRECLEN_def)

lemma srec_kind_note:
  assumes "note_record (t, as, bs)"
  shows "\<exists>ty\<in>{SREC_START, SREC_COUNT}.
    srec_kind t (uint (of_nat (length as + length bs + 1) :: u8)) = Some (ty, length as, int (length bs))"
proof -
  have u: "uint (of_nat (length as + length bs + 1) :: u8) = int (length as + length bs + 1)"
    using assms by (intro uint_of_nat_u8) auto
  show ?thesis using assms unfolding u by (auto simp: srec_kind_def)
qed

text \<open>Reading a record up to its decoding.\<close>

lemma load_record_read:
  assumes io: "serial_line red io keys" and "keys s = record_text r @ 0x0D # ks" and "data_record r \<or> note_record r"
  obtains s1 where "read_record echo red io SREC_MAXRECLEN s = Some (Some (record_text r), s1)"
    "keys s1 = ks" "mem s1 = mem s" "flash_banks s1 = flash_banks s"
proof -
  obtain t as bs where tr: "r = (t, as, bs)" by (cases r)
  have "fst r \<notin> {0, 0x03, 0x0A, 0x0D}" "length as + length bs < 255" using assms(3) tr by auto
  then show ?thesis
    using read_record_line [OF io assms(2), of SREC_MAXRECLEN echo] record_text_plain [of r] record_text_length [of as bs t] that tr
    by blast
qed

lemma load_record_note:
  assumes io: "serial_line red io keys" and "keys s = record_text r @ 0x0D # ks" and r: "note_record r"
  shows "\<exists>l' s'. load_record F echo red io offset (l, s) = Some (None, l', s') \<and> keys s' = ks \<and> flash_banks s' = flash_banks s \<and>
    mem s' = mem s \<and> start_addr l' = start_addr l \<and> end_addr l' = end_addr l"
proof -
  obtain t as bs where tr: "r = (t, as, bs)" by (cases r)
  obtain ty where ty: "ty \<in> {SREC_START, SREC_COUNT}"
    "srec_kind t (uint (of_nat (length as + length bs + 1) :: u8)) = Some (ty, length as, int (length bs))"
    using srec_kind_note [of t as bs] r tr by blast
  obtain s1 where s1: "read_record echo red io SREC_MAXRECLEN s = Some (Some (record_text r), s1)"
    "keys s1 = ks" "mem s1 = mem s" "flash_banks s1 = flash_banks s"
    using load_record_read [OF io assms(2)] r by blast
  have dec: "srec_decode (record_text r) v = (ty, int (length bs), srec_address as, bs)" for v
    using srec_decode_line [OF ty(2), of "[]" "[]" v] by (simp add: tr)
  show ?thesis
    using ty(1) s1 serial_keeps [OF io]
    by (auto simp: load_record_def s1(1) dec Let_def SREC_DATA2_def SREC_DATA3_def SREC_DATA4_def
        SREC_START_def SREC_COUNT_def SREC_END2_def SREC_END3_def SREC_END4_def)
qed

lemma load_record_data:
  assumes ok: "bank_ok info" "b_end info \<noteq> -1" and bank: "flash_banks s = [info]"
    and F: "flash_programs F keys" and io: "serial_line red io keys"
    and "keys s = record_text r @ 0x0D # ks" and r: "data_record r" "in_line offset r"
  shows "(\<exists>l' s'. load_record F echo red io offset (l, s) = Some (None, l', s') \<and> keys s' = ks \<and> flash_banks s' = [info] \<and>
      mem s' = load_data offset r (mem s) \<and> \<not> flash_refuses info offset r \<and>
      start_addr l' = min (start_addr l) (first_of offset r) \<and> end_addr l' = max (end_addr l) (last_of offset r)) \<or>
    (\<exists>l' s' s1. load_record F echo red io offset (l, s) = Some (Some (-1), l', s') \<and>
      mem s1 = mem s \<and> flash_banks s1 = [info] \<and>
      flash_fails F info offset r s1 (mem s'))"
proof -
  obtain t as bs where tr: "r = (t, as, bs)" by (cases r)
  have d: "data_record (t, as, bs)" using r tr by simp
  obtain ty where ty: "ty \<in> {SREC_DATA2, SREC_DATA3, SREC_DATA4}"
    "srec_kind t (uint (of_nat (length as + length bs + 1) :: u8)) = Some (ty, length as, int (length bs))"
    using srec_kind_data [OF d] by blast
  obtain s1 where s1: "read_record echo red io SREC_MAXRECLEN s = Some (Some (record_text r), s1)"
    "keys s1 = ks" "mem s1 = mem s" "flash_banks s1 = [info]"
    using load_record_read [OF io assms(6)] r bank by metis
  have dec: "srec_decode (record_text r) v = (ty, int (length bs), srec_address as, bs)" for v
    using srec_decode_line [OF ty(2), of "[]" "[]" v] by (simp add: tr)
  have "length bs < 256" using d by simp
  from store_record_one_bank [OF ok s1(4) F io this r(2) [unfolded tr]]
  obtain rc s2 where st: "store_record F (srec_address as + offset) (int (length bs)) bs s1 = Some (rc, s2)"
    "keys s2 = ks" "flash_banks s2 = [info]"
    "rc = 0 \<longrightarrow> mem s2 = load_data offset r (mem s) \<and> \<not> flash_refuses info offset r"
    "rc \<noteq> 0 \<longrightarrow> flash_fails F info offset r s1 (mem s2)"
    unfolding tr using s1(2,3) by metis
  define l0 where "l0 = l\<lparr>binlen := int (length bs), rec_addr := srec_address as\<rparr>"
  show ?thesis
  proof (cases "rc = 0")
    case False
    then have "load_record F echo red io offset (l, s) = Some (Some (-1), l0, s2)"
      using ty(1) by (auto simp: load_record_def s1(1) dec st(1) Let_def l0_def SREC_DATA2_def SREC_DATA3_def SREC_DATA4_def)
    with st(5) False s1(3,4) tr show ?thesis by auto
  next
    case True
    define l1 where "l1 = note_range (srec_address as + offset) (int (length bs)) l0"
    define l2 where "l2 = (if echo then l1 else l1\<lparr>line_count := line_count l1 + 1\<rparr>)"
    have "load_record F echo red io offset (l, s) =
        Some (None, l2, if \<not> echo \<and> line_count l2 mod 100 = 0 then putc 0x2E s2 else s2)"
      using ty(1) True by (auto simp: load_record_def s1(1) dec st(1) Let_def l0_def l1_def l2_def
          SREC_DATA2_def SREC_DATA3_def SREC_DATA4_def)
    moreover have "start_addr l2 = min (start_addr l) (first_of offset r)" "end_addr l2 = max (end_addr l) (last_of offset r)"
      by (auto simp add: l2_def l1_def l0_def tr note_range_def Let_def min_def max_def)
    ultimately show ?thesis using st(2-4) True serial_keeps [OF io] by auto
  qed
qed

lemma load_record_end:
  assumes io: "serial_line red io keys" and "keys s = record_text (t, as, []) @ 0x0D # ks"
    and r: "(t, length as) \<in> {(0x39, 2), (0x38, 3), (0x37, 4)}"
  shows "\<exists>l' s1. load_record F echo red io offset (l, s) =
      map_option (\<lambda>s'. (Some (srec_address as), l', s')) (load_end io l' s1) \<and>
    keys s1 = ks \<and> mem s1 = mem s \<and> start_addr l' = start_addr l \<and> end_addr l' = end_addr l"
proof -
  have u: "uint (of_nat (length as + length ([] :: u8 list) + 1) :: u8) = int (length as + 1)"
    using r by (auto intro: uint_of_nat_u8)
  consider "t = 0x39" "length as = 2" | "t = 0x38" "length as = 3" | "t = 0x37" "length as = 4" using r by auto
  then obtain ty where ty: "ty \<in> {SREC_END2, SREC_END3, SREC_END4}"
    "srec_kind t (uint (of_nat (length as + length ([] :: u8 list) + 1) :: u8)) = Some (ty, length as, int (length ([] :: u8 list)))"
    unfolding u by cases (simp_all add: srec_kind_def)
  have "fst (t, as, [] :: u8 list) \<notin> {0, 0x03, 0x0A, 0x0D}" "length as + length ([] :: u8 list) < 255" using r by auto
  then obtain s1 where s1: "read_record echo red io SREC_MAXRECLEN s = Some (Some (record_text (t, as, [])), s1)"
    "keys s1 = ks" "mem s1 = mem s"
    using read_record_line [OF io assms(2), of SREC_MAXRECLEN echo] record_text_plain [of "(t, as, [])"] record_text_length [of as "[]" t]
    by blast
  have dec: "srec_decode (record_text (t, as, [])) v = (ty, 0, srec_address as, [])" for v
    using srec_decode_line [OF ty(2), of "[]" "[]" v] by simp
  have "load_record F echo red io offset (l, s) =
      map_option (\<lambda>s'. (Some (srec_address as), l\<lparr>binlen := 0, rec_addr := srec_address as\<rparr>, s'))
        (load_end io (l\<lparr>binlen := 0, rec_addr := srec_address as\<rparr>) s1)"
    using ty(1) by (auto simp: load_record_def s1(1) dec Let_def map_conv_bind_option comp_def
        SREC_END2_def SREC_END3_def SREC_END4_def SREC_DATA2_def SREC_DATA3_def SREC_DATA4_def simp del: record_text.simps)
  then show ?thesis using s1 by fastforce
qed

lemma load_records:
  assumes ok: "bank_ok info" "b_end info \<noteq> -1" and F: "flash_programs F keys" and io: "serial_line red io keys"
    and "(t, length as) \<in> {(0x39, 2), (0x38, 3), (0x37, 4)}"
  shows "\<forall>r\<in>set rs. data_record r \<and> in_line offset r \<or> note_record r \<Longrightarrow> flash_banks s = [info] \<Longrightarrow>
    keys s = concat (map (\<lambda>r. record_text r @ [0x0D]) rs) @ record_text (t, as, []) @ 0x0D # ks \<Longrightarrow>
    (\<exists>l' s1. loopM (load_record F echo red io offset) (l, s) =
        map_option (\<lambda>s'. (srec_address as, l', s')) (load_end io l' s1) \<and>
      (\<forall>r\<in>set (filter data_record rs). \<not> flash_refuses info offset r) \<and>
      keys s1 = ks \<and> mem s1 = fold (load_data offset) (filter data_record rs) (mem s) \<and>
      start_addr l' = fold (\<lambda>r lo. min lo (first_of offset r)) (filter data_record rs) (start_addr l) \<and>
      end_addr l' = fold (\<lambda>r hi. max hi (last_of offset r)) (filter data_record rs) (end_addr l)) \<or>
    (\<exists>k l' s' s1. loopM (load_record F echo red io offset) (l, s) = Some (-1, l', s') \<and>
      k < length rs \<and> data_record (rs ! k) \<and>
      mem s1 = fold (load_data offset) (filter data_record (take k rs)) (mem s) \<and> flash_banks s1 = [info] \<and>
      flash_fails F info offset (rs ! k) s1 (mem s'))"
proof (induction rs arbitrary: l s)
  case Nil
  then have "keys s = record_text (t, as, []) @ 0x0D # ks" by simp
  then obtain l' s1 where e: "load_record F echo red io offset (l, s) =
      map_option (\<lambda>s'. (Some (srec_address as), l', s')) (load_end io l' s1)"
    "keys s1 = ks" "mem s1 = mem s" "start_addr l' = start_addr l" "end_addr l' = end_addr l"
    using load_record_end [OF io _ assms(5), of s ks F echo offset l] by blast
  have "loopM (load_record F echo red io offset) (l, s) =
      map_option (\<lambda>s'. (srec_address as, l', s')) (load_end io l' s1)"
    by (subst loopM.simps) (simp add: e(1) option.case_eq_if map_conv_bind_option comp_def)
  then show ?case using e by (intro disjI1 exI [of _ l'] exI [of _ s1]) (simp del: record_text.simps)
next
  case (Cons r rs)
  have k: "keys s = record_text r @ 0x0D # concat (map (\<lambda>r. record_text r @ [0x0D]) rs) @ record_text (t, as, []) @ 0x0D # ks"
    using Cons.prems(3) by simp
  let ?ks = "concat (map (\<lambda>r. record_text r @ [0x0D]) rs) @ record_text (t, as, []) @ 0x0D # ks"
  have skip: ?case
    if 1: "load_record F echo red io offset (l, s) = Some (None, l1, s1)" "keys s1 = ?ks" "flash_banks s1 = [info]"
      and m: "mem s1 = fold (load_data offset) (filter data_record [r]) (mem s)"
      and lo: "start_addr l1 = fold (\<lambda>r lo. min lo (first_of offset r)) (filter data_record [r]) (start_addr l)"
      and hi: "end_addr l1 = fold (\<lambda>r hi. max hi (last_of offset r)) (filter data_record [r]) (end_addr l)"
      and ok: "\<forall>r\<in>set (filter data_record [r]). \<not> flash_refuses info offset r" for l1 s1
  proof -
    have L: "loopM (load_record F echo red io offset) (l, s) = loopM (load_record F echo red io offset) (l1, s1)"
      by (rule loopM_step(1)) (rule 1(1))
    have "\<forall>r\<in>set rs. data_record r \<and> in_line offset r \<or> note_record r" using Cons.prems(1) by simp
    from Cons.IH [OF this 1(3,2), of l1] show ?thesis
    proof (elim disjE exE conjE)
      fix l' s2
      assume "loopM (load_record F echo red io offset) (l1, s1) = map_option (\<lambda>s'. (srec_address as, l', s')) (load_end io l' s2)"
        "\<forall>r\<in>set (filter data_record rs). \<not> flash_refuses info offset r"
        "keys s2 = ks" "mem s2 = fold (load_data offset) (filter data_record rs) (mem s1)"
        "start_addr l' = fold (\<lambda>r lo. min lo (first_of offset r)) (filter data_record rs) (start_addr l1)"
        "end_addr l' = fold (\<lambda>r hi. max hi (last_of offset r)) (filter data_record rs) (end_addr l1)"
      then show ?thesis using L ok m lo hi by (intro disjI1 exI [of _ l'] exI [of _ s2]) (auto simp del: data_record.simps)
    next
      fix k l' s' s2
      assume "loopM (load_record F echo red io offset) (l1, s1) = Some (-1, l', s')"
        "k < length rs" "data_record (rs ! k)"
        "mem s2 = fold (load_data offset) (filter data_record (take k rs)) (mem s1)" "flash_banks s2 = [info]"
        "flash_fails F info offset (rs ! k) s2 (mem s')"
      then show ?thesis
        using L m by (intro disjI2 exI [of _ "Suc k"] exI [of _ l'] exI [of _ s'] exI [of _ s2]) (auto simp del: data_record.simps)
    qed
  qed
  consider (data) "data_record r" "in_line offset r" | (other) "note_record r" "\<not> data_record r"
    using Cons.prems(1) by (cases r) auto
  then show ?case
  proof cases
    case other
    obtain l1 s1 where "load_record F echo red io offset (l, s) = Some (None, l1, s1)" "keys s1 = ?ks" "flash_banks s1 = [info]"
      "mem s1 = mem s" "start_addr l1 = start_addr l" "end_addr l1 = end_addr l"
      using load_record_note [OF io k other(1), of F echo offset l] Cons.prems(2) by auto
    then show ?thesis using other(2) by (intro skip [of l1 s1]) (simp_all del: data_record.simps)
  next
    case data
    from load_record_data [OF ok Cons.prems(2) F io k data, of echo l] show ?thesis
    proof (elim disjE exE conjE)
      fix l1 s1
      assume "load_record F echo red io offset (l, s) = Some (None, l1, s1)" "keys s1 = ?ks" "flash_banks s1 = [info]"
        "mem s1 = load_data offset r (mem s)" "\<not> flash_refuses info offset r"
        "start_addr l1 = min (start_addr l) (first_of offset r)" "end_addr l1 = max (end_addr l) (last_of offset r)"
      then show ?thesis using data(1) by (intro skip [of l1 s1]) (simp_all del: data_record.simps load_data.simps)
    next
      fix l' s' s1
      assume f: "load_record F echo red io offset (l, s) = Some (Some (-1), l', s')"
        "mem s1 = mem s" "flash_banks s1 = [info]"
        "flash_fails F info offset r s1 (mem s')"
      have "loopM (load_record F echo red io offset) (l, s) = Some (-1, l', s')" by (rule loopM_step(2)) (rule f(1))
      then show ?thesis using f data(1)
        by (intro disjI2 exI [of _ 0] exI [of _ l'] exI [of _ s'] exI [of _ s1]) (simp del: data_record.simps)
    qed
  qed
qed

text \<open>
  C37: a session of data, header and count records and an end record on a board with one flash bank
  that does not end at the end of the address space. Every byte of data goes to its address plus
  the offset, in the order of the records, to memory or to the flash, the first and the last
  address and the start address of the end record go to the summary, and the rest of the input is
  not touched; unless a record for the flash fails: it leaves the bank, meets a protected sector, or
  the driver reports an error. The first such record ends the load with -1, when the records in front of it
  are stored. Control-C is not typed on a console other than the serial line, and no record wraps
  around the end of the address space.
\<close>
theorem load_serial_loads:
  assumes "bank_ok info" and "b_end info \<noteq> -1" and "flash_banks s = [info]"
    and "flash_programs F keys" and "serial_line red io keys"
    and "(t, length as) \<in> {(0x39, 2), (0x38, 3), (0x37, 4)}"
    and "\<forall>r\<in>set rs. data_record r \<and> in_line offset r \<or> note_record r"
    and "keys s = concat (map (\<lambda>r. record_text r @ [0x0D]) rs) @ record_text (t, as, []) @ 0x0D # ks"
  shows "(\<exists>l s1. load_serial F echo red io offset s = map_option (\<lambda>s'. (srec_address as, s')) (load_end io l s1) \<and>
      (\<forall>r\<in>set (filter data_record rs). \<not> flash_refuses info offset r) \<and>
      keys s1 = ks \<and> mem s1 = fold (load_data offset) (filter data_record rs) (mem s) \<and>
      start_addr l = fold (\<lambda>r lo. min lo (first_of offset r)) (filter data_record rs) (-1) \<and>
      end_addr l = fold (\<lambda>r hi. max hi (last_of offset r)) (filter data_record rs) 0) \<or>
    (\<exists>k s' s1. load_serial F echo red io offset s = Some (-1, s') \<and> k < length rs \<and> data_record (rs ! k) \<and>
      mem s1 = fold (load_data offset) (filter data_record (take k rs)) (mem s) \<and> flash_banks s1 = [info] \<and>
      flash_fails F info offset (rs ! k) s1 (mem s'))"
proof -
  let ?l = "\<lparr>binlen = 0, rec_addr = 0, start_addr = -1, end_addr = 0, line_count = 0\<rparr>"
  note run = load_records [OF assms(1,2,4,5,6,7,3,8), of echo ?l]
  then show ?thesis
  proof (elim disjE exE conjE)
    fix l' s1
    assume "loopM (load_record F echo red io offset) (?l, s) = map_option (\<lambda>s'. (srec_address as, l', s')) (load_end io l' s1)"
      "\<forall>r\<in>set (filter data_record rs). \<not> flash_refuses info offset r"
      "keys s1 = ks" "mem s1 = fold (load_data offset) (filter data_record rs) (mem s)"
      "start_addr l' = fold (\<lambda>r lo. min lo (first_of offset r)) (filter data_record rs) (start_addr ?l)"
      "end_addr l' = fold (\<lambda>r hi. max hi (last_of offset r)) (filter data_record rs) (end_addr ?l)"
    then show ?thesis by (intro disjI1 exI [of _ l'] exI [of _ s1]) (simp add: load_serial_def option.map_comp comp_def)
  next
    fix k l' s' s1
    assume "loopM (load_record F echo red io offset) (?l, s) = Some (-1, l', s')" "k < length rs" "data_record (rs ! k)"
      "mem s1 = fold (load_data offset) (filter data_record (take k rs)) (mem s)" "flash_banks s1 = [info]"
      "flash_fails F info offset (rs ! k) s1 (mem s')"
    then show ?thesis
      by (intro disjI2 exI [of _ k] exI [of _ s'] exI [of _ s1]) (simp add: load_serial_def del: data_record.simps)
  qed
qed

text \<open>
  A data record whose count does not even cover address and checksum is accepted with a
  negative length, which the loader passes on to \<open>memcpy\<close>.
\<close>
theorem srec_negative_length:
  assumes "n < 3"
  shows "srec_decode (srec_line 0x31 n [a, b] []) v = (SREC_DATA2, uint n - 3, srec_address [a, b], []) \<and> uint n - 3 < 0 \<and>
    (addr2info d s = None \<longrightarrow> store_record F d (uint n - 3) [] s = None)"
proof -
  have k: "srec_kind 0x31 (uint n) = Some (SREC_DATA2, 2, uint n - 3)" by (simp add: srec_kind_def)
  have neg: "uint n - 3 < 0" using assms by (simp add: word_less_def)
  have a: "srec_bytes 2 (hexes [a, b] @ hex2 c) n = (True, [a, b], hex2 c, n + a + b)" for c
    using srec_bytes_hexes [of "[a, b]" "hex2 c" n] by (simp add: numeral_2_eq_2 add.assoc)
  show ?thesis
    using neg a by (cases v) (simp add: srec_decode_def srec_line_def k Let_def add.assoc store_record_def)
qed

section \<open>The properties at concrete records\<close>

theorem srec_decode_line_witness:
  "srec_decode (asc ''S10500101234A4'') (0, 0) = (SREC_DATA2, 2, 0x10, [0x12, 0x34])"
proof -
  have t: "asc ''S10500101234A4'' = [] @ srec_line 0x31 5 [0, 0x10] [0x12, 0x34] @ []" by code_simp
  have "srec_kind 0x31 (uint (5 :: u8)) = Some (SREC_DATA2, length [0 :: u8, 0x10], int (length [0x12 :: u8, 0x34]))" by code_simp
  from srec_decode_line [OF this, of "[]" "[]" "(0, 0)"] show ?thesis unfolding t by (simp add: srec_address_def)
qed

definition serial_shell :: "(u8 list, 'z) emach_scheme shell_io" where
  "serial_shell = \<lparr>console_assign = (\<lambda>_ _ s. (0, s)), serial_setbrg = (\<lambda>s. s), io_udelay = (\<lambda>_ s. Some s),
     io_getc = (\<lambda>s. case dev s of [] \<Rightarrow> None | c # cs \<Rightarrow> Some (c, s\<lparr>dev := cs\<rparr>)), ctrlc = (\<lambda>s. (False, s)),
     clear_ctrlc = (\<lambda>s. s), had_ctrlc = (\<lambda>_. False), tstc = (\<lambda>s. (False, s))\<rparr>"

definition serial_state :: "u8 list \<Rightarrow> u8 list flmach" where
  "serial_state ks = \<lparr>mem = (\<lambda>_. 0), dev = ks, outp = [], mmc_erase_blocks = 0, mmc_protect_blk = 0, dev_total_blk = 0,
     env_ram = (\<lambda>_. 0), ptr_crc = 0, env_addr = Env_ram, env_valid = True, gd_reloc = True, env_offset = 0,
     env_id = 0, gd_baudrate = 0, load_addr = 0, bi_ip_addr = 0, bi_enetaddr = [], boot_file = [], flash_banks = []\<rparr>"

lemma serial_shell_line: "serial_line True (serial_shell :: u8 list flmach shell_io) dev"
  by (auto simp: serial_line_def serial_shell_def printf_def)

definition no_flash_drv :: "(u8 list, 'z) flmach_scheme flash_drv" where
  "no_flash_drv = \<lparr>write_buff = (\<lambda>_ _ _ s. (0, s)), flash_real_protect = (\<lambda>_ _ _ s. (0, s)), flash_erase = (\<lambda>_ _ _ s. (0, s)),
     flash_print_info = (\<lambda>_ s. s)\<rparr>"

text \<open>
  A board with a bank at 0 whose first sector is protected, and a driver that programs it: a header,
  a record for the second sector and a record for the memory.
\<close>

definition board_state :: "u8 list \<Rightarrow> u8 list flmach" where
  "board_state ks = (serial_state ks)\<lparr>flash_banks := [sample_bank 0 [1, 0]]\<rparr>"

definition prog_drv :: "(u8 list, 'z) flmach_scheme flash_drv" where
  "prog_drv = \<lparr>write_buff = (\<lambda>_ src a s. (0, s\<lparr>mem := blit (mem s) a (length src) ((!) src)\<rparr>)), flash_real_protect = (\<lambda>_ _ _ s. (0, s)),
     flash_erase = (\<lambda>_ _ _ s. (0, s)), flash_print_info = (\<lambda>_ s. s)\<rparr>"

definition sample_session :: "u8 list" where
  "sample_session = asc ''S004000048B3'' @ [0x0D] @ asc ''S10500101234A4'' @ [0x0D] @ asc ''S306100000005693'' @ [0x0D] @
     asc ''S9030010EC'' @ [0x0D]"

theorem load_serial_loads_witness:
  "\<exists>l s1. load_serial prog_drv False True serial_shell 0x20000 (board_state sample_session) =
      map_option (\<lambda>s'. (0x10, s')) (load_end serial_shell l s1) \<and>
    mem s1 0x20010 = 0x12 \<and> mem s1 0x20011 = 0x34 \<and> mem s1 0x10020000 = 0x56 \<and>
    start_addr l = 0x20010 \<and> end_addr l = 0x10020000"
proof -
  let ?r0 = "(0x30, [0, 0], [0x48])" and ?r1 = "(0x31, [0, 0x10], [0x12, 0x34])" and ?r2 = "(0x33, [0x10, 0, 0, 0], [0x56])"
    and ?e = "(0x39, [0, 0x10], [])" and ?i = "sample_bank 0 [1, 0]" and ?s = "board_state sample_session"
  have t: "asc ''S004000048B3'' = record_text ?r0" "asc ''S10500101234A4'' = record_text ?r1"
    "asc ''S306100000005693'' = record_text ?r2" "asc ''S9030010EC'' = record_text ?e" by code_simp+
  have k: "dev ?s = concat (map (\<lambda>r. record_text r @ [0x0D]) [?r0, ?r1, ?r2]) @ record_text ?e @ 0x0D # []"
    unfolding sample_session_def t by (simp add: board_state_def serial_state_def)
  have b: "b_end ?i \<noteq> -1" "flash_banks ?s = [?i]" by (simp_all add: sample_bank_simps board_state_def)
  have F: "flash_programs (prog_drv :: u8 list flmach flash_drv) dev" by (simp add: flash_programs_def prog_drv_def)
  have addr: "srec_address [0, 0x10] = 0x10" "srec_address [0x10, 0, 0, 0] = 0x10000000" by (simp_all add: srec_address_def)
  have p: "(0x39 :: u8, length [0 :: u8, 0x10]) \<in> {(0x39, 2), (0x38, 3), (0x37, 4)}"
    "\<forall>r\<in>set [?r0, ?r1, ?r2]. data_record r \<and> in_line 0x20000 r \<or> note_record r"
    by (simp_all add: in_line_def addr)
  have f1: "\<not> flash_refuses ?i 0x20000 ?r1"
  proof
    assume "flash_refuses ?i 0x20000 ?r1"
    moreover have "\<not> b_end ?i < 0x20011" by (simp add: sample_bank_simps)
    ultimately obtain i where i: "i < sectors ?i" "0x20010 \<le> sect_end ?i i" "sect_protect ?i ! i \<noteq> 0" by (auto simp: addr)
    then have "i = 0 \<or> i = 1" by (simp add: sample_bank_simps less_2_cases_iff)
    then show False using i(2,3) by (auto simp: sample_bank_simps)
  qed
  have f2: "\<not> in_bank (first_of 0x20000 ?r2) ?i" by (simp add: addr in_bank_def sample_bank_simps)
  have no: "\<not> flash_fails prog_drv ?i 0x20000 ([?r0, ?r1, ?r2] ! n) s1 m" if "n < 3" "data_record ([?r0, ?r1, ?r2] ! n)"
    for n s1 and m :: "u32 \<Rightarrow> u8"
  proof -
    have "n = 0 \<or> n = 1 \<or> n = 2" using that(1) by linarith
    then show ?thesis using that(2) f1 f2 by (elim disjE) (simp_all add: flash_fails_def prog_drv_def del: flash_refuses.simps)
  qed
  have len: "length [?r0, ?r1, ?r2] = 3" by simp
  have fl: "filter data_record [?r0, ?r1, ?r2] = [?r1, ?r2]" by simp
  from load_serial_loads [OF sample_bank_ok(1) b F serial_shell_line p k, of False, unfolded len fl] no
  obtain l s1 where "load_serial prog_drv False True serial_shell 0x20000 ?s =
      map_option (\<lambda>s'. (srec_address [0, 0x10], s')) (load_end serial_shell l s1)"
    "mem s1 = fold (load_data 0x20000) [?r1, ?r2] (mem ?s)"
    "start_addr l = fold (\<lambda>r lo. min lo (first_of 0x20000 r)) [?r1, ?r2] (-1)"
    "end_addr l = fold (\<lambda>r hi. max hi (last_of 0x20000 r)) [?r1, ?r2] 0"
    by blast
  then show ?thesis
    by (intro exI [of _ l] exI [of _ s1]) (simp add: addr blit_def)
qed

theorem srec_negative_length_witness:
  "srec_decode (asc ''S1000000FF'') (0, 0) = (SREC_DATA2, -3, 0, []) \<and>
   store_record no_flash_drv 0 (-3) [] (serial_state []) = None"
proof -
  have t: "asc ''S1000000FF'' = srec_line 0x31 0 [0, 0] []" by code_simp
  show ?thesis
    using srec_negative_length [of 0 0 0 "(0, 0)" 0 "serial_state []" no_flash_drv]
    unfolding t by (simp add: srec_address_def addr2info_def serial_state_def)
qed

end
