(* ===== verification/Net.thy ===== *)
theory Net
  imports Srec
begin

text \<open>
  The network stack of U-Boot, \<open>net/net.c\<close>: Ethernet, ARP, IP, UDP and ICMP echo, and the loop that
  drives a protocol. A packet that was received is the whole buffer it lies in, as the code keeps
  pointers into it, and a packet to send is the list of its bytes. The Ethernet driver is an argument,
  function pointers are the datatypes \<open>rxhand\<close> and \<open>thand\<close>, and handlers of other files enter through
  a function that calls them. Multiple interfaces, CDP and the network console are not in the build.
\<close>

section \<open>State\<close>

datatype rxhand = StartAgainHandler | PingHandler | TftpHandler | OtherHandler nat
datatype thand = StartAgainTimeout | PingTimeout | TftpTimeout | OtherTimeout nat

text \<open>What the pointer to a hardware address points to.\<close>

datatype mac_ptr = Server_ether | Ping_mac | Bcast_addr

record 'd nmach = "'d flmach" +
  NetOurEther :: "u8 list"
  NetServerEther :: "u8 list"
  NetOurIP :: u32
  NetServerIP :: u32
  NetOurGatewayIP :: u32
  NetOurSubnetMask :: u32
  NetOurVLAN :: u16
  NetOurNativeVLAN :: u16
  NetIPID :: u32
  NetState :: u32
  NetBootFileXferSize :: u32
  NetBootFileSize :: u16
  packetHandler :: rxhand
  timeHandler :: "thand option"
  timeStart :: u32
  timeDelta :: u32
  NetArpWaitPacketIP :: u32
  NetArpWaitReplyIP :: u32
  NetArpWaitPacketMAC :: "mac_ptr option"
  NetArpWaitTxPacket :: "u8 list"
  NetArpWaitTimerStart :: u32
  NetArpWaitTry :: u32
  NetPingIP :: u32
  PingSeqNo :: u16
  ping_mac :: "u8 list"
  env_changed_id :: u32

record 's net_io = "'s shell_io" +
  eth_send :: "u8 list \<Rightarrow> 's \<Rightarrow> 's"
  eth_halt :: "'s \<Rightarrow> 's"
  eth_init :: "'s \<Rightarrow> bool \<times> 's"
  eth_rx :: "'s \<Rightarrow> (u8 list \<times> int) list \<times> 's"
  net_time :: "'s \<Rightarrow> u32 \<times> 's"

definition NETLOOP_CONTINUE :: u32 where "NETLOOP_CONTINUE = 1"
definition NETLOOP_RESTART :: u32 where "NETLOOP_RESTART = 2"
definition NETLOOP_SUCCESS :: u32 where "NETLOOP_SUCCESS = 3"
definition NETLOOP_FAIL :: u32 where "NETLOOP_FAIL = 4"
definition ARP_TIMEOUT :: u32 where "ARP_TIMEOUT = 5000"
definition ARP_TIMEOUT_COUNT :: u32 where "ARP_TIMEOUT_COUNT = 5"
definition PING_TIMEOUT :: u32 where "PING_TIMEOUT = 10000"
definition ETHER_HDR_SIZE :: nat where "ETHER_HDR_SIZE = 14"
definition E802_HDR_SIZE :: nat where "E802_HDR_SIZE = 22"
definition VLAN_ETHER_HDR_SIZE :: nat where "VLAN_ETHER_HDR_SIZE = 18"
definition ARP_HDR_SIZE :: nat where "ARP_HDR_SIZE = 28"
definition IP_HDR_SIZE :: nat where "IP_HDR_SIZE = 28"
definition IP_HDR_SIZE_NO_UDP :: nat where "IP_HDR_SIZE_NO_UDP = 20"
definition PROT_IP :: u16 where "PROT_IP = 0x0800"
definition PROT_ARP :: u16 where "PROT_ARP = 0x0806"
definition PROT_RARP :: u16 where "PROT_RARP = 0x8035"
definition PROT_VLAN :: u16 where "PROT_VLAN = 0x8100"
definition VLAN_NONE :: u16 where "VLAN_NONE = 4095"
definition VLAN_IDMASK :: u16 where "VLAN_IDMASK = 0x0FFF"
definition NetBcastAddr :: "u8 list" where "NetBcastAddr = replicate 6 0xFF"
definition NetEtherNullAddr :: "u8 list" where "NetEtherNullAddr = replicate 6 0"

section \<open>Bytes of a packet\<close>

text \<open>The bytes of \<open>htons(v)\<close>, and \<open>ntohs\<close> of the half word at an offset; \<open>ntohs\<close> of a variable.\<close>

definition net16 :: "u16 \<Rightarrow> u8 list" where "net16 v = [ucast (drop_bit 8 v), ucast v]"

definition get16 :: "u8 list \<Rightarrow> nat \<Rightarrow> u16" where
  "get16 b i = push_bit 8 (ucast (b ! i)) OR ucast (b ! (i + 1))"

definition ntohs :: "u16 \<Rightarrow> u16" where "ntohs v = push_bit 8 v OR drop_bit 8 v"

text \<open>An IP address is kept in network order, a word in the memory of a little endian machine.\<close>

definition ip_bytes :: "u32 \<Rightarrow> u8 list" where
  "ip_bytes x = [ucast x, ucast (drop_bit 8 x), ucast (drop_bit 16 x), ucast (drop_bit 24 x)]"

definition NetReadIP :: "u8 list \<Rightarrow> nat \<Rightarrow> u32" where
  "NetReadIP b i = ucast (b ! i) OR push_bit 8 (ucast (b ! (i + 1)))
     OR push_bit 16 (ucast (b ! (i + 2))) OR push_bit 24 (ucast (b ! (i + 3)))"

text \<open>The sum of \<open>n\<close> half words, little endian as they lie in memory.\<close>

primrec cksum_words :: "u8 list \<Rightarrow> nat \<Rightarrow> u32" where
  "cksum_words b 0 = 0"
| "cksum_words b (Suc n) = cksum_words b n + ucast ((ucast (b ! (2 * n)) OR push_bit 8 (ucast (b ! (2 * n + 1)))) :: u16)"

definition NetCksum :: "u8 list \<Rightarrow> nat \<Rightarrow> u32" where
  "NetCksum b n =
     (let xsum = cksum_words b n;
          xsum = (xsum AND 0xFFFF) + drop_bit 16 xsum;
          xsum = (xsum AND 0xFFFF) + drop_bit 16 xsum
      in xsum AND 0xFFFF)"

definition NetCksumOk :: "u8 list \<Rightarrow> nat \<Rightarrow> bool" where
  "NetCksumOk b n \<longleftrightarrow> (NetCksum b n + 1) AND 0xFFFE = 0"

text \<open>The bytes of the complement of a checksum, as the code stores it.\<close>

definition cksum_bytes :: "u32 \<Rightarrow> u8 list" where
  "cksum_bytes x = [ucast (NOT x), ucast (drop_bit 8 (NOT x))]"

section \<open>Headers\<close>

definition vlan_id :: "u16 \<Rightarrow> u16" where
  "vlan_id v = (if ntohs v = -1 then VLAN_NONE else ntohs v)"

definition NetEthHdrSize :: "('d, 'z) nmach_scheme \<Rightarrow> nat" where
  "NetEthHdrSize s =
     (if vlan_id (NetOurVLAN s) AND VLAN_IDMASK = VLAN_NONE then ETHER_HDR_SIZE else VLAN_ETHER_HDR_SIZE)"

text \<open>The Ethernet header; its size is its length.\<close>

definition NetSetEther :: "u8 list \<Rightarrow> u16 \<Rightarrow> ('d, 'z) nmach_scheme \<Rightarrow> u8 list" where
  "NetSetEther addr prot s =
     (let myvlanid = vlan_id (NetOurVLAN s) AND VLAN_IDMASK
      in addr @ NetOurEther s @
         (if myvlanid = VLAN_NONE then net16 prot else net16 PROT_VLAN @ net16 myvlanid @ net16 prot))"

text \<open>The IP header. Its checksum is computed with zeros in its place.\<close>

definition ip_header :: "u16 \<Rightarrow> u16 \<Rightarrow> u8 \<Rightarrow> u32 \<Rightarrow> u32 \<Rightarrow> u8 list" where
  "ip_header len ident prot src dest =
     (let front = [0x45, 0] @ net16 len @ net16 ident @ net16 0x4000 @ [255, prot];
          addrs = ip_bytes src @ ip_bytes dest
      in front @ cksum_bytes (NetCksum (front @ [0, 0] @ addrs) (IP_HDR_SIZE_NO_UDP div 2)) @ addrs)"

text \<open>
  The IP and UDP header of a packet with \<open>len\<close> bytes of data. The code also clears a byte behind
  data of odd length, for the sake of a checksum that is not computed; it is not sent.
\<close>

definition NetSetIP :: "u32 \<Rightarrow> u16 \<Rightarrow> u16 \<Rightarrow> nat \<Rightarrow> ('d, 'z) nmach_scheme \<Rightarrow> u8 list \<times> ('d, 'z) nmach_scheme" where
  "NetSetIP dest dport sport len s =
     (ip_header (of_nat (IP_HDR_SIZE + len)) (ucast (NetIPID s)) 17 (NetOurIP s) dest
        @ net16 sport @ net16 dport @ net16 (of_nat (8 + len)) @ [0, 0],
      s\<lparr>NetIPID := NetIPID s + 1\<rparr>)"

fun mac_at :: "mac_ptr \<Rightarrow> ('d, 'z) nmach_scheme \<Rightarrow> u8 list" where
  "mac_at Server_ether s = NetServerEther s"
| "mac_at Ping_mac s = ping_mac s"
| "mac_at Bcast_addr s = NetBcastAddr"

fun set_mac :: "mac_ptr \<Rightarrow> u8 list \<Rightarrow> ('d, 'z) nmach_scheme \<Rightarrow> ('d, 'z) nmach_scheme" where
  "set_mac Server_ether v s = s\<lparr>NetServerEther := v\<rparr>"
| "set_mac Ping_mac v s = s\<lparr>ping_mac := v\<rparr>"
| "set_mac Bcast_addr v s = s"

section \<open>Addresses as text\<close>

definition ip_to_string :: "u32 \<Rightarrow> u8 list option" where
  "ip_to_string x = (let x = htonl x in
     map_option (\<lambda>(_, str, _). str) (vsprintf (asc ''%d.%d.%d.%d'')
       [VInt (drop_bit 24 x AND 0xFF), VInt (drop_bit 16 x AND 0xFF), VInt (drop_bit 8 x AND 0xFF), VInt (x AND 0xFF)]))"

primrec string_to_ip_loop :: "nat \<Rightarrow> u32 \<Rightarrow> u8 list \<Rightarrow> u32" where
  "string_to_ip_loop 0 addr s = addr"
| "string_to_ip_loop (Suc n) addr s =
     (case simple_strtoul s 10 of (val, e) \<Rightarrow>
        string_to_ip_loop n (push_bit 8 addr OR (val AND 0xFF)) (if e = [] then e else tl e))"

definition string_to_ip :: "u8 list option \<Rightarrow> u32" where
  "string_to_ip s = (case s of None \<Rightarrow> 0 | Some s \<Rightarrow> htonl (string_to_ip_loop 4 0 s))"

definition string_to_VLAN :: "u8 list option \<Rightarrow> u16" where
  "string_to_VLAN s =
     (case s of None \<Rightarrow> ntohs VLAN_NONE
      | Some s \<Rightarrow> ntohs (if peek s 0 < 0x30 \<or> 0x39 < peek s 0 then VLAN_NONE else ucast (fst (simple_strtoul s 10))))"

definition VLAN_to_string :: "u16 \<Rightarrow> u8 list option" where
  "VLAN_to_string x =
     (let x = vlan_id x
      in if x = VLAN_NONE then Some (asc ''none'')
         else map_option (\<lambda>(_, str, _). str) (vsprintf (asc ''%d'') [VInt (ucast (x AND VLAN_IDMASK))]))"

definition getenv_IPaddr :: "env_config \<Rightarrow> string \<Rightarrow> ('d, 'z) emach_scheme \<Rightarrow> u32 option" where
  "getenv_IPaddr C var s = map_option string_to_ip (getenv_str C s (asc var))"

definition getenv_VLAN :: "env_config \<Rightarrow> string \<Rightarrow> ('d, 'z) emach_scheme \<Rightarrow> u16 option" where
  "getenv_VLAN C var s = map_option string_to_VLAN (getenv_str C s (asc var))"

definition print_IPaddr :: "u32 \<Rightarrow> ('d, 'z) mach_scheme \<Rightarrow> ('d, 'z) mach_scheme option" where
  "print_IPaddr x s = map_option (\<lambda>str. printf ''%s'' [Str str] s) (ip_to_string x)"

section \<open>Timers and restarts\<close>

definition NetSetHandler :: "rxhand \<Rightarrow> ('d, 'z) nmach_scheme \<Rightarrow> ('d, 'z) nmach_scheme" where
  "NetSetHandler f s = s\<lparr>packetHandler := f\<rparr>"

definition NetSetTimeout :: "('d, 'z) nmach_scheme net_io \<Rightarrow> u32 \<Rightarrow> thand \<Rightarrow> ('d, 'z) nmach_scheme \<Rightarrow> ('d, 'z) nmach_scheme" where
  "NetSetTimeout io iv f s =
     (if iv = 0 then s\<lparr>timeHandler := None\<rparr>
      else case net_time io s of (t, s) \<Rightarrow> s\<lparr>timeHandler := Some f, timeStart := t, timeDelta := iv\<rparr>)"

definition startAgainTimeout :: "('d, 'z) nmach_scheme \<Rightarrow> ('d, 'z) nmach_scheme" where
  "startAgainTimeout s = s\<lparr>NetState := NETLOOP_RESTART\<rparr>"

definition startAgainHandler :: "u8 list \<Rightarrow> u32 \<Rightarrow> u32 \<Rightarrow> u32 \<Rightarrow> ('d, 'z) nmach_scheme \<Rightarrow> ('d, 'z) nmach_scheme" where
  "startAgainHandler pkt dest src len s = s"

definition NetStartAgain :: "env_config \<Rightarrow> ('d, 'z) nmach_scheme net_io \<Rightarrow> ('d, 'z) nmach_scheme \<Rightarrow> ('d, 'z) nmach_scheme option" where
  "NetStartAgain C io s = do {
     nretry \<leftarrow> getenv_str C s (asc ''netretry'');
     Some (if nretry = Some (asc ''no'') then (eth_halt io s)\<lparr>NetState := NETLOOP_FAIL\<rparr>
           else NetSetHandler StartAgainHandler (NetSetTimeout io 10000 StartAgainTimeout s))
   }"

section \<open>Sending\<close>

definition ArpRequest :: "('d, 'z) nmach_scheme net_io \<Rightarrow> ('d, 'z) nmach_scheme \<Rightarrow> ('d, 'z) nmach_scheme" where
  "ArpRequest io s =
     (let front = NetSetEther NetBcastAddr PROT_ARP s @ net16 1 @ net16 PROT_IP @ [6, 4] @ net16 1
            @ NetOurEther s @ ip_bytes (NetOurIP s) @ replicate 6 0;
          s = (if NetArpWaitPacketIP s AND NetOurSubnetMask s \<noteq> NetOurIP s AND NetOurSubnetMask s
               then if NetOurGatewayIP s = 0
                    then (printf (line ''## Warning: gatewayip needed but not set'') [] s)\<lparr>NetArpWaitReplyIP := NetArpWaitPacketIP s\<rparr>
                    else s\<lparr>NetArpWaitReplyIP := NetOurGatewayIP s\<rparr>
               else s\<lparr>NetArpWaitReplyIP := NetArpWaitPacketIP s\<rparr>)
      in eth_send io (front @ ip_bytes (NetArpWaitReplyIP s)) s)"

definition ArpTimeoutCheck :: "env_config \<Rightarrow> ('d, 'z) nmach_scheme net_io \<Rightarrow> ('d, 'z) nmach_scheme \<Rightarrow> ('d, 'z) nmach_scheme option" where
  "ArpTimeoutCheck C io s =
     (if NetArpWaitPacketIP s = 0 then Some s
      else case net_time io s of (t, s) \<Rightarrow>
        if ARP_TIMEOUT < t - NetArpWaitTimerStart s
        then let s = s\<lparr>NetArpWaitTry := NetArpWaitTry s + 1\<rparr>
          in if sint ARP_TIMEOUT_COUNT \<le> sint (NetArpWaitTry s)
             then NetStartAgain C io ((printf (CHR 0x0A # line ''ARP Retry count exceeded; starting again'') [] s)\<lparr>NetArpWaitTry := 0\<rparr>)
             else Some (ArpRequest io (s\<lparr>NetArpWaitTimerStart := t\<rparr>))
        else Some s)"

text \<open>Keep a packet until the hardware address is known, and ask for it.\<close>

definition arp_wait :: "('d, 'z) nmach_scheme net_io \<Rightarrow> ('d, 'z) nmach_scheme \<Rightarrow> ('d, 'z) nmach_scheme" where
  "arp_wait io s =
     (case net_time io (s\<lparr>NetArpWaitTry := 1\<rparr>) of (t, s) \<Rightarrow> ArpRequest io (s\<lparr>NetArpWaitTimerStart := t\<rparr>))"

text \<open>
  The data of the packet is what the caller wrote into the transmit buffer behind the room for the
  headers. The result is 1 while the packet waits.
\<close>

definition NetSendUDPPacket :: "('d, 'z) nmach_scheme net_io \<Rightarrow> mac_ptr \<Rightarrow> u32 \<Rightarrow> u16 \<Rightarrow> u16 \<Rightarrow> u8 list \<Rightarrow>
    ('d, 'z) nmach_scheme \<Rightarrow> u32 \<times> ('d, 'z) nmach_scheme" where
  "NetSendUDPPacket io ether dest dport sport payload s =
     (let dest = (if dest = 0 then -1 else dest);
          ether = (if dest = -1 then Bcast_addr else ether)
      in if mac_at ether s = NetEtherNullAddr
         then let s = s\<lparr>NetArpWaitPacketIP := dest, NetArpWaitPacketMAC := Some ether\<rparr>;
                  eth = NetSetEther (mac_at ether s) PROT_IP s
           in case NetSetIP dest dport sport (length payload) s of (ip, s) \<Rightarrow>
                (1, arp_wait io (s\<lparr>NetArpWaitTxPacket := eth @ ip @ payload\<rparr>))
         else let eth = NetSetEther (mac_at ether s) PROT_IP s
           in case NetSetIP dest dport sport (length payload) s of (ip, s) \<Rightarrow>
                (0, eth_send io (eth @ ip @ payload) s))"

section \<open>Ping\<close>

definition PingSend :: "('d, 'z) nmach_scheme net_io \<Rightarrow> ('d, 'z) nmach_scheme \<Rightarrow> u32 \<times> ('d, 'z) nmach_scheme" where
  "PingSend io s =
     (let s = s\<lparr>ping_mac := NetEtherNullAddr, NetArpWaitPacketIP := NetPingIP s, NetArpWaitPacketMAC := Some Ping_mac\<rparr>;
          eth = NetSetEther (ping_mac s) PROT_IP s;
          ip = ip_header (of_nat (IP_HDR_SIZE_NO_UDP + 8)) (ucast (NetIPID s)) 1 (NetOurIP s) (NetPingIP s);
          sum = NetCksum ([8, 0, 0, 0, 0, 0] @ net16 (PingSeqNo s)) 4;
          icmp = [8, 0] @ cksum_bytes sum @ [0, 0] @ net16 (PingSeqNo s)
      in (1, arp_wait io (s\<lparr>NetIPID := NetIPID s + 1, PingSeqNo := PingSeqNo s + 1, NetArpWaitTxPacket := eth @ ip @ icmp\<rparr>)))"

definition ping_timeout :: "('d, 'z) nmach_scheme net_io \<Rightarrow> ('d, 'z) nmach_scheme \<Rightarrow> ('d, 'z) nmach_scheme" where
  "ping_timeout io s = (eth_halt io s)\<lparr>NetState := NETLOOP_FAIL\<rparr>"

definition ping_handler :: "u8 list \<Rightarrow> u32 \<Rightarrow> u32 \<Rightarrow> u32 \<Rightarrow> ('d, 'z) nmach_scheme \<Rightarrow> ('d, 'z) nmach_scheme" where
  "ping_handler pkt dest src len s =
     (if NetReadIP pkt 12 \<noteq> NetPingIP s then s else s\<lparr>NetState := NETLOOP_SUCCESS\<rparr>)"

definition PingStart :: "('d, 'z) nmach_scheme net_io \<Rightarrow> ('d, 'z) nmach_scheme \<Rightarrow> ('d, 'z) nmach_scheme" where
  "PingStart io s = snd (PingSend io (NetSetHandler PingHandler (NetSetTimeout io PING_TIMEOUT PingTimeout s)))"

section \<open>Receiving\<close>

text \<open>
  A handler takes the packet, the destination and source port and the length of the data;
  \<open>None\<close> when it does not return or reads outside the packet.
\<close>

type_synonym 's call_handler = "rxhand \<Rightarrow> u8 list \<Rightarrow> u32 \<Rightarrow> u32 \<Rightarrow> u32 \<Rightarrow> 's \<Rightarrow> 's option"

text \<open>Bytes of a buffer, and a buffer with bytes replaced.\<close>

definition slice :: "nat \<Rightarrow> nat \<Rightarrow> u8 list \<Rightarrow> u8 list" where "slice i n b = take n (drop i b)"

definition put_at :: "nat \<Rightarrow> u8 list \<Rightarrow> u8 list \<Rightarrow> u8 list" where
  "put_at i v b = take i b @ v @ drop (i + length v) b"

text \<open>
  The answer to an ARP request: the packet at \<open>k\<close> of the received buffer is changed in place,
  after the new Ethernet header was put in front of the buffer.
\<close>

definition arp_reply :: "u8 list \<Rightarrow> nat \<Rightarrow> ('d, 'z) nmach_scheme \<Rightarrow> u8 list" where
  "arp_reply b k s =
     (let eth = NetSetEther (slice 6 6 b) PROT_ARP s;
          b = put_at 0 eth b;
          b = put_at (k + 6) (net16 2) b;
          b = put_at (k + 18) (slice (k + 8) 6 b) b;
          b = put_at (k + 24) (slice (k + 14) 4 b) b;
          b = put_at (k + 8) (NetOurEther s) b;
          b = put_at (k + 14) (ip_bytes (NetOurIP s)) b
      in take (length eth + ARP_HDR_SIZE) b)"

definition arp_receive :: "('d, 'z) nmach_scheme net_io \<Rightarrow> u8 list \<Rightarrow> nat \<Rightarrow> int \<Rightarrow> ('d, 'z) nmach_scheme \<Rightarrow> ('d, 'z) nmach_scheme" where
  "arp_receive io b k len s =
     (if len < int ARP_HDR_SIZE
      then printf (line ''bad length %d < %d'') [Num (word_of_int len), Num (of_nat ARP_HDR_SIZE)] s
      else if get16 b k \<noteq> 1 \<or> get16 b (k + 2) \<noteq> PROT_IP \<or> b ! (k + 4) \<noteq> 6 \<or> b ! (k + 5) \<noteq> 4 then s
      else if NetOurIP s = 0 \<or> NetReadIP b (k + 24) \<noteq> NetOurIP s then s
      else if get16 b (k + 6) = 1 then eth_send io (arp_reply b k s) s
      else if get16 b (k + 6) = 2
      then (case NetArpWaitPacketMAC s of
              None \<Rightarrow> s
            | Some p \<Rightarrow>
                if NetArpWaitPacketIP s = 0 \<or> NetReadIP b (k + 14) \<noteq> NetArpWaitReplyIP s then s
                else let s = set_mac p (slice (k + 8) 6 b) s;
                         s = s\<lparr>NetArpWaitTxPacket := put_at 0 (mac_at p s) (NetArpWaitTxPacket s)\<rparr>;
                         s = eth_send io (NetArpWaitTxPacket s) s
                  in s\<lparr>NetArpWaitPacketIP := 0, NetArpWaitTxPacket := [], NetArpWaitPacketMAC := None\<rparr>)
      else s)"

definition rarp_receive :: "('d, 'z) nmach_scheme call_handler \<Rightarrow> u8 list \<Rightarrow> nat \<Rightarrow> int \<Rightarrow> ('d, 'z) nmach_scheme \<Rightarrow>
    ('d, 'z) nmach_scheme option" where
  "rarp_receive call b k len s =
     (if len < int ARP_HDR_SIZE
      then Some (printf (line ''bad length %d < %d'') [Num (word_of_int len), Num (of_nat ARP_HDR_SIZE)] s)
      else if get16 b (k + 6) \<noteq> 4 \<or> get16 b k \<noteq> 1 \<or> get16 b (k + 2) \<noteq> PROT_IP \<or> b ! (k + 4) \<noteq> 6 \<or> b ! (k + 5) \<noteq> 4
      then Some (printf (line ''invalid RARP header'') [] s)
      else let s = s\<lparr>NetOurIP := NetReadIP b (k + 24)\<rparr>;
               s = (if NetServerIP s = 0 then s\<lparr>NetServerIP := NetReadIP b (k + 14)\<rparr> else s);
               s = s\<lparr>NetServerEther := slice (k + 8) 6 b\<rparr>
        in call (packetHandler s) [] 0 0 0 s)"

text \<open>The answer to a ping: the received packet with addresses, checksums and type changed.\<close>

definition echo_reply :: "u8 list \<Rightarrow> nat \<Rightarrow> int \<Rightarrow> ('d, 'z) nmach_scheme \<Rightarrow> u8 list" where
  "echo_reply b k len s =
     (let b = put_at 0 (slice 6 6 b) b;
          b = put_at 6 (NetOurEther s) b;
          b = put_at (k + 10) [0, 0] b;
          b = put_at (k + 6) [0, 0] b;
          b = put_at (k + 16) (slice (k + 12) 4 b) b;
          b = put_at (k + 12) (ip_bytes (NetOurIP s)) b;
          b = put_at (k + 10) (cksum_bytes (NetCksum (drop k b) (IP_HDR_SIZE_NO_UDP div 2))) b;
          b = put_at (k + 20) [0] b;
          b = put_at (k + 22) [0, 0] b;
          b = put_at (k + 22) (cksum_bytes (NetCksum (drop (k + 20) b) (nat (len - int IP_HDR_SIZE_NO_UDP) div 2))) b
      in take (ETHER_HDR_SIZE + nat len) b)"

definition icmp_receive :: "('d, 'z) nmach_scheme net_io \<Rightarrow> ('d, 'z) nmach_scheme call_handler \<Rightarrow> u8 list \<Rightarrow> nat \<Rightarrow> int \<Rightarrow>
    ('d, 'z) nmach_scheme \<Rightarrow> ('d, 'z) nmach_scheme option" where
  "icmp_receive io call b k len s =
     (if b ! (k + 20) = 5
      then if b ! (k + 21) \<noteq> 1 then Some s
           else map_option (putc 0x20) (print_IPaddr (NetReadIP b (k + 24)) (printf '' ICMP Host Redirect to '' [] s))
      else if b ! (k + 20) = 0 then call (packetHandler s) (drop k b) 0 0 0 s
      else if b ! (k + 20) = 8 then Some (eth_send io (echo_reply b k len s) s)
      else Some s)"

text \<open>IP: only whole packets without options whose checksum is right and that are for us.\<close>

definition ip_receive :: "('d, 'z) nmach_scheme net_io \<Rightarrow> ('d, 'z) nmach_scheme call_handler \<Rightarrow> u8 list \<Rightarrow> nat \<Rightarrow> int \<Rightarrow>
    ('d, 'z) nmach_scheme \<Rightarrow> ('d, 'z) nmach_scheme option" where
  "ip_receive io call b k len s =
     (let ip_len = get16 b (k + 2)
      in if len < int IP_HDR_SIZE then Some s
         else if len < uint ip_len
         then Some (printf (line ''len bad %d < %d'') [Num (word_of_int len), Num (ucast ip_len)] s)
         else if b ! k AND 0xF0 \<noteq> 0x40 \<or> get16 b (k + 6) AND 0x3FFF \<noteq> 0 \<or> 5 < b ! k AND 0x0F then Some s
         else if \<not> NetCksumOk (drop k b) (IP_HDR_SIZE_NO_UDP div 2)
         then Some (printf (line ''checksum bad'') [] s)
         else let dst = NetReadIP b (k + 16)
           in if NetOurIP s \<noteq> 0 \<and> dst \<noteq> NetOurIP s \<and> dst \<noteq> -1 then Some s
              else if b ! (k + 9) = 1 then icmp_receive io call b k (uint ip_len) s
              else if b ! (k + 9) \<noteq> 17 then Some s
              else call (packetHandler s) (drop (k + IP_HDR_SIZE) b)
                (ucast (get16 b (k + 22))) (ucast (get16 b (k + 20))) (ucast (get16 b (k + 24)) - 8) s)"

text \<open>A received frame of \<open>len\<close> bytes in the buffer \<open>b\<close>.\<close>

definition NetReceive :: "('d, 'z) nmach_scheme net_io \<Rightarrow> ('d, 'z) nmach_scheme call_handler \<Rightarrow> u8 list \<Rightarrow> int \<Rightarrow>
    ('d, 'z) nmach_scheme \<Rightarrow> ('d, 'z) nmach_scheme option" where
  "NetReceive io call b len s =
     (let myvlanid = vlan_id (NetOurVLAN s) AND VLAN_IDMASK;
          mynvlanid = vlan_id (NetOurNativeVLAN s) AND VLAN_IDMASK;
          protlen = get16 b 12;
          tagged = (\<not> protlen < 1514 \<and> protlen = PROT_VLAN);
          k = (if protlen < 1514 then E802_HDR_SIZE else if tagged then VLAN_ETHER_HDR_SIZE else ETHER_HDR_SIZE);
          x = (if protlen < 1514 then get16 b 20 else if tagged then get16 b 16 else protlen);
          vlanid = (if tagged then get16 b 14 AND VLAN_IDMASK else VLAN_NONE);
          vlanid = (if vlanid = VLAN_NONE then mynvlanid else vlanid);
          n = len - int k
      in if len < int ETHER_HDR_SIZE then Some s
         else if tagged \<and> (len < int VLAN_ETHER_HDR_SIZE \<or> ntohs (NetOurVLAN s) AND VLAN_IDMASK = VLAN_NONE) then Some s
         else if myvlanid \<noteq> VLAN_NONE \<and> vlanid \<noteq> myvlanid then Some s
         else if x = PROT_ARP then Some (arp_receive io b k n s)
         else if x = PROT_RARP then rarp_receive call b k n s
         else if x = PROT_IP then ip_receive io call b k n s
         else Some s)"

section \<open>The network loop\<close>

datatype proto = BOOTP | RARP | ARP | TFTP | DHCP | PING | DNS | NFS | CDP | NETCONS | SNTP

text \<open>The addresses from the environment, when it changed since the last time.\<close>

definition NetInitLoop :: "env_config \<Rightarrow> proto \<Rightarrow> ('d, 'z) nmach_scheme \<Rightarrow> ('d, 'z) nmach_scheme option" where
  "NetInitLoop C protocol s =
     (let env_id = Env.env_id s
      in if env_changed_id s = env_id then Some s
         else do {
           s \<leftarrow> (if protocol \<in> {NFS, PING, NETCONS, TFTP} then do {
               let s = s\<lparr>NetOurIP := bi_ip_addr s\<rparr>;
               gw \<leftarrow> getenv_IPaddr C ''gatewayip'' s;
               mask \<leftarrow> getenv_IPaddr C ''netmask'' s;
               vlan \<leftarrow> getenv_VLAN C ''vlan'' s;
               nvlan \<leftarrow> getenv_VLAN C ''nvlan'' s;
               let s = s\<lparr>NetOurGatewayIP := gw, NetOurSubnetMask := mask, NetOurVLAN := vlan, NetOurNativeVLAN := nvlan\<rparr>;
               if protocol = PING then Some s
               else do { ip \<leftarrow> getenv_IPaddr C ''serverip'' s; Some (s\<lparr>NetServerIP := ip\<rparr>) }
             }
             else if protocol \<in> {BOOTP, RARP, CDP} then do {
               s \<leftarrow> (if protocol = CDP then Some s
                 else do { ip \<leftarrow> getenv_IPaddr C ''serverip'' s; Some (s\<lparr>NetOurIP := 0, NetServerIP := ip\<rparr>) });
               vlan \<leftarrow> getenv_VLAN C ''vlan'' s;
               nvlan \<leftarrow> getenv_VLAN C ''nvlan'' s;
               Some (s\<lparr>NetOurVLAN := vlan, NetOurNativeVLAN := nvlan\<rparr>)
             }
             else Some s);
           Some (s\<lparr>env_changed_id := env_id\<rparr>)
         })"

text \<open>1 when something is missing that the protocol needs.\<close>

definition net_check_prereq :: "proto \<Rightarrow> ('d, 'z) nmach_scheme \<Rightarrow> u32 \<times> ('d, 'z) nmach_scheme" where
  "net_check_prereq protocol s =
     (if protocol = PING \<and> NetPingIP s = 0 then (1, printf (line ''*** ERROR: ping address not given'') [] s)
      else if protocol \<in> {NFS, NETCONS, TFTP} \<and> NetServerIP s = 0
      then (1, printf (line (''*** ERROR: `serverip'' @ [CHR 0x27] @ '' not set'')) [] s)
      else if protocol \<in> {PING, NFS, NETCONS, TFTP} \<and> NetOurIP s = 0
      then (1, printf (line (''*** ERROR: `ipaddr'' @ [CHR 0x27] @ '' not set'')) [] s)
      else if protocol \<in> {PING, NFS, NETCONS, TFTP, DHCP, RARP, BOOTP, CDP} \<and> NetOurEther s = NetEtherNullAddr
      then (1, printf (line (''*** ERROR: `ethaddr'' @ [CHR 0x27] @ '' not set'')) [] s)
      else (0, s))"

text \<open>
  From the label \<open>restart\<close> to the loop. \<open>start\<close> sends the first packet of the protocol. The result
  is false when the network is not configured.
\<close>

definition net_restart :: "env_config \<Rightarrow> ('d, 'z) nmach_scheme net_io \<Rightarrow> (proto \<Rightarrow> ('d, 'z) nmach_scheme \<Rightarrow> ('d, 'z) nmach_scheme option) \<Rightarrow>
    proto \<Rightarrow> ('d, 'z) nmach_scheme \<Rightarrow> (bool \<times> ('d, 'z) nmach_scheme) option" where
  "net_restart C io start protocol s = do {
     s \<leftarrow> NetInitLoop C protocol (s\<lparr>NetOurEther := bi_enetaddr s, NetState := NETLOOP_CONTINUE\<rparr>);
     case net_check_prereq protocol s of (r, s) \<Rightarrow>
       if r = 1 then Some (False, eth_halt io s)
       else do { s \<leftarrow> start protocol s; Some (True, s\<lparr>NetBootFileXferSize := 0\<rparr>) }
   }"

text \<open>The frames the driver has received, one after the other.\<close>

primrec receive_all :: "('d, 'z) nmach_scheme net_io \<Rightarrow> ('d, 'z) nmach_scheme call_handler \<Rightarrow> (u8 list \<times> int) list \<Rightarrow>
    ('d, 'z) nmach_scheme \<Rightarrow> ('d, 'z) nmach_scheme option" where
  "receive_all io call [] s = Some s"
| "receive_all io call (f # fs) s = do { s \<leftarrow> NetReceive io call (fst f) (snd f) s; receive_all io call fs s }"

text \<open>The timeout handler, when its time has come.\<close>

definition run_timeout :: "('d, 'z) nmach_scheme net_io \<Rightarrow> (thand \<Rightarrow> ('d, 'z) nmach_scheme \<Rightarrow> ('d, 'z) nmach_scheme option) \<Rightarrow>
    ('d, 'z) nmach_scheme \<Rightarrow> ('d, 'z) nmach_scheme option" where
  "run_timeout io call s =
     (case timeHandler s of None \<Rightarrow> Some s
      | Some x \<Rightarrow>
          case net_time io s of (t, s) \<Rightarrow>
            if timeDelta s < t - timeStart s then call x (s\<lparr>timeHandler := None\<rparr>) else Some s)"

definition net_success :: "('d, 'z) nmach_scheme net_io \<Rightarrow> ('d, 'z) nmach_scheme \<Rightarrow> (u32 \<times> ('d, 'z) nmach_scheme) option" where
  "net_success io s = do {
     s \<leftarrow> (if NetBootFileXferSize s = 0 then Some s
       else do {
         let s = printf (line ''Bytes transferred = %ld (%lx hex)'') [Num (NetBootFileXferSize s), Num (NetBootFileXferSize s)] s;
         (_, buf, _) \<leftarrow> vsprintf (asc ''%lX'') [VInt (NetBootFileXferSize s)];
         (_, s) \<leftarrow> setenv (env_io.truncate io) (asc ''filesize'') (Some buf) s;
         (_, buf, _) \<leftarrow> vsprintf (asc ''%lX'') [VInt (load_addr s)];
         (_, s) \<leftarrow> setenv (env_io.truncate io) (asc ''fileaddr'') (Some buf) s;
         Some s
       });
     let s = eth_halt io s;
     Some (NetBootFileXferSize s, s)
   }"

text \<open>One pass of the loop: the result of a \<open>return\<close>, if there is one.\<close>

definition net_pass :: "env_config \<Rightarrow> ('d, 'z) nmach_scheme net_io \<Rightarrow> (proto \<Rightarrow> ('d, 'z) nmach_scheme \<Rightarrow> ('d, 'z) nmach_scheme option) \<Rightarrow>
    ('d, 'z) nmach_scheme call_handler \<Rightarrow> (thand \<Rightarrow> ('d, 'z) nmach_scheme \<Rightarrow> ('d, 'z) nmach_scheme option) \<Rightarrow> proto \<Rightarrow>
    ('d, 'z) nmach_scheme \<Rightarrow> (u32 option \<times> ('d, 'z) nmach_scheme) option" where
  "net_pass C io start call tcall protocol s = do {
     s \<leftarrow> (case eth_rx io s of (fs, s) \<Rightarrow> receive_all io call fs s);
     let (stop, s) = ctrlc io s;
     if stop then Some (Some (-1), printf (CHR 0x0A # line ''Abort'') [] (eth_halt io s))
     else do {
       s \<leftarrow> ArpTimeoutCheck C io s;
       s \<leftarrow> run_timeout io tcall s;
       if NetState s = NETLOOP_RESTART then do {
         (ok, s) \<leftarrow> net_restart C io start protocol s;
         Some (if ok then None else Some (-1), s)
       }
       else if NetState s = NETLOOP_SUCCESS then do { (r, s) \<leftarrow> net_success io s; Some (Some r, s) }
       else if NetState s = NETLOOP_FAIL then Some (Some (-1), s)
       else Some (None, s)
     }
   }"

definition NetLoop :: "env_config \<Rightarrow> ('d, 'z) nmach_scheme net_io \<Rightarrow> (proto \<Rightarrow> ('d, 'z) nmach_scheme \<Rightarrow> ('d, 'z) nmach_scheme option) \<Rightarrow>
    ('d, 'z) nmach_scheme call_handler \<Rightarrow> (thand \<Rightarrow> ('d, 'z) nmach_scheme \<Rightarrow> ('d, 'z) nmach_scheme option) \<Rightarrow> proto \<Rightarrow>
    ('d, 'z) nmach_scheme \<Rightarrow> (u32 \<times> ('d, 'z) nmach_scheme) option" where
  "NetLoop C io start call tcall protocol s =
     (let s = s\<lparr>NetArpWaitPacketMAC := None, NetArpWaitPacketIP := 0, NetArpWaitReplyIP := 0, NetArpWaitTxPacket := []\<rparr>
      in case eth_init io (eth_halt io s) of (ok, s) \<Rightarrow>
        if \<not> ok then Some (-1, eth_halt io s)
        else do {
          (ok, s) \<leftarrow> net_restart C io start protocol s;
          if ok then loopM (net_pass C io start call tcall protocol) s else Some (-1, s)
        })"

section \<open>Half words and addresses in packets\<close>

lemma u16_bytes: "push_bit 8 (ucast (ucast (drop_bit 8 v) :: u8)) OR ucast (ucast v :: u8) = (v :: u16)"
  by (rule bit_word_eqI) (auto simp: bit_simps)

lemma u32_bytes:
  "ucast (ucast x :: u8) OR push_bit 8 (ucast (ucast (drop_bit 8 x) :: u8)) OR
   push_bit 16 (ucast (ucast (drop_bit 16 x) :: u8)) OR push_bit 24 (ucast (ucast (drop_bit 24 x) :: u8)) = (x :: u32)"
  by (rule bit_word_eqI) (auto simp: word_from_bytes)

lemma get16_at: "b ! i = ucast (drop_bit 8 v) \<Longrightarrow> b ! (i + 1) = ucast v \<Longrightarrow> get16 b i = v"
  by (simp add: get16_def u16_bytes)

lemma ntohs_ntohs [simp]: "ntohs (ntohs v) = v"
  unfolding ntohs_def by (rule bit_word_eqI) (auto simp: bit_simps)

lemma bit_htonl:
  "bit (htonl x) n \<longleftrightarrow> bit x (if n < 8 then n + 24 else if n < 16 then n + 8 else if n < 24 then n - 8 else n - 24) \<and> n < 32"
proof -
  have m: "(0xFF :: u32) = mask 8" "(0xFF00 :: u32) = push_bit 8 (mask 8)" "(0xFF0000 :: u32) = push_bit 16 (mask 8)"
    by (simp_all add: mask_eq_exp_minus_1 push_bit_eq_mult)
  consider "n < 8" | "8 \<le> n" "n < 16" | "16 \<le> n" "n < 24" | "24 \<le> n" by linarith
  then show ?thesis unfolding htonl_def m by cases (auto simp: bit_simps add.commute dest: bit_imp_le_length)
qed

lemma htonl_htonl: "htonl (htonl x) = x"
proof (rule bit_word_eqI)
  fix n assume "n < LENGTH(32)"
  then have n: "n < 32" by simp
  consider "n < 8" | "8 \<le> n" "n < 16" | "16 \<le> n" "n < 24" | "24 \<le> n" by linarith
  then show "bit (htonl (htonl x)) n = bit x n" using n by cases (auto simp: bit_htonl)
qed

section \<open>The checksum\<close>

text \<open>The sum of the half words as a number, and its end-around carry form.\<close>

definition word_sum :: "u8 list \<Rightarrow> nat \<Rightarrow> nat" where
  "word_sum b n = (\<Sum>i<n. unat (b ! (2 * i)) + 256 * unat (b ! (2 * i + 1)))"

definition fold16 :: "nat \<Rightarrow> nat" where "fold16 S = (if S = 0 then 0 else (S - 1) mod 65535 + 1)"

lemma half_word_value: "unat (ucast ((ucast (x :: u8) OR push_bit 8 (ucast (y :: u8))) :: u16) :: u32) = unat x + 256 * unat y"
proof -
  have "(ucast x :: u16) OR push_bit 8 (ucast y) = ucast x + push_bit 8 (ucast y)"
  proof (rule disjunctive_add_eq_or [symmetric], rule bit_word_eqI)
    fix n
    show "bit ((ucast x :: u16) AND push_bit 8 (ucast y)) n = bit (0 :: u16) n"
      using bit_imp_le_length [of x n] by (auto simp: bit_simps)
  qed
  moreover have "unat ((ucast x :: u16) + push_bit 8 (ucast y)) = unat x + 256 * unat y"
    using unat_u8_less [of x] unat_u8_less [of y]
    by (simp add: unat_word_ariths push_bit_eq_mult unsigned_ucast_eq take_bit_nat_eq_self)
  ultimately show ?thesis
    using unat_u8_less [of x] unat_u8_less [of y] by (simp add: unsigned_ucast_eq take_bit_nat_eq_self)
qed

lemma word_sum_bound: "word_sum b n \<le> n * 65535"
proof (induction n)
  case (Suc n)
  then show ?case using unat_u8_less [of "b ! (2 * n)"] unat_u8_less [of "b ! (2 * n + 1)"]
    by (simp add: word_sum_def)
qed (simp add: word_sum_def)

lemma cksum_words_value:
  assumes "n \<le> 65536"
  shows "unat (cksum_words b n) = word_sum b n"
  using assms
proof (induction n)
  case (Suc n)
  then have "unat (cksum_words b n) = word_sum b n" by simp
  moreover have "word_sum b (Suc n) < 2 ^ 32" using word_sum_bound [of b "Suc n"] Suc.prems by simp
  ultimately show ?case
    by (simp add: unat_word_ariths half_word_value word_sum_def del: of_nat_Suc)
qed (simp add: word_sum_def)

lemma carry_mod: "(S mod 65536 + S div 65536) mod 65535 = S mod (65535 :: nat)"
proof -
  have "S = (S mod 65536 + S div 65536) + 65535 * (S div 65536)"
    using mult_div_mod_eq [of 65536 S] by linarith
  then show ?thesis using mod_mult_self2 [of "S mod 65536 + S div 65536" 65535 "S div 65536"] by simp
qed

lemma carry_zero: "S mod 65536 + S div 65536 = 0 \<longleftrightarrow> S = (0 :: nat)"
  using mult_div_mod_eq [of 65536 S] by auto

lemma carry_bound:
  assumes "S \<le> (131070 :: nat)"
  shows "S mod 65536 + S div 65536 \<le> 65535"
proof (cases "S < 65536")
  case False
  then have "S div 65536 = 1" "S mod 65536 = S - 65536" using assms by (simp_all add: le_div_geq le_mod_geq)
  then show ?thesis using assms by simp
qed simp

lemma fold16_unique:
  assumes "r mod 65535 = S mod 65535" and "r \<le> 65535" and "r = 0 \<longleftrightarrow> S = 0"
  shows "r = fold16 S"
proof (cases "S = 0")
  case False
  have "(S - 1) mod m + 1 = r" if "r mod m = S mod m" "r \<le> m" for m :: nat
  proof (cases "r = m")
    case True
    then have "S = m * (S div m)" using that(1) mult_div_mod_eq [of m S] by simp
    moreover from this have "0 < S div m" using False by (metis gr0I mult_0_right)
    ultimately have "S - 1 = (m - 1) + m * (S div m - 1)"
      using True False assms(3) by (cases "S div m"; cases m) auto
    then have "(S - 1) mod m = (m - 1) mod m" by (metis mod_mult_self2)
    moreover have "0 < m" using True False assms(3) by auto
    ultimately show ?thesis using True by simp
  next
    case f: False
    then have "S mod m = r" "0 < r" "r < m" using that False assms(3) by auto
    then have "S - 1 = (r - 1) + m * (S div m)" using mult_div_mod_eq [of m S] by linarith
    then have "(S - 1) mod m = r - 1" using \<open>r < m\<close> by simp
    then show ?thesis using \<open>0 < r\<close> by simp
  qed
  from this [OF assms(1,2)] show ?thesis using False by (simp add: fold16_def)
qed (use assms in \<open>simp add: fold16_def\<close>)

lemma fold_step: "unat ((x AND 0xFFFF) + drop_bit 16 x :: u32) = unat x mod 65536 + unat x div 65536"
proof -
  have "x AND 0xFFFF = take_bit 16 x" using take_bit_eq_mask [of 16 x] by (simp add: mask_eq_exp_minus_1)
  then have "unat (x AND 0xFFFF) = take_bit 16 (unat x)" by (simp only: unsigned_take_bit_eq)
  then have "unat (x AND 0xFFFF) = unat x mod 65536" by (simp add: take_bit_eq_mod)
  moreover have "unat (drop_bit 16 x) = drop_bit 16 (unat x)" 
    using unat_u32_less [of x] by (simp only: unsigned_drop_bit_eq) (simp add: take_bit_nat_eq_self)
  then have "unat (drop_bit 16 x) = unat x div 65536" by (simp add: drop_bit_eq_div)
  moreover have "unat x mod 65536 + unat x div 65536 < 2 ^ 32" using unat_u32_less [of x] by simp
  ultimately show ?thesis by (simp add: unat_word_ariths)
qed

lemma NetCksum_value:
  assumes "n \<le> 65536"
  shows "unat (NetCksum b n) = fold16 (word_sum b n)"
proof -
  define S where "S = word_sum b n"
  define f where "f = (\<lambda>x :: nat. x mod 65536 + x div 65536)"
  have S: "unat (cksum_words b n) = S" "S < 2 ^ 32"
    using cksum_words_value [OF assms] unat_u32_less [of "cksum_words b n"] by (simp_all add: S_def)
  have "S mod 65536 \<le> 65535" "S div 65536 \<le> 65535" using S(2) by simp_all
  then have "f S \<le> 131070" unfolding f_def by linarith
  then have le: "f (f S) \<le> 65535" using carry_bound [of "f S"] by (simp add: f_def)
  let ?y = "(cksum_words b n AND 0xFFFF) + drop_bit 16 (cksum_words b n)"
  let ?z = "(?y AND 0xFFFF) + drop_bit 16 ?y"
  have z: "unat ?z = f (f S)" by (simp add: fold_step S(1) f_def)
  have "NetCksum b n = take_bit 16 ?z"
    using take_bit_eq_mask [of 16 ?z] by (simp add: NetCksum_def Let_def mask_eq_exp_minus_1)
  then have "unat (NetCksum b n) = take_bit 16 (f (f S))" by (simp only: unsigned_take_bit_eq z)
  then have "unat (NetCksum b n) = f (f S)" using le by (simp add: take_bit_nat_eq_self)
  moreover have "f (f S) mod 65535 = S mod 65535" by (simp add: f_def carry_mod)
  moreover have "f (f S) = 0 \<longleftrightarrow> S = 0" by (simp only: f_def carry_zero)
  ultimately show ?thesis using fold16_unique le by (metis S_def)
qed

lemma fold16_bound: "fold16 S \<le> 65535"
proof -
  have "(S - 1) mod 65535 < 65535" by simp
  then have "(S - 1) mod 65535 + 1 \<le> 65535" by linarith
  then show ?thesis unfolding fold16_def by presburger
qed

lemma fold16_complement: "fold16 (S + (65535 - fold16 S)) = 65535"
proof (cases "S = 0")
  case False
  define q where "q = (S - 1) div 65535"
  have "S - 1 = 65535 * q + (S - 1) mod 65535" unfolding q_def by simp
  then have "S + (65535 - fold16 S) = 65535 * q + 65535"
    using False fold16_bound [of S] by (simp add: fold16_def)
  then have "S + (65535 - fold16 S) - 1 = 65534 + 65535 * q" "S + (65535 - fold16 S) \<noteq> 0" by simp_all
  moreover have "(65534 + 65535 * q) mod 65535 = 65534" using mod_mult_self2 [of 65534 65535 q] by simp
  ultimately show ?thesis by (simp add: fold16_def)
qed (simp add: fold16_def)

lemma complement_bytes:
  assumes "unat (x :: u32) \<le> 65535"
  shows "unat (ucast (NOT x) :: u8) + 256 * unat (ucast (drop_bit 8 (NOT x)) :: u8) = 65535 - unat x"
proof -
  define N where "N = unat (NOT x)"
  have "x + NOT x = -1" by (simp add: not_eq_complement)
  then have "NOT x = -1 - x" by (simp add: algebra_simps)
  then have "N = 4294967295 - unat x" using unat_sub [of x "-1"] unfolding N_def by simp
  then have N: "N = 65535 * 65536 + (65535 - unat x)" using assms by simp
  have "unat (ucast (NOT x) :: u8) = N mod 256"
    by (simp only: unsigned_ucast_eq N_def) (simp add: take_bit_eq_mod)
  moreover have "unat (drop_bit 8 (NOT x)) = N div 256"
    using unat_u32_less [of "NOT x"]
    by (simp only: unsigned_drop_bit_eq N_def) (simp add: take_bit_nat_eq_self drop_bit_eq_div)
  then have "unat (ucast (drop_bit 8 (NOT x)) :: u8) = N div 256 mod 256"
    by (simp only: unsigned_ucast_eq) (simp add: take_bit_eq_mod)
  moreover have "N mod 256 + 256 * (N div 256 mod 256) = N mod 65536"
    using mod_mult2_eq [of N 256 256] by simp
  moreover have "N mod 65536 = 65535 - unat x"
    unfolding N using mod_mult_self3 [of 65535 65536 "65535 - unat x"] by simp
  ultimately show ?thesis by simp
qed

lemma NetCksumOk_value: "n \<le> 65536 \<Longrightarrow> fold16 (word_sum b n) = 65535 \<Longrightarrow> NetCksumOk b n"
proof -
  assume "n \<le> 65536" and "fold16 (word_sum b n) = 65535"
  then have "unat (NetCksum b n) = 65535" by (simp add: NetCksum_value)
  then have "NetCksum b n = 0xFFFF" by (simp add: word_unat_eq_iff)
  then show ?thesis by (simp add: NetCksumOk_def)
qed

lemma word_sum_10:
  "word_sum b 10 = unat (b ! 0) + 256 * unat (b ! 1) + (unat (b ! 2) + 256 * unat (b ! 3)) + (unat (b ! 4) + 256 * unat (b ! 5))
     + (unat (b ! 6) + 256 * unat (b ! 7)) + (unat (b ! 8) + 256 * unat (b ! 9)) + (unat (b ! 10) + 256 * unat (b ! 11))
     + (unat (b ! 12) + 256 * unat (b ! 13)) + (unat (b ! 14) + 256 * unat (b ! 15))
     + (unat (b ! 16) + 256 * unat (b ! 17)) + (unat (b ! 18) + 256 * unat (b ! 19))"
proof -
  have "{..<10 :: nat} = {0, 1, 2, 3, 4, 5, 6, 7, 8, 9}" by auto
  then show ?thesis by (simp add: word_sum_def)
qed

lemma ip_header_ok: "NetCksumOk (ip_header len ident prot src dest @ rest) 10"
proof -
  define front where "front = [0x45, 0] @ net16 len @ net16 ident @ net16 0x4000 @ [255, prot]"
  define addrs where "addrs = ip_bytes src @ ip_bytes dest"
  define sum where "sum = NetCksum (front @ [0, 0] @ addrs) 10"
  have "word_sum (front @ [x, y] @ addrs @ rest) 10 = word_sum (front @ [0, 0] @ addrs) 10 + (unat x + 256 * unat y)" for x y
    by (simp add: word_sum_10 front_def addrs_def net16_def ip_bytes_def)
  moreover have "unat sum = fold16 (word_sum (front @ [0, 0] @ addrs) 10)" by (simp add: sum_def NetCksum_value)
  moreover from this have "unat sum \<le> 65535" using fold16_bound by simp
  ultimately have "fold16 (word_sum (front @ cksum_bytes sum @ addrs @ rest) 10) = 65535"
    using fold16_complement [of "word_sum (front @ [0, 0] @ addrs) 10"] by (simp add: cksum_bytes_def complement_bytes)
  then show ?thesis
    by (intro NetCksumOk_value) (simp_all add: ip_header_def Let_def front_def addrs_def sum_def IP_HDR_SIZE_NO_UDP_def)
qed

section \<open>A packet that is sent arrives\<close>

lemma at_offset:
  "get16 b (k + i) = get16 (drop k b) i" "NetReadIP b (k + i) = NetReadIP (drop k b) i" "b ! (k + i) = drop k b ! i" "b ! k = drop k b ! 0"
  if "k \<le> length b"
  using that by (simp_all add: get16_def NetReadIP_def add.assoc)

lemma get16_cons [simp]: "get16 (ucast (drop_bit 8 v) # ucast v # b) 0 = v" "get16 (x # b) (Suc i) = get16 b i"
  by (simp_all add: get16_def u16_bytes)

lemma NetReadIP_cons [simp]: "NetReadIP (ip_bytes x @ b) 0 = x" "NetReadIP (ip_bytes x) 0 = x" "NetReadIP (y # b) (Suc i) = NetReadIP b i"
  by (simp_all add: NetReadIP_def ip_bytes_def u32_bytes add.commute)

lemma packet_cons [simp]:
  "get16 (x # b) (numeral n) = get16 b (pred_numeral n)" "NetReadIP (x # b) (numeral n) = NetReadIP b (pred_numeral n)"
  by (simp_all only: numeral_eq_Suc get16_cons NetReadIP_cons)

lemma get16_append: "length h \<le> i \<Longrightarrow> get16 (h @ u) i = get16 u (i - length h)"
  by (simp add: get16_def nth_append not_less Suc_diff_le)

lemma ip_header_fields:
  assumes h_def: "h = ip_header len ident prot src dest"
  shows "length h = 20" and "(h @ b) ! 0 = 0x45" and "get16 (h @ b) 2 = len" and "get16 (h @ b) 4 = ident" and "get16 (h @ b) 6 = 0x4000"
    and "(h @ b) ! 9 = prot" and "NetReadIP (h @ b) 12 = src" and "NetReadIP (h @ b) 16 = dest"
proof -
  obtain c0 c1 where h: "h = [0x45, 0] @ net16 len @ net16 ident @ net16 0x4000 @ [255, prot] @ [c0, c1] @ ip_bytes src @ ip_bytes dest"
    by (simp add: h_def ip_header_def cksum_bytes_def Let_def)
  show "length h = 20" "(h @ b) ! 0 = 0x45" "get16 (h @ b) 2 = len" "get16 (h @ b) 4 = ident" "get16 (h @ b) 6 = 0x4000" "(h @ b) ! 9 = prot"
    by (simp_all add: h net16_def ip_bytes_def) (simp_all add: get16_def)?
  show "NetReadIP (h @ b) 12 = src" by (simp add: h net16_def) 
  have "h @ b = ([0x45, 0] @ net16 len @ net16 ident @ net16 0x4000 @ [255, prot] @ [c0, c1] @
      [ucast src, ucast (drop_bit 8 src), ucast (drop_bit 16 src), ucast (drop_bit 24 src)]) @ ip_bytes dest @ b"
    by (simp add: h ip_bytes_def)
  then show "NetReadIP (h @ b) 16 = dest" by (simp add: net16_def)
qed

lemma ip_receive_udp:
  assumes b: "drop k b = ip_header (of_nat (28 + n)) ident 17 src dest @ net16 sport @ net16 dport @ net16 u @ [0, 0] @ data"
    and "k \<le> length b" and n: "n + 28 < 65536" and "int (28 + n) \<le> len" and ip: "NetOurIP r = dest \<or> NetOurIP r = 0"
  shows "ip_receive io call b k len r = call (packetHandler r) data (ucast dport) (ucast sport) (ucast u - 8) r"
proof -
  let ?h = "ip_header (of_nat (28 + n)) ident 17 src dest"
  let ?u = "net16 sport @ net16 dport @ net16 u @ [0, 0] @ data"
  note l20 = ip_header_fields(1) [OF refl, of "of_nat (28 + n)" ident 17 src dest]
  note f = ip_header_fields(2-8) [where h = ?h, OF refl, where b = ?u]
  have l: "uint (of_nat (28 + n) :: u16) = int (28 + n)"
    using n by (simp only: unsigned_of_nat) (simp add: take_bit_nat_eq_self)
  have "get16 (?h @ ?u) i = get16 ?u (i - 20)" if "20 \<le> i" for i
    using that get16_append [of ?h i ?u] l20 by simp
  then have u: "get16 (?h @ ?u) 22 = dport" "get16 (?h @ ?u) 20 = sport" "get16 (?h @ ?u) 24 = u"
    by (simp_all add: net16_def)
  have "drop (k + 28) b = drop 28 (drop k b)" by (simp add: add.commute)
  then have d: "drop (k + 28) b = data" using l20 by (simp only: b) (simp add: net16_def)
  show ?thesis
    unfolding ip_receive_def Let_def at_offset [OF assms(2)] b f l u IP_HDR_SIZE_def d
    using assms(4) ip ip_header_ok [of "of_nat (28 + n)" ident 17 src dest ?u]
    by (auto simp: IP_HDR_SIZE_NO_UDP_def)
qed

lemma udp_length_value: "n < 65528 \<Longrightarrow> ucast (of_nat (8 + n) :: u16) - 8 = (of_nat n :: u32)"
proof -
  assume n: "n < 65528"
  have "(ucast (of_nat (8 + n) :: u16) :: u32) = of_nat (8 + n)"
    using n by (simp only: word_unat_eq_iff unsigned_ucast_eq unsigned_of_nat) (simp add: take_bit_nat_eq_self)
  then show ?thesis by simp
qed

lemma six_bytes: "length (xs :: u8 list) = 6 \<Longrightarrow> \<exists>a b c d e f. xs = [a, b, c, d, e, f]"
  by (auto simp: numeral_eq_Suc length_Suc_conv)

text \<open>An IP or ARP frame of the same VLAN reaches the function for its protocol.\<close>

lemma NetReceive_front:
  assumes "length mac = 6" and "length (NetOurEther s) = 6" and "NetOurVLAN r = NetOurVLAN s" and b: "b = NetSetEther mac prot s @ p"
    and prot: "prot \<in> {PROT_IP, PROT_ARP}" and "int (length (NetSetEther mac prot s)) \<le> len"
  shows "NetReceive io call b len r =
    (if prot = PROT_ARP then Some (arp_receive io b (length (NetSetEther mac prot s)) (len - int (length (NetSetEther mac prot s))) r)
     else ip_receive io call b (length (NetSetEther mac prot s)) (len - int (length (NetSetEther mac prot s))) r)"
proof -
  obtain a0 a1 a2 a3 a4 a5 where m: "mac = [a0, a1, a2, a3, a4, a5]" using six_bytes [OF assms(1)] by blast
  obtain o0 o1 o2 o3 o4 o5 where o: "NetOurEther s = [o0, o1, o2, o3, o4, o5]" using six_bytes [OF assms(2)] by blast
  define v where "v = vlan_id (NetOurVLAN s) AND VLAN_IDMASK"
  show ?thesis
  proof (cases "v = VLAN_NONE")
    case True
    then have e: "NetSetEther mac prot s = [a0, a1, a2, a3, a4, a5, o0, o1, o2, o3, o4, o5] @ net16 prot"
      by (simp add: NetSetEther_def m o v_def)
    have g: "get16 b 12 = prot" "length (NetSetEther mac prot s) = 14" by (simp_all add: b e net16_def)
    show ?thesis
      using assms(6) True prot unfolding NetReceive_def assms(3) v_def [symmetric] g Let_def
      by (auto simp add: PROT_IP_def PROT_VLAN_def PROT_ARP_def PROT_RARP_def ETHER_HDR_SIZE_def)
  next
    case False
    then have e: "NetSetEther mac prot s = [a0, a1, a2, a3, a4, a5, o0, o1, o2, o3, o4, o5] @ net16 PROT_VLAN @ net16 v @ net16 prot"
      by (simp add: NetSetEther_def m o v_def Let_def)
    have g: "get16 b 12 = PROT_VLAN" "get16 b 14 = v" "get16 b 16 = prot" "length (NetSetEther mac prot s) = 18"
      by (simp_all add: b e net16_def)
    have "v AND VLAN_IDMASK = v" by (simp add: v_def and.assoc)
    moreover have "ntohs (NetOurVLAN s) AND VLAN_IDMASK \<noteq> VLAN_NONE"
      using False by (auto simp: v_def vlan_id_def VLAN_IDMASK_def VLAN_NONE_def split: if_splits)
    ultimately show ?thesis
      using assms(6) False prot unfolding NetReceive_def assms(3) v_def [symmetric] g Let_def
      by (auto simp add: PROT_IP_def PROT_VLAN_def PROT_ARP_def PROT_RARP_def ETHER_HDR_SIZE_def VLAN_ETHER_HDR_SIZE_def)
  qed
qed

text \<open>The frame of a UDP packet, and how the network stack takes it in.\<close>

definition udp_frame :: "u8 list \<Rightarrow> u32 \<Rightarrow> u16 \<Rightarrow> u16 \<Rightarrow> u8 list \<Rightarrow> ('d, 'z) nmach_scheme \<Rightarrow> u8 list" where
  "udp_frame mac dest dport sport payload s =
     NetSetEther mac PROT_IP s @ fst (NetSetIP dest dport sport (length payload) s) @ payload"

lemma NetSendUDPPacket_frame:
  assumes "mac_at ether s \<noteq> NetEtherNullAddr" and "dest \<noteq> 0" and "dest \<noteq> -1"
  shows "NetSendUDPPacket io ether dest dport sport payload s =
    (0, eth_send io (udp_frame (mac_at ether s) dest dport sport payload s) (s\<lparr>NetIPID := NetIPID s + 1\<rparr>))"
  using assms by (simp add: NetSendUDPPacket_def Let_def NetSetIP_def udp_frame_def)

lemma udp_frame_received:
  assumes "length mac = 6" and "length (NetOurEther s) = 6" and "length payload < 65508"
    and "NetOurVLAN r = NetOurVLAN s" and "NetOurIP r = dest \<or> NetOurIP r = 0"
    and frame: "frame = udp_frame mac dest dport sport payload s"
  shows "NetReceive io call (frame @ rest) (int (length frame)) r =
    call (packetHandler r) (payload @ rest) (ucast dport) (ucast sport) (of_nat (length payload)) r"
proof -
  let ?n = "length payload" and ?eth = "NetSetEther mac PROT_IP s"
  have f: "frame @ rest = ?eth @ ip_header (of_nat (28 + ?n)) (ucast (NetIPID s)) 17 (NetOurIP s) dest
      @ net16 sport @ net16 dport @ net16 (of_nat (8 + ?n)) @ [0, 0] @ payload @ rest"
    by (simp add: frame udp_frame_def NetSetIP_def IP_HDR_SIZE_def)
  have len: "int (length frame) - int (length ?eth) = int (28 + ?n)"
    using ip_header_fields(1) by (simp add: frame udp_frame_def NetSetIP_def net16_def)
  have "NetReceive io call (frame @ rest) (int (length frame)) r =
      ip_receive io call (frame @ rest) (length ?eth) (int (length frame) - int (length ?eth)) r"
  proof (subst NetReceive_front [OF assms(1,2,4), where prot = PROT_IP])
    show "frame @ rest = ?eth @ drop (length ?eth) (frame @ rest)" by (simp add: frame udp_frame_def)
  qed (simp_all add: frame udp_frame_def PROT_IP_def PROT_ARP_def)
  also have "\<dots> = call (packetHandler r) (payload @ rest) (ucast dport) (ucast sport) (ucast (of_nat (8 + ?n) :: u16) - 8) r"
    by (rule ip_receive_udp [where dest = dest]) (use assms(3,5) len f in \<open>auto simp: f\<close>)
  also have "ucast (of_nat (8 + ?n) :: u16) - 8 = (of_nat ?n :: u32)" using assms(3) by (intro udp_length_value) simp
  finally show ?thesis .
qed

text \<open>
  C34: what \<open>NetSendUDPPacket\<close> sends to a known hardware address is a frame that \<open>NetReceive\<close>, on a
  board with the address it is for and on the same VLAN, or with no address yet, passes on to the
  handler with its data, its ports and its length, whatever the rest of the buffer holds.
\<close>
theorem udp_delivered:
  assumes "length (mac_at ether s) = 6" and "mac_at ether s \<noteq> NetEtherNullAddr" and "length (NetOurEther s) = 6"
    and "dest \<noteq> 0" and "dest \<noteq> -1" and "length payload < 65508"
  shows "\<exists>frame. NetSendUDPPacket io ether dest dport sport payload s =
      (0, eth_send io frame (s\<lparr>NetIPID := NetIPID s + 1\<rparr>)) \<and>
    (\<forall>r pad. NetOurVLAN r = NetOurVLAN s \<longrightarrow> NetOurIP r = dest \<or> NetOurIP r = 0 \<longrightarrow>
      NetReceive io' call (frame @ pad) (int (length frame)) r =
        call (packetHandler r) (payload @ pad) (ucast dport) (ucast sport) (of_nat (length payload)) r)"
  using NetSendUDPPacket_frame [OF assms(2,4,5)] udp_frame_received [OF assms(1,3,6) _ _ refl] by blast

section \<open>Address resolution\<close>

text \<open>An ARP packet: operation, sender and target.\<close>

definition arp_packet :: "u16 \<Rightarrow> u8 list \<Rightarrow> u32 \<Rightarrow> u8 list \<Rightarrow> u32 \<Rightarrow> u8 list" where
  "arp_packet op smac sip tmac tip = net16 1 @ net16 PROT_IP @ [6, 4] @ net16 op @ smac @ ip_bytes sip @ tmac @ ip_bytes tip"

definition next_hop :: "u32 \<Rightarrow> ('d, 'z) nmach_scheme \<Rightarrow> u32" where
  "next_hop dest s = (if dest AND NetOurSubnetMask s = NetOurIP s AND NetOurSubnetMask s then dest else NetOurGatewayIP s)"

lemma ArpRequest_frame:
  assumes "next_hop (NetArpWaitPacketIP s) s \<noteq> 0"
  shows "ArpRequest io s = eth_send io (NetSetEther NetBcastAddr PROT_ARP s @ arp_packet 1 (NetOurEther s) (NetOurIP s) (replicate 6 0)
    (next_hop (NetArpWaitPacketIP s) s)) (s\<lparr>NetArpWaitReplyIP := next_hop (NetArpWaitPacketIP s) s\<rparr>)"
  using assms by (auto simp: ArpRequest_def next_hop_def arp_packet_def Let_def)

lemma ip_bytes_list: "length (ip_bytes x) = 4" by (simp add: ip_bytes_def)

lemma slice_append: "length h \<le> i \<Longrightarrow> slice i n (h @ u) = slice (i - length h) n u"
  by (simp add: slice_def)

lemma put_at_append: "length h \<le> i \<Longrightarrow> put_at i v (h @ u) = h @ put_at (i - length h) v u"
  by (simp add: put_at_def)

lemma put_at_front: "length v = length h \<Longrightarrow> put_at 0 v (h @ u) = v @ u"
  by (simp add: put_at_def)

lemma arp_fields:
  assumes "length smac = 6" and "length tmac = 6" and "b = eth @ arp_packet op smac sip tmac tip @ rest" and "k = length eth"
  shows "get16 b k = 1" and "get16 b (k + 2) = PROT_IP" and "b ! (k + 4) = 6" and "b ! (k + 5) = 4" and "get16 b (k + 6) = op"
    and "NetReadIP b (k + 14) = sip" and "NetReadIP b (k + 24) = tip" and "slice (k + 8) 6 b = smac" and "slice (k + 14) 4 b = ip_bytes sip"
proof -
  obtain s0 s1 s2 s3 s4 s5 where s: "smac = [s0, s1, s2, s3, s4, s5]" using six_bytes [OF assms(1)] by blast
  obtain t0 t1 t2 t3 t4 t5 where t: "tmac = [t0, t1, t2, t3, t4, t5]" using six_bytes [OF assms(2)] by blast
  have k: "k \<le> length b" "drop k b = arp_packet op smac sip tmac tip @ rest" by (simp_all add: assms(3,4))
  have "get16 b k = get16 (drop k b) 0" using at_offset(1) [OF k(1), of 0] by simp
  then show "get16 b k = 1" unfolding k(2) by (simp add: arp_packet_def net16_def get16_def)
  show "get16 b (k + 2) = PROT_IP" "b ! (k + 4) = 6" "b ! (k + 5) = 4" "get16 b (k + 6) = op"
    unfolding at_offset [OF k(1)] k(2) by (simp_all add: arp_packet_def net16_def)
  show "NetReadIP b (k + 14) = sip" unfolding at_offset [OF k(1)] k(2) by (simp add: arp_packet_def net16_def s)
  have i: "ip_bytes sip = [ucast sip, ucast (drop_bit 8 sip), ucast (drop_bit 16 sip), ucast (drop_bit 24 sip)]"
    by (simp add: ip_bytes_def)
  show "NetReadIP b (k + 24) = tip"
    unfolding at_offset [OF k(1)] k(2) arp_packet_def s t i net16_def by (simp del: NetReadIP_cons(1)) (simp add: NetReadIP_cons(1))?
  show "slice (k + 8) 6 b = smac" "slice (k + 14) 4 b = ip_bytes sip"
    by (simp_all add: assms(3,4) slice_append) (simp_all add: slice_def arp_packet_def net16_def s ip_bytes_list)
qed

lemma arp_reply_packet:
  assumes "length smac = 6" and "length tmac = 6" and "length (NetOurEther s) = 6"
    and b: "b = eth @ arp_packet 1 smac sip tmac tip @ rest" and "k = length eth" and "length (NetSetEther (slice 6 6 b) PROT_ARP s) = k"
  shows "arp_reply b k s = NetSetEther (slice 6 6 b) PROT_ARP s @ arp_packet 2 (NetOurEther s) (NetOurIP s) smac sip"
proof -
  obtain s0 s1 s2 s3 s4 s5 where s: "smac = [s0, s1, s2, s3, s4, s5]" using six_bytes [OF assms(1)] by blast
  obtain t0 t1 t2 t3 t4 t5 where t: "tmac = [t0, t1, t2, t3, t4, t5]" using six_bytes [OF assms(2)] by blast
  obtain o0 o1 o2 o3 o4 o5 where o: "NetOurEther s = [o0, o1, o2, o3, o4, o5]" using six_bytes [OF assms(3)] by blast
  define h where "h = NetSetEther (slice 6 6 b) PROT_ARP s"
  have h: "length h = k" using assms(6) by (simp add: h_def)
  have "put_at 0 h b = h @ arp_packet 1 smac sip tmac tip @ rest" using h assms(5) by (simp add: b put_at_front)
  then show ?thesis
    unfolding arp_reply_def h_def [symmetric]
    by (simp add: Let_def put_at_append slice_append h)
      (simp add: put_at_def slice_def arp_packet_def net16_def ip_bytes_def s t o h ARP_HDR_SIZE_def)
qed

text \<open>A driver and a timer that leave the variables of the network stack alone.\<close>

definition net_part :: "('d, 'z) nmach_scheme \<Rightarrow> _" where
  "net_part s = ((NetOurEther s, NetServerEther s, NetOurIP s, NetOurVLAN s),
     (NetArpWaitPacketIP s, NetArpWaitReplyIP s, NetArpWaitPacketMAC s, NetArpWaitTxPacket s),
     (NetOurSubnetMask s, NetOurGatewayIP s))"

definition quiet_net :: "('d, 'z) nmach_scheme net_io \<Rightarrow> bool" where
  "quiet_net io \<longleftrightarrow> (\<forall>f s. net_part (eth_send io f s) = net_part s) \<and> (\<forall>s. net_part (snd (net_time io s)) = net_part s)"

lemma arp_wait_sends:
  assumes "quiet_net io" and "next_hop (NetArpWaitPacketIP s) s \<noteq> 0"
  shows "\<exists>s1. arp_wait io s = eth_send io (NetSetEther NetBcastAddr PROT_ARP s @
      arp_packet 1 (NetOurEther s) (NetOurIP s) (replicate 6 0) (next_hop (NetArpWaitPacketIP s) s)) s1 \<and>
    net_part s1 = net_part (s\<lparr>NetArpWaitReplyIP := next_hop (NetArpWaitPacketIP s) s\<rparr>)"
proof -
  obtain t s' where t: "net_time io (s\<lparr>NetArpWaitTry := 1\<rparr>) = (t, s')" by (cases "net_time io (s\<lparr>NetArpWaitTry := 1\<rparr>)")
  define s2 where "s2 = s'\<lparr>NetArpWaitTimerStart := t\<rparr>"
  have "net_part s' = net_part (s\<lparr>NetArpWaitTry := 1\<rparr>)" using assms(1) t by (metis quiet_net_def snd_conv)
  then have p: "net_part s2 = net_part s" by (simp add: s2_def net_part_def)
  then have "next_hop (NetArpWaitPacketIP s2) s2 = next_hop (NetArpWaitPacketIP s) s"
    "NetSetEther NetBcastAddr PROT_ARP s2 = NetSetEther NetBcastAddr PROT_ARP s" "NetOurEther s2 = NetOurEther s" "NetOurIP s2 = NetOurIP s"
    by (simp_all add: net_part_def next_hop_def NetSetEther_def)
  moreover have "arp_wait io s = ArpRequest io s2" by (simp add: arp_wait_def t s2_def)
  ultimately show ?thesis
    using ArpRequest_frame [of s2 io] assms(2) p
    by (intro exI [of _ "s2\<lparr>NetArpWaitReplyIP := next_hop (NetArpWaitPacketIP s) s\<rparr>"]) (simp add: net_part_def)
qed

lemma arp_answer:
  assumes "length (NetOurEther a) = 6" and "length (NetOurEther b) = 6" and "NetOurVLAN b = NetOurVLAN a"
    and "NetOurIP b = hop" and "hop \<noteq> 0"
    and req: "req = NetSetEther NetBcastAddr PROT_ARP a @ arp_packet 1 (NetOurEther a) (NetOurIP a) (replicate 6 0) hop"
  shows "NetReceive io call (req @ rest) (int (length req)) b =
    Some (eth_send io (NetSetEther (NetOurEther a) PROT_ARP b @ arp_packet 2 (NetOurEther b) hop (NetOurEther a) (NetOurIP a)) b)"
proof -
  let ?eth = "NetSetEther NetBcastAddr PROT_ARP a" and ?buf = "req @ rest"
  have B: "length NetBcastAddr = 6" by (simp add: NetBcastAddr_def)
  have buf: "?buf = ?eth @ arp_packet 1 (NetOurEther a) (NetOurIP a) (replicate 6 0) hop @ rest" by (simp add: req)
  note f = arp_fields [OF assms(1) _ buf refl, simplified]
  have s6: "slice 6 6 ?buf = NetOurEther a" using B assms(1) by (simp add: req slice_def NetSetEther_def Let_def)
  have len: "length (arp_packet 1 (NetOurEther a) (NetOurIP a) (replicate 6 0) hop) = 28"
    using assms(1) by (simp add: arp_packet_def net16_def ip_bytes_def)
  have eq: "length (NetSetEther (NetOurEther a) PROT_ARP b) = length ?eth"
    using B assms(1-3) by (simp add: NetSetEther_def Let_def)
  have "NetReceive io call ?buf (int (length req)) b = Some (arp_receive io ?buf (length ?eth) (int (length req) - int (length ?eth)) b)"
    by (subst NetReceive_front [OF B assms(1,3), where prot = PROT_ARP]) (use buf in \<open>auto simp: req\<close>)
  moreover have "arp_receive io ?buf (length ?eth) (int (length req) - int (length ?eth)) b = eth_send io (arp_reply ?buf (length ?eth) b) b"
    using f assms(4,5) len by (simp add: arp_receive_def ARP_HDR_SIZE_def req)
  moreover have "arp_reply ?buf (length ?eth) b =
      NetSetEther (NetOurEther a) PROT_ARP b @ arp_packet 2 (NetOurEther b) hop (NetOurEther a) (NetOurIP a)"
    using arp_reply_packet [OF assms(1) _ assms(2) buf refl] eq s6 assms(4) by simp
  ultimately show ?thesis by simp
qed

text \<open>
  C35: address resolution between two boards. A packet for an unknown hardware address is held
  back and a request is broadcast; the board with the address of the next hop answers it, and
  the answer makes the first board send exactly the frame it would have sent had it known the
  hardware address, which it knows from then on.
\<close>
theorem arp_handshake:
  assumes io: "quiet_net io" and a: "length (NetOurEther a) = 6" "NetServerEther a = NetEtherNullAddr" "NetOurIP a \<noteq> 0"
    and b: "length (NetOurEther b) = 6" "NetOurEther b \<noteq> NetEtherNullAddr" "NetOurVLAN b = NetOurVLAN a" "NetOurIP b = next_hop dest a" "NetOurIP b \<noteq> 0"
    and dest: "dest \<noteq> 0" "dest \<noteq> -1"
  shows "\<exists>req a1 rep frame a2.
    NetSendUDPPacket io Server_ether dest dport sport payload a = (1, eth_send io req a1) \<and>
    (\<forall>rest. NetReceive io' call' (req @ rest) (int (length req)) b = Some (eth_send io' rep b)) \<and>
    (\<forall>rest. NetReceive io call (rep @ rest) (int (length rep)) (eth_send io req a1) =
      Some ((eth_send io frame a2)\<lparr>NetArpWaitPacketIP := 0, NetArpWaitTxPacket := [], NetArpWaitPacketMAC := None\<rparr>)) \<and>
    NetServerEther a2 = NetOurEther b \<and>
    (\<exists>a3. NetSendUDPPacket io Server_ether dest dport sport payload (a\<lparr>NetServerEther := NetOurEther b\<rparr>) = (0, eth_send io frame a3))"
proof -
  let ?hop = "next_hop dest a"
  define ip where "ip = fst (NetSetIP dest dport sport (length payload) a)"
  define held where "held = NetSetEther NetEtherNullAddr PROT_IP a @ ip @ payload"
  define s where "s = a\<lparr>NetArpWaitPacketIP := dest, NetArpWaitPacketMAC := Some Server_ether, NetIPID := NetIPID a + 1,
    NetArpWaitTxPacket := held\<rparr>"
  have send: "NetSendUDPPacket io Server_ether dest dport sport payload a = (1, arp_wait io s)"
    using a(2) dest by (simp add: NetSendUDPPacket_def Let_def NetSetIP_def s_def held_def ip_def NetSetEther_def)
  have hop: "next_hop (NetArpWaitPacketIP s) s = ?hop" by (simp add: next_hop_def s_def)
  obtain a1 where a1: "arp_wait io s = eth_send io (NetSetEther NetBcastAddr PROT_ARP a @
      arp_packet 1 (NetOurEther a) (NetOurIP a) (replicate 6 0) ?hop) a1"
    "net_part a1 = net_part (s\<lparr>NetArpWaitReplyIP := ?hop\<rparr>)"
    using arp_wait_sends [OF io, of s] b(4,5) unfolding hop by (auto simp: s_def NetSetEther_def)
  define req where "req = NetSetEther NetBcastAddr PROT_ARP a @ arp_packet 1 (NetOurEther a) (NetOurIP a) (replicate 6 0) ?hop"
  define rep where "rep = NetSetEther (NetOurEther a) PROT_ARP b @ arp_packet 2 (NetOurEther b) ?hop (NetOurEther a) (NetOurIP a)"
  have answer: "NetReceive io' call' (req @ rest) (int (length req)) b = Some (eth_send io' rep b)" for rest
    using arp_answer [OF a(1) b(1,3,4) _ req_def, of io' call' rest] b(4,5) by (simp add: rep_def)
  define r where "r = eth_send io req a1"
  have "net_part r = net_part (s\<lparr>NetArpWaitReplyIP := ?hop\<rparr>)" using io a1(2) by (metis r_def quiet_net_def)
  then have r: "NetOurVLAN r = NetOurVLAN b" "NetOurIP r = NetOurIP a" "NetArpWaitPacketMAC r = Some Server_ether"
    "NetArpWaitPacketIP r = dest" "NetArpWaitReplyIP r = ?hop" "NetArpWaitTxPacket r = held"
    by (simp_all add: net_part_def s_def b(3))
  define frame where "frame = NetSetEther (NetOurEther b) PROT_IP a @ ip @ payload"
  define a2 where "a2 = r\<lparr>NetServerEther := NetOurEther b, NetArpWaitTxPacket := frame\<rparr>"
  have "length NetEtherNullAddr = 6" by (simp add: NetEtherNullAddr_def)
  then have f: "put_at 0 (NetOurEther b) held = frame"
    using b(1) by (simp add: held_def frame_def NetSetEther_def Let_def put_at_front)
  have "NetReceive io call (rep @ rest) (int (length rep)) r =
      Some ((eth_send io frame a2)\<lparr>NetArpWaitPacketIP := 0, NetArpWaitTxPacket := [], NetArpWaitPacketMAC := None\<rparr>)" for rest
  proof -
    let ?eth = "NetSetEther (NetOurEther a) PROT_ARP b" and ?buf = "rep @ rest"
    have buf: "?buf = ?eth @ arp_packet 2 (NetOurEther b) ?hop (NetOurEther a) (NetOurIP a) @ rest" by (simp add: rep_def)
    have len: "length (arp_packet 2 (NetOurEther b) ?hop (NetOurEther a) (NetOurIP a)) = 28"
      using a(1) b(1) by (simp add: arp_packet_def net16_def ip_bytes_def)
    have "NetReceive io call ?buf (int (length rep)) r = Some (arp_receive io ?buf (length ?eth) (int (length rep) - int (length ?eth)) r)"
      by (subst NetReceive_front [OF a(1) b(1) r(1), where prot = PROT_ARP]) (use buf in \<open>auto simp: rep_def\<close>)
    moreover have "arp_receive io ?buf (length ?eth) (int (length rep) - int (length ?eth)) r =
        (eth_send io frame a2)\<lparr>NetArpWaitPacketIP := 0, NetArpWaitTxPacket := [], NetArpWaitPacketMAC := None\<rparr>"
      using arp_fields [OF b(1) a(1) buf refl] len a(3) dest(1) f r
      by (simp add: arp_receive_def ARP_HDR_SIZE_def rep_def a2_def Let_def)
    ultimately show ?thesis by simp
  qed
  moreover have "NetSendUDPPacket io Server_ether dest dport sport payload (a\<lparr>NetServerEther := NetOurEther b\<rparr>) =
      (0, eth_send io frame (a\<lparr>NetServerEther := NetOurEther b, NetIPID := NetIPID a + 1\<rparr>))"
    using b(2) dest by (simp add: NetSendUDPPacket_def Let_def NetSetIP_def frame_def ip_def NetSetEther_def)
  moreover have "NetServerEther a2 = NetOurEther b" by (simp add: a2_def)
  ultimately show ?thesis using send a1(1) answer unfolding req_def [symmetric] r_def by metis
qed

section \<open>Addresses as text read back\<close>

lemma strtoul_stop:
  assumes "digits_of 10 cp" and "cp \<noteq> []" and "c \<noteq> 0x78"
  shows "simple_strtoul (cp @ c # rest) 10 = strtoul_digits 10 0 (cp @ c # rest)"
proof (cases "hd cp = 0x30")
  case True
  then obtain cp' where cp: "cp = 0x30 # cp'" using assms(2) by (cases cp) auto
  have "\<not> isxdigit 0x78" by (simp add: classes)
  then have "peek (cp' @ c # rest) 0 \<noteq> 0x78"
    using assms(1,3) by (cases cp') (auto simp: cp digits_of_def)
  then show ?thesis using strtoul_zeros [of 10 1 "cp' @ c # rest"] by (simp add: simple_strtoul_def cp)
next
  case False
  then have "peek (cp @ c # rest) 0 \<noteq> 0x30" using assms(2) by (cases cp) auto
  then show ?thesis by (simp add: simple_strtoul_def)
qed

lemma strtoul_text_then:
  assumes "\<not> isxdigit c" and "c \<noteq> 0x78"
  shows "simple_strtoul (digit_text lower_digits 10 v @ c # rest) 10 = (v, c # rest)"
proof -
  have l: "hex_alphabet lower_digits" "(2 :: u32) \<le> 10" "(10 :: u32) \<le> 16" by (simp_all add: hex_alphabet_def)
  have "digit_text lower_digits 10 v \<noteq> []" using digit_text_length [OF l(2), of lower_digits v] by auto
  then have "simple_strtoul (digit_text lower_digits 10 v @ c # rest) 10 = strtoul_digits 10 0 (digit_text lower_digits 10 v @ c # rest)"
    using strtoul_stop digits_of_text [OF l] assms(2) by blast
  also have "\<dots> = strtoul_digits 10 v (c # rest)"
    using strtoul_num_digits [OF l, of 0 v "c # rest"] strtoul_zeros [OF l(2), of 1 "c # rest"]
    by (simp add: digit_text_def)
  also have "\<dots> = (v, c # rest)" using assms(1) by simp
  finally show ?thesis .
qed

lemma strtoul_text_dot: "simple_strtoul (digit_text lower_digits 10 v @ 0x2E # rest) 10 = (v, 0x2E # rest)"
  by (rule strtoul_text_then) (simp_all add: classes)

lemma number_byte: "number (v AND 0xFF) 10 (-1) (-1) SIGN = Some (digit_text lower_digits 10 (v AND 0xFF))"
proof -
  have "v AND 0xFF = take_bit 8 v" using take_bit_eq_mask [of 8 v] by (simp add: mask_eq_exp_minus_1)
  then have "unat (v AND 0xFF) < 2 ^ 31" using take_bit_nat_less_exp [of 8 "unat v"] by (simp add: unsigned_take_bit_eq)
  then have "\<not> sint (v AND 0xFF) < 0" by (simp add: sint_small)
  then show ?thesis by (simp add: number_signed)
qed

lemma bit_of_bytes:
  assumes "n < 32"
  shows "bit (push_bit 8 (push_bit 8 (push_bit 8 (drop_bit 24 y AND 0xFF) OR (drop_bit 16 y AND 0xFF)) OR
        (drop_bit 8 y AND 0xFF)) OR (y AND 0xFF) :: u32) n \<longleftrightarrow> bit y n"
proof -
    have m: "(0xFF :: u32) = mask 8" by (simp add: mask_eq_exp_minus_1)
  have a: "bit (x AND 0xFF :: u32) k \<longleftrightarrow> k < 8 \<and> bit x k" for x k
    unfolding m by (auto simp: bit_simps)
  consider "n < 8" | "8 \<le> n" "n < 16" | "16 \<le> n" "n < 24" | "24 \<le> n" by linarith
  then obtain k where "k < 8" "n = k \<or> n = 8 + k \<or> n = 16 + k \<or> n = 24 + k"
    by cases (use assms in \<open>auto intro: that [of "n"] that [of "n - 8"] that [of "n - 16"] that [of "n - 24"]\<close>)
  then show ?thesis by (auto simp: bit_or_iff bit_push_bit_iff bit_drop_bit_eq a simp del: push_bit_and push_bit_or)
qed

lemma ip_to_string_text:
  assumes "y = htonl x"
  shows "ip_to_string x = Some (digit_text lower_digits 10 (drop_bit 24 y AND 0xFF) @ 0x2E # digit_text lower_digits 10 (drop_bit 16 y AND 0xFF) @
    0x2E # digit_text lower_digits 10 (drop_bit 8 y AND 0xFF) @ 0x2E # digit_text lower_digits 10 (y AND 0xFF))"
  using number_byte [unfolded number_flags]
  by (simp add: ip_to_string_def vsprintf_def fmt_directive_def fmt_width_def fmt_precision_def fmt_qualifier_def asc_def
      is_digit_def peek_def fmt_value_def number_flags assms Let_def del: of_nat_Suc)

text \<open>
  The text of an IP address, as \<open>ip_to_string\<close> writes it, is read back by \<open>string_to_ip\<close>.\<close>
theorem ip_text_reads_back: "\<exists>str. ip_to_string x = Some str \<and> string_to_ip (Some str) = x"
proof -
  let ?t = "digit_text lower_digits 10"
  define y where "y = htonl x"
  define str where "str = ?t (drop_bit 24 y AND 0xFF) @ 0x2E # ?t (drop_bit 16 y AND 0xFF) @ 0x2E # ?t (drop_bit 8 y AND 0xFF)
    @ 0x2E # ?t (y AND 0xFF)"
  have "ip_to_string x = Some str" using ip_to_string_text [OF y_def] by (simp add: str_def)
  moreover have "string_to_ip (Some str) = htonl y"
  proof -
    have l: "hex_alphabet lower_digits" by (simp add: hex_alphabet_def)
    have e: "simple_strtoul (?t v) 10 = (v, [])" for v using strtoul_text [OF l, of 10 0 v] by simp
    have "push_bit 8 (push_bit 8 (push_bit 8 (drop_bit 24 y AND 0xFF) OR (drop_bit 16 y AND 0xFF)) OR
        (drop_bit 8 y AND 0xFF)) OR (y AND 0xFF) = y"
      by (rule bit_word_eqI) (simp only: bit_of_bytes len_num1 len_bit0 len_bit1 mult_2 one_add_one numeral_plus_numeral add_num_simps)
    moreover have "(4 :: nat) = Suc (Suc (Suc (Suc 0)))" by simp
    ultimately show ?thesis
      by (simp only: string_to_ip_def option.case str_def string_to_ip_loop.simps strtoul_text_dot e prod.case list.sel
          list.distinct if_False and.assoc and.idem push_bit_of_0 or.left_neutral)
  qed
  ultimately show ?thesis by (simp add: y_def htonl_htonl)
qed

text \<open>
  The length in the UDP header is not compared with the length of the packet, nor with the
  size of that header: a packet that says less than 8 makes the handler run with a length of
  almost 4 GB, whatever it holds.
\<close>
theorem udp_length_unchecked:
  assumes "length mac = 6" and "length (NetOurEther s) = 6" and "NetOurVLAN r = NetOurVLAN s" and "u < 8" and "length data < 65508"
    and "NetOurIP r = dest \<or> NetOurIP r = 0"
    and frame: "frame = NetSetEther mac PROT_IP s @ ip_header (of_nat (28 + length data)) ident 17 src dest @
      net16 sport @ net16 dport @ net16 u @ [0, 0] @ data"
  shows "\<exists>n. 2 ^ 32 - 8 \<le> unat n \<and>
    NetReceive io call frame (int (length frame)) r = call (packetHandler r) data (ucast dport) (ucast sport) n r"
proof (intro exI conjI)
  let ?eth = "NetSetEther mac PROT_IP s"
  have "unat u < 8" using assms(4) by (simp add: word_less_nat_alt)
  then have "unat (ucast u :: u32) < 8" by (simp add: unsigned_ucast_eq take_bit_nat_eq_self)
  then show "2 ^ 32 - 8 \<le> unat (ucast u - 8 :: u32)" by (simp add: unat_sub_if')
  have len: "int (length frame) - int (length ?eth) = int (28 + length data)"
    using ip_header_fields(1) by (simp add: frame net16_def)
  have "NetReceive io call frame (int (length frame)) r =
      ip_receive io call frame (length ?eth) (int (length frame) - int (length ?eth)) r"
    by (subst NetReceive_front [OF assms(1-3), where prot = PROT_IP]) (auto simp: frame PROT_IP_def PROT_ARP_def)
  also have "\<dots> = call (packetHandler r) data (ucast dport) (ucast sport) (ucast u - 8) r"
    by (rule ip_receive_udp [where dest = dest and n = "length data"]) (use assms(5,6) len in \<open>auto simp: frame\<close>)
  finally show "NetReceive io call frame (int (length frame)) r = call (packetHandler r) data (ucast dport) (ucast sport) (ucast u - 8) r" .
qed

section \<open>The properties at concrete boards\<close>

text \<open>Two boards with the addresses 10.0.0.1 and 10.0.0.2; the driver keeps the frames it is to send.\<close>

definition board :: "u8 \<Rightarrow> u8 list \<Rightarrow> u8 list list nmach" where
  "board n server = \<lparr>mem = (\<lambda>_. 0), dev = [], outp = [], mmc_erase_blocks = 0, mmc_protect_blk = 0, dev_total_blk = 0,
     env_ram = (\<lambda>_. 0), ptr_crc = 0, env_addr = Env_ram, env_valid = True, gd_reloc = True, env_offset = 0,
     env_id = 0, gd_baudrate = 0, load_addr = 0, bi_ip_addr = 0, bi_enetaddr = [], boot_file = [], flash_banks = [],
     NetOurEther = [2, 0, 0, 0, 0, n], NetServerEther = server, NetOurIP = ucast n * 0x1000000 + 10, NetServerIP = 0,
     NetOurGatewayIP = 0, NetOurSubnetMask = 0xFFFFFF, NetOurVLAN = -1, NetOurNativeVLAN = -1, NetIPID = 0, NetState = 0,
     NetBootFileXferSize = 0, NetBootFileSize = 0, packetHandler = StartAgainHandler, timeHandler = None, timeStart = 0,
     timeDelta = 0, NetArpWaitPacketIP = 0, NetArpWaitReplyIP = 0, NetArpWaitPacketMAC = None, NetArpWaitTxPacket = [],
     NetArpWaitTimerStart = 0, NetArpWaitTry = 0, NetPingIP = 0, PingSeqNo = 0, ping_mac = [], env_changed_id = 0\<rparr>"

definition sample_net :: "(u8 list list, 'z) nmach_scheme net_io" where
  "sample_net = \<lparr>console_assign = (\<lambda>_ _ s. (0, s)), serial_setbrg = (\<lambda>s. s), io_udelay = (\<lambda>_ s. Some s),
     io_getc = (\<lambda>_. None), ctrlc = (\<lambda>s. (False, s)),
     clear_ctrlc = (\<lambda>s. s), had_ctrlc = (\<lambda>_. False), tstc = (\<lambda>s. (False, s)), eth_send = (\<lambda>f s. s\<lparr>dev := f # dev s\<rparr>),
     eth_halt = (\<lambda>s. s), eth_init = (\<lambda>s. (True, s)), eth_rx = (\<lambda>s. ([], s)), net_time = (\<lambda>s. (0, s))\<rparr>"

lemma sample_net_quiet: "quiet_net (sample_net :: u8 list list nmach net_io)"
  by (simp add: quiet_net_def sample_net_def net_part_def)

theorem udp_delivered_witness:
  "\<exists>frame. NetSendUDPPacket sample_net Server_ether 0x0200000A 69 1024 [7, 8, 9] (board 1 [2, 0, 0, 0, 0, 2]) =
      (0, (board 1 [2, 0, 0, 0, 0, 2])\<lparr>NetIPID := 1, dev := [frame]\<rparr>) \<and>
    NetReceive sample_net (\<lambda>_ pkt dest src len s. if dest = 69 then Some (s\<lparr>boot_file := take (unat len) pkt\<rparr>) else None)
      (frame @ [1, 2]) (int (length frame)) (board 2 []) = Some ((board 2 [])\<lparr>boot_file := [7, 8, 9]\<rparr>)"
proof -
  let ?a = "board 1 [2, 0, 0, 0, 0, 2]"
  have "length (mac_at Server_ether ?a) = 6" "mac_at Server_ether ?a \<noteq> NetEtherNullAddr" "length (NetOurEther ?a) = 6"
    "(0x0200000A :: u32) \<noteq> 0" "(0x0200000A :: u32) \<noteq> -1" "length [7 :: u8, 8, 9] < 65508"
    by (simp_all add: board_def NetEtherNullAddr_def replicate_numeral)
  from udp_delivered [OF this, of sample_net 69 1024 "sample_net :: u8 list list nmach net_io" "\<lambda>_ pkt dest src len s. if dest = 69 then Some (s\<lparr>boot_file := take (unat len) pkt\<rparr>) else None"]
  obtain frame where f: "NetSendUDPPacket sample_net Server_ether 0x0200000A 69 1024 [7, 8, 9] ?a =
      (0, eth_send sample_net frame (?a\<lparr>NetIPID := NetIPID ?a + 1\<rparr>))"
    "\<forall>(r :: u8 list list nmach) pad. NetOurVLAN r = NetOurVLAN ?a \<longrightarrow> NetOurIP r = 0x0200000A \<or> NetOurIP r = 0 \<longrightarrow>
      NetReceive sample_net (\<lambda>_ pkt dest src len s. if dest = 69 then Some (s\<lparr>boot_file := take (unat len) pkt\<rparr>) else None)
        (frame @ pad) (int (length frame)) r =
      (if ucast (69 :: u16) = (69 :: u32) then Some (r\<lparr>boot_file := take (unat (of_nat (length [7 :: u8, 8, 9]) :: u32)) ([7, 8, 9] @ pad)\<rparr>) else None)"
    by blast
  have "NetOurVLAN (board 2 []) = NetOurVLAN ?a" "NetOurIP (board 2 []) = 0x0200000A" by (simp_all add: board_def)
  then show ?thesis using f(1) f(2) [rule_format, of "board 2 []" "[1, 2]"]
    by (intro exI [of _ frame]) (simp add: sample_net_def board_def)
qed

theorem arp_handshake_witness:
  "\<exists>req a1 rep a2.
    NetSendUDPPacket sample_net Server_ether 0x0200000A 69 1024 [7] (board 1 NetEtherNullAddr) = (1, eth_send sample_net req a1) \<and>
    NetReceive sample_net (\<lambda>_ _ _ _ _ _. None) req (int (length req)) (board 2 []) = Some ((board 2 [])\<lparr>dev := [rep]\<rparr>) \<and>
    NetReceive sample_net (\<lambda>_ _ _ _ _ _. None) rep (int (length rep)) (eth_send sample_net req a1) = Some a2 \<and>
    NetServerEther a2 = [2, 0, 0, 0, 0, 2]"
proof -
  let ?a = "board 1 NetEtherNullAddr" and ?b = "board 2 []"
  have "length (NetOurEther ?a) = 6" "NetServerEther ?a = NetEtherNullAddr" "NetOurIP ?a \<noteq> 0" "length (NetOurEther ?b) = 6"
    "NetOurEther ?b \<noteq> NetEtherNullAddr" "NetOurVLAN ?b = NetOurVLAN ?a" "NetOurIP ?b = next_hop 0x0200000A ?a" "NetOurIP ?b \<noteq> 0"
    "(0x0200000A :: u32) \<noteq> 0" "(0x0200000A :: u32) \<noteq> -1"
    by (simp_all add: board_def next_hop_def NetEtherNullAddr_def replicate_numeral)
  from arp_handshake [OF sample_net_quiet this, of 69 1024 "[7]" "sample_net :: u8 list list nmach net_io" "\<lambda>_ _ _ _ _ _. None" "\<lambda>_ _ _ _ _ _. None"]
  obtain req a1 rep frame a2 where h:
    "NetSendUDPPacket sample_net Server_ether 0x0200000A 69 1024 [7] ?a = (1, eth_send sample_net req a1)"
    "\<forall>rest. NetReceive sample_net (\<lambda>_ _ _ _ _ _. None) (req @ rest) (int (length req)) ?b = Some (eth_send sample_net rep ?b)"
    "\<forall>rest. NetReceive sample_net (\<lambda>_ _ _ _ _ _. None) (rep @ rest) (int (length rep)) (eth_send sample_net req a1) =
      Some ((eth_send sample_net frame a2)\<lparr>NetArpWaitPacketIP := 0, NetArpWaitTxPacket := [], NetArpWaitPacketMAC := None\<rparr>)"
    "NetServerEther a2 = NetOurEther ?b"
    by blast
  have "NetReceive sample_net (\<lambda>_ _ _ _ _ _. None) req (int (length req)) ?b = Some (?b\<lparr>dev := [rep]\<rparr>)"
    using h(2) [rule_format, of "[]"] by (simp add: sample_net_def board_def)
  moreover have "NetServerEther ((eth_send sample_net frame a2)\<lparr>NetArpWaitPacketIP := 0, NetArpWaitTxPacket := [], NetArpWaitPacketMAC := None\<rparr>) =
      [2, 0, 0, 0, 0, 2]"
    using h(4) by (simp add: sample_net_def board_def)
  ultimately show ?thesis using h(1) h(3) [rule_format, of "[]"] unfolding append_Nil2 by blast
qed

theorem udp_length_unchecked_witness:
  "\<exists>frame n. 2 ^ 32 - 8 \<le> unat n \<and>
    NetReceive sample_net (\<lambda>_ _ _ _ len s. Some (s\<lparr>load_addr := len\<rparr>)) frame (int (length frame)) (board 2 []) =
      Some ((board 2 [])\<lparr>load_addr := n\<rparr>)"
proof -
  let ?b = "board 2 []"
  have "length [2 :: u8, 0, 0, 0, 0, 2] = 6" "length (NetOurEther ?b) = 6" "NetOurVLAN ?b = NetOurVLAN ?b" "(4 :: u16) < 8"
    "length [7 :: u8] < 65508" "NetOurIP ?b = 0x0200000A \<or> NetOurIP ?b = 0"
    by (simp_all add: board_def)
  from udp_length_unchecked [OF this refl, of "sample_net :: u8 list list nmach net_io" "\<lambda>_ _ _ _ len s. Some (s\<lparr>load_addr := len\<rparr>)"]
  show ?thesis by blast
qed

end
