(* ===== verification/Tftp.thy ===== *)
theory Tftp
  imports Net
begin

text \<open>
  The TFTP client of U-Boot, \<open>net/tftp.c\<close>, on the network stack of \<open>Net\<close>: the request, the
  handler for data, option and error packets, the retries, and where the blocks go in memory.
  Multicast TFTP, fixed ports and writing to flash directly are not in the build. The second half
  of the theory lets the client talk to a server over a network that loses, repeats and reorders
  packets.
\<close>

section \<open>State\<close>

record 'd tfmach = "'d nmach" +
  TftpServerIP :: u32
  TftpServerPort :: u32
  TftpOurPort :: u32
  TftpTimeoutMSecs :: u32
  TftpTimeoutCountMax :: u32
  TftpRRQTimeoutMSecs :: u32
  TftpRRQTimeoutCountMax :: u32
  TftpTimeoutCount :: u32
  TftpBlock :: u32
  TftpLastBlock :: u32
  TftpBlockWrap :: u32
  TftpBlockWrapOffset :: u32
  TftpState :: u32
  tftp_filename :: "u8 list"
  TftpBlkSize :: u16
  TftpBlkSizeOption :: u16

definition WELL_KNOWN_PORT :: u32 where "WELL_KNOWN_PORT = 69"
definition TIMEOUT :: u32 where "TIMEOUT = 5000"
definition TIMEOUT_COUNT :: u32 where "TIMEOUT_COUNT = 10"
definition HASHES_PER_LINE :: u32 where "HASHES_PER_LINE = 65"
definition TFTP_RRQ :: u16 where "TFTP_RRQ = 1"
definition TFTP_DATA :: u16 where "TFTP_DATA = 3"
definition TFTP_ACK :: u16 where "TFTP_ACK = 4"
definition TFTP_ERROR :: u16 where "TFTP_ERROR = 5"
definition TFTP_OACK :: u16 where "TFTP_OACK = 6"
definition STATE_RRQ :: u32 where "STATE_RRQ = 1"
definition STATE_DATA :: u32 where "STATE_DATA = 2"
definition STATE_TOO_LARGE :: u32 where "STATE_TOO_LARGE = 3"
definition STATE_BAD_MAGIC :: u32 where "STATE_BAD_MAGIC = 4"
definition STATE_OACK :: u32 where "STATE_OACK = 5"
definition TFTP_BLOCK_SIZE :: u16 where "TFTP_BLOCK_SIZE = 512"
definition TFTP_SEQUENCE_SIZE :: u32 where "TFTP_SEQUENCE_SIZE = 0x10000"
definition MAX_LEN :: nat where "MAX_LEN = 128"

section \<open>Blocks and packets\<close>

text \<open>
  A block goes to its place behind the load address. \<open>None\<close> when \<open>memcpy\<close> reads behind the end
  of the packet buffer.
\<close>

definition store_block :: "u32 \<Rightarrow> u8 list \<Rightarrow> u32 \<Rightarrow> ('d, 'z) tfmach_scheme \<Rightarrow> ('d, 'z) tfmach_scheme option" where
  "store_block block src len s =
     (let offset = block * ucast (TftpBlkSize s) + TftpBlockWrapOffset s;
          newsize = offset + len
      in if length src < unat len then None
         else let s = s\<lparr>mem := blit (mem s) (load_addr s + offset) (unat len) ((!) src)\<rparr>
           in Some (if NetBootFileXferSize s < newsize then s\<lparr>NetBootFileXferSize := newsize\<rparr> else s))"

text \<open>The packet for a state, behind the UDP header; \<open>None\<close> is a failure of \<open>sprintf\<close>.\<close>

definition tftp_payload :: "('d, 'z) tfmach_scheme \<Rightarrow> u8 list option" where
  "tftp_payload s =
     (if TftpState s = STATE_RRQ then do {
        (_, t, _) \<leftarrow> vsprintf (asc ''%lu'') [VInt (TIMEOUT div 1000)];
        (_, b, _) \<leftarrow> vsprintf (asc ''blksize%c%d%c'') [VInt 0, VInt (ucast (TftpBlkSizeOption s)), VInt 0];
        Some (net16 TFTP_RRQ @ tftp_filename s @ [0] @ asc ''octet'' @ [0] @ asc ''timeout'' @ [0] @ t @ [0] @ b)
      }
      else if TftpState s = STATE_OACK \<or> TftpState s = STATE_DATA then Some (net16 TFTP_ACK @ net16 (ucast (TftpBlock s)))
      else if TftpState s = STATE_TOO_LARGE then Some (net16 TFTP_ERROR @ net16 3 @ asc ''File too large'' @ [0])
      else if TftpState s = STATE_BAD_MAGIC then Some (net16 TFTP_ERROR @ net16 2 @ asc ''File has bad magic'' @ [0])
      else Some [])"

definition TftpSend :: "('d, 'z) tfmach_scheme net_io \<Rightarrow> ('d, 'z) tfmach_scheme \<Rightarrow> ('d, 'z) tfmach_scheme option" where
  "TftpSend io s = do {
     payload \<leftarrow> tftp_payload s;
     Some (snd (NetSendUDPPacket io Server_ether (TftpServerIP s) (ucast (TftpServerPort s)) (ucast (TftpOurPort s)) payload s))
   }"

section \<open>Receiving\<close>

text \<open>
  The option \<open>blksize\<close> among \<open>len\<close> bytes of options: what follows it. The inner \<open>None\<close> is that
  there is none, the outer one that the search runs out of the buffer.
\<close>

fun find_blksize :: "nat \<Rightarrow> u8 list \<Rightarrow> u8 list option option" where
  "find_blksize n pkt =
     (if n \<le> 8 then Some None
      else if take 8 pkt = asc ''blksize'' @ [0] then Some (Some (drop 8 pkt))
      else if length pkt < 8 \<and> pkt = take (length pkt) (asc ''blksize'' @ [0]) then None
      else find_blksize (n - 1) (tl pkt))"

text \<open>An option acknowledgement, \<open>pkt\<close> and \<open>len\<close> behind the operation code.\<close>

definition tftp_oack :: "('d, 'z) tfmach_scheme net_io \<Rightarrow> u32 \<Rightarrow> u8 list \<Rightarrow> u32 \<Rightarrow> ('d, 'z) tfmach_scheme \<Rightarrow>
    ('d, 'z) tfmach_scheme option" where
  "tftp_oack io src pkt len s = do {
     let s = s\<lparr>TftpState := STATE_OACK, TftpServerPort := src\<rparr>;
     opt \<leftarrow> find_blksize (unat len) pkt;
     s \<leftarrow> (case opt of None \<Rightarrow> Some s
       | Some v \<Rightarrow> case simple_strtoul v 10 of (n, e) \<Rightarrow>
           if e = [] then None else Some (s\<lparr>TftpBlkSize := ucast n\<rparr>));
     TftpSend io s
   }"

text \<open>The number of a block: the count of wraps, or a mark on the console.\<close>

definition tftp_progress :: "('d, 'z) tfmach_scheme \<Rightarrow> ('d, 'z) tfmach_scheme" where
  "tftp_progress s =
     (if TftpBlock s = 0
      then let s = s\<lparr>TftpBlockWrap := TftpBlockWrap s + 1,
                 TftpBlockWrapOffset := TftpBlockWrapOffset s + ucast (TftpBlkSize s) * TFTP_SEQUENCE_SIZE\<rparr>
           in printf ([CHR 0x0A, CHR 0x09] @ '' %lu MB received'' @ [CHR 0x0A, CHR 0x09] @ '' '') [Num (drop_bit 20 (TftpBlockWrapOffset s))] s
      else if (TftpBlock s - 1) mod 10 = 0 then putc 0x23 s
      else if TftpBlock s mod (10 * HASHES_PER_LINE) = 0 then printf ([CHR 0x0A, CHR 0x09] @ '' '') [] s
      else s)"

text \<open>The first block of a file sets the counters.\<close>

definition first_block :: "u32 \<Rightarrow> ('d, 'z) tfmach_scheme \<Rightarrow> ('d, 'z) tfmach_scheme" where
  "first_block src s = s\<lparr>TftpState := STATE_DATA, TftpServerPort := src, TftpLastBlock := 0, TftpBlockWrap := 0, TftpBlockWrapOffset := 0\<rparr>"

text \<open>A block that is not the one before: it is stored and acknowledged.\<close>

definition new_block :: "('d, 'z) tfmach_scheme net_io \<Rightarrow> u8 list \<Rightarrow> u32 \<Rightarrow> ('d, 'z) tfmach_scheme \<Rightarrow> ('d, 'z) tfmach_scheme option" where
  "new_block io data len s = do {
     let s = s\<lparr>TftpLastBlock := TftpBlock s, TftpTimeoutMSecs := TIMEOUT, TftpTimeoutCountMax := TIMEOUT_COUNT\<rparr>;
     s \<leftarrow> store_block (TftpBlock s - 1) data len (NetSetTimeout io (TftpTimeoutMSecs s) TftpTimeout s);
     s \<leftarrow> TftpSend io s;
     Some (if len < ucast (TftpBlkSize s)
           then (printf (CHR 0x0A # line ''done'') [] s)\<lparr>NetState := NETLOOP_SUCCESS\<rparr> else s)
   }"

definition tftp_data :: "env_config \<Rightarrow> ('d, 'z) tfmach_scheme net_io \<Rightarrow> u32 \<Rightarrow> u8 list \<Rightarrow> u32 \<Rightarrow> ('d, 'z) tfmach_scheme \<Rightarrow>
    ('d, 'z) tfmach_scheme option" where
  "tftp_data C io src pkt len s =
     (if len < 2 then Some s
      else if length pkt < 2 then None
      else let s = tftp_progress (s\<lparr>TftpBlock := ucast (get16 pkt 0)\<rparr>);
               is_first = (TftpState s = STATE_RRQ \<or> TftpState s = STATE_OACK);
               s = (if is_first then first_block src s else s)
        in if is_first \<and> TftpBlock s \<noteq> 1
           then NetStartAgain C io (printf (CHR 0x0A # line ''TFTP error: First block is not block 1 (%ld)'' @ line ''Starting again'' @ line '''')
             [Num (TftpBlock s)] s)
           else if TftpBlock s = TftpLastBlock s then Some s
           else new_block io (drop 2 pkt) (len - 2) s)"

definition tftp_error :: "env_config \<Rightarrow> ('d, 'z) tfmach_scheme net_io \<Rightarrow> u8 list \<Rightarrow> ('d, 'z) tfmach_scheme \<Rightarrow>
    ('d, 'z) tfmach_scheme option" where
  "tftp_error C io pkt s =
     (if length pkt < 2 \<or> 0 \<notin> set (drop 2 pkt) then None
      else let s = printf (CHR 0x0A # line (''TFTP error: '' @ [CHR 0x27] @ ''%s'' @ [CHR 0x27] @ '' (%d)''))
               [Str (takeWhile (\<lambda>c. c \<noteq> 0) (drop 2 pkt)), Num (ucast (get16 pkt 0))] s
        in NetStartAgain C io (printf (line ''Starting again'' @ line '''') [] s))"

definition tftp_handler :: "env_config \<Rightarrow> ('d, 'z) tfmach_scheme net_io \<Rightarrow> u8 list \<Rightarrow> u32 \<Rightarrow> u32 \<Rightarrow> u32 \<Rightarrow>
    ('d, 'z) tfmach_scheme \<Rightarrow> ('d, 'z) tfmach_scheme option" where
  "tftp_handler C io pkt dest src len s =
     (if dest \<noteq> TftpOurPort s then Some s
      else if TftpState s \<noteq> STATE_RRQ \<and> src \<noteq> TftpServerPort s then Some s
      else if len < 2 then Some s
      else if length pkt < 2 then None
      else let proto = get16 pkt 0
        in if proto = TFTP_OACK then tftp_oack io src (drop 2 pkt) (len - 2) s
           else if proto = TFTP_DATA then tftp_data C io src (drop 2 pkt) (len - 2) s
           else if proto = TFTP_ERROR then tftp_error C io (drop 2 pkt) s
           else Some s)"

section \<open>Retries and the start\<close>

definition tftp_timeout :: "env_config \<Rightarrow> ('d, 'z) tfmach_scheme net_io \<Rightarrow> ('d, 'z) tfmach_scheme \<Rightarrow>
    ('d, 'z) tfmach_scheme option" where
  "tftp_timeout C io s =
     (let s = s\<lparr>TftpTimeoutCount := TftpTimeoutCount s + 1\<rparr>
      in if sint (TftpTimeoutCountMax s) < sint (TftpTimeoutCount s)
         then NetStartAgain C io (printf (CHR 0x0A # line ''Retry count exceeded; starting again'') [] s)
         else TftpSend io (NetSetTimeout io (TftpTimeoutMSecs s) TftpTimeout (printf ''T '' [] s)))"

text \<open>A size in kB, MB or GB with one decimal (\<open>lib_generic/display_options.c\<close>).\<close>

definition size_unit :: "u32 \<Rightarrow> u32 \<times> char" where
  "size_unit n = (if n < 0x40000000 then if n < 0x100000 then (0x400, CHR ''k'') else (0x100000, CHR ''M'') else (0x40000000, CHR ''G''))"

definition size_digits :: "u32 \<Rightarrow> u32 \<Rightarrow> u32 \<times> u32" where
  "size_digits d v =
     (let n = v div d;
          m = (if v mod d = 0 then 0 else (10 * (v - n * d) + d div 2) div d)
      in if 10 \<le> m then (n + 1, m - 10) else (n, m))"

definition print_size :: "u32 \<Rightarrow> u8 list \<Rightarrow> ('d, 'z) mach_scheme \<Rightarrow> ('d, 'z) mach_scheme" where
  "print_size v str s =
     (case size_unit v of (d, c) \<Rightarrow> case size_digits d v of (n, m) \<Rightarrow>
        let s = printf ''%2ld'' [Num n] s;
            s = (if m \<noteq> 0 then printf ''.%ld'' [Num m] s else s)
        in printf '' %cB%s'' [Num (of_char c), Str str] s)"

text \<open>The file and its server: the boot file may name the server in front of a colon.\<close>

definition tftp_name :: "('d, 'z) tfmach_scheme \<Rightarrow> ('d, 'z) tfmach_scheme option" where
  "tftp_name s =
     (let s = s\<lparr>TftpServerIP := NetServerIP s\<rparr>
      in if boot_file s = [] then do {
           (_, name, _) \<leftarrow> vsprintf (asc ''%02lX%02lX%02lX%02lX.img'')
             [VInt (NetOurIP s AND 0xFF), VInt (drop_bit 8 (NetOurIP s) AND 0xFF),
              VInt (drop_bit 16 (NetOurIP s) AND 0xFF), VInt (drop_bit 24 (NetOurIP s) AND 0xFF)];
           let s = s\<lparr>tftp_filename := take (MAX_LEN - 1) name\<rparr>;
           Some (printf (line (''*** Warning: no boot file name; using '' @ [CHR 0x27] @ ''%s'' @ [CHR 0x27])) [Str (tftp_filename s)] s)
         }
         else Some (case dropWhile (\<lambda>c. c \<noteq> 0x3A) (boot_file s) of
             [] \<Rightarrow> s\<lparr>tftp_filename := take (MAX_LEN - 1) (boot_file s)\<rparr>
           | _ # p \<Rightarrow> s\<lparr>TftpServerIP := string_to_ip (Some (boot_file s)), tftp_filename := take (MAX_LEN - 1) p\<rparr>))"

text \<open>What the start says on the console.\<close>

definition tftp_announce :: "('d, 'z) tfmach_scheme \<Rightarrow> ('d, 'z) tfmach_scheme option" where
  "tftp_announce s = do {
     s \<leftarrow> print_IPaddr (TftpServerIP s) (printf ''TFTP from server '' [] s);
     s \<leftarrow> print_IPaddr (NetOurIP s) (printf ''; our IP address is '' [] s);
     s \<leftarrow> (if NetOurGatewayIP s \<noteq> 0 \<and> NetOurSubnetMask s \<noteq> 0 \<and>
              NetOurIP s AND NetOurSubnetMask s \<noteq> TftpServerIP s AND NetOurSubnetMask s
       then print_IPaddr (NetOurGatewayIP s) (printf ''; sending through gateway '' [] s) else Some s);
     let s = printf (''Filename '' @ [CHR 0x27] @ ''%s'' @ [CHR 0x27] @ ''.'') [Str (tftp_filename s)] (putc 0x0A s);
     let bytes = push_bit 9 (ucast (NetBootFileSize s));
     let s = (if NetBootFileSize s \<noteq> 0 then print_size bytes [] (printf '' Size is 0x%x Bytes = '' [Num bytes] s) else s);
     let s = printf (line ''Load address: 0x%lx'') [Num (load_addr s)] (putc 0x0A s);
     Some (printf (''Loading: *'' @ [CHR 0x08]) [] s)
   }"

definition TftpStart :: "('d, 'z) tfmach_scheme net_io \<Rightarrow> ('d, 'z) tfmach_scheme \<Rightarrow> ('d, 'z) tfmach_scheme option" where
  "TftpStart io s = do {
     s \<leftarrow> tftp_name s;
     s \<leftarrow> tftp_announce s;
     let s = s\<lparr>TftpTimeoutMSecs := TftpRRQTimeoutMSecs s, TftpTimeoutCountMax := TftpRRQTimeoutCountMax s\<rparr>;
     let s = NetSetHandler TftpHandler (NetSetTimeout io (TftpTimeoutMSecs s) TftpTimeout s);
     let s = s\<lparr>TftpServerPort := WELL_KNOWN_PORT, TftpTimeoutCount := 0, TftpState := STATE_RRQ\<rparr>;
     let (t, s) = net_time io s;
     TftpSend io (s\<lparr>TftpOurPort := 1024 + t mod 3072, TftpBlock := 0, NetServerEther := replicate 6 0, TftpBlkSize := TFTP_BLOCK_SIZE\<rparr>)
   }"

text \<open>The handlers and start functions that the network stack reaches; \<open>other\<close> stands for other protocols.\<close>

fun rx_call :: "env_config \<Rightarrow> ('d, 'z) tfmach_scheme net_io \<Rightarrow> ('d, 'z) tfmach_scheme call_handler \<Rightarrow> ('d, 'z) tfmach_scheme call_handler" where
  "rx_call C io other StartAgainHandler pkt dest src len s = Some (startAgainHandler pkt dest src len s)"
| "rx_call C io other PingHandler pkt dest src len s = Some (ping_handler pkt dest src len s)"
| "rx_call C io other TftpHandler pkt dest src len s = tftp_handler C io pkt dest src len s"
| "rx_call C io other (OtherHandler n) pkt dest src len s = other (OtherHandler n) pkt dest src len s"

fun time_call :: "env_config \<Rightarrow> ('d, 'z) tfmach_scheme net_io \<Rightarrow> (thand \<Rightarrow> ('d, 'z) tfmach_scheme \<Rightarrow> ('d, 'z) tfmach_scheme option) \<Rightarrow>
    thand \<Rightarrow> ('d, 'z) tfmach_scheme \<Rightarrow> ('d, 'z) tfmach_scheme option" where
  "time_call C io other StartAgainTimeout s = Some (startAgainTimeout s)"
| "time_call C io other PingTimeout s = Some (ping_timeout io s)"
| "time_call C io other TftpTimeout s = tftp_timeout C io s"
| "time_call C io other (OtherTimeout n) s = other (OtherTimeout n) s"

fun start_call :: "('d, 'z) tfmach_scheme net_io \<Rightarrow> (proto \<Rightarrow> ('d, 'z) tfmach_scheme \<Rightarrow> ('d, 'z) tfmach_scheme option) \<Rightarrow>
    proto \<Rightarrow> ('d, 'z) tfmach_scheme \<Rightarrow> ('d, 'z) tfmach_scheme option" where
  "start_call io other TFTP s = TftpStart io s"
| "start_call io other PING s = Some (PingStart io s)"
| "start_call io other p s = other p s"

declare find_blksize.simps [simp del]

section \<open>What the client sends\<close>

lemmas vsprintf_simps = vsprintf_def fmt_directive_def fmt_width_def fmt_precision_def fmt_qualifier_def asc_def
  is_digit_def peek_def fmt_value_def fmt_char_def number_flags

lemma unat_u16_less: "unat (v :: u16) < 65536"
  using unsigned_less [where w = v and 'a = nat] by simp

lemma number_half_word: "number (ucast (v :: u16)) 10 (-1) (-1) SIGN = Some (digit_text lower_digits 10 (ucast v))"
proof -
  have "unat (ucast v :: u32) = unat v" by (simp add: unsigned_ucast_eq take_bit_nat_eq_self less_trans [OF unsigned_less])
  then have "unat (ucast v :: u32) < 2 ^ 31" using unat_u16_less [of v] by simp
  then have "\<not> sint (ucast v :: u32) < 0" by (simp add: sint_small)
  then show ?thesis by (simp add: number_signed)
qed

lemma blksize_text: "vsprintf (asc ''blksize%c%d%c'') [VInt 0, VInt (ucast (v :: u16)), VInt 0] =
    Some (of_nat (9 + length (digit_text lower_digits 10 (ucast v))), asc ''blksize'' @ [0] @ digit_text lower_digits 10 (ucast v) @ [0], [])"
  using number_half_word [of v, unfolded number_flags] by (simp add: vsprintf_simps Let_def)

lemma timeout_text: "vsprintf (asc ''%lu'') [VInt (TIMEOUT div 1000)] = Some (1, [0x35], [])"
  by code_simp

text \<open>The request that opens a transfer.\<close>

definition request :: "u8 list \<Rightarrow> u16 \<Rightarrow> u8 list" where
  "request name bs = net16 TFTP_RRQ @ name @ [0] @ asc ''octet'' @ [0] @ asc ''timeout'' @ [0, 0x35, 0] @
     asc ''blksize'' @ [0] @ digit_text lower_digits 10 (ucast bs) @ [0]"

lemma tftp_payload_states [simp]:
  "TftpState s = STATE_RRQ \<Longrightarrow> tftp_payload s = Some (request (tftp_filename s) (TftpBlkSizeOption s))"
  "TftpState s = STATE_OACK \<or> TftpState s = STATE_DATA \<Longrightarrow> tftp_payload s = Some (net16 TFTP_ACK @ net16 (ucast (TftpBlock s)))"
  by (auto simp: tftp_payload_def timeout_text blksize_text request_def STATE_RRQ_def STATE_OACK_def STATE_DATA_def)

lemma request_length: "length name < 128 \<Longrightarrow> length (request name bs) < 65508"
  using num_digits_length [of 10 "ucast bs" 10 lower_digits] unat_u32_less [of "ucast bs"]
  by (simp add: request_def net16_def asc_def digit_text_def)

lemma net16_eq [simp]: "net16 v = net16 w \<longleftrightarrow> v = w"
  by (metis append_Nil2 get16_cons(1) net16_def)

lemma take_2_net16 [simp]: "take 2 (net16 v @ b) = net16 v" "drop 2 (net16 v @ b) = b" "length (net16 v) = 2" "get16 (net16 v @ b) 0 = v"
  by (simp_all add: net16_def)

section \<open>A session with a server\<close>

text \<open>
  The client with its configuration and its Ethernet driver, which keeps the frames it was given,
  and a server that runs the same network stack at the state \<open>peer\<close>, with the block size and the
  file that it sends.
\<close>

record 'd session =
  net_env :: env_config
  net_drv :: "'d tfmach net_io"
  sent :: "'d \<Rightarrow> u8 list list"
  client_mac :: "u8 list"
  client_ip :: u32
  client_port :: u16
  peer :: "'d nmach"
  peer_drv :: "'d nmach net_io"
  peer_port :: u16
  blk_size :: nat
  file_data :: "u8 list"

definition log_driver :: "'s net_io \<Rightarrow> ('d \<Rightarrow> u8 list list) \<Rightarrow> ('s \<Rightarrow> 'd) \<Rightarrow> ('d \<Rightarrow> 's \<Rightarrow> 's) \<Rightarrow> bool" where
  "log_driver io frames get put \<longleftrightarrow>
     (\<forall>f s. \<exists>d. eth_send io f s = put d s \<and> frames d = f # frames (get s)) \<and>
     (\<forall>s. \<exists>t d. net_time io s = (t, put d s) \<and> frames d = frames (get s))"

definition block_pos :: "'d session \<Rightarrow> nat \<Rightarrow> nat" where "block_pos S k = (k - 1) * blk_size S"

definition chunk :: "'d session \<Rightarrow> nat \<Rightarrow> u8 list" where
  "chunk S k = take (blk_size S) (drop (block_pos S k) (file_data S))"

text \<open>The number of the last block, which is shorter than the others and may be empty.\<close>

definition final :: "'d session \<Rightarrow> nat" where "final S = length (file_data S) div blk_size S + 1"

definition proper_session :: "'d session \<Rightarrow> bool" where
  "proper_session S \<longleftrightarrow>
     log_driver (net_drv S) (sent S) dev (\<lambda>d s. s\<lparr>dev := d\<rparr>) \<and>
     length (client_mac S) = 6 \<and> length (NetOurEther (peer S)) = 6 \<and> NetOurEther (peer S) \<noteq> NetEtherNullAddr \<and>
     NetOurIP (peer S) \<noteq> 0 \<and> NetOurIP (peer S) \<noteq> -1 \<and>
     0 < blk_size S \<and> blk_size S < 65000 \<and> final S < 65536 \<and> length (file_data S) < 2 ^ 32"

text \<open>What the server sends: the options it accepts, as number 0, and the blocks of the file.\<close>

definition reply :: "'d session \<Rightarrow> nat \<Rightarrow> u8 list" where
  "reply S k =
     (if k = 0 then net16 TFTP_OACK @ asc ''blksize'' @ [0] @ digit_text lower_digits 10 (of_nat (blk_size S)) @ [0]
      else net16 TFTP_DATA @ net16 (of_nat k) @ chunk S k)"

definition reply_frame :: "'d session \<Rightarrow> nat \<Rightarrow> u8 list" where
  "reply_frame S k = udp_frame (client_mac S) (client_ip S) (client_port S) (peer_port S) (reply S k) (peer S)"

text \<open>The server takes a frame for the acknowledgement of a block by what its own stack makes of it.\<close>

definition acks :: "'d session \<Rightarrow> u8 list \<Rightarrow> u16 \<Rightarrow> bool" where
  "acks S f v \<longleftrightarrow> NetReceive (peer_drv S)
     (\<lambda>_ pkt dest src len s. if take (unat len) pkt = net16 TFTP_ACK @ net16 v then Some s else None)
     f (int (length f)) (peer S) \<noteq> None"

definition rx :: "'d session \<Rightarrow> 'd tfmach call_handler" where
  "rx S = rx_call (net_env S) (net_drv S) (\<lambda>_ _ _ _ _ _. None)"

definition expire :: "'d session \<Rightarrow> thand \<Rightarrow> 'd tfmach \<Rightarrow> 'd tfmach option" where
  "expire S h s = time_call (net_env S) (net_drv S) (\<lambda>_ _. None) h (s\<lparr>timeHandler := None\<rparr>)"

text \<open>
  A configuration: the client, the number the server is at, the replies that are on their way, and
  how many frames of the client have been lost or come too late. A reply stays on its way until it
  is lost, so it may arrive any number of times and in any order.
\<close>

record 'd conf =
  client :: "'d tfmach"
  at_block :: nat
  in_flight :: "nat set"
  lost :: nat

definition arriving :: "'d session \<Rightarrow> 'd conf \<Rightarrow> u8 list set" where
  "arriving S x = set (take (length (sent S (dev (client x))) - lost x) (sent S (dev (client x))))"

text \<open>
  The client takes in a reply, in a buffer with anything behind it, or its timer expires; the
  server takes in an acknowledgement and goes on to the next block, or repeats the current one;
  or the network loses replies and everything the client has sent so far. The options are not
  delivered any more once the server has seen them acknowledged.
\<close>

inductive step :: "'d session \<Rightarrow> 'd conf \<Rightarrow> 'd conf \<Rightarrow> bool" for S where
  Deliver: "k \<in> in_flight x \<Longrightarrow> NetState (client x) = NETLOOP_CONTINUE \<Longrightarrow>
    NetReceive (net_drv S) (rx S) (reply_frame S k @ rest) (int (length (reply_frame S k))) (client x) = Some s \<Longrightarrow>
    step S x (x\<lparr>client := s\<rparr>)"
| Expire: "timeHandler (client x) = Some h \<Longrightarrow> NetState (client x) = NETLOOP_CONTINUE \<Longrightarrow>
    expire S h (client x) = Some s \<Longrightarrow> step S x (x\<lparr>client := s\<rparr>)"
| Accept: "f \<in> arriving S x \<Longrightarrow> acks S f (of_nat (at_block x)) \<Longrightarrow> at_block x < final S \<Longrightarrow>
    step S x (x\<lparr>at_block := at_block x + 1, in_flight := insert (at_block x + 1) (in_flight x - {0})\<rparr>)"
| Repeat: "step S x (x\<lparr>in_flight := insert (at_block x) (in_flight x)\<rparr>)"
| Lose: "A \<subseteq> in_flight x \<Longrightarrow> step S x (x\<lparr>in_flight := A, lost := length (sent S (dev (client x)))\<rparr>)"

inductive_cases stepE: "step S x y"
lemmas step_cases = stepE [consumes 1, case_names Deliver Expire Accept Repeat Lose]

text \<open>The client has sent its request to a server whose hardware address it knows.\<close>

definition linked :: "'d session \<Rightarrow> 'd tfmach \<Rightarrow> bool" where
  "linked S s \<longleftrightarrow> NetOurEther s = client_mac S \<and> NetServerEther s = NetOurEther (peer S) \<and> NetOurIP s = client_ip S \<and>
     NetOurVLAN s = NetOurVLAN (peer S) \<and> TftpOurPort s = ucast (client_port S) \<and> TftpServerIP s = NetOurIP (peer S) \<and>
     length (tftp_filename s) < MAX_LEN"

definition requested :: "'d session \<Rightarrow> 'd tfmach \<Rightarrow> bool" where
  "requested S s \<longleftrightarrow> linked S s \<and> NetState s = NETLOOP_CONTINUE \<and> packetHandler s = TftpHandler \<and>
     timeHandler s = Some TftpTimeout \<and> TftpTimeoutMSecs s \<noteq> 0 \<and> TftpState s = STATE_RRQ \<and> TftpBlock s = 0 \<and>
     NetBootFileXferSize s = 0"

text \<open>The server answers with options, or with the first block when it knows none.\<close>

definition initial :: "'d session \<Rightarrow> 'd conf \<Rightarrow> bool" where
  "initial S x \<longleftrightarrow> requested S (client x) \<and> lost x = length (sent S (dev (client x))) \<and>
     (at_block x = 0 \<and> in_flight x = {0} \<or>
      at_block x = 1 \<and> in_flight x = {1} \<and> unat (TftpBlkSize (client x)) = blk_size S)"

abbreviation runs :: "'d session \<Rightarrow> 'd conf \<Rightarrow> 'd conf \<Rightarrow> bool" where
  "runs S \<equiv> (step S)\<^sup>*\<^sup>*"

section \<open>Frames of a session\<close>

lemma eth_send_log: "proper_session S \<Longrightarrow> \<exists>d. eth_send (net_drv S) f s = s\<lparr>dev := d\<rparr> \<and> sent S d = f # sent S (dev s)"
  by (simp add: proper_session_def log_driver_def)

lemma net_time_log: "proper_session S \<Longrightarrow> \<exists>t d. net_time (net_drv S) s = (t, s\<lparr>dev := d\<rparr>) \<and> sent S d = sent S (dev s)"
  by (simp add: proper_session_def log_driver_def)

lemma NetSetTimeout_log:
  assumes "proper_session S" and "iv \<noteq> 0"
  shows "\<exists>t d. NetSetTimeout (net_drv S) iv h s = s\<lparr>dev := d, timeHandler := Some h, timeStart := t, timeDelta := iv\<rparr> \<and>
    sent S d = sent S (dev s)"
proof -
  obtain t d where "net_time (net_drv S) s = (t, s\<lparr>dev := d\<rparr>)" "sent S d = sent S (dev s)"
    using net_time_log [OF assms(1)] by blast
  then show ?thesis using assms(2) by (intro exI [of _ t] exI [of _ d]) (simp add: NetSetTimeout_def)
qed

definition client_frame :: "'d session \<Rightarrow> u8 list \<Rightarrow> 'd tfmach \<Rightarrow> u8 list" where
  "client_frame S p s = udp_frame (NetOurEther (peer S)) (NetOurIP (peer S)) (ucast (TftpServerPort s)) (ucast (TftpOurPort s)) p s"

lemma TftpSend_log:
  assumes "proper_session S" and "linked S s" and "tftp_payload s = Some p"
  shows "\<exists>d. TftpSend (net_drv S) s = Some (s\<lparr>NetIPID := NetIPID s + 1, dev := d\<rparr>) \<and>
    sent S d = client_frame S p s # sent S (dev s)"
proof -
  have "NetSendUDPPacket (net_drv S) Server_ether (TftpServerIP s) (ucast (TftpServerPort s)) (ucast (TftpOurPort s)) p s =
      (0, eth_send (net_drv S) (client_frame S p s) (s\<lparr>NetIPID := NetIPID s + 1\<rparr>))"
    using assms(1,2) NetSendUDPPacket_frame [of Server_ether s "TftpServerIP s" "net_drv S"]
    by (simp add: proper_session_def linked_def client_frame_def)
  then show ?thesis
    using eth_send_log [OF assms(1), of "client_frame S p s" "s\<lparr>NetIPID := NetIPID s + 1\<rparr>"] assms(3)
    by (auto simp: TftpSend_def)
qed

lemma acks_payload:
  assumes "proper_session S" and "linked S s" and "length p < 65508"
  shows "acks S (client_frame S p s) v \<longleftrightarrow> p = net16 TFTP_ACK @ net16 v"
proof -
  have "unat (of_nat (length p) :: u32) = length p" using assms(3) by (simp add: unat_of_nat)
  then show ?thesis
    using assms udp_frame_received [where frame = "client_frame S p s" and rest = "[]" and r = "peer S" and s = s, OF _ _ assms(3) _ _ client_frame_def]
    by (simp add: acks_def proper_session_def linked_def)
qed

lemma acks_ack [simp]:
  assumes "proper_session S" and "linked S s"
  shows "acks S (client_frame S (net16 TFTP_ACK @ net16 w) s) v \<longleftrightarrow> w = v"
  using acks_payload [OF assms, of "net16 TFTP_ACK @ net16 w"] by simp

lemma acks_request [simp]:
  assumes "proper_session S" and "linked S s"
  shows "\<not> acks S (client_frame S (request (tftp_filename s) bs) s) v"
proof
  assume "acks S (client_frame S (request (tftp_filename s) bs) s) v"
  then have "request (tftp_filename s) bs = net16 TFTP_ACK @ net16 v"
    using acks_payload [OF assms request_length] assms(2) by (simp add: linked_def MAX_LEN_def)
  then show False by (simp add: request_def net16_def TFTP_RRQ_def TFTP_ACK_def)
qed

lemma length_chunk_le: "length (chunk S k) \<le> blk_size S"
  by (simp add: chunk_def)

lemma length_reply: "proper_session S \<Longrightarrow> length (reply S k) < 65508"
  using length_chunk_le [of S k] num_digits_length [of 10 "of_nat (blk_size S)" 10 lower_digits] unat_u32_less [of "of_nat (blk_size S)"]
  by (simp add: reply_def proper_session_def net16_def asc_def digit_text_def)

lemma reply_received:
  assumes "proper_session S" and "linked S s"
  shows "NetReceive io call (reply_frame S k @ rest) (int (length (reply_frame S k))) s =
    call (packetHandler s) (reply S k @ rest) (ucast (client_port S)) (ucast (peer_port S)) (of_nat (length (reply S k))) s"
  using udp_frame_received [where r = s and s = "peer S", OF _ _ length_reply [OF assms(1)] _ _ reply_frame_def] assms
  by (simp add: proper_session_def linked_def)

section \<open>Blocks of the file\<close>

lemma chunk_bounds:
  assumes "proper_session S" and "1 \<le> k" and "k \<le> final S"
  shows "block_pos S k + length (chunk S k) \<le> length (file_data S)"
    and "length (chunk S k) < blk_size S \<longleftrightarrow> k = final S"
    and "k = final S \<Longrightarrow> block_pos S k + length (chunk S k) = length (file_data S)"
    and "k < final S \<Longrightarrow> length (chunk S k) = blk_size S"
proof -
  let ?n = "length (file_data S)" and ?b = "blk_size S"
  have b: "0 < ?b" using assms(1) by (simp add: proper_session_def)
  have l: "length (chunk S k) = min (?n - block_pos S k) ?b" by (simp add: chunk_def)
  have p: "block_pos S k = (k - 1) * ?b" by (simp add: block_pos_def)
  have n: "?n = ?n div ?b * ?b + ?n mod ?b" "?n mod ?b < ?b" using b by simp_all
  have "block_pos S k \<le> ?n div ?b * ?b" unfolding p using assms(3) by (intro mult_right_mono) (auto simp: final_def)
  then show "block_pos S k + length (chunk S k) \<le> ?n" using l n(1) by linarith
  have whole: "length (chunk S k) = ?b" if "k < final S"
  proof -
    have "k * ?b \<le> ?n div ?b * ?b" using that by (intro mult_right_mono) (auto simp: final_def)
    moreover have "k * ?b = block_pos S k + ?b" using assms(2) by (cases k) (auto simp: p block_pos_def)
    ultimately show ?thesis using l n(1) by linarith
  qed
  then show "k < final S \<Longrightarrow> length (chunk S k) = ?b" .
  have part: "length (chunk S k) = ?n mod ?b" if "k = final S"
  proof -
    have "block_pos S k = ?n div ?b * ?b" using that by (simp add: final_def block_pos_def)
    then have "?n - block_pos S k = ?n mod ?b" using n(1) by linarith
    then show ?thesis using l n(2) by simp
  qed
  then show "k = final S \<Longrightarrow> block_pos S k + length (chunk S k) = ?n" by (simp add: final_def block_pos_def)
  show "length (chunk S k) < ?b \<longleftrightarrow> k = final S" using whole part n(2) assms(3) by force
qed

lemma chunk_nth: "i < length (chunk S k) \<Longrightarrow> chunk S k ! i = file_data S ! (block_pos S k + i)"
  by (auto simp: chunk_def nth_drop less_diff_conv)

text \<open>Block \<open>k\<close> is in memory.\<close>

definition stored :: "'d session \<Rightarrow> u32 \<Rightarrow> (u32 \<Rightarrow> u8) \<Rightarrow> nat \<Rightarrow> bool" where
  "stored S a m k \<longleftrightarrow> (\<forall>i<length (chunk S k). m (a + of_nat (block_pos S k + i)) = chunk S k ! i)"

text \<open>Writing a block stores it and leaves other stored blocks as they are.\<close>

lemma stored_blit:
  assumes "proper_session S" and "1 \<le> k" "k \<le> final S" and "m' = blit m (a + of_nat (block_pos S k)) (length (chunk S k)) ((!) (chunk S k @ rest))"
  shows "stored S a m' k" and "1 \<le> j \<Longrightarrow> j \<le> final S \<Longrightarrow> stored S a m j \<Longrightarrow> stored S a m' j"
    and "only_changed a (length (file_data S)) m m'"
proof -
  let ?q = "block_pos S k"
  note c = chunk_bounds(1) [OF assms(1-3)]
  have n: "length (file_data S) < 2 ^ 32" using assms(1) by (simp add: proper_session_def)
  have at: "m' (a + of_nat i) = (if ?q \<le> i \<and> i < ?q + length (chunk S k) then file_data S ! i else m (a + of_nat i))"
    if "i < length (file_data S)" for i
  proof -
    have "m' (a + of_nat i) = (if ?q \<le> i \<and> i < ?q + length (chunk S k) then (chunk S k @ rest) ! (i - ?q) else m (a + of_nat i))"
      unfolding assms(4) by (rule blit_at) (use that n c in auto)
    moreover have "(chunk S k @ rest) ! (i - ?q) = file_data S ! i" if "?q \<le> i" "i < ?q + length (chunk S k)"
    proof -
      have "i - ?q < length (chunk S k)" using that by linarith
      with chunk_nth [OF this] that show ?thesis by (simp add: nth_append)
    qed
    ultimately show ?thesis by simp
  qed
  show "stored S a m' k" unfolding stored_def using at c chunk_nth [of _ S k] by (simp del: of_nat_add)
  show "stored S a m' j" if j: "1 \<le> j" "j \<le> final S" "stored S a m j"
    unfolding stored_def
  proof (intro allI impI)
    fix i assume i: "i < length (chunk S j)"
    then have "block_pos S j + i < length (file_data S)" using chunk_bounds(1) [OF assms(1) j(1,2)] by linarith
    then show "m' (a + of_nat (block_pos S j + i)) = chunk S j ! i"
      using at [of "block_pos S j + i"] j(3) i chunk_nth [OF i] unfolding stored_def by (simp del: of_nat_add)
  qed
  show "only_changed a (length (file_data S)) m m'"
    unfolding assms(4) by (rule only_changed_sub [OF blit_frame c])
qed

lemma stored_all:
  assumes "proper_session S" and "\<And>k. 1 \<le> k \<Longrightarrow> k \<le> final S \<Longrightarrow> stored S a m k" and "i < length (file_data S)"
  shows "m (a + of_nat i) = file_data S ! i"
proof -
  let ?b = "blk_size S" and ?k = "i div blk_size S + 1"
  have b: "0 < ?b" using assms(1) by (simp add: proper_session_def)
  have k: "1 \<le> ?k" "?k \<le> final S" using assms(3) by (auto simp: final_def intro: div_le_mono)
  have "i mod ?b < length (chunk S ?k)"
  proof (cases "?k = final S")
    case True
    have "i = block_pos S ?k + i mod ?b" by (simp add: block_pos_def)
    then show ?thesis using chunk_bounds(3) [OF assms(1) k True] assms(3) by linarith
  next
    case False
    then show ?thesis using chunk_bounds(4) [OF assms(1) k] k(2) b by simp
  qed
  moreover have "block_pos S ?k + i mod ?b = i" by (simp add: block_pos_def)
  ultimately show ?thesis using assms(2) [OF k] chunk_nth [of "i mod ?b" S ?k] by (metis stored_def)
qed

section \<open>A block that is taken in\<close>

text \<open>\<open>s'\<close> is the client \<open>s\<close> after it has stored and acknowledged block \<open>k\<close>.\<close>

definition took :: "'d session \<Rightarrow> nat \<Rightarrow> 'd tfmach \<Rightarrow> 'd tfmach \<Rightarrow> bool" where
  "took S k s s' \<longleftrightarrow>
     linked S s' \<and> packetHandler s' = packetHandler s \<and> timeHandler s' = Some TftpTimeout \<and> TftpTimeoutMSecs s' = TIMEOUT \<and>
     load_addr s' = load_addr s \<and> TftpServerPort s' = TftpServerPort s \<and> TftpBlkSize s' = TftpBlkSize s \<and>
     TftpState s' = STATE_DATA \<and> TftpBlockWrapOffset s' = 0 \<and> TftpBlock s' = of_nat k \<and> TftpLastBlock s' = of_nat k \<and>
     mem s' = blit (mem s) (load_addr s + of_nat (block_pos S k)) (length (chunk S k)) ((!) (chunk S k @ [])) \<and>
     unat (NetBootFileXferSize s') = max (unat (NetBootFileXferSize s)) (block_pos S k + length (chunk S k)) \<and>
     NetState s' = (if k = final S then NETLOOP_SUCCESS else NetState s) \<and>
     (\<exists>f. sent S (dev s') = f # sent S (dev s) \<and> (\<forall>v. acks S f v \<longleftrightarrow> v = of_nat k))"

lemma linked_cong:
  assumes "linked S s" and "NetOurEther s' = NetOurEther s" "NetServerEther s' = NetServerEther s" "NetOurIP s' = NetOurIP s"
    "NetOurVLAN s' = NetOurVLAN s" "TftpOurPort s' = TftpOurPort s" "TftpServerIP s' = TftpServerIP s" "tftp_filename s' = tftp_filename s"
  shows "linked S s'"
  using assms by (simp add: linked_def)

lemma new_block_took:
  assumes S: "proper_session S" and s: "linked S s" "TftpState s = STATE_DATA" "unat (TftpBlkSize s) = blk_size S"
    "TftpBlockWrapOffset s = 0" "TftpBlock s = of_nat k" and k: "1 \<le> k" "k \<le> final S"
  shows "\<exists>s'. new_block (net_drv S) (chunk S k @ rest) (of_nat (length (chunk S k))) s = Some s' \<and> took S k s s'"
proof -
  let ?n = "length (chunk S k)" and ?p = "block_pos S k"
  note c = chunk_bounds [OF S k]
  have bd: "length (file_data S) < 2 ^ 32" "blk_size S < 65000" "final S < 65536" using S by (simp_all add: proper_session_def)
  have n: "unat (of_nat ?n :: u32) = ?n" using c(1) bd(1) by (simp add: unat_of_nat del: of_nat_add)
  have w: "unat (of_nat (?p + ?n) :: u32) = ?p + ?n" using c(1) bd(1) by (simp add: unat_of_nat del: of_nat_add)
  have bs: "ucast (TftpBlkSize s) = (of_nat (blk_size S) :: u32)" using s(3) of_nat_unat [of "TftpBlkSize s"] by metis
  have off: "(of_nat k - 1) * ucast (TftpBlkSize s) + 0 = (of_nat ?p :: u32)"
    using k(1) by (simp add: bs block_pos_def of_nat_diff)
  define s0 where "s0 = s\<lparr>TftpLastBlock := TftpBlock s, TftpTimeoutMSecs := TIMEOUT, TftpTimeoutCountMax := TIMEOUT_COUNT\<rparr>"
  have "TIMEOUT \<noteq> 0" by (simp add: TIMEOUT_def)
  then obtain t d where t: "NetSetTimeout (net_drv S) TIMEOUT TftpTimeout s0 =
      s0\<lparr>dev := d, timeHandler := Some TftpTimeout, timeStart := t, timeDelta := TIMEOUT\<rparr>" and d: "sent S d = sent S (dev s)"
    using NetSetTimeout_log [OF S, of TIMEOUT TftpTimeout s0] by (auto simp: s0_def)
  define s1 where "s1 = s0\<lparr>dev := d, timeHandler := Some TftpTimeout, timeStart := t, timeDelta := TIMEOUT\<rparr>"
  define m where "m = blit (mem s) (load_addr s + of_nat ?p) ?n ((!) (chunk S k @ rest))"
  define xs where "xs = (if NetBootFileXferSize s < of_nat (?p + ?n) then of_nat (?p + ?n) else NetBootFileXferSize s)"
  have m: "m = blit (mem s) (load_addr s + of_nat ?p) ?n ((!) (chunk S k @ []))"
    unfolding m_def by (rule blit_cong) (simp add: nth_append)
  have xs: "unat xs = max (unat (NetBootFileXferSize s)) (?p + ?n)"
    using w by (auto simp: xs_def word_less_nat_alt simp del: of_nat_add)
  define s2 where "s2 = s1\<lparr>mem := m, NetBootFileXferSize := xs\<rparr>"
  have st: "store_block (TftpBlock s1 - 1) (chunk S k @ rest) (of_nat ?n) s1 = Some s2"
    using off s(4,5) n by (auto simp: store_block_def s1_def s0_def s2_def m_def xs_def Let_def)
  have l2: "linked S s2" by (rule linked_cong [OF s(1)]) (simp_all add: s2_def s1_def s0_def)
  have p2: "tftp_payload s2 = Some (net16 TFTP_ACK @ net16 (ucast (TftpBlock s2)))"
    using s(2) by (simp add: s2_def s1_def s0_def)
  obtain d2 where d2: "TftpSend (net_drv S) s2 = Some (s2\<lparr>NetIPID := NetIPID s2 + 1, dev := d2\<rparr>)"
    and f: "sent S d2 = client_frame S (net16 TFTP_ACK @ net16 (ucast (TftpBlock s2))) s2 # sent S (dev s2)"
    using TftpSend_log [OF S l2 p2] by blast
  define s3 where "s3 = s2\<lparr>NetIPID := NetIPID s2 + 1, dev := d2\<rparr>"
  define s4 where "s4 = (if of_nat ?n < (ucast (TftpBlkSize s3) :: u32)
      then (printf (CHR 0x0A # line ''done'') [] s3)\<lparr>NetState := NETLOOP_SUCCESS\<rparr> else s3)"
  have "new_block (net_drv S) (chunk S k @ rest) (of_nat ?n) s = Some s4"
    using t st d2 unfolding new_block_def s0_def [symmetric] s1_def [symmetric]
    by (simp add: s0_def s4_def s3_def s1_def [symmetric] Let_def) (simp add: s0_def s1_def)?
  moreover have "took S k s s4"
  proof -
    have fin: "of_nat ?n < (ucast (TftpBlkSize s3) :: u32) \<longleftrightarrow> k = final S"
    proof -
      have "TftpBlkSize s3 = TftpBlkSize s" by (simp add: s3_def s2_def s1_def s0_def)
      moreover have "unat (of_nat (blk_size S) :: u32) = blk_size S" using bd(2) by (simp add: unat_of_nat)
      ultimately show ?thesis using n c(2) by (simp add: bs word_less_nat_alt)
    qed
    obtain t4 n4 where e: "s4 = s3\<lparr>outp := t4, NetState := n4\<rparr>" and n4: "n4 = (if k = final S then NETLOOP_SUCCESS else NetState s)"
    proof
      show "s4 = s3\<lparr>outp := outp s4, NetState := NetState s4\<rparr>" by (simp add: s4_def printf_def)
      show "NetState s4 = (if k = final S then NETLOOP_SUCCESS else NetState s)"
        unfolding s4_def fin by (simp add: s3_def s2_def s1_def s0_def)
    qed
    have a: "acks S (client_frame S (net16 TFTP_ACK @ net16 (ucast (TftpBlock s2))) s2) v \<longleftrightarrow> v = of_nat k" for v
    proof -
      have "ucast (TftpBlock s2) = (of_nat k :: u16)" using k bd(3) by (simp add: s2_def s1_def s0_def s(5) unsigned_of_nat take_bit_nat_eq_self)
      then show ?thesis using S l2 by auto
    qed
    have "linked S s4" unfolding e by (rule linked_cong [OF l2]) (simp_all add: s3_def)
    moreover have "sent S (dev s4) = client_frame S (net16 TFTP_ACK @ net16 (ucast (TftpBlock s2))) s2 # sent S (dev s)"
      using f d by (simp add: e s3_def s2_def s1_def)
    ultimately show ?thesis
      using a m xs n4 s unfolding took_def by (simp add: e s3_def) (simp add: s2_def s1_def s0_def)
  qed
  ultimately show ?thesis by blast
qed

section \<open>Replies that arrive\<close>

lemma tftp_progress_outp: "TftpBlock s \<noteq> 0 \<Longrightarrow> \<exists>t. tftp_progress s = s\<lparr>outp := t\<rparr>"
  by (auto simp: tftp_progress_def putc_def printf_def) (rule exI [of _ "outp s"], simp)

lemma block_number:
  assumes "proper_session S" and "1 \<le> k" and "k \<le> final S" and "j \<le> final S"
  shows "ucast (of_nat k :: u16) = (of_nat k :: u32)" "(of_nat k :: u32) \<noteq> 0"
    and "(of_nat k :: u32) = of_nat j \<longleftrightarrow> k = j"
proof -
  have k: "k < 65536" "j < 65536" using assms by (simp_all add: proper_session_def)
  show "ucast (of_nat k :: u16) = (of_nat k :: u32)" using k by (simp add: unsigned_of_nat take_bit_nat_eq_self)
  have "unat (of_nat k :: u32) = k" "unat (of_nat j :: u32) = j" using k by (simp_all add: unat_of_nat)
  then show "(of_nat k :: u32) = of_nat j \<longleftrightarrow> k = j" "(of_nat k :: u32) \<noteq> 0" using assms(2) by (metis, metis not_one_le_zero unat_0)
qed

lemma handler_data:
  assumes S: "proper_session S" and s: "linked S s" "TftpState s \<noteq> STATE_RRQ \<Longrightarrow> TftpServerPort s = ucast (peer_port S)"
    and k: "1 \<le> k" "k \<le> final S"
  shows "\<exists>t. tftp_handler C io (reply S k @ rest) (ucast (client_port S)) (ucast (peer_port S)) (of_nat (length (reply S k))) s =
    (let r = s\<lparr>TftpBlock := of_nat k, outp := t\<rparr>
     in if TftpState s = STATE_RRQ \<or> TftpState s = STATE_OACK
        then if k = 1 then new_block io (chunk S k @ rest) (of_nat (length (chunk S k))) (first_block (ucast (peer_port S)) r)
             else NetStartAgain C io (printf (CHR 0x0A # line ''TFTP error: First block is not block 1 (%ld)'' @ line ''Starting again'' @ line '''')
               [Num (of_nat k)] (first_block (ucast (peer_port S)) r))
        else if TftpLastBlock s = of_nat k then Some r
        else new_block io (chunk S k @ rest) (of_nat (length (chunk S k))) r)"
proof -
  have n: "length (chunk S k) < 65000" using length_chunk_le [of S k] S by (simp add: proper_session_def)
  have f: "1 \<le> final S" by (simp add: final_def)
  note b = block_number [OF S k f] 
  obtain t where t: "tftp_progress (s\<lparr>TftpBlock := of_nat k\<rparr>) = s\<lparr>TftpBlock := of_nat k, outp := t\<rparr>"
    using tftp_progress_outp [of "s\<lparr>TftpBlock := of_nat k\<rparr>"] b(2) by auto
  define l where "l = (of_nat (length (reply S k)) :: u32)"
  let ?p = "net16 (of_nat k) @ chunk S k @ rest"
  have r: "reply S k @ rest = net16 TFTP_DATA @ ?p" "length (reply S k) = 4 + length (chunk S k)"
    using k(1) by (simp_all add: reply_def)
  have l: "\<not> l < 2" "\<not> l - 2 < 2" "l - 4 = of_nat (length (chunk S k))"
    using n by (simp_all add: l_def r(2) word_less_nat_alt unat_of_nat unat_word_ariths)
  have "tftp_handler C io (reply S k @ rest) (ucast (client_port S)) (ucast (peer_port S)) l s =
      tftp_data C io (ucast (peer_port S)) ?p (l - 2) s"
    using s l(1) by (auto simp: tftp_handler_def r(1) linked_def Let_def TFTP_DATA_def TFTP_OACK_def)
  also have "\<dots> = (let r = s\<lparr>TftpBlock := of_nat k, outp := t\<rparr>
     in if TftpState s = STATE_RRQ \<or> TftpState s = STATE_OACK
        then if k = 1 then new_block io (chunk S k @ rest) (of_nat (length (chunk S k))) (first_block (ucast (peer_port S)) r)
             else NetStartAgain C io (printf (CHR 0x0A # line ''TFTP error: First block is not block 1 (%ld)'' @ line ''Starting again'' @ line '''')
               [Num (of_nat k)] (first_block (ucast (peer_port S)) r))
        else if TftpLastBlock s = of_nat k then Some r
        else new_block io (chunk S k @ rest) (of_nat (length (chunk S k))) r)"
    using l(2,3) b t by (auto simp: tftp_data_def Let_def first_block_def)
  finally show ?thesis unfolding l_def by blast
qed

lemma oack_options:
  assumes "n = 9 + length (digit_text lower_digits 10 (of_nat (blk_size S)))"
  shows "find_blksize n (asc ''blksize'' @ [0] @ digit_text lower_digits 10 (of_nat (blk_size S)) @ 0 # rest) =
    Some (Some (digit_text lower_digits 10 (of_nat (blk_size S)) @ 0 # rest))"
  using assms by (subst find_blksize.simps) (simp add: asc_def)

text \<open>The options are taken over and acknowledged.\<close>

lemma handler_oack:
  assumes S: "proper_session S" and s: "linked S s" "TftpState s \<noteq> STATE_RRQ \<Longrightarrow> TftpServerPort s = ucast (peer_port S)"
  shows "\<exists>d. tftp_handler C (net_drv S) (reply S 0 @ rest) (ucast (client_port S)) (ucast (peer_port S)) (of_nat (length (reply S 0))) s =
      Some (s\<lparr>TftpState := STATE_OACK, TftpServerPort := ucast (peer_port S), TftpBlkSize := of_nat (blk_size S),
        NetIPID := NetIPID s + 1, dev := d\<rparr>) \<and>
    (\<exists>f. sent S d = f # sent S (dev s) \<and> (\<forall>v. acks S f v \<longleftrightarrow> v = ucast (TftpBlock s)))"
proof -
  let ?t = "digit_text lower_digits 10 (of_nat (blk_size S))"
  define l where "l = (of_nat (length (reply S 0)) :: u32)"
  have t: "length ?t \<le> 10" using num_digits_length [of 10 "of_nat (blk_size S)" 10 lower_digits] unat_u32_less [of "of_nat (blk_size S)"]
    by (simp add: digit_text_def)
  have r: "reply S 0 @ rest = net16 TFTP_OACK @ asc ''blksize'' @ [0] @ ?t @ 0 # rest" "length (reply S 0) = 11 + length ?t"
    by (simp_all add: reply_def asc_def)
  have l: "\<not> l < 2" "unat (l - 2) = 9 + length ?t"
  proof -
    have "unat l = 11 + length ?t" using t by (simp add: l_def r(2) unat_of_nat del: of_nat_add)
    then show "\<not> l < 2" "unat (l - 2) = 9 + length ?t" by (simp_all add: word_less_nat_alt unat_sub word_le_nat_alt)
  qed
  have z: "simple_strtoul (?t @ 0 # rest) 10 = (of_nat (blk_size S), 0 # rest)"
    by (rule strtoul_text_then) (simp_all add: classes)
  define s1 where "s1 = s\<lparr>TftpState := STATE_OACK, TftpServerPort := ucast (peer_port S), TftpBlkSize := of_nat (blk_size S)\<rparr>"
  have "ucast (of_nat (blk_size S) :: u32) = (of_nat (blk_size S) :: u16)"
    using S by (simp add: proper_session_def unsigned_of_nat take_bit_nat_eq_self)
  then have "tftp_handler C (net_drv S) (reply S 0 @ rest) (ucast (client_port S)) (ucast (peer_port S)) l s = TftpSend (net_drv S) s1"
    using s l oack_options [OF l(2), of rest] z
    by (auto simp: tftp_handler_def r(1) linked_def Let_def tftp_oack_def s1_def)
  moreover have l1: "linked S s1" by (rule linked_cong [OF s(1)]) (simp_all add: s1_def)
  moreover have "tftp_payload s1 = Some (net16 TFTP_ACK @ net16 (ucast (TftpBlock s)))" by (simp add: s1_def)
  ultimately show ?thesis
    using TftpSend_log [OF S l1, of "net16 TFTP_ACK @ net16 (ucast (TftpBlock s))"] acks_ack [OF S l1] unfolding l_def [symmetric]
    by (auto simp: s1_def)
qed

section \<open>The invariant of a session\<close>

text \<open>Before the first block; and with block \<open>n\<close> as the latest that arrived.\<close>

definition waiting :: "'d session \<Rightarrow> nat \<Rightarrow> 'd tfmach \<Rightarrow> bool" where
  "waiting S b s \<longleftrightarrow> (TftpState s = STATE_RRQ \<or> TftpState s = STATE_OACK) \<and> TftpBlock s = 0 \<and> NetBootFileXferSize s = 0 \<and>
     NetState s = NETLOOP_CONTINUE \<and> b \<le> 1 \<and>
     (TftpState s \<noteq> STATE_RRQ \<longrightarrow> TftpServerPort s = ucast (peer_port S) \<and> unat (TftpBlkSize s) = blk_size S)"

definition loading :: "'d session \<Rightarrow> u32 \<Rightarrow> nat \<Rightarrow> nat \<Rightarrow> 'd tfmach \<Rightarrow> bool" where
  "loading S a b n s \<longleftrightarrow> TftpState s = STATE_DATA \<and> TftpServerPort s = ucast (peer_port S) \<and> TftpBlock s = of_nat n \<and>
     TftpLastBlock s = of_nat n \<and> 1 \<le> n \<and> n \<le> b \<and> stored S a (mem s) n \<and> TftpBlockWrapOffset s = 0 \<and>
     unat (NetBootFileXferSize s) \<le> length (file_data S) \<and>
     (if n < final S then NetState s = NETLOOP_CONTINUE
      else NetState s = NETLOOP_SUCCESS \<and> unat (NetBootFileXferSize s) = length (file_data S))"

text \<open>The acknowledgements that may still arrive at the server, at number \<open>b\<close>, are for blocks that are in memory.\<close>

definition sound_acks :: "'d session \<Rightarrow> u32 \<Rightarrow> nat \<Rightarrow> u8 list set \<Rightarrow> 'd tfmach \<Rightarrow> bool" where
  "sound_acks S a b F s \<longleftrightarrow> (\<forall>f\<in>F. \<forall>k<65536. acks S f (of_nat k) \<longrightarrow>
     k \<le> b \<and> unat (TftpBlkSize s) = blk_size S \<and> (1 \<le> k \<longrightarrow> TftpState s = STATE_DATA \<and> stored S a (mem s) k))"

text \<open>What the steps keep of the client; what the server's number says; and where the client is.\<close>

definition steady :: "'d session \<Rightarrow> u32 \<Rightarrow> (u32 \<Rightarrow> u8) \<Rightarrow> 'd tfmach \<Rightarrow> bool" where
  "steady S a m s \<longleftrightarrow> linked S s \<and> packetHandler s = TftpHandler \<and> timeHandler s = Some TftpTimeout \<and>
     TftpTimeoutMSecs s \<noteq> 0 \<and> load_addr s = a \<and> only_changed a (length (file_data S)) m (mem s)"

definition served :: "'d session \<Rightarrow> u32 \<Rightarrow> nat \<Rightarrow> nat set \<Rightarrow> 'd tfmach \<Rightarrow> bool" where
  "served S a b A s \<longleftrightarrow> A \<subseteq> {..b} \<and> (0 \<in> A \<longrightarrow> b = 0) \<and> b \<le> final S \<and> (b \<noteq> 0 \<longrightarrow> unat (TftpBlkSize s) = blk_size S) \<and>
     (\<forall>k<b. k \<noteq> 0 \<longrightarrow> stored S a (mem s) k)"

definition phase :: "'d session \<Rightarrow> u32 \<Rightarrow> nat \<Rightarrow> 'd tfmach \<Rightarrow> bool" where
  "phase S a b s \<longleftrightarrow> waiting S b s \<or> (\<exists>n. loading S a b n s)"

definition live :: "'d session \<Rightarrow> u32 \<Rightarrow> (u32 \<Rightarrow> u8) \<Rightarrow> 'd conf \<Rightarrow> bool" where
  "live S a m x \<longleftrightarrow> steady S a m (client x) \<and> lost x \<le> length (sent S (dev (client x))) \<and> served S a (at_block x) (in_flight x) (client x) \<and>
     sound_acks S a (at_block x) (arriving S x) (client x) \<and> phase S a (at_block x) (client x)"

text \<open>The transfer was given up: the network loop restarts it or ends with a failure.\<close>

definition given_up :: "'d session \<Rightarrow> 'd tfmach \<Rightarrow> bool" where
  "given_up S s \<longleftrightarrow> NetState s = NETLOOP_RESTART \<or> NetState s = NETLOOP_FAIL \<or>
     linked S s \<and> NetState s = NETLOOP_CONTINUE \<and> packetHandler s = StartAgainHandler \<and> timeHandler s = Some StartAgainTimeout"

lemma sound_acks_mono: "sound_acks S a b F s \<Longrightarrow> b \<le> b' \<Longrightarrow> F' \<subseteq> F \<Longrightarrow> sound_acks S a b' F' s"
  unfolding sound_acks_def by (meson le_trans subsetD)

lemma live_initial:
  assumes "initial S x"
  shows "live S (load_addr (client x)) (mem (client x)) x"
proof -
  have "sound_acks S (load_addr (client x)) (at_block x) (arriving S x) (client x)"
    using assms by (simp add: initial_def arriving_def sound_acks_def)
  moreover have "waiting S (at_block x) (client x)"
    using assms unfolding initial_def requested_def waiting_def by (elim conjE disjE) simp_all
  moreover have "served S (load_addr (client x)) (at_block x) (in_flight x) (client x)"
    using assms unfolding initial_def served_def by (elim conjE disjE) (simp_all add: final_def)
  moreover have "steady S (load_addr (client x)) (mem (client x)) (client x)"
    using assms unfolding initial_def requested_def steady_def by simp
  ultimately show ?thesis using assms by (simp add: live_def phase_def initial_def)
qed

text \<open>A configuration that differs in what the server and the network do.\<close>

lemma live_network:
  assumes "live S a m x" and "A \<subseteq> insert (at_block x) (in_flight x)" and "lost x \<le> n" "n \<le> length (sent S (dev (client x)))"
  shows "live S a m (x\<lparr>in_flight := A, lost := n\<rparr>)"
proof -
  have "arriving S (x\<lparr>in_flight := A, lost := n\<rparr>) \<subseteq> arriving S x"
    using assms(3) unfolding arriving_def by (simp add: set_take_subset_set_take)
  then have "sound_acks S a (at_block x) (arriving S (x\<lparr>in_flight := A, lost := n\<rparr>)) (client x)"
    using assms(1) sound_acks_mono unfolding live_def by blast
  moreover have "served S a (at_block x) A (client x)"
    using assms(1,2) unfolding live_def served_def by auto
  ultimately show ?thesis using assms(1,4) by (simp add: live_def)
qed

lemma live_accept:
  assumes S: "proper_session S" and x: "live S a m x" and f: "f \<in> arriving S x" "acks S f (of_nat (at_block x))" "at_block x < final S"
  shows "live S a m (x\<lparr>at_block := at_block x + 1, in_flight := insert (at_block x + 1) (in_flight x - {0})\<rparr>)"
proof -
  let ?y = "x\<lparr>at_block := at_block x + 1, in_flight := insert (at_block x + 1) (in_flight x - {0})\<rparr>"
  have b: "at_block x < 65536" using S f(3) by (simp add: proper_session_def)
  have a: "unat (TftpBlkSize (client x)) = blk_size S"
    "1 \<le> at_block x \<Longrightarrow> TftpState (client x) = STATE_DATA \<and> stored S a (mem (client x)) (at_block x)"
    using x f b unfolding live_def sound_acks_def by blast+
  have "served S a (at_block ?y) (in_flight ?y) (client ?y)"
  proof -
    have "stored S a (mem (client x)) k" if "k < at_block x + 1" "k \<noteq> 0" for k
      using that x a(2) unfolding live_def served_def by (cases "k = at_block x") auto
    moreover have "in_flight ?y \<subseteq> {..at_block ?y}" using x unfolding live_def served_def by auto
    ultimately show ?thesis using a(1) f(3) by (simp add: served_def)
  qed
  moreover have "sound_acks S a (at_block ?y) (arriving S ?y) (client ?y)"
    using x sound_acks_mono [of S a "at_block x" "arriving S x" "client x" "at_block ?y" "arriving S ?y"]
    unfolding live_def by (simp add: arriving_def)
  moreover have "phase S a (at_block ?y) (client ?y)"
  proof -
    have w: "at_block x = 0" if "waiting S (at_block x) (client x)"
      using a(2) that by (cases "at_block x") (auto simp: waiting_def STATE_DATA_def STATE_RRQ_def STATE_OACK_def)
    show ?thesis using x w unfolding live_def phase_def waiting_def loading_def by fastforce
  qed
  ultimately show ?thesis using x by (simp add: live_def)
qed

lemma of_nat_u16_eq: "j < 65536 \<Longrightarrow> k < 65536 \<Longrightarrow> (of_nat j :: u16) = of_nat k \<longleftrightarrow> j = k"
  by (simp add: word_of_nat_eq_iff take_bit_nat_eq_self)

text \<open>The client takes in a block that the server has sent.\<close>

lemma arriving_cons:
  assumes "sent S (dev s) = f # sent S (dev (client x))"
  shows "arriving S (x\<lparr>client := s\<rparr>) \<subseteq> insert f (arriving S x)"
    and "lost x \<le> length (sent S (dev (client x))) \<Longrightarrow> f \<in> arriving S (x\<lparr>client := s\<rparr>)"
  using assms by (cases "lost x \<le> length (sent S (dev (client x)))"; force simp: arriving_def Suc_diff_le)+

lemma live_took:
  assumes S: "proper_session S" and x: "live S a m x" "NetState (client x) = NETLOOP_CONTINUE" and t: "took S k r s"
    and k: "1 \<le> k" "k \<le> at_block x"
    and r: "mem r = mem (client x)" "load_addr r = load_addr (client x)" "TftpBlkSize r = TftpBlkSize (client x)"
      "dev r = dev (client x)" "NetBootFileXferSize r = NetBootFileXferSize (client x)" "packetHandler r = packetHandler (client x)"
      "NetState r = NetState (client x)" "TftpServerPort r = ucast (peer_port S)"
  shows "live S a m (x\<lparr>client := s\<rparr>) \<and> loading S a (at_block x) k s"
proof -
  let ?c = "client x"
  have K: "k \<le> final S" "at_block x \<le> final S" "unat (TftpBlkSize ?c) = blk_size S" "final S < 65536"
    using x(1) k S unfolding live_def served_def proper_session_def by auto
  have a: "load_addr ?c = a" using x(1) unfolding live_def steady_def by blast
  have m: "mem s = blit (mem ?c) (a + of_nat (block_pos S k)) (length (chunk S k)) ((!) (chunk S k @ []))"
    using t a r(1,2) unfolding took_def by simp
  note st = stored_blit [OF S k(1) K(1) m]
  have "TIMEOUT \<noteq> 0" by (simp add: TIMEOUT_def)
  moreover have "only_changed a (length (file_data S)) m (mem s)"
    using x(1) st(3) only_changed_trans unfolding live_def steady_def by blast
  ultimately have steady: "steady S a m s" using x(1) t a r(2,6) unfolding live_def steady_def took_def by simp
  obtain f where f: "sent S (dev s) = f # sent S (dev ?c)" "\<And>v. acks S f v \<longleftrightarrow> v = of_nat k"
    using t r(4) unfolding took_def by auto
  have served: "served S a (at_block x) (in_flight x) s"
    using x(1) t r(3) st(2) K unfolding live_def served_def took_def by simp
  have sound: "sound_acks S a (at_block x) (arriving S (x\<lparr>client := s\<rparr>)) s"
    unfolding sound_acks_def
  proof (intro ballI allI impI)
    fix g j assume g: "g \<in> arriving S (x\<lparr>client := s\<rparr>)" and j: "j < 65536" "acks S g (of_nat j)"
    have d: "TftpState s = STATE_DATA" "TftpBlkSize s = TftpBlkSize ?c" using t r(3) unfolding took_def by simp_all
    consider "g = f" | "g \<in> arriving S x" using arriving_cons(1) [where x = x, OF f(1)] g by blast
    then show "j \<le> at_block x \<and> unat (TftpBlkSize s) = blk_size S \<and> (1 \<le> j \<longrightarrow> TftpState s = STATE_DATA \<and> stored S a (mem s) j)"
    proof cases
      case 1
      then have "(of_nat j :: u16) = of_nat k" using j(2) f(2) by simp
      then have "j = k" using j(1) k K by (simp add: of_nat_u16_eq)
      then show ?thesis using d K(3) k st(1) by simp
    next
      case 2
      then have "j \<le> at_block x" "1 \<le> j \<longrightarrow> stored S a (mem ?c) j" using x(1) j unfolding live_def sound_acks_def by blast+
      then show ?thesis using d K st(2) by auto
    qed
  qed
  have "loading S a (at_block x) k s"
  proof -
    have "unat (NetBootFileXferSize ?c) \<le> length (file_data S)"
      using x(1) unfolding live_def phase_def waiting_def loading_def by auto
    moreover have "unat (NetBootFileXferSize s) = max (unat (NetBootFileXferSize ?c)) (block_pos S k + length (chunk S k))"
      "NetState s = (if k = final S then NETLOOP_SUCCESS else NETLOOP_CONTINUE)"
      using t r(5,7) x(2) unfolding took_def by simp_all
    moreover have "TftpState s = STATE_DATA \<and> TftpServerPort s = ucast (peer_port S) \<and> TftpBlock s = of_nat k \<and>
        TftpLastBlock s = of_nat k \<and> TftpBlockWrapOffset s = 0" using t r(8) unfolding took_def by simp
    ultimately show ?thesis
      using k K(1) st(1) chunk_bounds(1,3) [OF S k(1) K(1)] unfolding loading_def by (cases "k = final S") simp_all
  qed
  then show ?thesis using steady served sound x(1) f(1) by (auto simp: live_def phase_def)
qed

text \<open>The client sends something, and nothing else of what matters changes.\<close>

lemma live_sent:
  assumes x: "live S a m x" and s: "steady S a m s" "mem s = mem (client x)" "phase S a (at_block x) s"
    "TftpState (client x) = STATE_DATA \<Longrightarrow> TftpState s = STATE_DATA"
    "unat (TftpBlkSize (client x)) = blk_size S \<Longrightarrow> unat (TftpBlkSize s) = blk_size S"
    and f: "sent S (dev s) = f # sent S (dev (client x))"
    and k: "\<And>k. k < 65536 \<Longrightarrow> acks S f (of_nat k) \<Longrightarrow>
      k \<le> at_block x \<and> unat (TftpBlkSize s) = blk_size S \<and> (1 \<le> k \<longrightarrow> TftpState s = STATE_DATA \<and> stored S a (mem s) k)"
  shows "live S a m (x\<lparr>client := s\<rparr>)"
proof -
  have "sound_acks S a (at_block x) (arriving S (x\<lparr>client := s\<rparr>)) s"
    unfolding sound_acks_def
  proof (intro ballI allI impI)
    fix g j assume g: "g \<in> arriving S (x\<lparr>client := s\<rparr>)" and j: "j < 65536" "acks S g (of_nat j)"
    consider "g = f" | "g \<in> arriving S x" using arriving_cons(1) [where x = x, OF f] g by blast
    then show "j \<le> at_block x \<and> unat (TftpBlkSize s) = blk_size S \<and> (1 \<le> j \<longrightarrow> TftpState s = STATE_DATA \<and> stored S a (mem s) j)"
      by cases (use k [OF j(1)] j s x in \<open>auto simp: live_def sound_acks_def\<close>)
  qed
  moreover have "served S a (at_block x) (in_flight x) s" using x s(2,5) by (simp add: live_def served_def)
  ultimately show ?thesis using x s(1,3) f by (simp add: live_def)
qed

lemma live_same:
  assumes "live S a m x" and "loading S a (at_block x) n (client x)" and "s = (client x)\<lparr>TftpBlock := of_nat n, outp := t\<rparr>"
  shows "live S a m (x\<lparr>client := s\<rparr>) \<and> loading S a (at_block x) n s"
proof -
  have l: "loading S a (at_block x) n s" using assms(2) by (simp add: assms(3) loading_def)
  have "linked S s" if "linked S (client x)" by (rule linked_cong [OF that]) (simp_all add: assms(3))
  then have "steady S a m s" using assms(1) by (simp add: assms(3) live_def steady_def)
  moreover have "served S a (at_block x) (in_flight x) s" using assms(1) by (simp add: assms(3) live_def served_def)
  moreover have "arriving S (x\<lparr>client := s\<rparr>) = arriving S x" by (simp add: assms(3) arriving_def)
  moreover have "sound_acks S a (at_block x) (arriving S x) s" using assms(1) by (simp add: assms(3) live_def sound_acks_def)
  ultimately show ?thesis using l assms(1) by (auto simp: live_def phase_def assms(3))
qed

lemma deliver_block:
  assumes S: "proper_session S" and x: "live S a m x" "NetState (client x) = NETLOOP_CONTINUE" and k: "1 \<le> k" "k \<le> at_block x"
  shows "\<exists>s. tftp_handler C (net_drv S) (reply S k @ rest) (ucast (client_port S)) (ucast (peer_port S)) (of_nat (length (reply S k))) (client x) = Some s \<and>
    live S a m (x\<lparr>client := s\<rparr>) \<and> loading S a (at_block x) k s \<and>
    (loading S a (at_block x) k (client x) \<or> (\<exists>f\<in>arriving S (x\<lparr>client := s\<rparr>). acks S f (of_nat k)))"
proof -
  let ?c = "client x" and ?p = "ucast (peer_port S)" and ?n = "of_nat (length (chunk S k))"
  have K: "k \<le> final S" "unat (TftpBlkSize ?c) = blk_size S" using x(1) k unfolding live_def served_def by auto
  have c: "linked S ?c" "TftpState ?c \<noteq> STATE_RRQ \<Longrightarrow> TftpServerPort ?c = ?p" "lost x \<le> length (sent S (dev ?c))"
    using x(1) unfolding live_def steady_def phase_def waiting_def loading_def by auto
  obtain t where h: "tftp_handler C (net_drv S) (reply S k @ rest) (ucast (client_port S)) ?p (of_nat (length (reply S k))) ?c =
    (let r = ?c\<lparr>TftpBlock := of_nat k, outp := t\<rparr>
     in if TftpState ?c = STATE_RRQ \<or> TftpState ?c = STATE_OACK
        then if k = 1 then new_block (net_drv S) (chunk S k @ rest) ?n (first_block ?p r)
             else NetStartAgain C (net_drv S) (printf (CHR 0x0A # line ''TFTP error: First block is not block 1 (%ld)'' @ line ''Starting again'' @ line '''')
               [Num (of_nat k)] (first_block ?p r))
        else if TftpLastBlock ?c = of_nat k then Some r
        else new_block (net_drv S) (chunk S k @ rest) ?n r)"
    using handler_data [OF S c(1,2) k(1) K(1)] by blast
  define r where "r = ?c\<lparr>TftpBlock := of_nat k, outp := t\<rparr>"
  have acked: "\<exists>f\<in>arriving S (x\<lparr>client := s\<rparr>). acks S f (of_nat k)" if "took S k q s" "dev q = dev ?c" for q s
    using that c(3) arriving_cons(2) [of S s _ x] unfolding took_def by metis
  consider "waiting S (at_block x) ?c" | n where "loading S a (at_block x) n ?c"
    using x(1) unfolding live_def phase_def by blast
  then show ?thesis
  proof cases
    case 1
    define q where "q = first_block ?p r"
    have "linked S q" by (rule linked_cong [OF c(1)]) (simp_all add: q_def first_block_def r_def)
    then obtain s where s: "new_block (net_drv S) (chunk S k @ rest) ?n q = Some s" "took S k q s"
      using new_block_took [OF S, of q k rest] k(1) K by (auto simp: q_def first_block_def r_def)
    have "k = 1" using 1 k by (simp add: waiting_def)
    then have "tftp_handler C (net_drv S) (reply S k @ rest) (ucast (client_port S)) ?p (of_nat (length (reply S k))) ?c = Some s"
      using 1 s(1) unfolding h Let_def r_def [symmetric] q_def [symmetric] by (auto simp: waiting_def)
    moreover have "live S a m (x\<lparr>client := s\<rparr>) \<and> loading S a (at_block x) k s"
      by (rule live_took [OF S x s(2) k]) (simp_all add: q_def first_block_def r_def)
    moreover have "dev q = dev ?c" by (simp add: q_def first_block_def r_def)
    ultimately show ?thesis using acked [OF s(2)] by blast
  next
    case 2
    then have d: "TftpState ?c = STATE_DATA" "\<not> (TftpState ?c = STATE_RRQ \<or> TftpState ?c = STATE_OACK)" "TftpLastBlock ?c = of_nat n"
      "TftpBlockWrapOffset ?c = 0" "n \<le> final S"
      using x(1) by (auto simp: loading_def STATE_DATA_def STATE_RRQ_def STATE_OACK_def live_def served_def)
    show ?thesis
    proof (cases "n = k")
      case True
      then have "tftp_handler C (net_drv S) (reply S k @ rest) (ucast (client_port S)) ?p (of_nat (length (reply S k))) ?c = Some r"
        using d unfolding h Let_def r_def [symmetric] by simp
      then show ?thesis using live_same [OF x(1) 2, of r t] 2 True by (auto simp: r_def)
    next
      case False
      have "linked S r" by (rule linked_cong [OF c(1)]) (simp_all add: r_def)
      then obtain s where s: "new_block (net_drv S) (chunk S k @ rest) ?n r = Some s" "took S k r s"
        using new_block_took [OF S, of r k rest] k(1) K d by (auto simp: r_def)
      have "TftpLastBlock ?c \<noteq> of_nat k" using False block_number(3) [OF S k(1) K(1) d(5)] d(3) by metis
      then have "tftp_handler C (net_drv S) (reply S k @ rest) (ucast (client_port S)) ?p (of_nat (length (reply S k))) ?c = Some s"
        using d(2) s(1) unfolding h Let_def r_def [symmetric] by simp
      moreover have "live S a m (x\<lparr>client := s\<rparr>) \<and> loading S a (at_block x) k s"
        by (rule live_took [OF S x s(2) k]) (use c d(2) in \<open>simp_all add: r_def\<close>)
      moreover have "dev r = dev ?c" by (simp add: r_def)
      ultimately show ?thesis using acked [OF s(2)] by blast
    qed
  qed
qed

lemma deliver_options:
  assumes S: "proper_session S" and x: "live S a m x" and b: "at_block x = 0"
  shows "\<exists>s. tftp_handler C (net_drv S) (reply S 0 @ rest) (ucast (client_port S)) (ucast (peer_port S)) (of_nat (length (reply S 0))) (client x) = Some s \<and>
    live S a m (x\<lparr>client := s\<rparr>) \<and> (\<exists>f\<in>arriving S (x\<lparr>client := s\<rparr>). acks S f 0) \<and> NetState s = NETLOOP_CONTINUE"
proof -
  let ?c = "client x" and ?p = "ucast (peer_port S)"
  have w: "waiting S 0 ?c" using x b unfolding live_def phase_def loading_def by auto
  have c: "linked S ?c" "TftpState ?c \<noteq> STATE_RRQ \<Longrightarrow> TftpServerPort ?c = ?p" "TftpBlock ?c = 0" "lost x \<le> length (sent S (dev ?c))"
    using x w unfolding live_def steady_def waiting_def by auto
  obtain d f where h: "tftp_handler C (net_drv S) (reply S 0 @ rest) (ucast (client_port S)) ?p (of_nat (length (reply S 0))) ?c =
      Some (?c\<lparr>TftpState := STATE_OACK, TftpServerPort := ?p, TftpBlkSize := of_nat (blk_size S), NetIPID := NetIPID ?c + 1, dev := d\<rparr>)"
    and d: "sent S d = f # sent S (dev ?c)" "\<And>v. acks S f v \<longleftrightarrow> v = 0"
    using handler_oack [OF S c(1,2)] c(3) by force
  define s where "s = ?c\<lparr>TftpState := STATE_OACK, TftpServerPort := ?p, TftpBlkSize := of_nat (blk_size S), NetIPID := NetIPID ?c + 1, dev := d\<rparr>"
  have bs: "unat (TftpBlkSize s) = blk_size S" using S by (simp add: s_def proper_session_def unat_of_nat)
  have l: "linked S s" by (rule linked_cong [OF c(1)]) (simp_all add: s_def)
  have sd: "sent S (dev s) = f # sent S (dev ?c)" using d(1) by (simp add: s_def)
  have "live S a m (x\<lparr>client := s\<rparr>)"
  proof (rule live_sent [OF x _ _ _ _ _ sd])
    show "steady S a m s" using x l by (simp add: s_def live_def steady_def)
    show "phase S a (at_block x) s" using w b bs by (auto simp: phase_def waiting_def s_def)
    show "TftpState s = STATE_DATA" if "TftpState ?c = STATE_DATA"
      using w that by (auto simp: waiting_def STATE_DATA_def STATE_RRQ_def STATE_OACK_def)
    show "k \<le> at_block x \<and> unat (TftpBlkSize s) = blk_size S \<and> (1 \<le> k \<longrightarrow> TftpState s = STATE_DATA \<and> stored S a (mem s) k)"
      if "k < 65536" "acks S f (of_nat k)" for k
      using that d(2) of_nat_u16_eq [of k 0] bs by simp
  qed (use bs in \<open>simp_all add: s_def\<close>)
  moreover have "f \<in> arriving S (x\<lparr>client := s\<rparr>)" using arriving_cons(2) [OF sd c(4)] .
  moreover have "NetState s = NETLOOP_CONTINUE" using w by (simp add: s_def waiting_def)
  ultimately show ?thesis using h d(2) unfolding s_def [symmetric] by blast
qed

text \<open>A reply that arrives.\<close>

lemma deliver:
  assumes S: "proper_session S" and x: "live S a m x" "NetState (client x) = NETLOOP_CONTINUE" and k: "k \<in> in_flight x"
  shows "\<exists>s. NetReceive (net_drv S) (rx S) (reply_frame S k @ rest) (int (length (reply_frame S k))) (client x) = Some s \<and>
    live S a m (x\<lparr>client := s\<rparr>) \<and> (if k = 0 then NetState s = NETLOOP_CONTINUE else loading S a (at_block x) k s) \<and>
    (loading S a (at_block x) k (client x) \<or> (\<exists>f\<in>arriving S (x\<lparr>client := s\<rparr>). acks S f (of_nat k)))"
proof -
  have c: "linked S (client x)" "packetHandler (client x) = TftpHandler" using x(1) unfolding live_def steady_def by auto
  have i: "k \<le> at_block x" "k = 0 \<Longrightarrow> at_block x = 0" using x(1) k unfolding live_def served_def by auto
  note r = reply_received [OF S c(1), where call = "rx S" and k = k and rest = rest and io = "net_drv S"]
  show ?thesis
  proof (cases "k = 0")
    case True
    then show ?thesis using deliver_options [OF S x(1) i(2), of "net_env S" rest] r c(2) by (auto simp: rx_def)
  next
    case False
    then have "1 \<le> k" by simp
    from deliver_block [OF S x this i(1), of "net_env S" rest] show ?thesis using r c(2) False by (auto simp: rx_def)
  qed
qed

section \<open>Timeouts\<close>

lemma give_up:
  assumes S: "proper_session S" and s: "linked S s" "NetState s = NETLOOP_CONTINUE" and "NetStartAgain C (net_drv S) s = Some s'"
  shows "given_up S s'"
proof -
  obtain t d where t: "NetSetTimeout (net_drv S) 10000 StartAgainTimeout s =
      s\<lparr>dev := d, timeHandler := Some StartAgainTimeout, timeStart := t, timeDelta := 10000\<rparr>"
    using NetSetTimeout_log [OF S, of 10000] by force
  consider "NetState s' = NETLOOP_FAIL"
    | "s' = s\<lparr>dev := d, timeHandler := Some StartAgainTimeout, timeStart := t, timeDelta := 10000, packetHandler := StartAgainHandler\<rparr>"
    using assms(4) t by (auto simp: NetStartAgain_def NetSetHandler_def bind_eq_Some_conv split: if_splits)
  then show ?thesis
  proof cases
    case 2
    have "linked S s'" by (rule linked_cong [OF s(1)]) (simp_all add: 2)
    then show ?thesis using s(2) by (simp add: given_up_def 2)
  qed (simp add: given_up_def)
qed

lemma expire_live:
  assumes S: "proper_session S" and x: "live S a m x" "NetState (client x) = NETLOOP_CONTINUE"
    and n: "sint (TftpTimeoutCount (client x) + 1) \<le> sint (TftpTimeoutCountMax (client x))"
  shows "\<exists>s. expire S TftpTimeout (client x) = Some s \<and> live S a m (x\<lparr>client := s\<rparr>) \<and> NetState s = NETLOOP_CONTINUE \<and>
    (\<forall>n. loading S a (at_block x) n (client x) \<longrightarrow> loading S a (at_block x) n s \<and> (\<exists>f\<in>arriving S (x\<lparr>client := s\<rparr>). acks S f (of_nat n)))"
proof -
  let ?c = "client x"
  have c: "linked S ?c" "TftpTimeoutMSecs ?c \<noteq> 0" "lost x \<le> length (sent S (dev ?c))" "phase S a (at_block x) ?c"
    using x(1) unfolding live_def steady_def by auto
  define s0 where "s0 = printf ''T '' [] (?c\<lparr>timeHandler := None, TftpTimeoutCount := TftpTimeoutCount ?c + 1\<rparr>)"
  obtain t d where t: "NetSetTimeout (net_drv S) (TftpTimeoutMSecs ?c) TftpTimeout s0 =
      s0\<lparr>dev := d, timeHandler := Some TftpTimeout, timeStart := t, timeDelta := TftpTimeoutMSecs ?c\<rparr>" "sent S d = sent S (dev s0)"
    using NetSetTimeout_log [OF S c(2)] by blast
  define s1 where "s1 = s0\<lparr>dev := d, timeHandler := Some TftpTimeout, timeStart := t, timeDelta := TftpTimeoutMSecs ?c\<rparr>"
  have l: "linked S s1" by (rule linked_cong [OF c(1)]) (simp_all add: s1_def s0_def printf_def)
  have "expire S TftpTimeout ?c = TftpSend (net_drv S) s1"
    using n t(1) unfolding s1_def [symmetric]
    by (simp add: expire_def tftp_timeout_def Let_def s0_def printf_def)
  have q: "TftpState ?c = STATE_RRQ \<or> TftpState ?c = STATE_OACK \<or> TftpState ?c = STATE_DATA"
    using c(4) by (auto simp: phase_def waiting_def loading_def)
  define p where "p = (if TftpState ?c = STATE_RRQ then request (tftp_filename s1) (TftpBlkSizeOption s1)
      else net16 TFTP_ACK @ net16 (ucast (TftpBlock ?c)))"
  have "tftp_payload s1 = Some p"
    using q by (auto simp: p_def s1_def s0_def printf_def)
  then obtain d2 where d2: "TftpSend (net_drv S) s1 = Some (s1\<lparr>NetIPID := NetIPID s1 + 1, dev := d2\<rparr>)"
    and f: "sent S d2 = client_frame S p s1 # sent S (dev s1)"
    using TftpSend_log [OF S l] by blast
  define s where "s = s1\<lparr>NetIPID := NetIPID s1 + 1, dev := d2\<rparr>"
  have run: "expire S TftpTimeout ?c = Some s" using \<open>expire S TftpTimeout ?c = _\<close> d2 by (simp add: s_def)
  have sd: "sent S (dev s) = client_frame S p s1 # sent S (dev ?c)"
    using f t(2) by (simp add: s_def s1_def s0_def printf_def)
  have same: "TftpState s = TftpState ?c" "TftpBlkSize s = TftpBlkSize ?c" "mem s = mem ?c" "NetState s = NetState ?c"
    "\<And>b. waiting S b s \<longleftrightarrow> waiting S b ?c" "\<And>b n. loading S a b n s \<longleftrightarrow> loading S a b n ?c"
    by (simp_all add: s_def s1_def s0_def printf_def waiting_def loading_def)
  have sl: "linked S s" by (rule linked_cong [OF l]) (simp_all add: s_def)
  have number: "acks S (client_frame S p s1) v \<longleftrightarrow> v = of_nat n" if "loading S a (at_block x) n ?c" for n v
  proof -
    have "n < 65536" using that x(1) S by (auto simp: loading_def live_def served_def proper_session_def)
    then have "ucast (TftpBlock ?c) = (of_nat n :: u16)"
      using that by (simp add: loading_def unsigned_of_nat take_bit_nat_eq_self)
    moreover have "TftpState ?c \<noteq> STATE_RRQ" using that by (simp add: loading_def STATE_DATA_def STATE_RRQ_def)
    ultimately show ?thesis using acks_ack [OF S l] by (auto simp: p_def)
  qed
  have "live S a m (x\<lparr>client := s\<rparr>)"
  proof (rule live_sent [OF x(1) _ same(3) _ _ _ sd])
    show "steady S a m s" using x(1) sl same(3) by (simp add: live_def steady_def s_def s1_def s0_def printf_def)
    show "phase S a (at_block x) s" using c(4) by (simp add: phase_def same)
    show "k \<le> at_block x \<and> unat (TftpBlkSize s) = blk_size S \<and> (1 \<le> k \<longrightarrow> TftpState s = STATE_DATA \<and> stored S a (mem s) k)"
      if k: "k < 65536" "acks S (client_frame S p s1) (of_nat k)" for k
    proof -
      consider "waiting S (at_block x) ?c" | n where "loading S a (at_block x) n ?c" using c(4) unfolding phase_def by blast
      then show ?thesis
      proof cases
        case 1
        have "TftpState ?c \<noteq> STATE_RRQ" using k(2) acks_request [OF S l] by (auto simp: p_def)
        then have "p = net16 TFTP_ACK @ net16 0" "unat (TftpBlkSize ?c) = blk_size S" using 1 by (simp_all add: p_def waiting_def)
        moreover have "k = 0" using calculation(1) k acks_ack [OF S l, of 0 "of_nat k"] of_nat_u16_eq [of 0 k] by simp
        ultimately show ?thesis by (simp add: same)
      next
        case 2
        then have "n < 65536" using x(1) S by (auto simp: loading_def live_def served_def proper_session_def)
        then have "k = n" using k number [OF 2] of_nat_u16_eq by simp
        then show ?thesis using 2 x(1) by (auto simp: same loading_def live_def served_def)
      qed
    qed
  qed (simp_all add: same)
  moreover have "client_frame S p s1 \<in> arriving S (x\<lparr>client := s\<rparr>)" using arriving_cons(2) [OF sd c(3)] .
  ultimately show ?thesis using run number x(2) by (auto simp: same)
qed

section \<open>What a session does\<close>

lemma step_given_up:
  assumes S: "proper_session S" and x: "given_up S (client x)" and y: "step S x y"
  shows "given_up S (client y)"
  using y
proof (cases rule: step_cases)
  case (Deliver k rest s)
  then have "linked S (client x)" "packetHandler (client x) = StartAgainHandler"
    using x by (auto simp: given_up_def NETLOOP_CONTINUE_def NETLOOP_RESTART_def NETLOOP_FAIL_def)
  then have "s = client x"
    using reply_received [OF S, where call = "rx S" and k = k and rest = rest and io = "net_drv S"] Deliver(4)
    by (simp add: rx_def startAgainHandler_def)
  then show ?thesis using x Deliver(1) by simp
next
  case (Expire h s)
  then have "h = StartAgainTimeout"
    using x by (auto simp: given_up_def NETLOOP_CONTINUE_def NETLOOP_RESTART_def NETLOOP_FAIL_def)
  then show ?thesis using Expire(1,4) by (auto simp: expire_def startAgainTimeout_def given_up_def)
qed (use x in simp_all)

lemma step_live:
  assumes S: "proper_session S" and x: "live S a m x" and y: "step S x y"
  shows "live S a m y \<or> given_up S (client y)"
  using y
proof (cases rule: step_cases)
  case (Deliver k rest s)
  then show ?thesis using deliver [OF S x Deliver(3,2), of rest] by auto
next
  case (Expire h s)
  have c: "linked S (client x)" "timeHandler (client x) = Some TftpTimeout" using x unfolding live_def steady_def by auto
  then have e: "expire S TftpTimeout (client x) = Some s" using Expire by simp
  show ?thesis
  proof (cases "sint (TftpTimeoutCount (client x) + 1) \<le> sint (TftpTimeoutCountMax (client x))")
    case True
    then show ?thesis using expire_live [OF S x Expire(3) True] e Expire(1) by auto
  next
    case False
    define s0 where "s0 = printf (CHR 0x0A # line ''Retry count exceeded; starting again'') []
      ((client x)\<lparr>timeHandler := None, TftpTimeoutCount := TftpTimeoutCount (client x) + 1\<rparr>)"
    have "NetStartAgain (net_env S) (net_drv S) s0 = Some s"
      using e False by (simp add: expire_def tftp_timeout_def Let_def s0_def)
    moreover have "linked S s0" by (rule linked_cong [OF c(1)]) (simp_all add: s0_def printf_def)
    moreover have "NetState s0 = NETLOOP_CONTINUE" using Expire(3) by (simp add: s0_def printf_def)
    ultimately show ?thesis using give_up [OF S] Expire(1) by auto
  qed
next
  case (Accept f)
  then show ?thesis using live_accept [OF S x] by simp
next
  case Repeat
  have "live S a m (x\<lparr>in_flight := insert (at_block x) (in_flight x), lost := lost x\<rparr>)"
    by (rule live_network [OF x]) (use x in \<open>auto simp: live_def\<close>)
  then show ?thesis using Repeat by simp
next
  case (Lose A)
  have "live S a m y" unfolding Lose(1)
    by (rule live_network [OF x]) (use x Lose(2) in \<open>auto simp: live_def\<close>)
  then show ?thesis by blast
qed

lemma runs_live:
  assumes S: "proper_session S" and "live S a m x" and "runs S x y"
  shows "live S a m y \<or> given_up S (client y)"
  using assms(3)
proof (induction rule: rtranclp_induct)
  case base
  then show ?case using assms(2) by blast
next
  case (step y z)
  then show ?case using step_live [OF S] step_given_up [OF S] by blast
qed

lemma success_loading:
  assumes "live S a m x" and "NetState (client x) = NETLOOP_SUCCESS"
  shows "at_block x = final S \<and> loading S a (at_block x) (final S) (client x)"
proof -
  obtain n where n: "loading S a (at_block x) n (client x)"
    using assms by (auto simp: live_def phase_def waiting_def NETLOOP_SUCCESS_def NETLOOP_CONTINUE_def)
  then have "\<not> n < final S" "n \<le> at_block x" using assms(2) by (auto simp: loading_def NETLOOP_SUCCESS_def NETLOOP_CONTINUE_def)
  moreover have "at_block x \<le> final S" using assms(1) by (simp add: live_def served_def)
  ultimately have "n = final S" "at_block x = final S" by linarith+
  then show ?thesis using n by simp
qed

text \<open>
  C1: when the client reports success, over a network that loses, repeats and reorders packets and
  whatever timers expire, the file of the server lies in memory behind the load address, the
  transfer size is its length, and no other byte of memory has changed since the request. The
  sessions (\<open>proper_session\<close>) are those of a file of fewer than 65536 blocks and less than 4 GB, with
  blocks below 65000 bytes, where block numbers do not wrap (\<open>wrap_counted_twice\<close> shows what a wrap
  does); and the option acknowledgement is not delivered any more once the server has seen it acknowledged
  (\<open>Accept\<close> takes it off the network; \<open>late_options\<close> shows what a late copy does).
\<close>
theorem transfer_complete:
  assumes S: "proper_session S" and "initial S x" and "runs S x y" and "NetState (client y) = NETLOOP_SUCCESS"
  shows "bytes_at (mem (client y)) (load_addr (client x)) (length (file_data S)) = file_data S \<and>
    unat (NetBootFileXferSize (client y)) = length (file_data S) \<and>
    only_changed (load_addr (client x)) (length (file_data S)) (mem (client x)) (mem (client y))"
proof -
  let ?a = "load_addr (client x)" and ?c = "client y"
  have "live S ?a (mem (client x)) y \<or> given_up S ?c" by (rule runs_live [OF S live_initial [OF assms(2)] assms(3)])
  moreover have "\<not> given_up S ?c"
    using assms(4) by (auto simp: given_up_def NETLOOP_SUCCESS_def NETLOOP_CONTINUE_def NETLOOP_RESTART_def NETLOOP_FAIL_def)
  ultimately have l: "live S ?a (mem (client x)) y" by blast
  note f = success_loading [OF l assms(4)]
  have "stored S ?a (mem ?c) k" if "1 \<le> k" "k \<le> final S" for k
    using that f l by (cases "k = final S") (auto simp: loading_def live_def served_def)
  then have "mem ?c (?a + of_nat i) = file_data S ! i" if "i < length (file_data S)" for i
    using stored_all [OF S] that by blast
  then have "bytes_at (mem ?c) ?a (length (file_data S)) = file_data S" by (intro nth_equalityI) simp_all
  then show ?thesis using f l by (auto simp: loading_def live_def steady_def)
qed

section \<open>Progress\<close>

text \<open>From a configuration where the block that the server is at has not arrived yet.\<close>

lemma progress:
  assumes S: "proper_session S"
  shows "live S a m x \<Longrightarrow> NetState (client x) = NETLOOP_CONTINUE \<Longrightarrow> \<not> loading S a (at_block x) (at_block x) (client x) \<Longrightarrow>
    \<exists>y. runs S x y \<and> NetState (client y) = NETLOOP_SUCCESS"
proof (induction "final S - at_block x" arbitrary: x rule: less_induct)
  case less
  note x = less.prems
  let ?b = "at_block x"
  define y where "y = x\<lparr>in_flight := insert ?b (in_flight x)\<rparr>"
  have y: "step S x y" unfolding y_def by (rule Repeat)
  have "live S a m (x\<lparr>in_flight := insert ?b (in_flight x), lost := lost x\<rparr>)"
    by (rule live_network [OF x(1)]) (use x(1) in \<open>auto simp: live_def\<close>)
  then have ly: "live S a m y" by (simp add: y_def)
  have cy: "NetState (client y) = NETLOOP_CONTINUE" "?b \<in> in_flight y" "at_block y = ?b" "client y = client x"
    using x(2) by (simp_all add: y_def)
  have "\<not> loading S a (at_block y) ?b (client y)" using x(3) by (simp add: cy)
  then obtain s where s: "NetReceive (net_drv S) (rx S) (reply_frame S ?b @ []) (int (length (reply_frame S ?b))) (client y) = Some s"
      "live S a m (y\<lparr>client := s\<rparr>)" "if ?b = 0 then NetState s = NETLOOP_CONTINUE else loading S a ?b ?b s"
    and f: "\<exists>f\<in>arriving S (y\<lparr>client := s\<rparr>). acks S f (of_nat ?b)"
    using deliver [OF S ly cy(1,2), of "[]"] unfolding cy(3) by blast
  define z where "z = y\<lparr>client := s\<rparr>"
  have z: "step S y z" unfolding z_def by (rule Deliver [OF cy(2,1) s(1)])
  have az: "at_block z = ?b" "client z = s" "in_flight z = in_flight y" by (simp_all add: z_def cy(3))
  show ?case
  proof (cases "?b < final S")
    case False
    then have "?b \<noteq> 0" "\<not> ?b < final S" by (simp_all add: final_def)
    then have "NetState s = NETLOOP_SUCCESS" using s(3) by (simp add: loading_def)
    then show ?thesis using y z az(2) by (meson converse_rtranclp_into_rtranclp rtranclp.rtrancl_refl)
  next
    case True
    define u where "u = z\<lparr>at_block := at_block z + 1, in_flight := insert (at_block z + 1) (in_flight z - {0})\<rparr>"
    obtain g where g: "g \<in> arriving S z" "acks S g (of_nat (at_block z))" using f az(1) z_def by metis
    have t: "at_block z < final S" using True az(1) by simp
    have u: "step S z u" unfolding u_def by (rule Accept [OF g t])
    have lz: "live S a m z" using s(2) by (simp add: z_def)
    have lu: "live S a m u" unfolding u_def by (rule live_accept [OF S lz g t])
    have n: "NetState (client u) = NETLOOP_CONTINUE"
      using s(3) True by (auto simp: u_def az(2) loading_def split: if_splits)
    have at: "at_block u = ?b + 1" "client u = s" by (simp_all add: u_def az)
    have "\<not> loading S a (at_block u) (at_block u) (client u)"
    proof
      assume l: "loading S a (at_block u) (at_block u) (client u)"
      show False
      proof (cases "?b = 0")
        case True
        have "waiting S 0 s" using lz True unfolding live_def phase_def loading_def az by auto
        then show False using l at by (auto simp: loading_def waiting_def STATE_DATA_def STATE_RRQ_def STATE_OACK_def)
      next
        case b: False
        then have "TftpBlock s = of_nat ?b" "TftpBlock s = of_nat (?b + 1)" using s(3) l at by (simp_all add: loading_def)
        then show False using block_number(3) [OF S, of "?b + 1" ?b] True by simp
      qed
    qed
    moreover have "final S - at_block u < final S - ?b" using True at by simp
    ultimately obtain w where "runs S u w" "NetState (client w) = NETLOOP_SUCCESS" using less.hyps [OF _ lu n] by blast
    then show ?thesis using y z u by (meson converse_rtranclp_into_rtranclp)
  qed
qed

text \<open>
  C2: as long as the client has not given up and has a timeout left, whatever was lost before, the
  transfer can still be completed: there is a way to go on that ends in success. As in C1 the file
  has fewer than 65536 blocks and the option acknowledgement is gone once it was acknowledged: a later
  copy of it would make the client give up (\<open>late_options\<close>).
\<close>
theorem transfer_possible:
  assumes S: "proper_session S" and "initial S x" and "runs S x y"
    and y: "NetState (client y) = NETLOOP_CONTINUE" "packetHandler (client y) = TftpHandler"
      "sint (TftpTimeoutCount (client y) + 1) \<le> sint (TftpTimeoutCountMax (client y))"
  shows "\<exists>z. runs S y z \<and> NetState (client z) = NETLOOP_SUCCESS"
proof -
  let ?a = "load_addr (client x)" and ?m = "mem (client x)" and ?b = "at_block y"
  have "\<not> given_up S (client y)"
    using y by (auto simp: given_up_def NETLOOP_CONTINUE_def NETLOOP_RESTART_def NETLOOP_FAIL_def)
  then have l: "live S ?a ?m y" using runs_live [OF S live_initial [OF assms(2)] assms(3)] by blast
  show ?thesis
  proof (cases "loading S ?a ?b ?b (client y)")
    case False
    then show ?thesis by (rule progress [OF S l y(1)])
  next
    case True
    obtain s where s: "expire S TftpTimeout (client y) = Some s" "live S ?a ?m (y\<lparr>client := s\<rparr>)" "NetState s = NETLOOP_CONTINUE"
      "loading S ?a ?b ?b s" and f: "\<exists>f\<in>arriving S (y\<lparr>client := s\<rparr>). acks S f (of_nat ?b)"
      using expire_live [OF S l y(1,3)] True by blast
    have h: "timeHandler (client y) = Some TftpTimeout" using l by (simp add: live_def steady_def)
    define z where "z = y\<lparr>client := s\<rparr>"
    have z: "step S y z" unfolding z_def by (rule Expire [OF h y(1) s(1)])
    obtain g where g: "g \<in> arriving S z" "acks S g (of_nat (at_block z))" using f by (auto simp: z_def)
    have t: "at_block z < final S" using s(3,4) by (auto simp: z_def loading_def NETLOOP_CONTINUE_def NETLOOP_SUCCESS_def split: if_splits)
    define u where "u = z\<lparr>at_block := at_block z + 1, in_flight := insert (at_block z + 1) (in_flight z - {0})\<rparr>"
    have u: "step S z u" unfolding u_def by (rule Accept [OF g t])
    have lz: "live S ?a ?m z" using s(2) by (simp add: z_def)
    have lu: "live S ?a ?m u" unfolding u_def by (rule live_accept [OF S lz g t])
    have n: "NetState (client u) = NETLOOP_CONTINUE" using s(3) by (simp add: u_def z_def)
    have "\<not> loading S ?a (at_block u) (at_block u) (client u)"
    proof
      assume "loading S ?a (at_block u) (at_block u) (client u)"
      then have "TftpBlock s = of_nat ?b" "TftpBlock s = of_nat (?b + 1)" using s(4) by (simp_all add: loading_def u_def z_def)
      then show False using block_number(3) [OF S, of "?b + 1" ?b] t by (simp add: z_def)
    qed
    from progress [OF S lu n this] obtain w where "runs S u w" "NetState (client w) = NETLOOP_SUCCESS" by blast
    then show ?thesis using z u by (meson converse_rtranclp_into_rtranclp)
  qed
qed

section \<open>Packets that upset a transfer\<close>

text \<open>A variable is looked up in the environment alone.\<close>

lemma getenv_str_same:
  assumes "env_ram s' = env_ram s" "env_valid s' = env_valid s" "env_addr s' = env_addr s" "gd_reloc s' = gd_reloc s" "mem s' = mem s"
  shows "getenv_str C s' name = getenv_str C s name"
proof -
  have "env_get_char C s' = env_get_char C s"
    using assms by (simp add: fun_eq_iff env_get_char_def env_get_char_memory_def env_get_char_init_def env_get_char_spec_def split: env_place.split)
  then show ?thesis unfolding getenv_str_def getenv_def by (simp only:)
qed

text \<open>
  C40: an option acknowledgement that arrives once more in the middle of a transfer, a duplicate that
  was late, is taken for the start of it: each of the blocks from the second on that may follow is not
  the first block any more, and the client gives up: it starts again, or fails when \<open>netretry\<close> is
  \<open>no\<close>. The environment is such that looking up \<open>netretry\<close> ends.
\<close>
theorem late_options:
  assumes S: "proper_session S" and s: "linked S s" "TftpState s = STATE_DATA" "TftpServerPort s = ucast (peer_port S)"
    "NetState s = NETLOOP_CONTINUE" and env: "getenv_str C s (asc ''netretry'') = Some v"
  shows "\<exists>s'. tftp_handler C (net_drv S) (reply S 0) (ucast (client_port S)) (ucast (peer_port S)) (of_nat (length (reply S 0))) s = Some s' \<and>
    (\<forall>k. 2 \<le> k \<and> k \<le> final S \<longrightarrow> (\<exists>q.
      tftp_handler C (net_drv S) (reply S k) (ucast (client_port S)) (ucast (peer_port S)) (of_nat (length (reply S k))) s' = Some q \<and>
      given_up S q \<and> (v = Some (asc ''no'') \<longleftrightarrow> NetState q = NETLOOP_FAIL)))"
proof -
  let ?p = "ucast (peer_port S)"
  obtain d where h: "tftp_handler C (net_drv S) (reply S 0 @ []) (ucast (client_port S)) ?p (of_nat (length (reply S 0))) s =
      Some (s\<lparr>TftpState := STATE_OACK, TftpServerPort := ?p, TftpBlkSize := of_nat (blk_size S), NetIPID := NetIPID s + 1, dev := d\<rparr>)"
    using handler_oack [OF S s(1), of C "[]"] s(3) by blast
  define s' where "s' = s\<lparr>TftpState := STATE_OACK, TftpServerPort := ?p, TftpBlkSize := of_nat (blk_size S), NetIPID := NetIPID s + 1, dev := d\<rparr>"
  have l: "linked S s'" by (rule linked_cong [OF s(1)]) (simp_all add: s'_def)
  have f: "TftpState s' = STATE_OACK" "TftpServerPort s' = ?p" "NetState s' = NETLOOP_CONTINUE" using s by (simp_all add: s'_def)
  have "\<exists>q. tftp_handler C (net_drv S) (reply S k @ []) (ucast (client_port S)) ?p (of_nat (length (reply S k))) s' = Some q \<and>
      given_up S q \<and> (v = Some (asc ''no'') \<longleftrightarrow> NetState q = NETLOOP_FAIL)" if k: "2 \<le> k" "k \<le> final S" for k
  proof -
    obtain t where t: "tftp_handler C (net_drv S) (reply S k @ []) (ucast (client_port S)) ?p (of_nat (length (reply S k))) s' =
        NetStartAgain C (net_drv S) (printf (CHR 0x0A # line ''TFTP error: First block is not block 1 (%ld)'' @ line ''Starting again'' @ line '''')
          [Num (of_nat k)] (first_block ?p (s'\<lparr>TftpBlock := of_nat k, outp := t\<rparr>)))"
      using handler_data [OF S l _ _ k(2), of C "net_drv S" "[]"] f k by (auto simp: Let_def)
    define u where "u = printf (CHR 0x0A # line ''TFTP error: First block is not block 1 (%ld)'' @ line ''Starting again'' @ line '''')
          [Num (of_nat k)] (first_block ?p (s'\<lparr>TftpBlock := of_nat k, outp := t\<rparr>))"
    have u: "linked S u" "NetState u = NETLOOP_CONTINUE" unfolding u_def
      by (rule linked_cong [OF l]) (simp_all add: first_block_def printf_def f(3))
    have "getenv_str C u (asc ''netretry'') = getenv_str C s (asc ''netretry'')"
      by (rule getenv_str_same) (simp_all add: u_def first_block_def printf_def s'_def)
    then obtain q where q: "NetStartAgain C (net_drv S) u = Some q" "v = Some (asc ''no'') \<longrightarrow> NetState q = NETLOOP_FAIL"
      "v \<noteq> Some (asc ''no'') \<longrightarrow> NetState q = NetState (NetSetTimeout (net_drv S) 10000 StartAgainTimeout u)"
      using env by (auto simp: NetStartAgain_def NetSetHandler_def)
    have "NetState (NetSetTimeout (net_drv S) 10000 StartAgainTimeout u) = NETLOOP_CONTINUE"
      using NetSetTimeout_log [OF S, of 10000 StartAgainTimeout u] u(2) by auto
    then show ?thesis
      using give_up [OF S u q(1)] q t unfolding u_def [symmetric] by (auto simp: NETLOOP_CONTINUE_def NETLOOP_FAIL_def)
  qed
  then show ?thesis using h unfolding s'_def [symmetric] by (intro exI [of _ s']) simp
qed

text \<open>
  After 65536 blocks the number is 0 again. The test for a repeated block comes after the
  counting of wraps: a block 0 that arrives twice is not stored twice, but it moves the rest of the
  file up by 65536 blocks.
\<close>
theorem wrap_counted_twice:
  assumes s: "TftpState s = STATE_DATA" "TftpLastBlock s = 0" "TftpServerPort s = src" and n: "length data < 65000"
  shows "\<exists>s'. tftp_handler C io (net16 TFTP_DATA @ net16 0 @ data) (TftpOurPort s) src (of_nat (4 + length data)) s = Some s' \<and>
    mem s' = mem s \<and>
    (\<forall>blk len q. store_block 0 blk len s' = Some q \<longrightarrow>
      mem q = blit (mem s) (load_addr s + TftpBlockWrapOffset s + 0x10000 * ucast (TftpBlkSize s)) (unat len) ((!) blk))"
proof -
  define l where "l = (of_nat (4 + length data) :: u32)"
  have "unat l = 4 + length data" using n by (simp add: l_def unat_of_nat del: of_nat_add)
  then have l: "\<not> l < 2" "\<not> l - 2 < 2" by (simp_all add: word_less_nat_alt unat_sub word_le_nat_alt)
  define s' where "s' = tftp_progress (s\<lparr>TftpBlock := 0\<rparr>)"
  have p: "TftpBlock s' = 0" "TftpLastBlock s' = 0" "TftpState s' = STATE_DATA" "mem s' = mem s" "load_addr s' = load_addr s"
    "TftpBlkSize s' = TftpBlkSize s" "TftpBlockWrapOffset s' = TftpBlockWrapOffset s + ucast (TftpBlkSize s) * 0x10000"
    using s by (simp_all add: s'_def tftp_progress_def Let_def printf_def TFTP_SEQUENCE_SIZE_def)
  have "tftp_handler C io (net16 TFTP_DATA @ net16 0 @ data) (TftpOurPort s) src l s = tftp_data C io src (net16 0 @ data) (l - 2) s"
    using s l(1) by (simp add: tftp_handler_def Let_def TFTP_DATA_def TFTP_OACK_def)
  also have "\<dots> = Some s'"
    using l(2) p by (simp add: tftp_data_def Let_def s'_def [symmetric] STATE_DATA_def STATE_RRQ_def STATE_OACK_def)
  finally show ?thesis unfolding l_def [symmetric]
    using p by (auto simp: store_block_def Let_def ac_simps split: if_splits)
qed

section \<open>The start\<close>

text \<open>\<open>s'\<close> has written more than \<open>s\<close>; nothing else differs.\<close>

definition wrote :: "('d, 'z) mach_scheme \<Rightarrow> ('d, 'z) mach_scheme \<Rightarrow> bool" where
  "wrote s s' \<longleftrightarrow> s' = s\<lparr>outp := outp s'\<rparr>"

lemma wroteI: "s' = s\<lparr>outp := t\<rparr> \<Longrightarrow> wrote s s'"
  by (simp add: wrote_def)

lemma wrote_refl [intro]: "wrote s s"
  by (simp add: wrote_def)

lemma wrote_trans:
  assumes "wrote s s1" and "wrote s1 s2"
  shows "wrote s s2"
proof (rule wroteI)
  have "s2 = (s\<lparr>outp := outp s1\<rparr>)\<lparr>outp := outp s2\<rparr>" using assms unfolding wrote_def by metis
  then show "s2 = s\<lparr>outp := outp s2\<rparr>" by simp
qed

lemma wrote_printf [intro]: "wrote s s1 \<Longrightarrow> wrote s (printf f xs s1)"
  by (rule wrote_trans) (simp_all add: wrote_def printf_def)

lemma wrote_putc [intro]: "wrote s s1 \<Longrightarrow> wrote s (putc c s1)"
  unfolding putc_def by (rule wrote_printf)

lemma wrote_print_size [intro]: "wrote s s1 \<Longrightarrow> wrote s (print_size v str s1)"
  by (auto simp: print_size_def Let_def split: prod.split)

lemma print_IPaddr_wrote: "wrote s s1 \<Longrightarrow> \<exists>s2. print_IPaddr x s1 = Some s2 \<and> wrote s s2"
  using ip_to_string_text [OF refl, of x] by (auto simp: print_IPaddr_def)

lemma tftp_announce_wrote: "\<exists>s'. tftp_announce s = Some s' \<and> wrote s s'"
proof -
  have ip: "\<exists>s2. print_IPaddr x s1 = Some s2 \<and> wrote s s2" if "wrote s s1" for s1 x
    using print_IPaddr_wrote [OF that] .
  obtain s1 where s1: "print_IPaddr (TftpServerIP s) (printf ''TFTP from server '' [] s) = Some s1" "wrote s s1"
    using ip [OF wrote_printf [OF wrote_refl]] by blast
  obtain s2 where s2: "print_IPaddr (NetOurIP s1) (printf ''; our IP address is '' [] s1) = Some s2" "wrote s s2"
    using ip [OF wrote_printf [OF s1(2)]] by blast
  have "\<exists>s3. (if c then print_IPaddr (NetOurGatewayIP s2) (printf ''; sending through gateway '' [] s2) else Some s2) = Some s3 \<and> wrote s s3" for c
    using ip [OF wrote_printf [OF s2(2)]] s2(2) by (cases c) auto
  then obtain s3 where s3: "(if NetOurGatewayIP s2 \<noteq> 0 \<and> NetOurSubnetMask s2 \<noteq> 0 \<and>
      NetOurIP s2 AND NetOurSubnetMask s2 \<noteq> TftpServerIP s2 AND NetOurSubnetMask s2
    then print_IPaddr (NetOurGatewayIP s2) (printf ''; sending through gateway '' [] s2) else Some s2) = Some s3" "wrote s s3"
    by blast
  have size: "wrote s (if c then print_size v [] (printf f xs r) else r)" if "wrote s r" for c v f xs r
    using that by auto
  show ?thesis
    unfolding tftp_announce_def s1(1) s2(1) s3(1) bind.bind_lunit Let_def
    by (intro exI conjI, rule refl) (intro wrote_printf wrote_putc size s3(2))
qed

lemma arp_wait_log:
  assumes "proper_session S"
  shows "\<exists>t r u d. arp_wait (net_drv S) s = s\<lparr>NetArpWaitTry := 1, NetArpWaitTimerStart := t, NetArpWaitReplyIP := r, outp := u, dev := d\<rparr>"
proof -
  obtain t d where t: "net_time (net_drv S) (s\<lparr>NetArpWaitTry := 1\<rparr>) = (t, s\<lparr>NetArpWaitTry := 1, dev := d\<rparr>)"
    using net_time_log [OF assms, of "s\<lparr>NetArpWaitTry := 1\<rparr>"] by auto
  define q where "q = s\<lparr>NetArpWaitTry := 1, dev := d, NetArpWaitTimerStart := t\<rparr>"
  have "\<exists>r u f. ArpRequest (net_drv S) q = eth_send (net_drv S) f (q\<lparr>outp := u, NetArpWaitReplyIP := r\<rparr>)"
  proof -
    define p where "p = (if NetArpWaitPacketIP q AND NetOurSubnetMask q \<noteq> NetOurIP q AND NetOurSubnetMask q
      then if NetOurGatewayIP q = 0
           then (printf (line ''## Warning: gatewayip needed but not set'') [] q)\<lparr>NetArpWaitReplyIP := NetArpWaitPacketIP q\<rparr>
           else q\<lparr>NetArpWaitReplyIP := NetOurGatewayIP q\<rparr>
      else q\<lparr>NetArpWaitReplyIP := NetArpWaitPacketIP q\<rparr>)"
    have "p = q\<lparr>outp := outp p, NetArpWaitReplyIP := NetArpWaitReplyIP p\<rparr>" by (simp add: p_def printf_def)
    moreover have "\<exists>f. ArpRequest (net_drv S) q = eth_send (net_drv S) f p" by (auto simp: ArpRequest_def Let_def p_def)
    ultimately show ?thesis by metis
  qed
  then obtain r u f where "ArpRequest (net_drv S) q = eth_send (net_drv S) f (q\<lparr>outp := u, NetArpWaitReplyIP := r\<rparr>)" by blast
  moreover obtain d2 where "eth_send (net_drv S) f (q\<lparr>outp := u, NetArpWaitReplyIP := r\<rparr>) = q\<lparr>outp := u, NetArpWaitReplyIP := r, dev := d2\<rparr>"
    using eth_send_log [OF assms, of f "q\<lparr>outp := u, NetArpWaitReplyIP := r\<rparr>"] by blast
  ultimately show ?thesis
    by (intro exI [of _ t] exI [of _ r] exI [of _ u] exI [of _ d2]) (simp add: arp_wait_def t q_def)
qed

text \<open>
  C36: with a file name that names no server, \<open>TftpStart\<close> keeps a request for that file, to port 69 of
  the server in \<open>serverip\<close> and with the block size the client would like, until the hardware address
  of the server is known; once it is, the client is in a state in which a session begins.
\<close>
theorem start_requests:
  assumes S: "proper_session S" and s: "NetOurEther s = client_mac S" "NetOurIP s = client_ip S" "NetOurVLAN s = NetOurVLAN (peer S)"
    "NetState s = NETLOOP_CONTINUE" "TftpRRQTimeoutMSecs s \<noteq> 0" "NetServerIP s = NetOurIP (peer S)"
    and name: "boot_file s \<noteq> []" "0x3A \<notin> set (boot_file s)"
  shows "\<exists>s'. TftpStart (net_drv S) s = Some s' \<and> NetArpWaitPacketIP s' = NetServerIP s \<and> NetArpWaitPacketMAC s' = Some Server_ether \<and>
    NetArpWaitTxPacket s' = udp_frame NetEtherNullAddr (NetServerIP s) 69 (ucast (TftpOurPort s'))
      (request (take 127 (boot_file s)) (TftpBlkSizeOption s)) s \<and> TftpBlkSize s' = 512 \<and>
    requested (S\<lparr>client_port := ucast (TftpOurPort s')\<rparr>) (s'\<lparr>NetServerEther := NetOurEther (peer S), NetBootFileXferSize := 0\<rparr>)"
proof -
  define f where "f = take 127 (boot_file s)"
  define s1 where "s1 = s\<lparr>TftpServerIP := NetServerIP s, tftp_filename := f\<rparr>"
  have "\<forall>c\<in>set (boot_file s). c \<noteq> 0x3A" using name(2) by metis
  then have "dropWhile (\<lambda>c. c \<noteq> 0x3A) (boot_file s) = []" by (simp only: dropWhile_eq_Nil_conv)
  then have 1: "tftp_name s = Some s1"
    using name(1) unfolding tftp_name_def Let_def by (simp add: s1_def f_def MAX_LEN_def del: dropWhile_eq_Nil_conv)
  obtain s2 where 2: "tftp_announce s1 = Some s2" "wrote s1 s2" using tftp_announce_wrote by blast
  define u where "u = outp s2"
  have s2: "s2 = s1\<lparr>outp := u\<rparr>" using 2(2) by (simp add: wrote_def u_def)
  define s3 where "s3 = s2\<lparr>TftpTimeoutMSecs := TftpRRQTimeoutMSecs s, TftpTimeoutCountMax := TftpRRQTimeoutCountMax s\<rparr>"
  obtain t d where 3: "NetSetTimeout (net_drv S) (TftpRRQTimeoutMSecs s) TftpTimeout s3 =
      s3\<lparr>dev := d, timeHandler := Some TftpTimeout, timeStart := t, timeDelta := TftpRRQTimeoutMSecs s\<rparr>"
    using NetSetTimeout_log [OF S s(5)] by blast
  define s4 where "s4 = s3\<lparr>dev := d, timeHandler := Some TftpTimeout, timeStart := t, timeDelta := TftpRRQTimeoutMSecs s,
    packetHandler := TftpHandler, TftpServerPort := WELL_KNOWN_PORT, TftpTimeoutCount := 0, TftpState := STATE_RRQ\<rparr>"
  obtain t4 d4 where 4: "net_time (net_drv S) s4 = (t4, s4\<lparr>dev := d4\<rparr>)" using net_time_log [OF S] by blast
  define port :: u32 where "port = 1024 + t4 mod 3072"
  define s5 where "s5 = s4\<lparr>dev := d4, TftpOurPort := port, TftpBlock := 0, NetServerEther := replicate 6 0, TftpBlkSize := TFTP_BLOCK_SIZE\<rparr>"
  have start: "TftpStart (net_drv S) s = TftpSend (net_drv S) s5"
  proof -
    have "TftpRRQTimeoutMSecs s2 = TftpRRQTimeoutMSecs s" "TftpRRQTimeoutCountMax s2 = TftpRRQTimeoutCountMax s" by (simp_all add: s2 s1_def)
    then show ?thesis using 3 4 by (simp add: TftpStart_def 1 2(1) Let_def NetSetHandler_def s5_def s4_def s3_def port_def)
  qed
  define r where "r = request f (TftpBlkSizeOption s)"
  have p: "tftp_payload s5 = Some r"
    by (simp add: s5_def s4_def s3_def s2 s1_def r_def)
  define frame where "frame = udp_frame NetEtherNullAddr (NetServerIP s) 69 (ucast port) r s"
  define s6 where "s6 = s5\<lparr>NetArpWaitPacketIP := NetServerIP s, NetArpWaitPacketMAC := Some Server_ether, NetIPID := NetIPID s + 1,
    NetArpWaitTxPacket := frame\<rparr>"
  have dest: "NetServerIP s \<noteq> 0" "NetServerIP s \<noteq> -1" using S s(6) by (simp_all add: proper_session_def)
  have send: "NetSendUDPPacket (net_drv S) Server_ether (NetServerIP s) (ucast (69 :: u32)) (ucast port) r s5 = (1, arp_wait (net_drv S) s6)"
    using dest by (simp add: NetSendUDPPacket_def Let_def NetSetIP_def frame_def udp_frame_def s6_def s5_def s4_def s3_def s2 s1_def
      NetSetEther_def NetEtherNullAddr_def)
  obtain t7 r7 u7 d7 where 7: "arp_wait (net_drv S) s6 =
      s6\<lparr>NetArpWaitTry := 1, NetArpWaitTimerStart := t7, NetArpWaitReplyIP := r7, outp := u7, dev := d7\<rparr>"
    using arp_wait_log [OF S] by blast
  define s7 where "s7 = s6\<lparr>NetArpWaitTry := 1, NetArpWaitTimerStart := t7, NetArpWaitReplyIP := r7, outp := u7, dev := d7\<rparr>"
  have "TftpStart (net_drv S) s = Some s7"
    using send unfolding start TftpSend_def p 7 s7_def [symmetric]
    by (simp add: s5_def s4_def s3_def s2 s1_def WELL_KNOWN_PORT_def)
  moreover have port: "ucast (ucast port :: u16) = port"
  proof -
    have "unat (t4 mod 3072) < 3072" by (simp add: unat_mod)
    then have "unat port < 65536" unfolding port_def by (simp add: unat_word_ariths)
    then show ?thesis by (simp add: word_unat_eq_iff unsigned_ucast_eq unsigned_take_bit_eq take_bit_nat_eq_self)
  qed
  moreover have "length f < MAX_LEN" by (simp add: f_def MAX_LEN_def)
  ultimately show ?thesis using s
    by (intro exI [of _ s7])
      (simp add: requested_def linked_def s7_def s6_def s5_def s4_def s3_def s2 s1_def frame_def r_def f_def TFTP_BLOCK_SIZE_def)
qed

section \<open>Sizes on the console\<close>

lemma scaled_digits:
  fixes N D :: nat
  assumes "0 < D" and "R < D" and "M = (10 * R + D div 2) div D"
  shows "(10 * (N * D + R) + D div 2) div D = 10 * N + M" and "M \<le> 10"
proof -
  have "10 * (N * D + R) + D div 2 = (10 * N) * D + (10 * R + D div 2)" by (simp add: algebra_simps)
  moreover have "((10 * N) * D + (10 * R + D div 2)) div D = 10 * N + (10 * R + D div 2) div D"
    using assms(1) by (intro div_mult_self3) simp
  ultimately show "(10 * (N * D + R) + D div 2) div D = 10 * N + M" using assms(3) by (simp only:)
  have "10 * R + D div 2 < 11 * D" using assms(2) by linarith
  then show "M \<le> 10" unfolding assms(3) using less_mult_imp_div_less [of "10 * R + D div 2" 11 D] by simp
qed

text \<open>
  Below 1 GB a size is printed in its unit with one decimal digit, rounded to the nearest.
\<close>
theorem print_size_rounds:
  assumes v: "v < 0x40000000"
  shows "case size_unit v of (d, c) \<Rightarrow> case size_digits d v of (n, m) \<Rightarrow>
    10 * unat n + unat m = (10 * unat v + unat d div 2) div unat d \<and> unat m < 10"
proof -
  define d where "d = (if v < 0x100000 then 0x400 else 0x100000 :: u32)"
  have d: "0 < unat d" "unat d \<le> 0x100000" by (simp_all add: d_def)
  define r where "r = v mod d"
  have r: "unat r < unat d" "v - v div d * d = r" "unat v = unat (v div d) * unat d + unat r"
    using d(1) by (simp_all add: r_def unat_mod minus_div_mult_eq_mod unat_div)
  define m where "m = (10 * r + d div 2) div d"
  have "10 * unat r + unat d div 2 < 2 ^ 32" using r(1) d(2) by simp
  then have "unat (10 * r + d div 2) = 10 * unat r + unat d div 2" by (simp add: unat_word_ariths unat_div)
  then have m: "unat m = (10 * unat r + unat d div 2) div unat d" by (simp add: m_def unat_div)
  note q = scaled_digits [OF d(1) r(1) m]
  have "unat (v div d) < 2 ^ 32 - 1"
    using v unfolding unat_div word_less_nat_alt by (intro le_less_trans [OF div_le_dividend]) simp
  then have n: "unat (v div d + 1) = unat (v div d) + 1" by (simp add: unat_word_ariths)
  have z: "(if v mod d = 0 then 0 else (10 * (v - v div d * d) + d div 2) div d) = m"
  proof (cases "r = 0")
    case True
    then have "m = d div 2 div d" by (simp add: m_def)
    also have "\<dots> = 0" using d(1) by (simp add: word_unat_eq_iff unat_div)
    finally show ?thesis using True by (simp add: r_def)
  qed (simp add: m_def r(2) r_def [symmetric])
  have digits: "size_digits d v = (if 10 \<le> m then (v div d + 1, m - 10) else (v div d, m))"
    unfolding size_digits_def Let_def z by simp
  define c where "c = (if v < 0x100000 then CHR ''k'' else CHR ''M'')"
  have c: "size_unit v = (d, c)" using v by (simp add: size_unit_def d_def c_def)
  have "10 * unat n + unat k = (10 * unat v + unat d div 2) div unat d \<and> unat k < 10" if nk: "size_digits d v = (n, k)" for n k
  proof (cases "10 \<le> m")
    case True
    then have "unat m = 10" using q(2) by (simp add: word_le_nat_alt)
    then have "m = 10" by (simp add: word_unat_eq_iff)
    then have "unat n = unat (v div d) + 1" "unat k = 0" using nk n by (auto simp: digits)
    then show ?thesis using q(1) \<open>m = 10\<close> unfolding r(3) by simp
  next
    case False
    then have "n = v div d" "k = m" using nk by (simp_all add: digits)
    then show ?thesis using q(1) False unfolding r(3) by (simp add: word_le_nat_alt)
  qed
  then show ?thesis by (auto simp: c split: prod.split)
qed

text \<open>From 1 GB on the product overflows: 1.5 GB are printed as 1.1 GB.\<close>

lemma print_size_gigabytes: "size_unit 0x60000000 = (0x40000000, CHR ''G'')" "size_digits 0x40000000 0x60000000 = (1, 1)"
  by code_simp+

section \<open>A concrete session\<close>

text \<open>The boards of \<open>Net\<close>: the client 10.0.0.1 asks 10.0.0.2 for a file of three bytes.\<close>

definition tftp_board :: "u8 list list tfmach" where
  "tftp_board = nmach.extend (board 1 [2, 0, 0, 0, 0, 2])
     (tfmach.fields 0x0200000A 69 1024 5000 10 5000 10 0 0 0 0 0 STATE_RRQ [0x66] TFTP_BLOCK_SIZE 1468)"

definition ready_board :: "u8 list list tfmach" where
  "ready_board = tftp_board\<lparr>NetState := NETLOOP_CONTINUE, packetHandler := TftpHandler, timeHandler := Some TftpTimeout,
     boot_file := [0x66], NetServerIP := 0x0200000A\<rparr>"

definition small_session :: "u8 list list session" where
  "small_session = \<lparr>net_env = undefined, net_drv = sample_net, sent = (\<lambda>d. d), client_mac = [2, 0, 0, 0, 0, 1],
     client_ip = 0x0100000A, client_port = 1024, peer = board 2 [], peer_drv = sample_net, peer_port = 69,
     blk_size = 512, file_data = [7, 8, 9]\<rparr>"

definition small_start :: "u8 list list conf" where
  "small_start = \<lparr>client = ready_board, at_block = 1, in_flight = {1}, lost = 0\<rparr>"

lemma small_session_proper: "proper_session small_session"
  by (simp add: proper_session_def small_session_def log_driver_def sample_net_def board_def NetEtherNullAddr_def
      replicate_numeral final_def)

lemmas small_board_defs = ready_board_def tftp_board_def board_def nmach.defs tfmach.defs

lemma small_initial: "initial small_session small_start"
  by (simp add: initial_def requested_def linked_def small_start_def small_session_def small_board_defs MAX_LEN_def TFTP_BLOCK_SIZE_def)

lemma small_continue:
  "NetState (client small_start) = NETLOOP_CONTINUE" "packetHandler (client small_start) = TftpHandler"
  "sint (TftpTimeoutCount (client small_start) + 1) \<le> sint (TftpTimeoutCountMax (client small_start))"
  by (simp_all add: small_start_def small_board_defs)

theorem transfer_possible_witness:
  "\<exists>z. runs small_session small_start z \<and> NetState (client z) = NETLOOP_SUCCESS"
  using transfer_possible [OF small_session_proper small_initial _ small_continue] by blast

theorem transfer_complete_witness:
  "\<exists>z. runs small_session small_start z \<and> NetState (client z) = NETLOOP_SUCCESS \<and> bytes_at (mem (client z)) 0 3 = [7, 8, 9] \<and>
    unat (NetBootFileXferSize (client z)) = 3"
proof -
  have "\<not> loading small_session a (at_block small_start) (at_block small_start) (client small_start)" for a
    by (simp add: loading_def small_start_def small_board_defs STATE_RRQ_def STATE_DATA_def)
  then obtain z where z: "runs small_session small_start z" "NetState (client z) = NETLOOP_SUCCESS"
    using progress [OF small_session_proper live_initial [OF small_initial] small_continue(1)] by blast
  have "load_addr (client small_start) = 0" "file_data small_session = [7, 8, 9]" "length [7 :: u8, 8, 9] = 3"
    by (simp_all add: small_start_def small_board_defs small_session_def)
  with transfer_complete [OF small_session_proper small_initial z] z show ?thesis by metis
qed

text \<open>A file of two blocks.\<close>

definition two_blocks :: "u8 list list session" where
  "two_blocks = small_session\<lparr>file_data := replicate 600 7\<rparr>"

theorem late_options_witness:
  "\<exists>s' q. tftp_handler undefined sample_net (reply two_blocks 0) 1024 69 (of_nat (length (reply two_blocks 0)))
      (ready_board\<lparr>TftpState := STATE_DATA\<rparr>) = Some s' \<and>
    tftp_handler undefined sample_net (reply two_blocks 2) 1024 69 (of_nat (length (reply two_blocks 2))) s' = Some q \<and>
    given_up two_blocks q \<and> NetState q \<noteq> NETLOOP_FAIL"
proof -
  let ?s = "ready_board\<lparr>TftpState := STATE_DATA\<rparr>"
  have S: "proper_session two_blocks"
    using small_session_proper by (simp add: proper_session_def two_blocks_def small_session_def final_def)
  have s: "linked two_blocks ?s" "TftpServerPort ?s = ucast (peer_port two_blocks)" "NetState ?s = NETLOOP_CONTINUE"
    by (simp_all add: linked_def two_blocks_def small_session_def small_board_defs MAX_LEN_def)
  have "env_get_char undefined ?s = (\<lambda>_. 0)"
    by (simp add: fun_eq_iff env_get_char_def env_get_char_memory_def env_get_char_spec_def small_board_defs)
  then have "getenv_str undefined ?s (asc ''netretry'') = Some None"
    by (simp add: getenv_str_def getenv_def getenv_find.simps)
  from late_options [OF S s(1) _ s(2,3) this]
  obtain s' where "tftp_handler undefined (net_drv two_blocks) (reply two_blocks 0) (ucast (client_port two_blocks)) (ucast (peer_port two_blocks))
      (of_nat (length (reply two_blocks 0))) ?s = Some s'"
    "\<forall>k. 2 \<le> k \<and> k \<le> final two_blocks \<longrightarrow> (\<exists>q.
      tftp_handler undefined (net_drv two_blocks) (reply two_blocks k) (ucast (client_port two_blocks)) (ucast (peer_port two_blocks))
        (of_nat (length (reply two_blocks k))) s' = Some q \<and> given_up two_blocks q \<and> (None = Some (asc ''no'') \<longleftrightarrow> NetState q = NETLOOP_FAIL))"
    by auto
  moreover have "final two_blocks = 2" by (simp add: final_def two_blocks_def small_session_def)
  ultimately show ?thesis by (fastforce simp: two_blocks_def small_session_def)
qed

theorem wrap_counted_twice_witness:
  "\<exists>s'. tftp_handler undefined sample_net [0, 3, 0, 0, 7] 1024 69 5
      (ready_board\<lparr>TftpState := STATE_DATA\<rparr>) = Some s' \<and>
    (\<forall>q. store_block 0 [9] 1 s' = Some q \<longrightarrow> mem q 0x2000000 = 9 \<and> mem q 0 = 0)"
proof -
  let ?s = "ready_board\<lparr>TftpState := STATE_DATA\<rparr>"
  have s: "TftpState ?s = STATE_DATA" "TftpLastBlock ?s = 0" "TftpServerPort ?s = 69" "length [7 :: u8] < 65000"
    by (simp_all add: small_board_defs)
  have "net16 TFTP_DATA @ net16 0 @ [7] = [0, 3, 0, 0, 7]" "of_nat (4 + length [7 :: u8]) = (5 :: u32)"
    by (simp_all add: net16_def TFTP_DATA_def)
  moreover have "TftpOurPort ?s = 1024" "mem ?s = (\<lambda>_. 0)" "load_addr ?s = 0" "TftpBlockWrapOffset ?s = 0" "TftpBlkSize ?s = 512"
    by (simp_all add: small_board_defs TFTP_BLOCK_SIZE_def)
  ultimately obtain s' where s': "tftp_handler undefined sample_net [0, 3, 0, 0, 7] 1024 69 5 ?s = Some s'"
    "\<And>blk len q. store_block 0 blk len s' = Some q \<Longrightarrow> mem q = blit (\<lambda>_. 0) (0 + 0 + 0x10000 * ucast (512 :: u16)) (unat len) ((!) blk)"
    using wrap_counted_twice [OF s, of undefined sample_net] by metis
  have "mem q 0x2000000 = 9 \<and> mem q 0 = 0" if "store_block 0 [9] 1 s' = Some q" for q
    unfolding s'(2) [OF that] by (simp add: blit_def)
  then show ?thesis using s'(1) by blast
qed

theorem start_requests_witness:
  "\<exists>s'. TftpStart sample_net ready_board = Some s' \<and> NetArpWaitPacketIP s' = 0x0200000A \<and> TftpBlkSize s' = 512"
proof -
  have s: "NetOurEther ready_board = client_mac small_session" "NetOurIP ready_board = client_ip small_session"
    "NetOurVLAN ready_board = NetOurVLAN (peer small_session)" "NetState ready_board = NETLOOP_CONTINUE"
    "TftpRRQTimeoutMSecs ready_board \<noteq> 0" "NetServerIP ready_board = NetOurIP (peer small_session)"
    "boot_file ready_board \<noteq> []" "0x3A \<notin> set (boot_file ready_board)"
    by (simp_all add: small_session_def small_board_defs)
  have "net_drv small_session = sample_net" "NetServerIP ready_board = 0x0200000A" by (simp_all add: small_session_def small_board_defs)
  with start_requests [OF small_session_proper s] show ?thesis by auto
qed

theorem print_size_rounds_witness:
  "case size_unit 0x180000 of (d, c) \<Rightarrow> case size_digits d 0x180000 of (n, m) \<Rightarrow>
    10 * unat n + unat m = (10 * 0x180000 + unat d div 2) div unat d \<and> unat m < 10"
  using print_size_rounds [of "0x180000"] by simp

end
