(* ===== verification/Bootp.thy ===== *)
theory Bootp
  imports Tftp
begin

text \<open>
  The DHCP client of U-Boot, \<open>net/bootp.c\<close> as the board builds it (\<open>CONFIG_CMD_DHCP\<close>, no
  \<open>CONFIG_BOOTP_*\<close> option, \<open>PRODUCTION_CODE\<close> undefined), on the network stack of \<open>Net\<close>: the
  requests, the vendor options, the states of the exchange and the retries. A received packet is the
  rest of its buffer behind the UDP header. \<open>NfsStart\<close>, of another file, is an argument, and so is the
  frame that \<open>NetRxPkt\<close> points to.
\<close>

section \<open>State\<close>

datatype dhcp_state_t = INIT | INIT_REBOOT | REBOOTING | SELECTING | REQUESTING | REBINDING | BOUND | RENEWING

text \<open>The strings are arrays of 32 and 64 bytes.\<close>

record 'd bpmach = "'d tfmach" +
  BootpID :: u32
  BootpTry :: u32
  dhcp_state :: dhcp_state_t
  dhcp_leasetime :: u32
  NetDHCPServerIP :: u32
  NetOurDNSIP :: u32
  NetOurHostName :: "u8 list"
  NetOurRootPath :: "u8 list"

definition BOOTP_VENDOR_MAGIC :: u32 where "BOOTP_VENDOR_MAGIC = 0x63825363"
definition BOOTP_TIMEOUT :: u32 where "BOOTP_TIMEOUT = 5000"
definition SELECT_TIMEOUT :: u32 where "SELECT_TIMEOUT = 3000"
definition BOOTP_TIMEOUT_COUNT :: u32 where "BOOTP_TIMEOUT_COUNT = 5"
definition PORT_BOOTPS :: u32 where "PORT_BOOTPS = 67"
definition PORT_BOOTPC :: u32 where "PORT_BOOTPC = 68"
definition CONFIG_DHCP_MIN_EXT_LEN :: nat where "CONFIG_DHCP_MIN_EXT_LEN = 64"
definition OPT_SIZE :: nat where "OPT_SIZE = 312"
definition BOOTP_HDR_SIZE :: nat where "BOOTP_HDR_SIZE = 236 + OPT_SIZE"
definition BOOTP_SIZE :: nat where "BOOTP_SIZE = ETHER_HDR_SIZE + IP_HDR_SIZE + BOOTP_HDR_SIZE"
definition OP_BOOTREQUEST :: u8 where "OP_BOOTREQUEST = 1"
definition OP_BOOTREPLY :: u8 where "OP_BOOTREPLY = 2"
definition HWT_ETHER :: u8 where "HWT_ETHER = 1"
definition HWL_ETHER :: u8 where "HWL_ETHER = 6"
definition DHCP_DISCOVER :: u8 where "DHCP_DISCOVER = 1"
definition DHCP_OFFER :: u8 where "DHCP_OFFER = 2"
definition DHCP_REQUEST :: u8 where "DHCP_REQUEST = 3"
definition DHCP_ACK :: u8 where "DHCP_ACK = 5"
definition DHCP_NAK :: u8 where "DHCP_NAK = 6"

text \<open>The handler and the timeout of this file among the function pointers.\<close>

definition Dhcp_handler :: rxhand where "Dhcp_handler = OtherHandler 0"
definition Bootp_timeout :: thand where "Bootp_timeout = OtherTimeout 0"

section \<open>Filtering packets\<close>

text \<open>
  Zero, or a negative number when the packet is not for us; \<open>None\<close> when it is read behind the end
  of its buffer. The length is the one the UDP header states.
\<close>

definition BootpCheckPkt :: "u8 list \<Rightarrow> u32 \<Rightarrow> u32 \<Rightarrow> u32 \<Rightarrow> ('d, 'z) bpmach_scheme \<Rightarrow> int option" where
  "BootpCheckPkt pkt dest src len s =
     (if dest \<noteq> PORT_BOOTPC \<or> src \<noteq> PORT_BOOTPS then Some (-1)
      else if len < of_nat (BOOTP_HDR_SIZE - OPT_SIZE) then Some (-2)
      else if length pkt < 8 then None
      else if pkt ! 0 \<notin> {OP_BOOTREQUEST, OP_BOOTREPLY, DHCP_OFFER, DHCP_ACK, DHCP_NAK} then Some (-3)
      else if pkt ! 1 \<noteq> HWT_ETHER then Some (-4)
      else if pkt ! 2 \<noteq> HWL_ETHER then Some (-5)
      else if NetReadIP pkt 4 \<noteq> BootpID s then Some (-6)
      else Some 0)"

section \<open>Options\<close>

definition truncate_sz :: "string \<Rightarrow> nat \<Rightarrow> nat \<Rightarrow> ('d, 'z) bpmach_scheme \<Rightarrow> nat \<times> ('d, 'z) bpmach_scheme" where
  "truncate_sz name maxlen curlen s =
     (if maxlen \<le> curlen
      then (maxlen - 1, printf (line ''*** WARNING: %s is too long (%d - max: %d) - truncated'')
              [Str (asc name), Num (of_nat curlen), Num (of_nat maxlen)] s)
      else (curlen, s))"

text \<open>A string from an option into an array.\<close>

definition copy_option :: "nat \<Rightarrow> u8 list \<Rightarrow> u8 list \<Rightarrow> u8 list option" where
  "copy_option n v arr = (if length v < n then None else Some (put_at 0 (take n v @ [0]) arr))"

definition option_ip :: "u8 list \<Rightarrow> u32 option" where
  "option_ip v = (if length v < 4 then None else Some (NetReadIP v 0))"

text \<open>
  One option: its number, its length and the buffer from its value on. The boot file may go into
  the field \<open>bp_file\<close> of the packet, which is the first component of the result.
\<close>

definition dhcp_option :: "u8 \<Rightarrow> nat \<Rightarrow> u8 list \<Rightarrow> u8 list \<times> ('d, 'z) bpmach_scheme \<Rightarrow> (u8 list \<times> ('d, 'z) bpmach_scheme) option" where
  "dhcp_option popt oplen v = (\<lambda>(bp_file, s).
     if popt = 1 then do { ip \<leftarrow> option_ip v; Some (bp_file, s\<lparr>NetOurSubnetMask := ip\<rparr>) }
     else if popt = 3 then do { ip \<leftarrow> option_ip v; Some (bp_file, s\<lparr>NetOurGatewayIP := ip\<rparr>) }
     else if popt = 6 then do { ip \<leftarrow> option_ip v; Some (bp_file, s\<lparr>NetOurDNSIP := ip\<rparr>) }
     else if popt = 12 then do {
       let (n, s) = truncate_sz ''Host Name'' 32 oplen s;
       str \<leftarrow> copy_option n v (NetOurHostName s);
       Some (bp_file, s\<lparr>NetOurHostName := str\<rparr>)
     }
     else if popt = 15 then Some (bp_file, s)
     else if popt = 17 then do {
       let (n, s) = truncate_sz ''Root Path'' 64 oplen s;
       str \<leftarrow> copy_option n v (NetOurRootPath s);
       Some (bp_file, s\<lparr>NetOurRootPath := str\<rparr>)
     }
     else if popt = 51 then do { t \<leftarrow> option_ip v; Some (bp_file, s\<lparr>dhcp_leasetime := t\<rparr>) }
     else if popt = 53 then Some (bp_file, s)
     else if popt = 54 then do { ip \<leftarrow> option_ip v; Some (bp_file, s\<lparr>NetDHCPServerIP := ip\<rparr>) }
     else if popt \<in> {58, 59, 66} then Some (bp_file, s)
     else if popt = 67 then
       case truncate_sz ''Opt Boot File'' 128 oplen s of (n, s) \<Rightarrow>
         if bp_file ! 0 = 0 \<and> 0 < n
         then do {
           file \<leftarrow> copy_option n v bp_file;
           Some (file, printf (line ''*** WARNING: using vendor optional boot file'') [] s)
         }
         else Some (bp_file, s)
     else Some (bp_file, printf (line ''*** Unhandled DHCP Option in OFFER/ACK: %d'') [Num (ucast popt)] s))"

text \<open>
  The options, from \<open>popt\<close> on; \<open>n\<close> is how far the end of the search is away, which the code puts
  \<open>BOOTP_HDR_SIZE\<close> bytes behind the first option.
\<close>

fun DhcpOptionsProcess :: "nat \<Rightarrow> u8 list \<Rightarrow> u8 list \<times> ('d, 'z) bpmach_scheme \<Rightarrow> (u8 list \<times> ('d, 'z) bpmach_scheme) option" where
  "DhcpOptionsProcess n popt fs =
     (if n = 0 then Some fs
      else case popt of
        [] \<Rightarrow> None
      | c # p \<Rightarrow>
          if c = 0xFF then Some fs
          else case p of
            [] \<Rightarrow> None
          | l # v \<Rightarrow> do {
              fs \<leftarrow> dhcp_option c (unat l) v fs;
              DhcpOptionsProcess (n - (unat l + 2)) (drop (unat l) v) fs
            })"

text \<open>The search for the message type has no end but the option 255.\<close>

fun find_message_type :: "u8 list \<Rightarrow> int option" where
  "find_message_type [] = None"
| "find_message_type (c # p) =
     (if c = 0xFF then Some (-1)
      else if c = 53 then (case p of _ # t # _ \<Rightarrow> Some (uint t) | _ \<Rightarrow> None)
      else case p of [] \<Rightarrow> None | l # v \<Rightarrow> find_message_type (drop (unat l) v))"

definition DhcpMessageType :: "u8 list \<Rightarrow> int option" where
  "DhcpMessageType vend =
     (if length vend < 4 then None
      else if NetReadIP vend 0 \<noteq> htonl BOOTP_VENDOR_MAGIC then Some (-1)
      else find_message_type (drop 4 vend))"

text \<open>The options of a request; an address is left out when it is zero.\<close>

definition ext_ip :: "u8 \<Rightarrow> u32 \<Rightarrow> u8 list" where
  "ext_ip c ip =
     (if ip = 0 then []
      else let tmp = htonl ip
        in [c, 4, ucast (drop_bit 24 tmp), ucast (drop_bit 16 tmp), ucast (drop_bit 8 tmp), ucast (tmp AND 0xFF)])"

definition DhcpExtended :: "u8 \<Rightarrow> u32 \<Rightarrow> u32 \<Rightarrow> u8 list" where
  "DhcpExtended message_type ServerID RequestedIP =
     (let e = [99, 130, 83, 99] @ [53, 1, message_type]
            @ [57, 2, of_nat ((576 - 312 + OPT_SIZE) div 2 ^ 8), of_nat ((576 - 312 + OPT_SIZE) mod 256)]
            @ ext_ip 54 ServerID @ ext_ip 50 RequestedIP @ [55, 0] @ [255]
      in e @ replicate (CONFIG_DHCP_MIN_EXT_LEN + 1 - length e) 0)"

section \<open>Requests\<close>

text \<open>The fields in front of the options; those that are not set are zero in the cleared buffer.\<close>

definition bootp_header :: "u32 \<Rightarrow> u32 \<Rightarrow> u8 list \<Rightarrow> u8 list \<Rightarrow> u8 list" where
  "bootp_header ident secs ether file =
     [OP_BOOTREQUEST, HWT_ETHER, HWL_ETHER, 0] @ ip_bytes ident @ net16 (ucast secs) @ [0, 0]
       @ replicate 16 0 @ ether @ replicate 10 0 @ replicate 64 0 @ file @ replicate (128 - length file) 0"

text \<open>
  The packet with its headers. The length that is sent counts an Ethernet header without VLAN tag.
\<close>

definition bootp_send :: "('d, 'z) bpmach_scheme net_io \<Rightarrow> u8 list \<Rightarrow> u8 list \<Rightarrow> u8 list \<Rightarrow> ('d, 'z) bpmach_scheme \<Rightarrow>
    ('d, 'z) bpmach_scheme" where
  "bootp_send io eth ip payload s =
     eth_send io (take (BOOTP_SIZE - BOOTP_HDR_SIZE + length payload) (eth @ ip @ payload)) s"

definition BootpRequest :: "('d, 'z) bpmach_scheme net_io \<Rightarrow> ('d, 'z) bpmach_scheme \<Rightarrow> ('d, 'z) bpmach_scheme" where
  "BootpRequest io s =
     (let s = s\<lparr>dhcp_state := INIT, BootpTry := BootpTry s + 1\<rparr>;
          s = printf (line ''BOOTP broadcast %d'') [Num (BootpTry s)] s;
          eth = NetSetEther NetBcastAddr PROT_IP s;
          (t, s) = net_time io s;
          file = copy_filename (boot_file s) 128;
          ext = DhcpExtended DHCP_DISCOVER 0 0;
          e = NetOurEther s;
          (t', s) = net_time io s;
          ident = (push_bit 24 (ucast (e ! 2)) OR push_bit 16 (ucast (e ! 3)) OR push_bit 8 (ucast (e ! 4)) OR ucast (e ! 5)) + t';
          s = s\<lparr>BootpID := htonl ident\<rparr>;
          payload = bootp_header (BootpID s) (t div 1000) e file @ ext;
          (ip, s) = NetSetIP (-1) (ucast PORT_BOOTPS) (ucast PORT_BOOTPC) (length payload) s;
          s = NetSetTimeout io SELECT_TIMEOUT Bootp_timeout s;
          s = NetSetHandler Dhcp_handler (s\<lparr>dhcp_state := SELECTING\<rparr>)
      in bootp_send io eth ip payload s)"

definition DhcpRequest :: "('d, 'z) bpmach_scheme net_io \<Rightarrow> ('d, 'z) bpmach_scheme \<Rightarrow> ('d, 'z) bpmach_scheme" where
  "DhcpRequest io s = BootpRequest io s"

definition BootpTimeout :: "env_config \<Rightarrow> ('d, 'z) bpmach_scheme net_io \<Rightarrow> ('d, 'z) bpmach_scheme \<Rightarrow>
    ('d, 'z) bpmach_scheme option" where
  "BootpTimeout C io s =
     (if sint BOOTP_TIMEOUT_COUNT \<le> sint (BootpTry s)
      then NetStartAgain C io (printf (CHR 0x0A # line ''Retry count exceeded; starting again'') [] s)
      else Some (BootpRequest io (NetSetTimeout io BOOTP_TIMEOUT Bootp_timeout s)))"

text \<open>The answer to an offer, whose packet is \<open>offer\<close>.\<close>

definition DhcpSendRequestPkt :: "('d, 'z) bpmach_scheme net_io \<Rightarrow> u8 list \<Rightarrow> ('d, 'z) bpmach_scheme \<Rightarrow> ('d, 'z) bpmach_scheme" where
  "DhcpSendRequestPkt io offer s =
     (let eth = NetSetEther NetBcastAddr PROT_IP s;
          (t, s) = net_time io s;
          ext = DhcpExtended DHCP_REQUEST (NetDHCPServerIP s) (NetReadIP offer 16);
          payload = bootp_header (NetReadIP offer 4) (t div 1000) (NetOurEther s) [] @ ext;
          (ip, s) = NetSetIP (-1) (ucast PORT_BOOTPS) (ucast PORT_BOOTPC) (length payload) s
      in bootp_send io eth ip payload s)"

section \<open>Replies\<close>

text \<open>
  What a reply sets beside the options. A boot file is taken only while the variable \<open>bootfile\<close> is
  not defined.
\<close>

definition BootpCopyNetParams :: "env_config \<Rightarrow> ('d, 'z) bpmach_scheme net_io \<Rightarrow> u8 list \<Rightarrow> u8 list \<Rightarrow> ('d, 'z) bpmach_scheme \<Rightarrow>
    ('d, 'z) bpmach_scheme option" where
  "BootpCopyNetParams C io frame bp s = do {
     let s = s\<lparr>NetOurIP := NetReadIP bp 16\<rparr>;
     let s = (if NetReadIP bp 20 \<noteq> 0 then s\<lparr>NetServerIP := NetReadIP bp 20\<rparr> else s);
     let s = s\<lparr>NetServerEther := slice 6 6 frame\<rparr>;
     if bp ! 108 = 0 then Some s
     else do {
       b \<leftarrow> getenv_str C s (asc ''bootfile'');
       if b \<noteq> None then Some s
       else do {
         let s = s\<lparr>boot_file := copy_filename (takeWhile (\<lambda>c. c \<noteq> 0) (drop 108 bp)) 128\<rparr>;
         (_, s) \<leftarrow> setenv (env_io.truncate io) (asc ''bootfile'') (Some (boot_file s)) s;
         Some s
       }
     }
   }"

text \<open>The options of a packet, if it has any, taken into the state and the packet.\<close>

definition take_options :: "u8 list \<Rightarrow> ('d, 'z) bpmach_scheme \<Rightarrow> (u8 list \<times> ('d, 'z) bpmach_scheme) option" where
  "take_options bp s =
     (if NetReadIP bp 236 = htonl BOOTP_VENDOR_MAGIC
      then do {
        (file, s) \<leftarrow> DhcpOptionsProcess BOOTP_HDR_SIZE (drop 240 bp) (slice 108 128 bp, s);
        Some (put_at 108 file bp, s)
      }
      else Some (bp, s))"

text \<open>The variable \<open>autoload\<close> decides what follows.\<close>

definition dhcp_autoload :: "env_config \<Rightarrow> ('d, 'z) bpmach_scheme net_io \<Rightarrow> (('d, 'z) bpmach_scheme \<Rightarrow> ('d, 'z) bpmach_scheme option) \<Rightarrow>
    ('d, 'z) bpmach_scheme \<Rightarrow> ('d, 'z) bpmach_scheme option" where
  "dhcp_autoload C io nfs s = do {
     a \<leftarrow> getenv_str C s (asc ''autoload'');
     case a of
       None \<Rightarrow> TftpStart io s
     | Some v \<Rightarrow>
         if peek v 0 = 0x6E then Some (s\<lparr>NetState := NETLOOP_SUCCESS\<rparr>)
         else if v = asc ''NFS'' then nfs s
         else TftpStart io s
   }"

definition dhcp_bind :: "env_config \<Rightarrow> ('d, 'z) bpmach_scheme net_io \<Rightarrow> u8 list \<Rightarrow> u8 list \<Rightarrow> ('d, 'z) bpmach_scheme \<Rightarrow>
    ('d, 'z) bpmach_scheme option" where
  "dhcp_bind C io frame bp s = do {
     (bp, s) \<leftarrow> take_options bp s;
     s \<leftarrow> BootpCopyNetParams C io frame bp s;
     let s = s\<lparr>dhcp_state := BOUND\<rparr>;
     s \<leftarrow> print_IPaddr (NetOurIP s) (printf ''DHCP client bound to address '' [] s);
     Some (putc 0x0A s)
   }"

definition DhcpHandler :: "env_config \<Rightarrow> ('d, 'z) bpmach_scheme net_io \<Rightarrow> (('d, 'z) bpmach_scheme \<Rightarrow> ('d, 'z) bpmach_scheme option) \<Rightarrow>
    u8 list \<Rightarrow> u8 list \<Rightarrow> u32 \<Rightarrow> u32 \<Rightarrow> u32 \<Rightarrow> ('d, 'z) bpmach_scheme \<Rightarrow> ('d, 'z) bpmach_scheme option" where
  "DhcpHandler C io nfs frame pkt dest src len s = do {
     r \<leftarrow> BootpCheckPkt pkt dest src len s;
     if r \<noteq> 0 then Some s
     else case dhcp_state s of
       SELECTING \<Rightarrow>
         if length pkt < 240 then None
         else do {
           (bp, s) \<leftarrow> take_options pkt (s\<lparr>dhcp_state := REQUESTING\<rparr>);
           Some (DhcpSendRequestPkt io bp (NetSetTimeout io BOOTP_TIMEOUT Bootp_timeout s))
         }
     | REQUESTING \<Rightarrow> do {
         m \<leftarrow> DhcpMessageType (drop 236 pkt);
         if m = uint DHCP_ACK then do {
           s \<leftarrow> dhcp_bind C io frame pkt s;
           dhcp_autoload C io nfs s
         }
         else Some s
       }
     | BOUND \<Rightarrow> Some s
     | _ \<Rightarrow> Some (printf (line ''DHCP: INVALID STATE'') [] s)
   }"

text \<open>The start functions of \<open>NetLoop\<close> with those of this file.\<close>

definition boot_start :: "env_config \<Rightarrow> ('d, 'z) bpmach_scheme net_io \<Rightarrow> (proto \<Rightarrow> ('d, 'z) bpmach_scheme \<Rightarrow> ('d, 'z) bpmach_scheme option) \<Rightarrow>
    proto \<Rightarrow> ('d, 'z) bpmach_scheme \<Rightarrow> ('d, 'z) bpmach_scheme option" where
  "boot_start C io other p s =
     (if p = DHCP then do {
        let s = s\<lparr>BootpTry := 0, NetOurIP := 0\<rparr>;
        ip \<leftarrow> getenv_IPaddr C ''serverip'' s;
        Some (DhcpRequest io (s\<lparr>NetServerIP := ip\<rparr>))
      }
      else if p = BOOTP then Some (BootpRequest io (s\<lparr>BootpTry := 0\<rparr>))
      else start_call io other p s)"

declare DhcpOptionsProcess.simps [simp del]

section \<open>Options as a list\<close>

text \<open>The options as a server writes them, and what the last option of a number says.\<close>

primrec option_list :: "(u8 \<times> u8 list) list \<Rightarrow> u8 list" where
  "option_list [] = []"
| "option_list (x # xs) = fst x # of_nat (length (snd x)) # snd x @ option_list xs"

definition last_option :: "u8 \<Rightarrow> (u8 \<times> u8 list) list \<Rightarrow> u8 list option" where
  "last_option c opts = map_of (rev opts) c"

definition proper_option :: "u8 \<times> u8 list \<Rightarrow> bool" where
  "proper_option x \<longleftrightarrow> fst x \<noteq> 0xFF \<and> length (snd x) < 256 \<and> (fst x \<in> {1, 3, 6, 51, 54} \<longrightarrow> 4 \<le> length (snd x))"

text \<open>The string in an array, an address and a string that an option may replace, and the boot file.\<close>

definition c_str :: "u8 list \<Rightarrow> u8 list" where "c_str b = takeWhile (\<lambda>c. c \<noteq> 0) b"

definition new_ip :: "u8 \<Rightarrow> (u8 \<times> u8 list) list \<Rightarrow> u32 \<Rightarrow> u32" where
  "new_ip c opts old = (case last_option c opts of None \<Rightarrow> old | Some v \<Rightarrow> NetReadIP v 0)"

definition new_str :: "u8 \<Rightarrow> nat \<Rightarrow> (u8 \<times> u8 list) list \<Rightarrow> u8 list \<Rightarrow> u8 list" where
  "new_str c n opts old = (case last_option c opts of None \<Rightarrow> c_str old | Some v \<Rightarrow> c_str (take (n - 1) v))"

definition new_file :: "(u8 \<times> u8 list) list \<Rightarrow> u8 list \<Rightarrow> u8 list" where
  "new_file opts old = c_str
     (case filter (\<lambda>x. fst x = 67 \<and> c_str (snd x) \<noteq> []) opts of
        x # _ \<Rightarrow> if c_str old = [] then take 127 (snd x) else old
      | [] \<Rightarrow> old)"

lemma last_option_simps:
  "last_option c [] = None"
  "last_option c (x # xs) = (case last_option c xs of None \<Rightarrow> if fst x = c then Some (snd x) else None | Some v \<Rightarrow> Some v)"
  by (auto simp: last_option_def map_add_def split: option.split)

lemma new_ip_simps:
  "new_ip c [] old = old"
  "new_ip c (x # xs) old = new_ip c xs (if fst x = c then NetReadIP (snd x) 0 else old)"
  by (simp_all add: new_ip_def last_option_simps split: option.split)

lemma c_str_zero: "c_str (v @ 0 # r) = c_str v"
  by (induction v) (simp_all add: c_str_def)

lemma new_str_simps:
  "new_str c n [] old = c_str old"
  "new_str c n (x # xs) old = new_str c n xs (if fst x = c then take (n - 1) (snd x) else old)"
  by (simp_all add: new_str_def last_option_simps split: option.split)

lemma new_str_cong: "c_str a = c_str b \<Longrightarrow> new_str c n xs a = new_str c n xs b"
  by (simp add: new_str_def split: option.split)

lemma c_str_Nil: "c_str v = [] \<longleftrightarrow> v = [] \<or> hd v = 0"
  by (cases v) (auto simp: c_str_def)

lemma NetReadIP_append: "4 \<le> length v \<Longrightarrow> NetReadIP (v @ r) 0 = NetReadIP v 0"
  by (cases "v = []") (auto simp: NetReadIP_def nth_append)

lemma put_string:
  assumes "n < length arr" and "n \<le> length v"
  shows "length (put_at 0 (take n v @ [0]) arr) = length arr" "c_str (put_at 0 (take n v @ [0]) arr) = c_str (take n v)"
  using assms by (simp_all add: put_at_def c_str_zero)

text \<open>The arrays of the state have their sizes.\<close>

definition arrays_ok :: "u8 list \<Rightarrow> ('d, 'z) bpmach_scheme \<Rightarrow> bool" where
  "arrays_ok bf s \<longleftrightarrow> length bf = 128 \<and> length (NetOurHostName s) = 32 \<and> length (NetOurRootPath s) = 64"

text \<open>\<open>s'\<close> and \<open>bf'\<close> are the state \<open>s\<close> and the boot file field \<open>bf\<close> with a list of options taken in.\<close>

definition options_taken :: "(u8 \<times> u8 list) list \<Rightarrow> u8 list \<Rightarrow> ('d, 'z) bpmach_scheme \<Rightarrow> u8 list \<Rightarrow> ('d, 'z) bpmach_scheme \<Rightarrow> bool" where
  "options_taken opts bf s bf' s' \<longleftrightarrow>
     s' = s\<lparr>outp := outp s', NetOurSubnetMask := new_ip 1 opts (NetOurSubnetMask s), NetOurGatewayIP := new_ip 3 opts (NetOurGatewayIP s),
       NetOurDNSIP := new_ip 6 opts (NetOurDNSIP s), dhcp_leasetime := new_ip 51 opts (dhcp_leasetime s),
       NetDHCPServerIP := new_ip 54 opts (NetDHCPServerIP s), NetOurHostName := NetOurHostName s', NetOurRootPath := NetOurRootPath s'\<rparr> \<and>
     c_str (NetOurHostName s') = new_str 12 32 opts (NetOurHostName s) \<and>
     c_str (NetOurRootPath s') = new_str 17 64 opts (NetOurRootPath s) \<and>
     c_str bf' = new_file opts bf \<and> arrays_ok bf' s'"

lemma truncate_sz_eq: "\<exists>t. truncate_sz name m n s = (min n (m - 1), s\<lparr>outp := t\<rparr>)" if "0 < m"
proof (cases "m \<le> n")
  case True
  then have "min n (m - 1) = m - 1" using that by linarith
  then show ?thesis using True by (auto simp: truncate_sz_def printf_def)
next
  case False
  then show ?thesis using that by (intro exI [of _ "outp s"]) (simp add: truncate_sz_def min_def)
qed

lemma option_taken:
  assumes "arrays_ok bf s" and "proper_option x"
  shows "\<exists>bf' s'. dhcp_option (fst x) (length (snd x)) (snd x @ rest) (bf, s) = Some (bf', s') \<and> options_taken [x] bf s bf' s'"
proof -
  obtain c v where x: "x = (c, v)" by fastforce
  have ip: "option_ip (v @ rest) = Some (NetReadIP v 0)" if "4 \<le> length v" using that by (simp add: option_ip_def NetReadIP_append)
  have str: "copy_option n (v @ rest) arr = Some (put_at 0 (take n v @ [0]) arr)" if "n \<le> length v" for n arr
    using that by (simp add: copy_option_def)
  note d = options_taken_def new_ip_simps new_str_simps new_file_def x arrays_ok_def
  consider "c \<in> {1, 3, 6, 51, 54}" | "c = 12" | "c = 17" | "c = 67" | "c \<notin> {1, 3, 6, 51, 54, 12, 17, 67}" by blast
  then show ?thesis
  proof cases
    case 1
    then have "4 \<le> length v" using assms(2) by (simp add: proper_option_def x)
    then show ?thesis using 1 assms(1) by (auto simp: dhcp_option_def d ip)
  next
    case 2
    obtain t where "truncate_sz ''Host Name'' 32 (length v) s = (min (length v) 31, s\<lparr>outp := t\<rparr>)"
      using truncate_sz_eq [of 32 "''Host Name''" "length v" s] by auto
    then show ?thesis using assms(1) put_string [of "min (length v) 31" "NetOurHostName s" v]
      by (simp add: dhcp_option_def 2 d str min_def)
  next
    case 3
    obtain t where "truncate_sz ''Root Path'' 64 (length v) s = (min (length v) 63, s\<lparr>outp := t\<rparr>)"
      using truncate_sz_eq [of 64 "''Root Path''" "length v" s] by auto
    then show ?thesis using assms(1) put_string [of "min (length v) 63" "NetOurRootPath s" v]
      by (simp add: dhcp_option_def 3 d str min_def)
  next
    case 4
    obtain t where "truncate_sz ''Opt Boot File'' 128 (length v) s = (min (length v) 127, s\<lparr>outp := t\<rparr>)"
      using truncate_sz_eq [of 128 "''Opt Boot File''" "length v" s] by auto
    moreover have "bf ! 0 = 0 \<longleftrightarrow> c_str bf = []" using assms(1) by (cases bf) (auto simp: arrays_ok_def c_str_def)
    moreover have "c_str (take 127 v) = [] \<longleftrightarrow> c_str v = []" by (cases v) (auto simp: c_str_def)
    ultimately show ?thesis using assms(1) put_string [of "min (length v) 127" bf v]
      by (cases "v = []") (auto simp: dhcp_option_def 4 d str min_def printf_def c_str_def)
  next
    case 5
    then show ?thesis using assms(1) by (simp add: dhcp_option_def d printf_def)
  qed
qed

lemma new_file_cons: "c_str f = new_file [x] g \<Longrightarrow> new_file xs f = new_file (x # xs) g"
proof -
  assume f: "c_str f = new_file [x] g"
  have t: "c_str (take 127 v) = [] \<longleftrightarrow> c_str v = []" for v by (cases v) (auto simp: c_str_def)
  show ?thesis
    using f by (cases "c_str g = []"; cases "fst x = 67 \<and> c_str (snd x) \<noteq> []") (auto simp: new_file_def t split: list.split if_splits)
qed

lemma options_taken_cons:
  assumes "options_taken [x] f s f1 s1" and "options_taken xs f1 s1 f2 s2"
  shows "options_taken (x # xs) f s f2 s2"
proof -
  have s1: "s1 = s\<lparr>outp := outp s1, NetOurSubnetMask := new_ip 1 [x] (NetOurSubnetMask s), NetOurGatewayIP := new_ip 3 [x] (NetOurGatewayIP s),
      NetOurDNSIP := new_ip 6 [x] (NetOurDNSIP s), dhcp_leasetime := new_ip 51 [x] (dhcp_leasetime s),
      NetDHCPServerIP := new_ip 54 [x] (NetDHCPServerIP s), NetOurHostName := NetOurHostName s1, NetOurRootPath := NetOurRootPath s1\<rparr>"
    using assms(1) by (simp only: options_taken_def)
  define h where "h = NetOurHostName s1"
  define r where "r = NetOurRootPath s1"
  define t where "t = outp s1"
  note eq = s1 [folded h_def r_def t_def]
  have names: "new_str 12 32 xs h = new_str 12 32 (x # xs) (NetOurHostName s)" "new_str 17 64 xs r = new_str 17 64 (x # xs) (NetOurRootPath s)"
    using assms(1) new_str_cong [of h _ 12 32 xs] new_str_cong [of r _ 17 64 xs]
    by (auto simp: options_taken_def new_str_simps h_def r_def)
  have ips: "new_ip c xs (new_ip c [x] old) = new_ip c (x # xs) old" for c old by (simp add: new_ip_simps)
  have "new_file xs f1 = new_file (x # xs) f" using assms(1) by (intro new_file_cons) (simp add: options_taken_def)
  then show ?thesis using assms(2) names unfolding options_taken_def eq by (simp add: ips)
qed

lemma options_process:
  assumes "\<forall>x\<in>set opts. proper_option x" and "length (option_list opts) \<le> n" and "arrays_ok bf s"
  shows "\<exists>bf' s'. DhcpOptionsProcess n (option_list opts @ 0xFF # rest) (bf, s) = Some (bf', s') \<and> options_taken opts bf s bf' s'"
  using assms
proof (induction opts arbitrary: n bf s)
  case Nil
  then show ?case by (simp add: DhcpOptionsProcess.simps options_taken_def new_ip_simps new_str_simps new_file_def)
next
  case (Cons x xs)
  let ?rest = "option_list xs @ 0xFF # rest"
  have l: "unat (of_nat (length (snd x)) :: u8) = length (snd x)" "fst x \<noteq> 0xFF" "n \<noteq> 0"
    using Cons.prems by (auto simp: proper_option_def unat_of_nat)
  obtain f1 s1 where 1: "dhcp_option (fst x) (length (snd x)) (snd x @ ?rest) (bf, s) = Some (f1, s1)" "options_taken [x] bf s f1 s1"
    using option_taken [of bf s x ?rest] Cons.prems by auto
  obtain f2 s2 where 2: "DhcpOptionsProcess (n - (length (snd x) + 2)) ?rest (f1, s1) = Some (f2, s2)" "options_taken xs f1 s1 f2 s2"
  proof -
    have "arrays_ok f1 s1" using 1(2) by (simp add: options_taken_def)
    moreover have "length (option_list xs) \<le> n - (length (snd x) + 2)" using Cons.prems(2) by simp
    ultimately show ?thesis using Cons.IH [of "n - (length (snd x) + 2)" f1 s1] Cons.prems(1) that by (meson list.set_intros(2))
  qed
  have "DhcpOptionsProcess n (option_list (x # xs) @ 0xFF # rest) (bf, s) = Some (f2, s2)"
    using l 1(1) 2(1) by (subst DhcpOptionsProcess.simps) simp
  then show ?case using options_taken_cons [OF 1(2) 2(2)] by blast
qed

text \<open>The options of a packet: the fields before them and the cookie.\<close>

definition magic_cookie :: "u8 list" where "magic_cookie = [99, 130, 83, 99]"

lemma magic_cookie_read: "NetReadIP (magic_cookie @ r) 0 = htonl BOOTP_VENDOR_MAGIC" "length magic_cookie = 4"
  by (simp_all add: magic_cookie_def NetReadIP_def BOOTP_VENDOR_MAGIC_def htonl_def)

lemma NetReadIP_behind: "length f = i \<Longrightarrow> NetReadIP (f @ b) i = NetReadIP b 0"
  using at_offset(2) [of i "f @ b" 0] by simp

text \<open>
  C7: from any list of well-formed options behind the cookie, ended by 255, whatever follows, the
  last option of a number gives the mask, the gateway, the name server, the lease time and the DHCP
  server, the strings are cut to their arrays, a boot file option counts only while the packet has
  none, and nothing else changes but the console.
\<close>
theorem options_parsed:
  assumes "length front = 236" and "\<forall>x\<in>set opts. proper_option x" and "length (option_list opts) \<le> 548"
    and "length (NetOurHostName s) = 32" and "length (NetOurRootPath s) = 64"
  shows "\<exists>bf' s'. take_options (front @ magic_cookie @ option_list opts @ 0xFF # rest) s =
      Some (put_at 108 bf' (front @ magic_cookie @ option_list opts @ 0xFF # rest), s') \<and>
    options_taken opts (slice 108 128 front) s bf' s'"
proof -
  let ?b = "front @ magic_cookie @ option_list opts @ 0xFF # rest"
  have "arrays_ok (slice 108 128 front) s" using assms by (simp add: arrays_ok_def slice_def)
  then obtain bf' s' where "DhcpOptionsProcess 548 (option_list opts @ 0xFF # rest) (slice 108 128 front, s) = Some (bf', s')"
      "options_taken opts (slice 108 128 front) s bf' s'"
    using options_process [OF assms(2,3)] by blast
  moreover have "drop 240 ?b = option_list opts @ 0xFF # rest" "slice 108 128 ?b = slice 108 128 front"
    using assms(1) by (simp_all add: magic_cookie_def slice_def)
  moreover have "NetReadIP ?b 236 = htonl BOOTP_VENDOR_MAGIC"
    using NetReadIP_behind [OF assms(1)] magic_cookie_read(1) by simp
  ultimately show ?thesis
    by (intro exI [of _ bf'] exI [of _ s']) (simp add: take_options_def BOOTP_HDR_SIZE_def OPT_SIZE_def del: drop_append)
qed

section \<open>What a request says\<close>

definition request_options :: "u8 \<Rightarrow> u32 \<Rightarrow> u32 \<Rightarrow> (u8 \<times> u8 list) list" where
  "request_options m sid ip =
     [(53, [m]), (57, [2, 64])] @ (if sid = 0 then [] else [(54, ip_bytes sid)]) @ (if ip = 0 then [] else [(50, ip_bytes ip)]) @ [(55, [])]"

lemma low_byte: "(ucast (y AND 0xFF :: u32) :: u8) = ucast y"
proof -
  have m: "(0xFF :: u32) = mask 8" by (simp add: mask_eq_exp_minus_1)
  show ?thesis unfolding m by (rule bit_word_eqI) (auto simp: bit_simps)
qed

lemma htonl_bytes:
  "[ucast (drop_bit 24 (htonl x)), ucast (drop_bit 16 (htonl x)), ucast (drop_bit 8 (htonl x)), ucast (htonl x)] = ip_bytes x"
proof -
  have "ucast (drop_bit 24 (htonl x)) = (ucast x :: u8)" "ucast (drop_bit 16 (htonl x)) = (ucast (drop_bit 8 x) :: u8)"
    "ucast (drop_bit 8 (htonl x)) = (ucast (drop_bit 16 x) :: u8)" "ucast (htonl x) = (ucast (drop_bit 24 x) :: u8)"
    by (rule bit_word_eqI; auto simp: bit_htonl bit_simps add.commute; fail)+
  then show ?thesis by (simp add: ip_bytes_def)
qed

lemma ext_ip_eq: "ext_ip c ip = (if ip = 0 then [] else c # 4 # ip_bytes ip)"
  by (simp add: ext_ip_def Let_def low_byte htonl_bytes)

lemma DhcpExtended_options:
  "DhcpExtended m sid ip = magic_cookie @ option_list (request_options m sid ip) @ 0xFF #
     replicate (CONFIG_DHCP_MIN_EXT_LEN + 1 - (5 + length (option_list (request_options m sid ip)))) 0"
  by (simp add: DhcpExtended_def Let_def magic_cookie_def request_options_def ext_ip_eq OPT_SIZE_def ip_bytes_list CONFIG_DHCP_MIN_EXT_LEN_def)

lemma request_reads_back: "DhcpMessageType (DhcpExtended m sid ip @ rest) = Some (uint m)"
  unfolding DhcpExtended_options append_assoc DhcpMessageType_def magic_cookie_read(1)
  by (simp add: request_options_def magic_cookie_read(2))

section \<open>What leaves the address alone\<close>

text \<open>The driver changes its own state only, and keeps the frames it is to send.\<close>

definition quiet_driver :: "('d, 'z) bpmach_scheme net_io \<Rightarrow> ('d \<Rightarrow> u8 list list) \<Rightarrow> bool" where
  "quiet_driver io frames \<longleftrightarrow>
     log_driver io frames dev (\<lambda>d s. s\<lparr>dev := d\<rparr>) \<and> (\<forall>s. \<exists>d. eth_halt io s = s\<lparr>dev := d\<rparr>)"

text \<open>A driver that does not send anything when it is halted.\<close>

definition silent_halt :: "('d, 'z) bpmach_scheme net_io \<Rightarrow> ('d \<Rightarrow> u8 list list) \<Rightarrow> bool" where
  "silent_halt io frames \<longleftrightarrow> (\<forall>s. frames (dev (eth_halt io s)) = frames (dev s))"

text \<open>A board with a hardware address and without VLAN tags.\<close>

definition board_ready :: "('d, 'z) bpmach_scheme \<Rightarrow> bool" where
  "board_ready s \<longleftrightarrow> length (NetOurEther s) = 6 \<and> vlan_id (NetOurVLAN s) AND VLAN_IDMASK = VLAN_NONE"

definition dhcp_core :: "('d, 'z) bpmach_scheme \<Rightarrow> u32 \<times> dhcp_state_t \<times> u32 \<times> bool" where
  "dhcp_core s = (NetOurIP s, dhcp_state s, BootpID s, board_ready s)"

named_theorems core

lemma core_dev [core]: "dhcp_core (s\<lparr>dev := d\<rparr>) = dhcp_core s"
  and core_outp [core]: "dhcp_core (s\<lparr>outp := t\<rparr>) = dhcp_core s"
  by (simp_all add: dhcp_core_def board_ready_def)

lemma core_printf [core]: "dhcp_core (printf f xs s) = dhcp_core s"
  by (simp add: printf_def core)

lemma core_putc [core]: "dhcp_core (putc c s) = dhcp_core s"
  by (simp add: putc_def core)

lemma core_wrote: "wrote s s' \<Longrightarrow> dhcp_core s' = dhcp_core s"
  unfolding wrote_def by (metis core_outp)

lemma core_print_IPaddr: "print_IPaddr x s = Some s' \<Longrightarrow> dhcp_core s' = dhcp_core s"
  using print_IPaddr_wrote [OF wrote_refl, of x s] core_wrote by fastforce

lemma core_eth_send [core]: "quiet_driver io fr \<Longrightarrow> dhcp_core (eth_send io f s) = dhcp_core s"
  unfolding quiet_driver_def log_driver_def by (metis core_dev)

lemma core_eth_halt [core]: "quiet_driver io fr \<Longrightarrow> dhcp_core (eth_halt io s) = dhcp_core s"
  unfolding quiet_driver_def by (metis core_dev)

lemma core_net_time: "quiet_driver io fr \<Longrightarrow> net_time io s = (t, s') \<Longrightarrow> dhcp_core s' = dhcp_core s"
  unfolding quiet_driver_def log_driver_def by (metis core_dev prod.inject)

lemma core_fields [core]:
  "dhcp_core (s\<lparr>timeHandler := h\<rparr>) = dhcp_core s" "dhcp_core (s\<lparr>timeStart := t\<rparr>) = dhcp_core s"
  "dhcp_core (s\<lparr>timeDelta := t\<rparr>) = dhcp_core s" "dhcp_core (s\<lparr>packetHandler := p\<rparr>) = dhcp_core s"
  "dhcp_core (s\<lparr>NetState := t\<rparr>) = dhcp_core s" "dhcp_core (s\<lparr>NetIPID := t\<rparr>) = dhcp_core s"
  "dhcp_core (s\<lparr>NetServerIP := t\<rparr>) = dhcp_core s" "dhcp_core (s\<lparr>NetServerEther := l\<rparr>) = dhcp_core s"
  "dhcp_core (s\<lparr>NetArpWaitPacketIP := t\<rparr>) = dhcp_core s" "dhcp_core (s\<lparr>NetArpWaitReplyIP := t\<rparr>) = dhcp_core s"
  "dhcp_core (s\<lparr>NetArpWaitPacketMAC := m\<rparr>) = dhcp_core s" "dhcp_core (s\<lparr>NetArpWaitTxPacket := l\<rparr>) = dhcp_core s"
  "dhcp_core (s\<lparr>NetArpWaitTimerStart := t\<rparr>) = dhcp_core s" "dhcp_core (s\<lparr>NetArpWaitTry := t\<rparr>) = dhcp_core s"
  "dhcp_core (s\<lparr>TftpServerIP := t\<rparr>) = dhcp_core s" "dhcp_core (s\<lparr>tftp_filename := l\<rparr>) = dhcp_core s"
  "dhcp_core (s\<lparr>TftpTimeoutMSecs := t\<rparr>) = dhcp_core s" "dhcp_core (s\<lparr>TftpTimeoutCountMax := t\<rparr>) = dhcp_core s"
  "dhcp_core (s\<lparr>TftpServerPort := t\<rparr>) = dhcp_core s" "dhcp_core (s\<lparr>TftpTimeoutCount := t\<rparr>) = dhcp_core s"
  "dhcp_core (s\<lparr>TftpState := t\<rparr>) = dhcp_core s" "dhcp_core (s\<lparr>TftpOurPort := t\<rparr>) = dhcp_core s"
  "dhcp_core (s\<lparr>TftpBlock := t\<rparr>) = dhcp_core s" "dhcp_core (s\<lparr>TftpBlkSize := b\<rparr>) = dhcp_core s"
  "dhcp_core (s\<lparr>boot_file := l\<rparr>) = dhcp_core s" "dhcp_core (s\<lparr>BootpTry := t\<rparr>) = dhcp_core s"
  "dhcp_core (s\<lparr>env_id := t\<rparr>) = dhcp_core s" "dhcp_core (s\<lparr>env_ram := e\<rparr>) = dhcp_core s"
  "dhcp_core (s\<lparr>ptr_crc := t\<rparr>) = dhcp_core s"
  by (simp_all add: dhcp_core_def board_ready_def)

lemma core_NetSetTimeout [core]: "quiet_driver io fr \<Longrightarrow> dhcp_core (NetSetTimeout io iv h s) = dhcp_core s"
  by (auto simp: NetSetTimeout_def core dest: core_net_time split: prod.split)

lemma core_NetSetHandler [core]: "dhcp_core (NetSetHandler h s) = dhcp_core s"
  by (simp add: NetSetHandler_def core)

lemma core_NetSetIP: "NetSetIP dest dport sport n s = (ip, s') \<Longrightarrow> dhcp_core s' = dhcp_core s"
  by (auto simp: NetSetIP_def core)

lemma core_NetStartAgain: "quiet_driver io fr \<Longrightarrow> NetStartAgain C io s = Some s' \<Longrightarrow> dhcp_core s' = dhcp_core s"
  by (auto simp: NetStartAgain_def core split: bind_splits if_splits)

lemma core_ArpRequest [core]: "quiet_driver io fr \<Longrightarrow> dhcp_core (ArpRequest io s) = dhcp_core s"
  by (simp add: ArpRequest_def Let_def core)

lemma core_arp_wait [core]: "quiet_driver io fr \<Longrightarrow> dhcp_core (arp_wait io s) = dhcp_core s"
  by (auto simp: arp_wait_def core dest: core_net_time split: prod.split)

lemma core_NetSendUDPPacket [core]: "quiet_driver io fr \<Longrightarrow> dhcp_core (snd (NetSendUDPPacket io e d dp sp p s)) = dhcp_core s"
  by (simp add: NetSendUDPPacket_def Let_def NetSetIP_def core)

lemma core_TftpStart: "quiet_driver io fr \<Longrightarrow> TftpStart io s = Some s' \<Longrightarrow> dhcp_core s' = dhcp_core s"
proof -
  assume io: "quiet_driver io fr" and s: "TftpStart io s = Some s'"
  have name: "tftp_name s = Some s1 \<Longrightarrow> dhcp_core s1 = dhcp_core s" for s1
    by (auto simp: tftp_name_def Let_def core split: bind_splits if_splits list.splits)
  have announce: "tftp_announce s1 = Some s2 \<Longrightarrow> dhcp_core s2 = dhcp_core s1" for s1 s2
    using tftp_announce_wrote [of s1] core_wrote by fastforce
  have send: "TftpSend io s1 = Some s2 \<Longrightarrow> dhcp_core s2 = dhcp_core s1" for s1 s2
    using io by (auto simp: TftpSend_def core split: bind_splits)
  show ?thesis
    using s by (auto simp: TftpStart_def Let_def core core_NetSetTimeout [OF io] dest!: name announce send core_net_time [OF io]
      split: bind_splits prod.splits)
qed

lemma core_setenv_bootfile: "setenv io (asc ''bootfile'') v s = Some (r, s') \<Longrightarrow> dhcp_core s' = dhcp_core s"
  by (auto simp: setenv_def do_setenv_args_def setenv_console_def console_of_def setenv_baudrate_def setenv_delete_def
      setenv_store_def setenv_mirror_def env_crc_update_def asc_def core Let_def split: bind_splits if_splits option.splits)

lemma core_options [core]:
  "dhcp_core (s\<lparr>NetOurSubnetMask := t\<rparr>) = dhcp_core s" "dhcp_core (s\<lparr>NetOurGatewayIP := t\<rparr>) = dhcp_core s"
  "dhcp_core (s\<lparr>NetOurDNSIP := t\<rparr>) = dhcp_core s" "dhcp_core (s\<lparr>dhcp_leasetime := t\<rparr>) = dhcp_core s"
  "dhcp_core (s\<lparr>NetDHCPServerIP := t\<rparr>) = dhcp_core s" "dhcp_core (s\<lparr>NetOurHostName := l\<rparr>) = dhcp_core s"
  "dhcp_core (s\<lparr>NetOurRootPath := l\<rparr>) = dhcp_core s"
  by (simp_all add: dhcp_core_def board_ready_def)

lemma core_truncate_sz: "truncate_sz name m n s = (k, s') \<Longrightarrow> dhcp_core s' = dhcp_core s"
  by (auto simp: truncate_sz_def core split: if_splits)

lemma core_dhcp_option: "dhcp_option c l v fs = Some fs' \<Longrightarrow> dhcp_core (snd fs') = dhcp_core (snd fs)"
  by (cases fs) (auto simp: dhcp_option_def core dest!: core_truncate_sz split: bind_splits if_splits prod.splits)

lemma core_DhcpOptionsProcess: "DhcpOptionsProcess n p fs = Some fs' \<Longrightarrow> dhcp_core (snd fs') = dhcp_core (snd fs)"
proof (induction n p fs arbitrary: fs' rule: DhcpOptionsProcess.induct)
  case (1 n p fs)
  show ?case
  proof (cases "n = 0 \<or> hd p = 0xFF")
    case True
    with 1(2) show ?thesis by (subst (asm) DhcpOptionsProcess.simps) (auto split: if_splits list.splits)
  next
    case False
    with 1(2) obtain c l v fs1 where p: "p = c # l # v" "c \<noteq> 0xFF" "dhcp_option c (unat l) v fs = Some fs1"
        "DhcpOptionsProcess (n - (unat l + 2)) (drop (unat l) v) fs1 = Some fs'"
      by (subst (asm) DhcpOptionsProcess.simps) (auto split: if_splits list.splits bind_splits)
    from False 1(1) [OF _ p(1) p(2) refl p(3) p(4)] core_dhcp_option [OF p(3)] show ?thesis by simp
  qed
qed

lemma take_options_core:
  assumes "take_options bp s = Some (bp', s')"
  shows "dhcp_core s' = dhcp_core s" and "120 \<le> length bp \<Longrightarrow> NetReadIP bp' 16 = NetReadIP bp 16"
    and "120 \<le> length bp \<Longrightarrow> NetReadIP bp' 4 = NetReadIP bp 4"
proof -
  show "dhcp_core s' = dhcp_core s"
    using assms core_DhcpOptionsProcess [of BOOTP_HDR_SIZE "drop 240 bp" "(slice 108 128 bp, s)"]
    by (auto simp: take_options_def split: if_splits bind_splits)
  have "bp' = bp \<or> (\<exists>f. bp' = put_at 108 f bp)" using assms by (auto simp: take_options_def split: if_splits bind_splits)
  moreover have "put_at 108 f bp ! i = bp ! i" if "i < 108" "120 \<le> length bp" for f i
    using that by (simp add: put_at_def nth_append)
  ultimately show "120 \<le> length bp \<Longrightarrow> NetReadIP bp' 16 = NetReadIP bp 16" "120 \<le> length bp \<Longrightarrow> NetReadIP bp' 4 = NetReadIP bp 4"
    by (auto simp: NetReadIP_def)
qed

lemma BootpCopyNetParams_core:
  "BootpCopyNetParams C io fr bp s = Some s' \<Longrightarrow> dhcp_core s' = (NetReadIP bp 16, dhcp_state s, BootpID s, board_ready s)"
proof -
  have ip: "dhcp_core (s\<lparr>NetOurIP := x\<rparr>) = (x, dhcp_state s, BootpID s, board_ready s)" for x
    by (simp add: dhcp_core_def board_ready_def)
  assume "BootpCopyNetParams C io fr bp s = Some s'"
  then show ?thesis by (auto simp: BootpCopyNetParams_def Let_def core ip dest!: core_setenv_bootfile split: bind_splits if_splits)
qed

lemma dhcp_bind_core:
  assumes "dhcp_bind C io fr bp s = Some s'" and "120 \<le> length bp"
  shows "dhcp_core s' = (NetReadIP bp 16, BOUND, BootpID s, board_ready s)"
proof -
  obtain bp1 s1 s2 s3 where s: "take_options bp s = Some (bp1, s1)" "BootpCopyNetParams C io fr bp1 s1 = Some s2"
      "print_IPaddr (NetOurIP s2) (printf ''DHCP client bound to address '' [] (s2\<lparr>dhcp_state := BOUND\<rparr>)) = Some s3" "s' = putc 0x0A s3"
    using assms(1) by (auto simp: dhcp_bind_def Let_def split: bind_splits)
  have "dhcp_core s1 = dhcp_core s" "NetReadIP bp1 16 = NetReadIP bp 16" using take_options_core [OF s(1)] assms(2) by simp_all
  moreover have "dhcp_core s3 = dhcp_core (s2\<lparr>dhcp_state := BOUND\<rparr>)" using core_print_IPaddr [OF s(3)] by (simp add: core)
  ultimately show ?thesis using BootpCopyNetParams_core [OF s(2)] s(4) by (simp add: core) (simp add: dhcp_core_def board_ready_def)
qed

section \<open>The packets the client sends\<close>

text \<open>The fields of a request behind the UDP header.\<close>

lemma bootp_header_length: "length e = 6 \<Longrightarrow> length f \<le> 128 \<Longrightarrow> length (bootp_header ident secs e f) = 236"
  by (simp add: bootp_header_def ip_bytes_list net16_def)

lemma bootp_send_untagged:
  assumes "vlan_id (NetOurVLAN s) AND VLAN_IDMASK = VLAN_NONE" and "length (NetOurEther s) = 6" and "length mac = 6"
  shows "NetSetIP dest dport sport (length p) s = (ip, s1) \<Longrightarrow>
    bootp_send io (NetSetEther mac PROT_IP s) ip p s2 = eth_send io (udp_frame mac dest dport sport p s) s2"
proof -
  assume ip: "NetSetIP dest dport sport (length p) s = (ip, s1)"
  have "length ip = 28" using ip ip_header_fields(1) by (auto simp: NetSetIP_def net16_def)
  moreover have "length (NetSetEther mac PROT_IP s) = 14" using assms by (simp add: NetSetEther_def net16_def)
  ultimately have "take (BOOTP_SIZE - BOOTP_HDR_SIZE + length p) (NetSetEther mac PROT_IP s @ ip @ p) = NetSetEther mac PROT_IP s @ ip @ p"
    by (intro take_all) (simp add: BOOTP_SIZE_def ETHER_HDR_SIZE_def IP_HDR_SIZE_def)
  then show ?thesis using ip by (simp add: bootp_send_def udp_frame_def)
qed

text \<open>A packet that is broadcast: the frame the driver keeps.\<close>

definition broadcast :: "u8 list \<Rightarrow> ('d, 'z) bpmach_scheme \<Rightarrow> u8 list" where
  "broadcast p s = udp_frame NetBcastAddr (-1) 67 68 p s"

text \<open>What a variable of the environment depends on.\<close>

definition env_view :: "('d, 'z) bpmach_scheme \<Rightarrow> (nat \<Rightarrow> u8) \<times> bool \<times> env_place \<times> bool \<times> (u32 \<Rightarrow> u8)" where
  "env_view s = (env_ram s, env_valid s, env_addr s, gd_reloc s, mem s)"

lemma env_view_str: "env_view s' = env_view s \<Longrightarrow> getenv_str C s' name = getenv_str C s name"
  by (rule getenv_str_same) (simp_all add: env_view_def)

lemma quiet_send: "quiet_driver io fr \<Longrightarrow> \<exists>d. eth_send io f s = s\<lparr>dev := d\<rparr> \<and> fr d = f # fr (dev s)"
  by (simp add: quiet_driver_def log_driver_def)

lemma quiet_time: "quiet_driver io fr \<Longrightarrow> \<exists>t d. net_time io s = (t, s\<lparr>dev := d\<rparr>) \<and> fr d = fr (dev s)"
  by (simp add: quiet_driver_def log_driver_def)

lemma quiet_timeout:
  assumes "quiet_driver io fr" and "iv \<noteq> 0"
  shows "\<exists>t d. NetSetTimeout io iv h s = s\<lparr>dev := d, timeHandler := Some h, timeStart := t, timeDelta := iv\<rparr> \<and> fr d = fr (dev s)"
proof -
  obtain t d where "net_time io s = (t, s\<lparr>dev := d\<rparr>)" "fr d = fr (dev s)" using quiet_time [OF assms(1)] by blast
  then show ?thesis using assms(2) by (intro exI [of _ t] exI [of _ d]) (simp add: NetSetTimeout_def)
qed

lemma DhcpSendRequestPkt_sends:
  assumes io: "quiet_driver io fr" and s: "board_ready s"
  shows "\<exists>d secs. DhcpSendRequestPkt io offer s = s\<lparr>NetIPID := NetIPID s + 1, dev := d\<rparr> \<and>
    fr d = broadcast (bootp_header (NetReadIP offer 4) secs (NetOurEther s) [] @
      DhcpExtended DHCP_REQUEST (NetDHCPServerIP s) (NetReadIP offer 16)) s # fr (dev s)"
proof -
  obtain t d where t: "net_time io s = (t, s\<lparr>dev := d\<rparr>)" "fr d = fr (dev s)" using quiet_time [OF io] by blast
  define p where "p = bootp_header (NetReadIP offer 4) (t div 1000) (NetOurEther s) [] @
      DhcpExtended DHCP_REQUEST (NetDHCPServerIP s) (NetReadIP offer 16)"
  obtain ip where ip: "NetSetIP (-1) 67 68 (length p) (s\<lparr>dev := d\<rparr>) = (ip, s\<lparr>dev := d, NetIPID := NetIPID s + 1\<rparr>)"
    by (simp add: NetSetIP_def)
  have "DhcpSendRequestPkt io offer s = bootp_send io (NetSetEther NetBcastAddr PROT_IP s) ip p (s\<lparr>dev := d, NetIPID := NetIPID s + 1\<rparr>)"
    using ip by (simp add: DhcpSendRequestPkt_def t Let_def p_def PORT_BOOTPS_def PORT_BOOTPC_def)
  also have "NetSetEther NetBcastAddr PROT_IP s = NetSetEther NetBcastAddr PROT_IP (s\<lparr>dev := d\<rparr>)" by (simp add: NetSetEther_def)
  also have "bootp_send io \<dots> ip p (s\<lparr>dev := d, NetIPID := NetIPID s + 1\<rparr>) =
      eth_send io (udp_frame NetBcastAddr (-1) 67 68 p (s\<lparr>dev := d\<rparr>)) (s\<lparr>dev := d, NetIPID := NetIPID s + 1\<rparr>)"
    by (rule bootp_send_untagged [OF _ _ _ ip]) (use s in \<open>auto simp: board_ready_def NetBcastAddr_def\<close>)
  also have "udp_frame NetBcastAddr (-1) 67 68 p (s\<lparr>dev := d\<rparr>) = broadcast p s"
    by (simp add: udp_frame_def broadcast_def NetSetEther_def NetSetIP_def)
  finally have "DhcpSendRequestPkt io offer s = eth_send io (broadcast p s) (s\<lparr>dev := d, NetIPID := NetIPID s + 1\<rparr>)" .
  moreover obtain d' where "eth_send io (broadcast p s) (s\<lparr>dev := d, NetIPID := NetIPID s + 1\<rparr>) = s\<lparr>NetIPID := NetIPID s + 1, dev := d'\<rparr>"
      "fr d' = broadcast p s # fr d"
    using quiet_send [OF io, of "broadcast p s" "s\<lparr>dev := d, NetIPID := NetIPID s + 1\<rparr>"] by auto
  ultimately show ?thesis using t(2) by (intro exI [of _ d'] exI [of _ "t div 1000"]) (simp add: p_def)
qed

text \<open>What a request changes, and the frame.\<close>

lemma BootpRequest_sends:
  assumes io: "quiet_driver io fr" and s: "board_ready s"
  shows "\<exists>d x secs st n. BootpRequest io s = s\<lparr>dhcp_state := SELECTING, BootpTry := BootpTry s + 1, outp := n, BootpID := x,
      NetIPID := NetIPID s + 1, timeHandler := Some Bootp_timeout, timeStart := st, timeDelta := SELECT_TIMEOUT,
      packetHandler := Dhcp_handler, dev := d\<rparr> \<and>
    fr d = broadcast (bootp_header x secs (NetOurEther s) (copy_filename (boot_file s) 128) @ DhcpExtended DHCP_DISCOVER 0 0) s # fr (dev s)"
proof -
  define s1 where "s1 = printf (line ''BOOTP broadcast %d'') [Num (BootpTry s + 1)] (s\<lparr>dhcp_state := INIT, BootpTry := BootpTry s + 1\<rparr>)"
  obtain t d1 where t: "net_time io s1 = (t, s1\<lparr>dev := d1\<rparr>)" "fr d1 = fr (dev s1)" using quiet_time [OF io] by blast
  obtain t2 d2 where t2: "net_time io (s1\<lparr>dev := d1\<rparr>) = (t2, s1\<lparr>dev := d2\<rparr>)" "fr d2 = fr d1"
    using quiet_time [OF io, of "s1\<lparr>dev := d1\<rparr>"] by auto
  define e where "e = NetOurEther s"
  define x where "x = htonl ((push_bit 24 (ucast (e ! 2)) OR push_bit 16 (ucast (e ! 3)) OR push_bit 8 (ucast (e ! 4)) OR ucast (e ! 5)) + t2)"
  define p where "p = bootp_header x (t div 1000) e (copy_filename (boot_file s) 128) @ DhcpExtended DHCP_DISCOVER 0 0"
  define s2 where "s2 = s1\<lparr>dev := d2, BootpID := x\<rparr>"
  obtain ip where ip: "NetSetIP (-1) 67 68 (length p) s2 = (ip, s2\<lparr>NetIPID := NetIPID s + 1\<rparr>)"
    by (simp add: NetSetIP_def s2_def s1_def printf_def)
  obtain st d3 where to: "NetSetTimeout io SELECT_TIMEOUT Bootp_timeout (s2\<lparr>NetIPID := NetIPID s + 1\<rparr>) =
      s2\<lparr>NetIPID := NetIPID s + 1, dev := d3, timeHandler := Some Bootp_timeout, timeStart := st, timeDelta := SELECT_TIMEOUT\<rparr>" "fr d3 = fr d2"
    using quiet_timeout [OF io, of SELECT_TIMEOUT Bootp_timeout "s2\<lparr>NetIPID := NetIPID s + 1\<rparr>"] by (auto simp: SELECT_TIMEOUT_def s2_def)
  define s3 where "s3 = s2\<lparr>NetIPID := NetIPID s + 1, dev := d3, timeHandler := Some Bootp_timeout, timeStart := st, timeDelta := SELECT_TIMEOUT,
      dhcp_state := SELECTING, packetHandler := Dhcp_handler\<rparr>"
  have "NetSetEther NetBcastAddr PROT_IP s1 = NetSetEther NetBcastAddr PROT_IP s2" by (simp add: s2_def NetSetEther_def)
  moreover have "bootp_send io (NetSetEther NetBcastAddr PROT_IP s2) ip p s3 = eth_send io (udp_frame NetBcastAddr (-1) 67 68 p s2) s3"
    by (rule bootp_send_untagged [OF _ _ _ ip]) (use s in \<open>auto simp: board_ready_def NetBcastAddr_def s2_def s1_def printf_def\<close>)
  moreover have "udp_frame NetBcastAddr (-1) 67 68 p s2 = broadcast p s"
    by (simp add: udp_frame_def broadcast_def NetSetEther_def NetSetIP_def s2_def s1_def printf_def)
  ultimately have "BootpRequest io s = eth_send io (broadcast p s) s3"
    using ip to(1) t t2
    by (simp add: BootpRequest_def Let_def s1_def [symmetric] PORT_BOOTPS_def PORT_BOOTPC_def NetSetHandler_def)
       (simp add: s1_def s2_def s3_def p_def x_def e_def printf_def)
  moreover obtain d where "eth_send io (broadcast p s) s3 = s3\<lparr>dev := d\<rparr>" "fr d = broadcast p s # fr (dev s3)"
    using quiet_send [OF io] by blast
  ultimately show ?thesis using t(2) t2(2) to(2)
    by (intro exI [of _ d] exI [of _ x] exI [of _ "t div 1000"] exI [of _ st] exI [of _ "outp s1"])
      (simp add: s3_def s2_def s1_def p_def e_def printf_def)
qed

section \<open>Where the address comes from\<close>

lemma core_state [core]:
  "dhcp_core (s\<lparr>dhcp_state := x\<rparr>) = (fst (dhcp_core s), x, snd (snd (dhcp_core s)))"
  "dhcp_core (s\<lparr>BootpID := y\<rparr>) = (fst (dhcp_core s), fst (snd (dhcp_core s)), y, snd (snd (snd (dhcp_core s))))"
  by (simp_all add: dhcp_core_def board_ready_def)

lemma core_bootp_send [core]: "quiet_driver io fr \<Longrightarrow> dhcp_core (bootp_send io eth ip p s) = dhcp_core s"
  by (simp add: bootp_send_def core)

lemma BootpRequest_core:
  assumes io: "quiet_driver io fr"
  shows "\<exists>x. dhcp_core (BootpRequest io s) = (fst (dhcp_core s), SELECTING, x, snd (snd (snd (dhcp_core s))))"
  by (auto simp: BootpRequest_def Let_def core core_bootp_send [OF io] core_NetSetTimeout [OF io]
      dest!: core_net_time [OF io] core_NetSetIP split: prod.split)

lemma DhcpSendRequestPkt_core:
  assumes io: "quiet_driver io fr"
  shows "dhcp_core (DhcpSendRequestPkt io bp s) = dhcp_core s"
  by (auto simp: DhcpSendRequestPkt_def Let_def core_bootp_send [OF io] dest!: core_NetSetIP core_net_time [OF io] split: prod.split)

text \<open>What may reach the client: a packet in a frame, or the end of its timer.\<close>

datatype dhcp_event = Arrive "u8 list" "u8 list" u32 u32 u32 | Timer

inductive dhcp_run :: "env_config \<Rightarrow> ('d, 'z) bpmach_scheme net_io \<Rightarrow> (('d, 'z) bpmach_scheme \<Rightarrow> ('d, 'z) bpmach_scheme option) \<Rightarrow>
    ('d, 'z) bpmach_scheme \<Rightarrow> dhcp_event list \<Rightarrow> ('d, 'z) bpmach_scheme \<Rightarrow> bool" for C io nfs s0 where
  Request: "dhcp_run C io nfs s0 [] (DhcpRequest io s0)"
| Receive: "dhcp_run C io nfs s0 evs s \<Longrightarrow> packetHandler s = Dhcp_handler \<Longrightarrow>
    DhcpHandler C io nfs frame pkt dest src len s = Some s' \<Longrightarrow> dhcp_run C io nfs s0 (evs @ [Arrive frame pkt dest src len]) s'"
| Timeout: "dhcp_run C io nfs s0 evs s \<Longrightarrow> timeHandler s = Some Bootp_timeout \<Longrightarrow>
    run_timeout io (\<lambda>h. BootpTimeout C io) s = Some s' \<Longrightarrow> dhcp_run C io nfs s0 (evs @ [Timer]) s'"

text \<open>
  A reply to the request with the number \<open>x\<close>, and a DHCPACK that gives the address \<open>ip\<close>: the first
  message type among the options behind the cookie is 5.
\<close>

fun answers :: "u32 \<Rightarrow> dhcp_event \<Rightarrow> bool" where
  "answers x (Arrive frame pkt dest src len) \<longleftrightarrow>
     dest = 68 \<and> src = 67 \<and> 236 \<le> len \<and> pkt ! 0 \<in> {1, 2, 5, 6} \<and> pkt ! 1 = 1 \<and> pkt ! 2 = 6 \<and> slice 4 4 pkt = ip_bytes x"
| "answers x Timer \<longleftrightarrow> False"

definition message_is :: "u8 \<Rightarrow> u8 list \<Rightarrow> bool" where
  "message_is t vend \<longleftrightarrow> (\<exists>opts l rest. vend = magic_cookie @ option_list opts @ 53 # l # t # rest \<and>
     (\<forall>x\<in>set opts. fst x \<notin> {53, 255} \<and> length (snd x) < 256))"

fun grants :: "u32 \<Rightarrow> dhcp_event \<Rightarrow> bool" where
  "grants ip (Arrive frame pkt dest src len) \<longleftrightarrow> slice 16 4 pkt = ip_bytes ip \<and> message_is 5 (drop 236 pkt)"
| "grants ip Timer \<longleftrightarrow> False"

text \<open>The last frame that was sent is a request with the number \<open>x\<close>, behind the headers of 42 bytes.\<close>

definition asked_with :: "u32 \<Rightarrow> u8 list list \<Rightarrow> bool" where
  "asked_with x fs \<longleftrightarrow> (\<exists>f before. fs = f # before \<and> slice 42 8 f = [1, 1, 6, 0] @ ip_bytes x)"

lemma slice_4: "k + 4 \<le> length p \<Longrightarrow> slice k 4 p = [p ! k, p ! (k + 1), p ! (k + 2), p ! (k + 3)]"
  by (rule nth_equalityI) (auto simp: slice_def less_Suc_eq nth_Cons' numeral_eq_Suc)

lemma ip_bytes_read:
  assumes "k + 4 \<le> length p"
  shows "slice k 4 p = ip_bytes (NetReadIP p k)"
proof -
  have "ip_bytes (NetReadIP p k) = [p ! k, p ! (k + 1), p ! (k + 2), p ! (k + 3)]"
    unfolding ip_bytes_def NetReadIP_def by (intro list.inject [THEN iffD2] conjI refl) (rule bit_word_eqI; auto simp: bit_simps dest: bit_imp_le_length; fail)+
  with slice_4 [OF assms] show ?thesis by simp
qed

lemma find_message_type_is:
  "find_message_type p = Some (uint t) \<Longrightarrow>
    \<exists>opts l rest. p = option_list opts @ 53 # l # t # rest \<and> (\<forall>x\<in>set opts. fst x \<notin> {53, 255} \<and> length (snd x) < 256)"
proof (induction p rule: find_message_type.induct)
  case (2 c p)
  consider "c = 0xFF" | "c = 53" | "c \<noteq> 0xFF" "c \<noteq> 53" by blast
  then show ?case
  proof cases
    case 1
    then have "uint t = -1" using 2(2) by simp
    then show ?thesis using uint_ge_0 [of t] by linarith
  next
    case 2
    then obtain l t' rest where p: "p = l # t' # rest" "uint t' = uint t" using \<open>find_message_type (c # p) = _\<close> by (auto split: list.splits)
    then have "t' = t" by (metis word_of_int_uint)
    then show ?thesis using 2 p(1) by (intro exI [of _ "[]"]) simp
  next
    case 3
    then obtain l v where p: "p = l # v" "find_message_type (drop (unat l) v) = Some (uint t)" using 2(2) by (auto split: list.splits)
    then obtain opts l' rest where d: "drop (unat l) v = option_list opts @ 53 # l' # t # rest"
      "\<forall>x\<in>set opts. fst x \<notin> {53, 255} \<and> length (snd x) < 256"
      using 2(1) [OF _ _ p(1)] 3 by auto
    have len: "length (take (unat l) v) = unat l" using d(1) by (cases "unat l \<le> length v") auto
    have "p = of_nat (length (take (unat l) v)) # take (unat l) v @ drop (unat l) v" unfolding len by (simp add: p(1))
    then have "c # p = option_list ((c, take (unat l) v) # opts) @ 53 # l' # t # rest" by (simp add: d(1))
    moreover have "unat l < 256" using unat_u8_less [of l] by simp
    ultimately show ?thesis using d(2) 3 len by (intro exI [of _ "(c, take (unat l) v) # opts"] exI [of _ l'] exI [of _ rest]) auto
  qed
qed simp

lemma message_type_is:
  assumes "DhcpMessageType vend = Some (uint t)"
  shows "message_is t vend"
proof -
  have "uint t \<noteq> -1" using uint_ge_0 [of t] by linarith
  then have v: "4 \<le> length vend" "NetReadIP vend 0 = htonl BOOTP_VENDOR_MAGIC" "find_message_type (drop 4 vend) = Some (uint t)"
    using assms by (auto simp: DhcpMessageType_def split: if_splits)
  have "take 4 vend = ip_bytes (htonl BOOTP_VENDOR_MAGIC)"
    using ip_bytes_read [of 0 vend] v by (simp add: slice_def)
  also have "\<dots> = magic_cookie" by (simp add: ip_bytes_def BOOTP_VENDOR_MAGIC_def htonl_def magic_cookie_def)
  finally have "vend = magic_cookie @ drop 4 vend" by (metis append_take_drop_id)
  then show ?thesis using find_message_type_is [OF v(3)] unfolding message_is_def by metis
qed

lemma BootpCheckPkt_answers: "BootpCheckPkt pkt dest src len s = Some 0 \<Longrightarrow> answers (BootpID s) (Arrive frame pkt dest src len)"
  using ip_bytes_read [of 4 pkt]
  by (auto simp: BootpCheckPkt_def PORT_BOOTPC_def PORT_BOOTPS_def BOOTP_HDR_SIZE_def OPT_SIZE_def OP_BOOTREQUEST_def OP_BOOTREPLY_def
      DHCP_OFFER_def DHCP_ACK_def DHCP_NAK_def HWT_ETHER_def HWL_ETHER_def not_less split: if_splits)

lemma broadcast_asks:
  assumes "board_ready s" and "fs = broadcast (bootp_header x secs e f @ ext) s # gs"
  shows "asked_with x fs"
proof -
  obtain ip s1 where ip: "NetSetIP (-1) 67 68 (length (bootp_header x secs e f @ ext)) s = (ip, s1)" by fastforce
  then have "length ip = 28" using ip_header_fields(1) by (auto simp: NetSetIP_def net16_def)
  moreover have "length (NetSetEther NetBcastAddr PROT_IP s) = 14" using assms(1) by (simp add: board_ready_def NetSetEther_def net16_def NetBcastAddr_def)
  ultimately show ?thesis
    using assms(2) ip by (simp add: asked_with_def broadcast_def udp_frame_def slice_def bootp_header_def ip_bytes_list
        OP_BOOTREQUEST_def HWT_ETHER_def HWL_ETHER_def)
qed

lemma core_eq: "dhcp_core s = (a, b, c, d) \<longleftrightarrow> NetOurIP s = a \<and> dhcp_state s = b \<and> BootpID s = c \<and> board_ready s = d"
  by (simp add: dhcp_core_def)

definition nfs_leaves :: "(('d, 'z) bpmach_scheme \<Rightarrow> ('d, 'z) bpmach_scheme option) \<Rightarrow> bool" where
  "nfs_leaves nfs \<longleftrightarrow> (\<forall>s s'. nfs s = Some s' \<longrightarrow> NetOurIP s' = NetOurIP s \<and> dhcp_state s' = dhcp_state s \<and> BootpID s' = BootpID s \<and>
     NetOurEther s' = NetOurEther s \<and> NetOurVLAN s' = NetOurVLAN s)"

lemma core_dhcp_autoload:
  assumes "quiet_driver io fr" and "nfs_leaves nfs" and "dhcp_autoload C io nfs s = Some s'"
  shows "dhcp_core s' = dhcp_core s"
proof -
  have "nfs s = Some s' \<Longrightarrow> dhcp_core s' = dhcp_core s" using assms(2) by (auto simp: nfs_leaves_def dhcp_core_def board_ready_def)
  then show ?thesis
    using assms(3) core_TftpStart [OF assms(1), of s s'] by (auto simp: dhcp_autoload_def core split: bind_splits option.splits if_splits)
qed

lemma DhcpMessageType_length: "DhcpMessageType v = Some t \<Longrightarrow> 4 \<le> length v"
  by (auto simp: DhcpMessageType_def split: if_splits)

lemma frames_NetSetTimeout: "quiet_driver io fr \<Longrightarrow> fr (dev (NetSetTimeout io iv h s)) = fr (dev s)"
  using quiet_time [of io fr s] by (auto simp: NetSetTimeout_def)

lemma frames_NetStartAgain:
  "quiet_driver io fr \<Longrightarrow> silent_halt io fr \<Longrightarrow> NetStartAgain C io s = Some s' \<Longrightarrow> fr (dev s') = fr (dev s)"
  by (auto simp: NetStartAgain_def NetSetHandler_def frames_NetSetTimeout silent_halt_def split: bind_splits if_splits)

lemma BootpRequest_asks:
  assumes "quiet_driver io fr" and "board_ready s"
  shows "asked_with (BootpID (BootpRequest io s)) (fr (dev (BootpRequest io s)))"
proof -
  obtain d x secs st n where b: "BootpRequest io s = s\<lparr>dhcp_state := SELECTING, BootpTry := BootpTry s + 1, outp := n, BootpID := x,
      NetIPID := NetIPID s + 1, timeHandler := Some Bootp_timeout, timeStart := st, timeDelta := SELECT_TIMEOUT,
      packetHandler := Dhcp_handler, dev := d\<rparr>"
    "fr d = broadcast (bootp_header x secs (NetOurEther s) (copy_filename (boot_file s) 128) @ DhcpExtended DHCP_DISCOVER 0 0) s # fr (dev s)"
    using BootpRequest_sends [OF assms] by blast
  show ?thesis using broadcast_asks [OF assms(2) b(2)] by (simp add: b(1))
qed

text \<open>A packet leaves the client as it is, is taken for an offer, or binds the address.\<close>

lemma DhcpHandler_cases:
  assumes io: "quiet_driver io fr" "nfs_leaves nfs" and "DhcpHandler C io nfs frame pkt dest src len s = Some s'"
  obtains (Ignored) "dhcp_core s' = dhcp_core s" "dhcp_state s \<in> {SELECTING, REQUESTING} \<longrightarrow> s' = s"
  | (Offer) "answers (BootpID s) (Arrive frame pkt dest src len)" "dhcp_state s = SELECTING"
      "dhcp_core s' = (NetOurIP s, REQUESTING, BootpID s, board_ready s)" "board_ready s \<longrightarrow> asked_with (BootpID s) (fr (dev s'))"
  | (Ack) "answers (BootpID s) (Arrive frame pkt dest src len)" "dhcp_state s = REQUESTING"
      "grants (NetReadIP pkt 16) (Arrive frame pkt dest src len)" "dhcp_core s' = (NetReadIP pkt 16, BOUND, BootpID s, board_ready s)"
proof -
  obtain r where r: "BootpCheckPkt pkt dest src len s = Some r" using assms(3) by (auto simp: DhcpHandler_def split: bind_splits)
  show ?thesis
  proof (cases "r = 0")
    case False
    then show ?thesis using assms(3) r by (intro Ignored) (simp_all add: DhcpHandler_def)
  next
    case True
    then have acc: "answers (BootpID s) (Arrive frame pkt dest src len)" using r BootpCheckPkt_answers by blast
    have num: "NetReadIP pkt 4 = BootpID s" using r True by (auto simp: BootpCheckPkt_def split: if_splits)
    consider "dhcp_state s = SELECTING" | "dhcp_state s = REQUESTING" | "dhcp_state s \<notin> {SELECTING, REQUESTING}" by blast
    then show ?thesis
    proof cases
      case 1
      then obtain bp s1 where s1: "take_options pkt (s\<lparr>dhcp_state := REQUESTING\<rparr>) = Some (bp, s1)"
          "s' = DhcpSendRequestPkt io bp (NetSetTimeout io BOOTP_TIMEOUT Bootp_timeout s1)" "240 \<le> length pkt"
        using assms(3) r True by (auto simp: DhcpHandler_def split: bind_splits if_splits)
      define s2 where "s2 = NetSetTimeout io BOOTP_TIMEOUT Bootp_timeout s1"
      have core: "dhcp_core s2 = (NetOurIP s, REQUESTING, BootpID s, board_ready s)"
        using take_options_core(1) [OF s1(1)] core_NetSetTimeout [OF io(1)]
        by (simp add: core s2_def) (simp add: dhcp_core_def)
      have "dhcp_core s' = (NetOurIP s, REQUESTING, BootpID s, board_ready s)"
        using core DhcpSendRequestPkt_core [OF io(1), of bp s2] s1(2) by (simp add: s2_def)
      moreover have "asked_with (BootpID s) (fr (dev s'))" if "board_ready s"
      proof -
        have b: "board_ready s2" using core that by (simp add: core_eq)
        have "NetReadIP bp 4 = BootpID s" using take_options_core(3) [OF s1(1)] s1(3) num by simp
        then obtain d secs where "s' = s2\<lparr>NetIPID := NetIPID s2 + 1, dev := d\<rparr>"
          "fr d = broadcast (bootp_header (BootpID s) secs (NetOurEther s2) [] @
            DhcpExtended DHCP_REQUEST (NetDHCPServerIP s2) (NetReadIP bp 16)) s2 # fr (dev s2)"
          using DhcpSendRequestPkt_sends [OF io(1) b, of bp] s1(2) by (auto simp: s2_def)
        then show ?thesis using broadcast_asks [OF b] by auto
      qed
      ultimately show ?thesis by (intro Offer [OF acc 1]) blast+
    next
      case 2
      obtain m where m: "DhcpMessageType (drop 236 pkt) = Some m"
        using assms(3) r True 2 by (auto simp: DhcpHandler_def split: bind_splits)
      show ?thesis
      proof (cases "m = uint DHCP_ACK")
        case ack: True
        then obtain s1 where s1: "dhcp_bind C io frame pkt s = Some s1" "dhcp_autoload C io nfs s1 = Some s'"
          using assms(3) r True 2 m by (auto simp: DhcpHandler_def split: bind_splits)
        have len: "120 \<le> length pkt" using DhcpMessageType_length [OF m] by simp
        then have "dhcp_core s' = (NetReadIP pkt 16, BOUND, BootpID s, board_ready s)"
          using core_dhcp_autoload [OF io s1(2)] dhcp_bind_core [OF s1(1)] by simp
        moreover have "grants (NetReadIP pkt 16) (Arrive frame pkt dest src len)"
          using message_type_is [of "drop 236 pkt" DHCP_ACK] m ack ip_bytes_read [of 16 pkt] len by (simp add: DHCP_ACK_def)
        ultimately show ?thesis by (intro Ack [OF acc 2]) simp_all
      next
        case False
        then show ?thesis using assms(3) r True 2 m by (intro Ignored) (simp_all add: DhcpHandler_def)
      qed
    next
      case 3
      then show ?thesis using assms(3) r True by (intro Ignored) (auto simp: DhcpHandler_def core split: dhcp_state_t.splits)
    qed
  qed
qed

text \<open>
  The events up to now contain an acknowledgement of the address, which came while the client was
  requesting, with the number in the last frame the client had sent, and in front of it another
  answer with this number, the offer.
\<close>

definition acked :: "env_config \<Rightarrow> ('d, 'z) bpmach_scheme net_io \<Rightarrow> (('d, 'z) bpmach_scheme \<Rightarrow> ('d, 'z) bpmach_scheme option) \<Rightarrow>
    ('d \<Rightarrow> u8 list list) \<Rightarrow> ('d, 'z) bpmach_scheme \<Rightarrow> dhcp_event list \<Rightarrow> u32 \<Rightarrow> bool" where
  "acked C io nfs frames s0 evs ip \<longleftrightarrow> (\<exists>before ack after t x. evs = before @ ack # after \<and> dhcp_run C io nfs s0 before t \<and>
     dhcp_state t = REQUESTING \<and> asked_with x (frames (dev t)) \<and> answers x ack \<and> grants ip ack \<and> (\<exists>e\<in>set before. answers x e))"

lemma acked_later: "acked C io nfs fr s0 evs ip \<Longrightarrow> acked C io nfs fr s0 (evs @ [e]) ip"
  unfolding acked_def by (metis append_Cons append_assoc)

lemma acked_now:
  "dhcp_run C io nfs s0 evs t \<Longrightarrow> dhcp_state t = REQUESTING \<Longrightarrow> asked_with x (fr (dev t)) \<Longrightarrow> answers x e \<Longrightarrow> grants ip e \<Longrightarrow>
    \<exists>e\<in>set evs. answers x e \<Longrightarrow> acked C io nfs fr s0 (evs @ [e]) ip"
  unfolding acked_def by (intro exI [of _ evs] exI [of _ e] exI [of _ "[]"] exI [of _ t] exI [of _ x]) simp

lemma BootpTimeout_core:
  assumes io: "quiet_driver io fr" "silent_halt io fr" and "board_ready r" and "BootpTimeout C io r = Some s'"
  shows "dhcp_core s' = dhcp_core r \<and> fr (dev s') = fr (dev r) \<or>
    (\<exists>x. dhcp_core s' = (NetOurIP r, SELECTING, x, True) \<and> asked_with x (fr (dev s')))"
proof (cases "sint BOOTP_TIMEOUT_COUNT \<le> sint (BootpTry r)")
  case True
  then have "NetStartAgain C io (printf (CHR 0x0A # line ''Retry count exceeded; starting again'') [] r) = Some s'"
    using assms(4) by (simp add: BootpTimeout_def)
  from core_NetStartAgain [OF io(1) this] frames_NetStartAgain [OF io this] show ?thesis by (simp add: core)
next
  case False
  define q where "q = NetSetTimeout io BOOTP_TIMEOUT Bootp_timeout r"
  have s': "s' = BootpRequest io q" using assms(4) False by (simp add: BootpTimeout_def q_def)
  have q: "dhcp_core q = dhcp_core r" unfolding q_def by (rule core_NetSetTimeout [OF io(1)])
  then have "board_ready q" "NetOurIP q = NetOurIP r" using assms(3) by (simp_all add: dhcp_core_def)
  moreover obtain x where x: "dhcp_core (BootpRequest io q) = (fst (dhcp_core q), SELECTING, x, snd (snd (snd (dhcp_core q))))"
    using BootpRequest_core [OF io(1)] by blast
  moreover have "BootpID (BootpRequest io q) = x" using x by (simp add: core_eq)
  ultimately show ?thesis
    using BootpRequest_asks [OF io(1), of q] by (intro disjI2 exI [of _ x]) (simp add: s', simp add: dhcp_core_def)
qed

lemma run_timeout_core:
  assumes io: "quiet_driver io fr" "silent_halt io fr" and s: "board_ready s" and "run_timeout io (\<lambda>h. BootpTimeout C io) s = Some s'"
  shows "dhcp_core s' = dhcp_core s \<and> fr (dev s') = fr (dev s) \<or>
    (\<exists>x. dhcp_core s' = (NetOurIP s, SELECTING, x, True) \<and> asked_with x (fr (dev s')))"
proof -
  obtain t d where t: "net_time io s = (t, s\<lparr>dev := d\<rparr>)" "fr d = fr (dev s)" using quiet_time [OF io(1)] by blast
  have keep: "dhcp_core (s\<lparr>dev := d, timeHandler := None\<rparr>) = dhcp_core s" "dhcp_core (s\<lparr>dev := d\<rparr>) = dhcp_core s"
    by (simp_all add: dhcp_core_def board_ready_def)
  then have "board_ready (s\<lparr>dev := d, timeHandler := None\<rparr>)" using s by (simp add: dhcp_core_def)
  from BootpTimeout_core [OF io this, of C s'] show ?thesis
    using assms(4) t keep by (auto simp: run_timeout_def split: option.splits if_splits)
qed

lemma dhcp_run_acked:
  assumes io: "quiet_driver io fr" "silent_halt io fr" "nfs_leaves nfs" and "NetOurIP s0 = 0" and "board_ready s0" and "dhcp_run C io nfs s0 evs s"
  shows "board_ready s \<and> (dhcp_state s \<in> {SELECTING, REQUESTING} \<longrightarrow> asked_with (BootpID s) (fr (dev s))) \<and>
    (dhcp_state s = REQUESTING \<longrightarrow> (\<exists>e\<in>set evs. answers (BootpID s) e)) \<and> (NetOurIP s = 0 \<or> acked C io nfs fr s0 evs (NetOurIP s))"
  using assms(6)
proof (induction rule: dhcp_run.induct)
  case Request
  obtain x where "dhcp_core (BootpRequest io s0) = (fst (dhcp_core s0), SELECTING, x, snd (snd (snd (dhcp_core s0))))"
    using BootpRequest_core [OF io(1)] by blast
  then show ?case using assms(4,5) BootpRequest_asks [OF io(1) assms(5)] by (simp add: DhcpRequest_def core_eq) (simp add: dhcp_core_def)
next
  case (Receive evs s frame pkt dest src len s')
  let ?e = "Arrive frame pkt dest src len"
  note later = acked_later [of C io nfs fr s0 evs "NetOurIP s" ?e]
  show ?case
  proof (rule DhcpHandler_cases [OF io(1,3) Receive.hyps(3)])
    assume a: "dhcp_core s' = dhcp_core s" "dhcp_state s \<in> {SELECTING, REQUESTING} \<longrightarrow> s' = s"
    then have "NetOurIP s' = NetOurIP s" "dhcp_state s' = dhcp_state s" "BootpID s' = BootpID s" "board_ready s' = board_ready s"
      by (simp_all add: dhcp_core_def)
    then show ?thesis using Receive.IH later a(2) by auto
  next
    assume a: "answers (BootpID s) ?e" "dhcp_core s' = (NetOurIP s, REQUESTING, BootpID s, board_ready s)"
      "board_ready s \<longrightarrow> asked_with (BootpID s) (fr (dev s'))"
    then show ?thesis using Receive.IH later by (auto simp: core_eq simp del: answers.simps)
  next
    assume a: "answers (BootpID s) ?e" "dhcp_state s = REQUESTING" "grants (NetReadIP pkt 16) ?e"
      "dhcp_core s' = (NetReadIP pkt 16, BOUND, BootpID s, board_ready s)"
    have "asked_with (BootpID s) (fr (dev s))" "\<exists>e\<in>set evs. answers (BootpID s) e" using Receive.IH a(2) by auto
    from acked_now [where fr = fr, OF Receive.hyps(1) a(2) this(1) a(1,3) this(2)] show ?thesis
      using a(4) Receive.IH by (simp add: core_eq)
  qed
next
  case (Timeout evs s s')
  note later = acked_later [of C io nfs fr s0 evs "NetOurIP s" Timer]
  have "board_ready s" using Timeout.IH by blast
  from run_timeout_core [OF io(1,2) this Timeout.hyps(3)] show ?case
  proof
    assume a: "dhcp_core s' = dhcp_core s \<and> fr (dev s') = fr (dev s)"
    then have "NetOurIP s' = NetOurIP s" "dhcp_state s' = dhcp_state s" "BootpID s' = BootpID s" "board_ready s' = board_ready s"
      by (simp_all add: dhcp_core_def)
    then show ?thesis using Timeout.IH later a by auto
  next
    assume "\<exists>x. dhcp_core s' = (NetOurIP s, SELECTING, x, True) \<and> asked_with x (fr (dev s'))"
    then show ?thesis using Timeout.IH later by (auto simp: core_eq)
  qed
qed

text \<open>
  C5: whatever UDP packets are handed to the client, in whatever order and however often its timer ends, an
  address it has is the one in a packet of the event list that was a DHCPACK by the format of the
  options, from port 67 to port 68, and had the number of the last request: the number in the last
  frame the client had sent until then. It came while the client was requesting, and another answer
  with this number, which the client took for the offer, came before. The board sends without VLAN
  tags, the driver sends nothing while it is halted, and \<open>nfs\<close>, which is not modelled, leaves the
  address and the state of the client alone.
\<close>
theorem address_from_ack:
  assumes "quiet_driver io frames" and "silent_halt io frames" and "nfs_leaves nfs" and "NetOurIP s0 = 0" and "board_ready s0"
    and "dhcp_run C io nfs s0 evs s" and "NetOurIP s \<noteq> 0"
  shows "acked C io nfs frames s0 evs (NetOurIP s)"
  using dhcp_run_acked [OF assms(1-6)] assms(7) by blast

text \<open>
  C39: an acknowledgement without message type whose options are zero to their end makes the search for
  the type run out of every buffer, whatever its size.
\<close>
theorem message_type_runs_away:
  assumes "dhcp_state s = REQUESTING" and "length front = 228" and "236 \<le> len"
  shows "DhcpHandler C io nfs frame ([OP_BOOTREPLY, HWT_ETHER, HWL_ETHER, 0] @ ip_bytes (BootpID s) @ front @ magic_cookie @ replicate k 0)
    PORT_BOOTPC PORT_BOOTPS len s = None"
proof -
  have zeros: "find_message_type (replicate n 0) = None" for n by (induction n rule: induct_nat_012) simp_all
  define p where "p = [OP_BOOTREPLY, HWT_ETHER, HWL_ETHER, 0] @ ip_bytes (BootpID s) @ front @ magic_cookie @ replicate k 0"
  have "\<not> len < 236" using assms(3) by simp
  then have "BootpCheckPkt p PORT_BOOTPC PORT_BOOTPS len s = Some 0"
    by (simp add: BootpCheckPkt_def BOOTP_HDR_SIZE_def ip_bytes_list p_def)
  moreover have "drop 236 p = magic_cookie @ replicate k 0" using assms(2) by (simp add: ip_bytes_list p_def)
  then have "DhcpMessageType (drop 236 p) = None"
    by (simp only: DhcpMessageType_def magic_cookie_read) (simp add: magic_cookie_read(2) zeros)
  ultimately show ?thesis using assms(1) unfolding p_def [symmetric] by (simp add: DhcpHandler_def)
qed

section \<open>An exchange with a server\<close>

text \<open>A reply: its number, the address it offers, the server, what the client does not read, the boot file and the options.\<close>

definition dhcp_reply :: "u32 \<Rightarrow> u32 \<Rightarrow> u32 \<Rightarrow> u8 list \<Rightarrow> u8 list \<Rightarrow> (u8 \<times> u8 list) list \<Rightarrow> u8 list \<Rightarrow> u8 list" where
  "dhcp_reply ident yi si skip bf opts rest =
     [OP_BOOTREPLY, HWT_ETHER, HWL_ETHER, 0] @ ip_bytes ident @ replicate 8 0 @ ip_bytes yi @ ip_bytes si @ skip @ bf
       @ magic_cookie @ option_list opts @ 0xFF # rest"

definition proper_reply :: "u8 list \<Rightarrow> u8 list \<Rightarrow> (u8 \<times> u8 list) list \<Rightarrow> bool" where
  "proper_reply skip bf opts \<longleftrightarrow> length skip = 84 \<and> length bf = 128 \<and> (\<forall>x\<in>set opts. proper_option x) \<and> length (option_list opts) \<le> 548"

definition reply_front :: "u32 \<Rightarrow> u32 \<Rightarrow> u32 \<Rightarrow> u8 list \<Rightarrow> u8 list \<Rightarrow> u8 list" where
  "reply_front ident yi si skip bf = [OP_BOOTREPLY, HWT_ETHER, HWL_ETHER, 0] @ ip_bytes ident @ replicate 8 0 @ ip_bytes yi @ ip_bytes si @ skip @ bf"

lemma reply_fields:
  assumes "proper_reply skip bf opts" and p: "p = dhcp_reply ident yi si skip bf opts rest"
  shows "p = reply_front ident yi si skip bf @ magic_cookie @ option_list opts @ 0xFF # rest"
    and "length (reply_front ident yi si skip bf) = 236" and "slice 108 128 (reply_front ident yi si skip bf) = bf" and "240 \<le> length p"
    and "NetReadIP p 4 = ident" and "NetReadIP p 16 = yi" and "NetReadIP p 20 = si" and "drop 236 p = magic_cookie @ option_list opts @ 0xFF # rest"
    and "slice 108 128 p = bf"
proof -
  show 1: "p = reply_front ident yi si skip bf @ magic_cookie @ option_list opts @ 0xFF # rest"
    by (simp add: p dhcp_reply_def reply_front_def)
  have len: "length skip = 84" "length bf = 128" using assms(1) by (simp_all add: proper_reply_def)
  show 2: "length (reply_front ident yi si skip bf) = 236" by (simp add: reply_front_def ip_bytes_list len)
  show 3: "slice 108 128 (reply_front ident yi si skip bf) = bf" by (simp add: reply_front_def ip_bytes_list slice_def len)
  show "240 \<le> length p" using 1 2 magic_cookie_read(2) by simp
  show "NetReadIP p 4 = ident" by (simp add: p dhcp_reply_def)
  show "NetReadIP p 16 = yi"
    using NetReadIP_behind [of "[OP_BOOTREPLY, HWT_ETHER, HWL_ETHER, 0] @ ip_bytes ident @ replicate 8 0" 16]
    by (simp add: p dhcp_reply_def ip_bytes_list)
  show "NetReadIP p 20 = si"
    using NetReadIP_behind [of "[OP_BOOTREPLY, HWT_ETHER, HWL_ETHER, 0] @ ip_bytes ident @ replicate 8 0 @ ip_bytes yi" 20]
    by (simp add: p dhcp_reply_def ip_bytes_list)
  show "drop 236 p = magic_cookie @ option_list opts @ 0xFF # rest" using 2 by (simp add: 1)
  show "slice 108 128 p = bf" using 3 2 len by (simp add: 1 slice_def)
qed

lemma find_message_type_list:
  assumes "\<forall>x\<in>set opts. proper_option x" and "map_of opts 53 = Some (t # v)"
  shows "find_message_type (option_list opts @ rest) = Some (uint t)"
  using assms
proof (induction opts)
  case (Cons x xs)
  then have "unat (of_nat (length (snd x)) :: u8) = length (snd x)" "fst x \<noteq> 0xFF" by (auto simp: proper_option_def unat_of_nat)
  then show ?case using Cons by (cases x) (auto split: if_splits)
qed simp

lemma reply_checked:
  assumes "proper_reply skip bf opts" and p: "p = dhcp_reply (BootpID s) yi si skip bf opts rest" and "236 \<le> len"
  shows "BootpCheckPkt p PORT_BOOTPC PORT_BOOTPS len s = Some 0"
proof -
  have "p ! 0 = OP_BOOTREPLY" "p ! 1 = HWT_ETHER" "p ! 2 = HWL_ETHER" by (simp_all add: p dhcp_reply_def)
  moreover have "NetReadIP p 4 = BootpID s" "240 \<le> length p" using reply_fields(4,5) [OF assms(1) p] by simp_all
  moreover have "\<not> len < 236" using assms(3) by simp
  ultimately show ?thesis by (simp add: BootpCheckPkt_def BOOTP_HDR_SIZE_def)
qed

text \<open>The options of a reply are taken in; the packet keeps its other fields.\<close>

lemma reply_options:
  assumes "proper_reply skip bf opts" and p: "p = dhcp_reply ident yi si skip bf opts rest"
    and "length (NetOurHostName s) = 32" and "length (NetOurRootPath s) = 64"
  shows "\<exists>p' bf' s'. take_options p s = Some (p', s') \<and> options_taken opts bf s bf' s' \<and> NetReadIP p' 4 = ident \<and> NetReadIP p' 16 = yi \<and>
    NetReadIP p' 20 = si \<and> p' ! 108 = bf' ! 0"
proof -
  note f = reply_fields [OF assms(1) p]
  have "arrays_ok bf s" using assms by (simp add: arrays_ok_def proper_reply_def)
  then obtain bf' s' where o: "DhcpOptionsProcess 548 (option_list opts @ 0xFF # rest) (bf, s) = Some (bf', s')" "options_taken opts bf s bf' s'"
    using options_process [of opts 548 bf s rest] assms(1) by (auto simp: proper_reply_def)
  have d: "drop 240 p = option_list opts @ 0xFF # rest" "NetReadIP p 236 = htonl BOOTP_VENDOR_MAGIC"
    using f(2) magic_cookie_read NetReadIP_behind [OF f(2)] by (simp_all add: f(1) magic_cookie_def)
  have "take_options p s = Some (put_at 108 bf' p, s')" using o(1) d f(9) by (simp add: take_options_def BOOTP_HDR_SIZE_def OPT_SIZE_def)
  moreover have "put_at 108 bf' p ! i = p ! i" if "i < 108" for i using that f(4) by (simp add: put_at_def nth_append)
  then have "NetReadIP (put_at 108 bf' p) i = NetReadIP p i" if "i < 100" for i using that by (simp add: NetReadIP_def)
  moreover have "put_at 108 bf' p ! 108 = bf' ! 0"
    using o(2) f(4) by (simp add: options_taken_def arrays_ok_def put_at_def nth_append)
  ultimately show ?thesis using o(2) f(5-7) by auto
qed

text \<open>The state after the options, with the arrays and the console given names.\<close>

lemma options_takenE:
  assumes "options_taken opts bf s bf' s'"
  obtains t h r where "s' = s\<lparr>outp := t, NetOurSubnetMask := new_ip 1 opts (NetOurSubnetMask s), NetOurGatewayIP := new_ip 3 opts (NetOurGatewayIP s),
      NetOurDNSIP := new_ip 6 opts (NetOurDNSIP s), dhcp_leasetime := new_ip 51 opts (dhcp_leasetime s),
      NetDHCPServerIP := new_ip 54 opts (NetDHCPServerIP s), NetOurHostName := h, NetOurRootPath := r\<rparr>"
    and "length h = 32" and "length r = 64" and "length bf' = 128"
  using assms that [where t = "outp s'" and h = "NetOurHostName s'" and r = "NetOurRootPath s'"] unfolding options_taken_def arrays_ok_def by blast

text \<open>In the state \<open>SELECTING\<close> a reply is an offer; the answer asks its server for its address.\<close>

lemma offer_answered:
  assumes io: "quiet_driver io frames" and s: "board_ready s" "dhcp_state s = SELECTING" "length (NetOurHostName s) = 32" "length (NetOurRootPath s) = 64"
    and r: "proper_reply skip bf opts" and "236 \<le> len"
  shows "\<exists>s'. DhcpHandler C io nfs frame (dhcp_reply (BootpID s) yi si skip bf opts rest) PORT_BOOTPC PORT_BOOTPS len s = Some s' \<and>
    dhcp_core s' = (NetOurIP s, REQUESTING, BootpID s, True) \<and>
    (\<exists>secs. frames (dev s') = broadcast (bootp_header (BootpID s) secs (NetOurEther s) [] @
      DhcpExtended DHCP_REQUEST (new_ip 54 opts (NetDHCPServerIP s)) yi) s # frames (dev s)) \<and>
    timeHandler s' = Some Bootp_timeout \<and> packetHandler s' = packetHandler s \<and>
    length (NetOurHostName s') = 32 \<and> length (NetOurRootPath s') = 64 \<and> NetServerIP s' = NetServerIP s \<and>
    NetOurSubnetMask s' = new_ip 1 opts (NetOurSubnetMask s) \<and> NetOurGatewayIP s' = new_ip 3 opts (NetOurGatewayIP s) \<and>
    env_view s' = env_view s"
proof -
  define p where "p = dhcp_reply (BootpID s) yi si skip bf opts rest"
  note f = reply_fields [OF r p_def]
  define q where "q = s\<lparr>dhcp_state := REQUESTING\<rparr>"
  have q: "length (NetOurHostName q) = 32" "length (NetOurRootPath q) = 64" using s by (simp_all add: q_def)
  obtain p' bf' s1 where o: "take_options p q = Some (p', s1)" "options_taken opts bf q bf' s1" "NetReadIP p' 4 = BootpID s" "NetReadIP p' 16 = yi"
    using reply_options [OF r p_def q] by auto
  obtain t h rp where s1: "s1 = q\<lparr>outp := t, NetOurSubnetMask := new_ip 1 opts (NetOurSubnetMask q),
      NetOurGatewayIP := new_ip 3 opts (NetOurGatewayIP q), NetOurDNSIP := new_ip 6 opts (NetOurDNSIP q),
      dhcp_leasetime := new_ip 51 opts (dhcp_leasetime q), NetDHCPServerIP := new_ip 54 opts (NetDHCPServerIP q),
      NetOurHostName := h, NetOurRootPath := rp\<rparr>" and l: "length h = 32" "length rp = 64"
    by (rule options_takenE [OF o(2)])
  obtain st d where to: "NetSetTimeout io BOOTP_TIMEOUT Bootp_timeout s1 =
      s1\<lparr>dev := d, timeHandler := Some Bootp_timeout, timeStart := st, timeDelta := BOOTP_TIMEOUT\<rparr>" "frames d = frames (dev s1)"
    using quiet_timeout [OF io, of BOOTP_TIMEOUT Bootp_timeout s1] by (auto simp: BOOTP_TIMEOUT_def)
  define s2 where "s2 = s1\<lparr>dev := d, timeHandler := Some Bootp_timeout, timeStart := st, timeDelta := BOOTP_TIMEOUT\<rparr>"
  have "board_ready s2" using s(1) by (simp add: board_ready_def s2_def s1 q_def)
  then obtain d' secs where send: "DhcpSendRequestPkt io p' s2 = s2\<lparr>NetIPID := NetIPID s2 + 1, dev := d'\<rparr>"
      "frames d' = broadcast (bootp_header (BootpID s) secs (NetOurEther s2) [] @ DhcpExtended DHCP_REQUEST (NetDHCPServerIP s2) yi) s2 # frames (dev s2)"
    using DhcpSendRequestPkt_sends [OF io, of s2 p'] o(3,4) by auto
  have same: "broadcast q s2 = broadcast q s" for q
    by (simp add: broadcast_def udp_frame_def NetSetEther_def NetSetIP_def s2_def s1 q_def)
  have "DhcpHandler C io nfs frame p PORT_BOOTPC PORT_BOOTPS len s = Some (s2\<lparr>NetIPID := NetIPID s2 + 1, dev := d'\<rparr>)"
    using reply_checked [OF r p_def assms(7)] s(2) f(4) o(1) to(1) send(1) by (simp add: DhcpHandler_def s2_def q_def)
  moreover have "frames d' = broadcast (bootp_header (BootpID s) secs (NetOurEther s) [] @
      DhcpExtended DHCP_REQUEST (new_ip 54 opts (NetDHCPServerIP s)) yi) s # frames (dev s)"
    using send(2) to(2) unfolding same by (simp add: s2_def s1 q_def)
  ultimately show ?thesis unfolding p_def [symmetric]
    by (intro exI [of _ "s2\<lparr>NetIPID := NetIPID s2 + 1, dev := d'\<rparr>"] conjI exI [of _ secs]) (use s(1) in \<open>simp_all add: s2_def s1 q_def core_eq l env_view_def board_ready_def\<close>)
qed

text \<open>
  In the state \<open>REQUESTING\<close> an acknowledgement binds the address, when it has no boot file or the
  variable \<open>bootfile\<close> is defined.
\<close>

lemma ack_binds:
  assumes s: "dhcp_state s = REQUESTING" "length (NetOurHostName s) = 32" "length (NetOurRootPath s) = 64"
    and r: "proper_reply skip bf opts" and ack: "map_of opts 53 = Some (DHCP_ACK # v)" and bootfile: "new_file opts bf = [] \<or> getenv_str C s (asc ''bootfile'') = Some (Some b)" and "236 \<le> len"
  shows "\<exists>s'. DhcpHandler C io nfs frame (dhcp_reply (BootpID s) yi si skip bf opts rest) PORT_BOOTPC PORT_BOOTPS len s = dhcp_autoload C io nfs s' \<and>
    dhcp_core s' = (yi, BOUND, BootpID s, board_ready s) \<and> NetServerIP s' = (if si = 0 then NetServerIP s else si) \<and> NetServerEther s' = slice 6 6 frame \<and>
    NetOurSubnetMask s' = new_ip 1 opts (NetOurSubnetMask s) \<and> NetOurGatewayIP s' = new_ip 3 opts (NetOurGatewayIP s) \<and>
    env_view s' = env_view s"
proof -
  define p where "p = dhcp_reply (BootpID s) yi si skip bf opts rest"
  note f = reply_fields [OF r p_def]
  have "find_message_type (option_list opts @ 0xFF # rest) = Some (uint DHCP_ACK)"
    using find_message_type_list [OF _ ack] r by (simp add: proper_reply_def)
  then have m: "DhcpMessageType (drop 236 p) = Some (uint DHCP_ACK)"
    unfolding f(8) DhcpMessageType_def magic_cookie_read(1) by (simp add: magic_cookie_read(2))
  obtain p' bf' s1 where o: "take_options p s = Some (p', s1)" "options_taken opts bf s bf' s1"
      "NetReadIP p' 16 = yi" "NetReadIP p' 20 = si" "p' ! 108 = bf' ! 0"
    using reply_options [OF r p_def s(2,3)] by auto
  have no_file: "p' ! 108 = 0" if "new_file opts bf = []"
  proof -
    have "c_str bf' = []" "length bf' = 128" using o(2) that unfolding options_taken_def arrays_ok_def by auto
    then show ?thesis using o(5) by (cases bf') (auto simp: c_str_def split: if_splits)
  qed
  define s2 where "s2 = s1\<lparr>NetOurIP := yi, NetServerIP := (if si = 0 then NetServerIP s1 else si), NetServerEther := slice 6 6 frame, dhcp_state := BOUND\<rparr>"
  have copy: "BootpCopyNetParams C io frame p' s1 = Some (s1\<lparr>NetOurIP := yi, NetServerIP := (if si = 0 then NetServerIP s1 else si), NetServerEther := slice 6 6 frame\<rparr>)"
  proof (cases "p' ! 108 = 0")
    case True
    then show ?thesis using o(3,4) by (simp add: BootpCopyNetParams_def)
  next
    case False
    have "env_view s1 = env_view s" by (rule options_takenE [OF o(2)]) (simp add: env_view_def)
    then have "env_view (s1\<lparr>NetOurIP := yi, NetServerIP := ip, NetServerEther := slice 6 6 frame\<rparr>) = env_view s"
      and "env_view (s1\<lparr>NetOurIP := yi, NetServerEther := slice 6 6 frame\<rparr>) = env_view s" for ip by (simp_all add: env_view_def)
    note get = this [THEN env_view_str]
    have "getenv_str C s (asc ''bootfile'') = Some (Some b)" using bootfile no_file False by blast
    then show ?thesis using o(3,4) False by (simp add: BootpCopyNetParams_def get)
  qed
  obtain s3 where pr: "print_IPaddr yi (printf ''DHCP client bound to address '' [] s2) = Some s3" "wrote s2 s3"
    using print_IPaddr_wrote [OF wrote_printf [OF wrote_refl]] by blast
  have bind: "dhcp_bind C io frame p s = Some (putc 0x0A s3)"
    using o(1) copy pr(1) by (simp add: dhcp_bind_def s2_def)
  define u where "u = outp (putc 0x0A s3)"
  have s4: "putc 0x0A s3 = s2\<lparr>outp := u\<rparr>" using wrote_putc [OF pr(2)] by (simp add: wrote_def u_def)
  have "DhcpHandler C io nfs frame p PORT_BOOTPC PORT_BOOTPS len s = dhcp_autoload C io nfs (s2\<lparr>outp := u\<rparr>)"
    using reply_checked [OF r p_def assms(7)] s(1) m bind s4 by (simp add: DhcpHandler_def)
  moreover have "NetServerIP s1 = NetServerIP s" "BootpID s1 = BootpID s" "env_view s1 = env_view s"
    "NetOurEther s1 = NetOurEther s" "NetOurVLAN s1 = NetOurVLAN s"
    "NetOurSubnetMask s1 = new_ip 1 opts (NetOurSubnetMask s)" "NetOurGatewayIP s1 = new_ip 3 opts (NetOurGatewayIP s)"
    by (rule options_takenE [OF o(2)]; simp add: env_view_def)+
  ultimately show ?thesis unfolding p_def [symmetric]
    by (intro exI [of _ "s2\<lparr>outp := u\<rparr>"]) (simp add: s2_def core_eq env_view_def board_ready_def)
qed

text \<open>The variable \<open>autoload\<close>.\<close>

lemma autoload_cases:
  assumes "getenv_str C s (asc ''autoload'') = Some a"
  shows "dhcp_autoload C io nfs s =
    (case a of None \<Rightarrow> TftpStart io s
     | Some name \<Rightarrow> if take 1 name = asc ''n'' then Some (s\<lparr>NetState := NETLOOP_SUCCESS\<rparr>)
         else if name = asc ''NFS'' then nfs s else TftpStart io s)"
proof -
  have "peek v 0 = 0x6E \<longleftrightarrow> take 1 v = asc ''n''" for v :: "u8 list" by (cases v) (auto simp: peek_def asc_def)
  then show ?thesis using assms by (simp add: dhcp_autoload_def split: option.split)
qed

text \<open>What the client sends in an exchange.\<close>

definition discover_packet :: "u32 \<Rightarrow> u32 \<Rightarrow> ('d, 'z) bpmach_scheme \<Rightarrow> u8 list" where
  "discover_packet ident secs s =
     bootp_header ident secs (NetOurEther s) (copy_filename (boot_file s) 128) @ DhcpExtended DHCP_DISCOVER 0 0"

definition request_packet :: "u32 \<Rightarrow> u32 \<Rightarrow> u32 \<Rightarrow> u32 \<Rightarrow> ('d, 'z) bpmach_scheme \<Rightarrow> u8 list" where
  "request_packet ident secs server ip s = bootp_header ident secs (NetOurEther s) [] @ DhcpExtended DHCP_REQUEST server ip"

lemma discover_sent:
  assumes "quiet_driver io frames" and "board_ready s0" and s: "s = DhcpRequest io s0"
  shows "dhcp_core s = (NetOurIP s0, SELECTING, BootpID s, True)" and "board_ready s" and "packetHandler s = Dhcp_handler" and "timeHandler s = Some Bootp_timeout"
    and "\<exists>secs. frames (dev s) = broadcast (discover_packet (BootpID s) secs s0) s0 # frames (dev s0)"
    and "NetOurHostName s = NetOurHostName s0" and "NetOurRootPath s = NetOurRootPath s0" and "NetServerIP s = NetServerIP s0"
    and "NetOurSubnetMask s = NetOurSubnetMask s0" and "NetOurGatewayIP s = NetOurGatewayIP s0" and "NetDHCPServerIP s = NetDHCPServerIP s0"
    and "env_view s = env_view s0"
  using BootpRequest_sends [OF assms(1,2)] assms(2) by (auto simp: s DhcpRequest_def core_eq board_ready_def discover_packet_def env_view_def)


text \<open>
  In the state \<open>SELECTING\<close> the message type of a reply is not looked at: a refusal, whose options say
  DHCPNAK, is answered with a request for the address in it.
\<close>
theorem nak_taken_for_offer:
  assumes "quiet_driver io frames" and "board_ready s" and "dhcp_state s = SELECTING" and "length (NetOurHostName s) = 32" and "length (NetOurRootPath s) = 64"
    and "length skip = 84" and "length bf = 128" and "236 \<le> len"
  shows "\<exists>s' secs. DhcpHandler C io nfs frame (dhcp_reply (BootpID s) yi si skip bf [(53, [DHCP_NAK])] rest) PORT_BOOTPC PORT_BOOTPS len s = Some s' \<and>
    dhcp_state s' = REQUESTING \<and>
    frames (dev s') = broadcast (request_packet (BootpID s) secs (NetDHCPServerIP s) yi s) s # frames (dev s)"
proof -
  have "proper_reply skip bf [(53, [DHCP_NAK])]" using assms(6,7) by (simp add: proper_reply_def proper_option_def)
  from offer_answered [OF assms(1-5) this assms(8), of C nfs frame yi si rest] show ?thesis
    unfolding request_packet_def by (auto simp: core_eq new_ip_def last_option_def)
qed

section \<open>Bounds\<close>

lemma option_in_bounds:
  assumes "128 \<le> length v"
  shows "dhcp_option c l v fs \<noteq> None"
proof -
  obtain bf s where fs: "fs = (bf, s)" by fastforce
  have str: "\<exists>n s' str. truncate_sz name m l s = (n, s') \<and> copy_option n v arr = Some str" if "0 < m" "m \<le> 128"
    for name m s arr and s' :: "('a, 'b) bpmach_scheme"
  proof -
    note m = that
    have "min l (m - 1) \<le> length v" using m assms by linarith
    then have short: "\<not> length v < min l (m - 1)" by (rule leD)
    obtain t where t: "truncate_sz name m l s = (min l (m - 1), s\<lparr>outp := t\<rparr>)" using truncate_sz_eq [OF m(1)] by blast
    show ?thesis
      by (intro exI [of _ "min l (m - 1)"] exI [of _ "s\<lparr>outp := t\<rparr>"] exI conjI, rule t) (simp only: copy_option_def short if_False)
  qed
  have name: "copy_option n v (NetOurHostName s') \<noteq> None" if "truncate_sz ''Host Name'' 32 l s = (n, s')" for n s'
    using str [of 32 "''Host Name''" s "NetOurHostName s'"] that by auto
  have root: "copy_option n v (NetOurRootPath s') \<noteq> None" if "truncate_sz ''Root Path'' 64 l s = (n, s')" for n s'
    using str [of 64 "''Root Path''" s "NetOurRootPath s'"] that by auto
  have boot: "copy_option n v bf \<noteq> None" if "truncate_sz ''Opt Boot File'' 128 l s = (n, s')" for n s'
    using str [of 128 "''Opt Boot File''" s bf] that by auto
  have "option_ip v \<noteq> None" using assms by (simp add: option_ip_def)
  then show ?thesis
    by (auto simp: dhcp_option_def fs split: prod.split dest: name root boot)
qed

text \<open>An option may reach 128 bytes behind the place where the search ends, and no further.\<close>

lemma options_in_bounds: "n + 130 \<le> length p \<Longrightarrow> DhcpOptionsProcess n p fs \<noteq> None"
proof (induction n p fs rule: DhcpOptionsProcess.induct)
  case (1 n p fs)
  show ?case
  proof (cases "n = 0 \<or> hd p = 0xFF")
    case True
    then show ?thesis using 1(2) by (subst DhcpOptionsProcess.simps) (cases p, auto)
  next
    case False
    obtain c l v where p: "p = c # l # v" using 1(2) by (cases p rule: list.exhaust; cases "tl p") auto
    have "128 \<le> length v" using 1(2) False p by simp
    then obtain fs1 where o: "dhcp_option c (unat l) v fs = Some fs1" using option_in_bounds by blast
    have c: "c \<noteq> 0xFF" "n \<noteq> 0" using False p by simp_all
    have "DhcpOptionsProcess (n - (unat l + 2)) (drop (unat l) v) fs1 \<noteq> None"
    proof (cases "n - (unat l + 2) = 0")
      case True
      then show ?thesis by (subst DhcpOptionsProcess.simps) simp
    next
      case ne: False
      then show ?thesis using 1(1) [OF c(2) p c(1) refl o] 1(2) p by simp
    qed
    then show ?thesis unfolding p by (subst DhcpOptionsProcess.simps) (simp add: c o)
  qed
qed

text \<open>
  A reply in the state \<open>SELECTING\<close> is taken in without reading behind the end of its buffer, whatever
  it holds: 918 bytes behind the UDP header are enough, and the buffers have 1494.
\<close>
theorem offer_in_bounds:
  assumes "918 \<le> length pkt" and "dhcp_state s = SELECTING"
  shows "DhcpHandler C io nfs frame pkt dest src len s \<noteq> None"
proof -
  have "DhcpOptionsProcess 548 (drop 240 pkt) fs \<noteq> None" for fs :: "u8 list \<times> ('a, 'b) bpmach_scheme"
    by (rule options_in_bounds) (use assms in simp)
  from this [of "(slice 108 128 pkt, s\<lparr>dhcp_state := REQUESTING\<rparr>)"]
  have "\<exists>bp s1. take_options pkt (s\<lparr>dhcp_state := REQUESTING\<rparr>) = Some (bp, s1)"
    by (auto simp: take_options_def BOOTP_HDR_SIZE_def OPT_SIZE_def)
  then obtain bp s1 where "take_options pkt (s\<lparr>dhcp_state := REQUESTING\<rparr>) = Some (bp, s1)" by blast
  moreover have "BootpCheckPkt pkt dest src len s \<noteq> None" using assms by (auto simp: BootpCheckPkt_def)
  ultimately show ?thesis using assms by (auto simp: DhcpHandler_def)
qed

section \<open>Giving up\<close>

text \<open>The request and \<open>n\<close> ends of the timer without an answer.\<close>

primrec retries :: "env_config \<Rightarrow> ('d, 'z) bpmach_scheme net_io \<Rightarrow> nat \<Rightarrow> ('d, 'z) bpmach_scheme \<Rightarrow> ('d, 'z) bpmach_scheme option" where
  "retries C io 0 s = Some (DhcpRequest io s)"
| "retries C io (Suc n) s = do { s \<leftarrow> retries C io n s; BootpTimeout C io (s\<lparr>timeHandler := None\<rparr>) }"

lemma retries_send:
  assumes io: "quiet_driver io frames" and "board_ready s0" and "BootpTry s0 = 0" and "n < 5"
  shows "\<exists>s. retries C io n s0 = Some s \<and> board_ready s \<and> BootpTry s = of_nat (n + 1) \<and> dhcp_state s = SELECTING \<and>
    timeHandler s = Some Bootp_timeout \<and> length (frames (dev s)) = length (frames (dev s0)) + n + 1"
  using assms(4)
proof (induction n)
  case 0
  then show ?case using BootpRequest_sends [OF io assms(2)] assms(2,3) by (auto simp: DhcpRequest_def board_ready_def)
next
  case (Suc n)
  then obtain s where s: "retries C io n s0 = Some s" "board_ready s" "BootpTry s = of_nat (n + 1)"
      "length (frames (dev s)) = length (frames (dev s0)) + n + 1" by auto
  obtain st d where to: "NetSetTimeout io BOOTP_TIMEOUT Bootp_timeout (s\<lparr>timeHandler := None\<rparr>) =
      s\<lparr>dev := d, timeHandler := Some Bootp_timeout, timeStart := st, timeDelta := BOOTP_TIMEOUT\<rparr>" "frames d = frames (dev s)"
    using quiet_timeout [OF io, of BOOTP_TIMEOUT Bootp_timeout "s\<lparr>timeHandler := None\<rparr>"] by (auto simp: BOOTP_TIMEOUT_def)
  define q where "q = s\<lparr>dev := d, timeHandler := Some Bootp_timeout, timeStart := st, timeDelta := BOOTP_TIMEOUT\<rparr>"
  have q: "board_ready q" using s(2) by (simp add: q_def board_ready_def)
  have "n = 0 \<or> n = 1 \<or> n = 2 \<or> n = 3" using Suc.prems by linarith
  then have "sint (BootpTry s) < 5" using s(3) by auto
  then have "retries C io (Suc n) s0 = Some (BootpRequest io q)"
    using s(1) to(1) by (simp add: BootpTimeout_def BOOTP_TIMEOUT_COUNT_def q_def)
  then show ?case using BootpRequest_sends [OF io q] q s(3,4) to(2)
    by (auto simp: q_def board_ready_def)
qed

text \<open>
  C23: without an answer the client sends its request five times; the fifth end of its timer sends nothing,
  but starts the network again, or stops when \<open>netretry\<close> is \<open>no\<close>.
\<close>
theorem five_requests:
  assumes "quiet_driver io frames" and "board_ready s0" and "BootpTry s0 = 0"
  shows "\<exists>s. retries C io 4 s0 = Some s \<and> length (frames (dev s)) = length (frames (dev s0)) + 5 \<and>
    retries C io 5 s0 = NetStartAgain C io (printf (CHR 0x0A # line ''Retry count exceeded; starting again'') [] (s\<lparr>timeHandler := None\<rparr>))"
proof -
  obtain s where s: "retries C io 4 s0 = Some s" "BootpTry s = 5" "length (frames (dev s)) = length (frames (dev s0)) + 5"
    using retries_send [OF assms, of 4 C] by auto
  have "(5 :: nat) = Suc 4" by simp
  then have "retries C io 5 s0 = BootpTimeout C io (s\<lparr>timeHandler := None\<rparr>)" using s(1) by (simp only: retries.simps) simp
  then show ?thesis using s by (intro exI [of _ s]) (simp add: BootpTimeout_def BOOTP_TIMEOUT_COUNT_def)
qed

section \<open>The properties at a concrete board\<close>

text \<open>The board of \<open>Net\<close> before it has an address; its environment has \<open>autoload=n\<close>.\<close>

definition boot_env :: "nat \<Rightarrow> u8" where
  "boot_env i = (if i < 10 then asc ''autoload=n'' ! i else 0)"

definition dhcp_board :: "u8 list list bpmach" where
  "dhcp_board = tfmach.extend (tftp_board\<lparr>NetOurIP := 0, env_ram := boot_env\<rparr>)
     (bpmach.fields 0x1234 0 INIT 0 0 0 (replicate 32 0) (replicate 64 0))"

lemmas dhcp_board_defs = dhcp_board_def bpmach.defs small_board_defs

lemma sample_quiet: "quiet_driver (sample_net :: u8 list list bpmach net_io) (\<lambda>d. d)"
proof -
  have "\<exists>d. s = s\<lparr>dev := d\<rparr>" for s :: "u8 list list bpmach" by (rule exI [of _ "dev s"]) simp
  then show ?thesis by (simp add: quiet_driver_def log_driver_def sample_net_def)
qed

lemma dhcp_board_ready [simp]: "board_ready dhcp_board" "length (NetOurHostName dhcp_board) = 32" "length (NetOurRootPath dhcp_board) = 64"
  "BootpTry dhcp_board = 0" "NetOurIP dhcp_board = 0"
  by (simp_all add: board_ready_def dhcp_board_defs vlan_id_def ntohs_def VLAN_IDMASK_def VLAN_NONE_def)

lemma dhcp_board_env: "env_view dhcp_board = (boot_env, True, Env_ram, True, \<lambda>_. 0)"
  by (simp add: env_view_def dhcp_board_defs)

lemma getenv_end_run:
  "(\<And>j. i \<le> j \<Longrightarrow> j < n \<Longrightarrow> d j \<noteq> 0) \<Longrightarrow> d n = 0 \<Longrightarrow> i \<le> n \<Longrightarrow> n \<le> lim \<Longrightarrow> getenv_end d lim i = Some n"
proof (induction "n - i" arbitrary: i)
  case 0
  then show ?case by (subst getenv_end.simps) simp
next
  case (Suc k)
  then have "getenv_end d lim (i + 1) = Some n" by simp
  moreover have "d i \<noteq> 0" "i < lim" using Suc.prems Suc.hyps(2) by simp_all
  ultimately show ?case by (subst getenv_end.simps) simp
qed

lemma boot_env_autoload:
  assumes "env_view s = (boot_env, True, Env_ram, True, \<lambda>_. 0)"
  shows "getenv_str C s (asc ''autoload'') = Some (Some (asc ''n''))"
proof -
  have d: "env_get_char C s = boot_env"
    using assms by (auto simp: env_view_def env_get_char_def env_get_char_memory_def env_get_char_spec_def)
  have e: "boot_env 0 = 0x61" "boot_env (Suc 0) = 0x75" "boot_env 2 = 0x74" "boot_env 3 = 0x6F" "boot_env 4 = 0x6C" "boot_env 5 = 0x6F" "boot_env 6 = 0x61"
    "boot_env 7 = 0x64" "boot_env 8 = 0x3D" "boot_env 9 = 0x6E" "boot_env 10 = 0"
    by (simp_all add: boot_env_def asc_def)
  have "10 \<le> unat CONFIG_ENV_SIZE" by (simp add: CONFIG_ENV_SIZE_def)
  then have "getenv_end boot_env (unat CONFIG_ENV_SIZE) 0 = Some 10"
  proof (intro getenv_end_run)
    fix j :: nat
    assume "j < 10"
    then have "asc ''autoload=n'' ! j \<in> set (asc ''autoload=n'')" by (intro nth_mem) (simp add: asc_def)
    then show "boot_env j \<noteq> 0" using \<open>j < 10\<close> by (auto simp: boot_env_def asc_def)
  qed (simp_all add: e)
  moreover have "envmatch boot_env (asc ''autoload'') 0 = Some 9" by (simp add: asc_def boot_env_def)
  ultimately have "getenv C s (asc ''autoload'') = Some (Some 9)"
    unfolding getenv_def d by (subst getenv_find.simps) (simp add: e)
  moreover have "str_at boot_env 9 = Some [0x6E]" by (simp add: str_at.simps e)
  ultimately show ?thesis by (simp add: getenv_str_def d asc_def)
qed

text \<open>An offer of 10.0.0.20 by 10.0.0.2 and its acknowledgement.\<close>

definition offer_options :: "(u8 \<times> u8 list) list" where
  "offer_options = [(53, [DHCP_OFFER]), (1, [255, 255, 255, 0]), (54, [10, 0, 0, 2])]"

definition ack_options :: "(u8 \<times> u8 list) list" where
  "ack_options = [(53, [DHCP_ACK]), (1, [255, 255, 255, 0]), (3, [10, 0, 0, 1])]"

lemma sample_replies: "proper_reply (replicate 84 0) (replicate 128 0) offer_options" "proper_reply (replicate 84 0) (replicate 128 0) ack_options"
  "map_of ack_options 53 = Some (DHCP_ACK # [])" "new_file ack_options (replicate 128 0) = []"
  by (simp_all add: proper_reply_def proper_option_def offer_options_def ack_options_def new_file_def c_str_def)

theorem options_parsed_witness:
  "\<exists>bp s. take_options (replicate 236 0 @ magic_cookie @ option_list [(1, [255, 255, 255, 0]), (12, asc ''emev''), (1, [255, 255, 0, 0])] @ 0xFF # []) dhcp_board =
      Some (bp, s) \<and> NetOurSubnetMask s = 0xFFFF \<and> c_str (NetOurHostName s) = asc ''emev''"
proof -
  let ?o = "[(1, [255, 255, 255, 0]), (12, asc ''emev''), (1, [255, 255, 0, 0])] :: (u8 \<times> u8 list) list"
  have "length (replicate 236 0) = (236 :: nat)" "\<forall>x\<in>set ?o. proper_option x" "length (option_list ?o) \<le> 548"
    by (simp_all add: proper_option_def asc_def)
  from options_parsed [OF this dhcp_board_ready(2,3), of "[]"] obtain bf s where
    t: "take_options (replicate 236 0 @ magic_cookie @ option_list ?o @ 0xFF # []) dhcp_board =
      Some (put_at 108 bf (replicate 236 0 @ magic_cookie @ option_list ?o @ 0xFF # []), s)"
    and o: "options_taken ?o (slice 108 128 (replicate 236 0)) dhcp_board bf s" by auto
  have "NetOurSubnetMask s = new_ip 1 ?o (NetOurSubnetMask dhcp_board)" by (rule options_takenE [OF o]) simp
  then have "NetOurSubnetMask s = 0xFFFF" by (simp add: new_ip_def last_option_def NetReadIP_def)
  moreover have "c_str (NetOurHostName s) = new_str 12 32 ?o (NetOurHostName dhcp_board)" using o by (simp only: options_taken_def)
  then have "c_str (NetOurHostName s) = asc ''emev''" by (simp add: new_str_def last_option_def c_str_def asc_def)
  ultimately show ?thesis using t by blast
qed

theorem message_type_runs_away_witness:
  "DhcpHandler undefined sample_net Some [] ([OP_BOOTREPLY, HWT_ETHER, HWL_ETHER, 0] @ ip_bytes (BootpID (dhcp_board\<lparr>dhcp_state := REQUESTING\<rparr>))
      @ replicate 228 0 @ magic_cookie @ replicate 1254 0) PORT_BOOTPC PORT_BOOTPS 300 (dhcp_board\<lparr>dhcp_state := REQUESTING\<rparr>) = None"
  by (rule message_type_runs_away) simp_all


theorem nak_taken_for_offer_witness:
  "\<exists>s'. DhcpHandler undefined sample_net Some [] (dhcp_reply (BootpID (dhcp_board\<lparr>dhcp_state := SELECTING\<rparr>)) 0x1400000A 0 (replicate 84 0) (replicate 128 0)
      [(53, [DHCP_NAK])] []) PORT_BOOTPC PORT_BOOTPS 300 (dhcp_board\<lparr>dhcp_state := SELECTING\<rparr>) = Some s' \<and> dhcp_state s' = REQUESTING"
proof -
  have "board_ready (dhcp_board\<lparr>dhcp_state := SELECTING\<rparr>)" using dhcp_board_ready(1) by (simp add: board_ready_def)
  from nak_taken_for_offer [OF sample_quiet this, of "replicate 84 0" "replicate 128 0" 300 undefined Some "[]" "0x1400000A" 0 "[]"] show ?thesis by auto
qed

theorem offer_in_bounds_witness:
  "DhcpHandler undefined sample_net Some [] (replicate 1494 1) 68 67 1400 (dhcp_board\<lparr>dhcp_state := SELECTING\<rparr>) \<noteq> None"
  by (rule offer_in_bounds) simp_all

theorem five_requests_witness:
  "\<exists>s. retries undefined sample_net 4 dhcp_board = Some s \<and> length (dev s) = length (dev dhcp_board) + 5"
  using five_requests [OF sample_quiet dhcp_board_ready(1,4), of undefined] by blast

theorem address_from_ack_witness:
  "\<exists>evs s. dhcp_run undefined sample_net Some dhcp_board evs s \<and> NetOurIP s = 0x1400000A \<and>
    acked undefined sample_net Some (\<lambda>d. d) dhcp_board evs 0x1400000A"
proof -
  let ?s = "DhcpRequest sample_net dhcp_board" and ?ip = "0x1400000A :: u32" and ?z = "replicate 84 (0 :: u8)" and ?f = "replicate 128 (0 :: u8)"
  note d = discover_sent [OF sample_quiet dhcp_board_ready(1) refl]
  let ?offer = "dhcp_reply (BootpID ?s) ?ip 0 ?z ?f offer_options []" and ?ack = "dhcp_reply (BootpID ?s) ?ip 0 ?z ?f ack_options []"
  have st: "dhcp_state ?s = SELECTING" "length (NetOurHostName ?s) = 32" "length (NetOurRootPath ?s) = 64"
    using d(1,6,7) by (simp_all add: core_eq)
  obtain s1 where 1: "DhcpHandler undefined sample_net Some [] ?offer PORT_BOOTPC PORT_BOOTPS 300 ?s = Some s1"
      "dhcp_core s1 = (NetOurIP ?s, REQUESTING, BootpID ?s, True)" "packetHandler s1 = Dhcp_handler"
      "length (NetOurHostName s1) = 32" "length (NetOurRootPath s1) = 64" "env_view s1 = env_view ?s"
    using offer_answered [OF sample_quiet d(2) st sample_replies(1), of 300 undefined Some "[]" ?ip 0 "[]"] d(3) by auto
  have r: "dhcp_state s1 = REQUESTING" "BootpID s1 = BootpID ?s" using 1(2) by (simp_all add: core_eq)
  obtain s2 where 2: "DhcpHandler undefined sample_net Some [] ?ack PORT_BOOTPC PORT_BOOTPS 300 s1 = dhcp_autoload undefined sample_net Some s2"
      "dhcp_core s2 = (?ip, BOUND, BootpID s1, board_ready s1)" "env_view s2 = env_view s1"
    using ack_binds [OF r(1) 1(4,5) sample_replies(2,3) disjI1 [OF sample_replies(4)], of 300 undefined sample_net Some "[]" ?ip 0 "[]"] unfolding r(2) by auto
  have "env_view s2 = (boot_env, True, Env_ram, True, \<lambda>_. 0)" using 2(3) 1(6) d(12) dhcp_board_env by simp
  from autoload_cases [OF boot_env_autoload [OF this]]
  have "dhcp_autoload undefined sample_net Some s2 = Some (s2\<lparr>NetState := NETLOOP_SUCCESS\<rparr>)" by (simp add: asc_def)
  note bound = 2(1) [unfolded this]
  let ?evs = "([] @ [Arrive [] ?offer PORT_BOOTPC PORT_BOOTPS 300]) @ [Arrive [] ?ack PORT_BOOTPC PORT_BOOTPS 300]"
  have run: "dhcp_run undefined sample_net Some dhcp_board ?evs (s2\<lparr>NetState := NETLOOP_SUCCESS\<rparr>)"
    by (rule dhcp_run.Receive [OF dhcp_run.Receive [OF dhcp_run.Request d(3) 1(1)] 1(3) bound])
  have ip: "NetOurIP (s2\<lparr>NetState := NETLOOP_SUCCESS\<rparr>) = ?ip" using 2(2) by (simp add: core_eq)
  have "nfs_leaves (Some :: u8 list list bpmach \<Rightarrow> _)" by (simp add: nfs_leaves_def)
  moreover have "silent_halt (sample_net :: u8 list list bpmach net_io) (\<lambda>d. d)" by (simp add: silent_halt_def sample_net_def)
  ultimately have "acked undefined sample_net Some (\<lambda>d. d) dhcp_board ?evs (NetOurIP (s2\<lparr>NetState := NETLOOP_SUCCESS\<rparr>))"
    using ip by (intro address_from_ack [OF sample_quiet _ _ dhcp_board_ready(5,1) run]) simp_all
  with ip
  have "acked undefined sample_net Some (\<lambda>d. d) dhcp_board ?evs ?ip" by simp
  with run ip show ?thesis by blast
qed

end
