(* ===== verification/Spec2Isabelle.thy ===== *)
theory Spec2Isabelle
  imports Prelude Timer Sdc SdCard Sdio MmcFlash MiniBoot FatLoad Crc32 Vsprintf Cstring EnvData Env CmdLine Command Console Flash MmcCmd MemCmd Srec Net Tftp Bootp
begin

text \<open>
  Verification library of the boot software of the EMEV board (directory \<open>src/u-boot\<close>, in the
  configuration \<open>include/configs/emev.h\<close>): the first stage loader that reads U-Boot or a kernel
  from a memory card, and the parts of U-Boot that keep the card, the environment and the command
  line, and that load programs over the serial line and the network.

  How the program works. The ROM starts the mini-boot loader (\<open>board/emxx/emev/mini-boot\<close>), which
  talks to the card through one of two controller drivers, \<open>sdc.c\<close> or \<open>sdio.c\<close>, finds a file in a
  FAT file system and copies its cluster chain to memory. The same drivers and the upper half of
  \<open>mmc.c\<close> are linked into U-Boot, where they protect, erase and write sectors and hold the
  environment. U-Boot initialises the environment (\<open>env_mmc.c\<close>, \<open>env_common.c\<close>), and its main loop
  (\<open>main.c\<close>) reads lines, replaces macros by variables, splits the line into words and calls
  the commands of a table that the linker builds. Six groups of those commands are modelled: the
  environment commands, the memory commands, the commands for the card, the NOR flash commands with the flash layer below them, \<open>loads\<close>, which
  receives S-records over the serial line and stores them in memory or in the flash, and
  \<open>tftpboot\<close>, whose packets pass through the packet layer (\<open>net.c\<close>) to the protocol (\<open>tftp.c\<close>). The
  board gets its address over the same packet layer from a DHCP server (\<open>bootp.c\<close>), and goes on with TFTP.

  Theories and sources.
  \<^item> \<open>Prelude\<close>: machine words, byte memory, the machine \<open>mach\<close> (memory, peripheral, console output),
    \<open>loopM\<close> for C loops, and the lemmas on them. A peripheral register is read and written
    through the argument \<open>D\<close>, whose steps are arbitrary functions on its own state.
  \<^item> \<open>Timer\<close>: \<open>cpu/arm_cortexa9/emxx/timer.c\<close>.
  \<^item> \<open>Sdc\<close>, \<open>Sdio\<close>: the controller drivers; \<open>HwIf\<close>: the table of driver functions they fill in
    (\<open>mmc_hw_if\<close>) with the locale \<open>block_io\<close> of what the callers rely on, interpreted for both
    drivers; \<open>SdCard\<close>: the card behind \<open>sdc.c\<close>.
  \<^item> \<open>MmcFlash\<close>, \<open>MiniBoot\<close>: the two halves of \<open>mmc.c\<close>; \<open>FatLoad\<close>: files as chains of clusters.
  \<^item> \<open>Crc32\<close>, \<open>Vsprintf\<close>, \<open>Cstring\<close>: \<open>lib_generic/crc32.c\<close>, \<open>vsprintf.c\<close>, \<open>ctype.c\<close>, \<open>string.c\<close>.
  \<^item> \<open>EnvData\<close>, \<open>Env\<close>: the environment as an array, and as part of the machine (\<open>emach\<close>).
  \<^item> \<open>CmdLine\<close>, \<open>Command\<close>, \<open>Console\<close>: \<open>common/main.c\<close> and \<open>common/command.c\<close>.
  \<^item> \<open>Flash\<close>: \<open>common/flash.c\<close> and the NOR part of \<open>common/cmd_flash.c\<close>: banks, sectors, protection
    (\<open>flmach\<close>); the chip driver is an argument. \<open>MmcCmd\<close>: the commands of the same file for the card.
  \<^item> \<open>MemCmd\<close>: \<open>common/cmd_mem.c\<close> (\<open>mmach\<close>) and \<open>print_buffer\<close> of \<open>lib_generic/display_options.c\<close>.
  \<^item> \<open>Srec\<close>: \<open>common/s_record.c\<close> and \<open>load_serial\<close> of \<open>common/cmd_load.c\<close>.
  \<^item> \<open>Net\<close>: \<open>net/net.c\<close>: headers, checksums, ARP, fragments, the receive path, text forms of addresses.
  \<^item> \<open>Tftp\<close>: \<open>net/tftp.c\<close> and \<open>print_size\<close> of \<open>lib_generic/display_options.c\<close>; at its end the relation
    \<open>step\<close> of a session with a server over a network that loses, repeats and delays packets.
  \<^item> \<open>Bootp\<close>: \<open>net/bootp.c\<close>, the DHCP client (\<open>bpmach\<close>); the relation \<open>dhcp_run\<close> of its runs on the packets and
    timer ends that may reach it, kept as the list of those events. \<open>NfsStart\<close> is an argument.

  Conventions. Machine integers are words of their width, so that overflow wraps as on the
  machine. A function that may not return, read outside an object or use an undefined value has
  the result type \<open>option\<close> and gives \<open>None\<close> there; the error codes of the program are values.
  Loops are \<open>loopM\<close> or partial functions where they wait for hardware or input, and structural
  or measured recursions elsewhere; no fuel is used. Console output is kept as the list
  \<open>outp\<close> of the calls of \<open>printf\<close>. Calls into code outside the model (console and serial drivers, the
  allocator, the commands of other files) are arguments of the definitions.

  What the lemmas show. For the timer: a delay lasts, on the clock of the hardware, as long as the
  rounding of the code asks. Per driver: transfers deliver exactly the addressed blocks, and errors
  leave memory alone. For the flash layer: the geometry invariant, that protected sectors are
  never written or erased, and that erases cover exactly the request. For the loader: the whole
  file arrives, inside its window, and the copy ends on every card whose clusters have a size (with a size
  of 0, which is not checked, it need not). For the environment: as long as entries fit it
  refines a list of entries, it survives a save and a restart, and stays inside its array. For the
  command line: macros, words, commands and sequences as their grammars say, inside their
  buffers, for the lines of less than 384 bytes that \<open>run_command\<close> accepts (a longer name of a
  variable would overflow the array \<open>envname\<close>, which is part of the model). For the card commands: a protect
  command guards its sectors against erase and write commands, and those ask the driver for exactly
  the blocks they name. For the memory commands: a copy makes the
  target what the source was, compare finds the first difference, and the memory test ends, passes on
  memory that works and spares what is outside its region. For the flash: a range of sectors is addressed only along sector boundaries and inside
  its bank, and a protected sector is never programmed. For S-records: an image that was written
  out as records is stored as it was, in memory and in the flash, damaged records are refused, and a
  record the flash refuses ends the load. For the network: a
  datagram that was sent is received with its payload, an address survives printing and parsing, an
  ARP reply releases exactly the packet that waited. For TFTP: whatever the network does, a
  session that says it is complete has the file in memory, and from every reachable state of a live session
  the transfer can still be completed, for files of fewer than 65536 blocks and when no copy of the
  option acknowledgement is late (what happens otherwise is shown by \<open>wrap_counted_twice\<close> and \<open>late_options\<close>). For DHCP: a list of options is read as its last entries say, the
  exchange with a server binds the address that was acknowledged, a client never has an address that was
  not acknowledged to the number of its last request, and without answers it sends five requests. Checksums, number formatting and string functions equal their reference definitions.

  Not modelled: code that is not in the build of this board (other boards, processors, drivers
  and file systems), the Linux and Android parts of the repository, vendored libraries, and, of the
  code in the build, start-up assembler, console, serial and Ethernet drivers, the allocator, the
  other network protocols (BOOTP without DHCP, NFS, RARP, DNS, SNTP), the Kermit and Y-modem loaders, the
  booting of images, and the commands other than those named above.
\<close>

end
